(* ===== verification/CPrelude.thy ===== *)
theory CPrelude
  imports Complex_Main "HOL-Library.Word" "HOL-Library.Char_ord" "HOL-Library.Sublist"
begin

text \<open>
  Shared vocabulary of the development: how C values are read in HOL, the pieces of the
  C standard library the agent uses, and the lemma collections its proofs share.

  A C string is the list of its characters before the terminating NUL, a byte buffer is a
  list of bytes, \<open>size_t\<close> values that only count bytes in memory are natural numbers,
  a C \<open>int\<close> is an integer with its conversions written out, and a pointer that may be
  NULL is an option.  A pointer into a string (the result of \<open>strchr\<close>, \<open>strstr\<close>,
  \<open>strtol\<close>) is the suffix it points to.
\<close>

unbundle bit_operations_syntax

type_synonym byte = "8 word"
type_synonym u32 = "32 word"
type_synonym u64 = "64 word"

named_theorems cstr "facts about the C string operations"
named_theorems bounds "length bounds of the buffers the code writes"
named_theorems frame_simps "fields an operation leaves alone"

section \<open>Integers of the C language\<close>

text \<open>Limits of \<open>int\<close> and of a 64-bit \<open>long\<close>.\<close>

definition c_int_max :: int where "c_int_max = 2147483647"
definition c_int_min :: int where "c_int_min = - 2147483648"
definition c_long_max :: int where "c_long_max = 9223372036854775807"
definition c_long_min :: int where "c_long_min = - 9223372036854775808"

lemmas c_limits = c_int_max_def c_int_min_def c_long_max_def c_long_min_def

text \<open>The conversion \<open>(int)v\<close> of a wider integer keeps the low 32 bits.\<close>

definition c_int_of_long :: "int \<Rightarrow> int" where
  "c_int_of_long v = (v + 2147483648) mod 4294967296 - 2147483648"

lemma c_int_of_long_id [simp]:
  "c_int_min \<le> v \<Longrightarrow> v \<le> c_int_max \<Longrightarrow> c_int_of_long v = v"
  by (simp add: c_int_of_long_def c_limits)

lemma c_int_of_long_range: "c_int_min \<le> c_int_of_long v \<and> c_int_of_long v \<le> c_int_max"
proof -
  have "0 \<le> (v + 2147483648) mod 4294967296" "(v + 2147483648) mod 4294967296 < 4294967296"
    by simp_all
  then show ?thesis by (simp add: c_int_of_long_def c_limits)
qed

text \<open>Truncation of a rational (the value of a finite double) towards zero.\<close>

definition trunc_rat :: "rat \<Rightarrow> int" where
  "trunc_rat x = (if x < 0 then - \<lfloor>- x\<rfloor> else \<lfloor>x\<rfloor>)"

lemma trunc_rat_of_int [simp]: "trunc_rat (of_int n) = n"
  by (simp add: trunc_rat_def flip: of_int_minus)

lemma trunc_rat_numeral [simp]: "trunc_rat (numeral n) = numeral n"
  by (simp add: trunc_rat_def)

section \<open>Characters\<close>

abbreviation char_code :: "char \<Rightarrow> nat" where
  "char_code c \<equiv> of_char c"

definition byte_of_char :: "char \<Rightarrow> byte" where
  "byte_of_char c = of_nat (char_code c)"

definition char_of_byte :: "byte \<Rightarrow> char" where
  "char_of_byte b = char_of (unat b)"

definition nul :: char where "nul = CHR 0x00"
definition cr :: char where "cr = CHR 0x0D"
definition lf :: char where "lf = CHR 0x0A"
definition tab :: char where "tab = CHR 0x09"

lemma unat_byte_of_char [simp]: "unat (byte_of_char c) = char_code c"
  by (simp add: byte_of_char_def unat_of_nat)

lemma char_of_byte_of_char [simp]: "char_of_byte (byte_of_char c) = c"
  by (simp add: char_of_byte_def)

lemma byte_of_char_of_byte [simp]: "byte_of_char (char_of_byte b) = b"
proof -
  have "unat b < 2 ^ LENGTH(8)" by (rule unsigned_less)
  then have "unat b mod 256 = unat b" by simp
  then show ?thesis by (simp add: byte_of_char_def char_of_byte_def)
qed

lemma byte_of_char_inj [simp]: "byte_of_char c = byte_of_char d \<longleftrightarrow> c = d"
  by (metis char_of_byte_of_char)

section \<open>Character classes of the C locale\<close>

definition c_isspace :: "char \<Rightarrow> bool" where
  "c_isspace c \<longleftrightarrow> char_code c \<in> {9, 10, 11, 12, 13, 32}"

definition c_isdigit :: "char \<Rightarrow> bool" where
  "c_isdigit c \<longleftrightarrow> 48 \<le> char_code c \<and> char_code c \<le> 57"

definition c_isxdigit :: "char \<Rightarrow> bool" where
  "c_isxdigit c \<longleftrightarrow> c_isdigit c \<or> (65 \<le> char_code c \<and> char_code c \<le> 70)
     \<or> (97 \<le> char_code c \<and> char_code c \<le> 102)"

definition c_isalnum :: "char \<Rightarrow> bool" where
  "c_isalnum c \<longleftrightarrow> c_isdigit c \<or> (65 \<le> char_code c \<and> char_code c \<le> 90)
     \<or> (97 \<le> char_code c \<and> char_code c \<le> 122)"

definition c_tolower :: "char \<Rightarrow> char" where
  "c_tolower c = (if 65 \<le> char_code c \<and> char_code c \<le> 90 then char_of (char_code c + 32) else c)"

definition strcaseeq :: "string \<Rightarrow> string \<Rightarrow> bool" where
  "strcaseeq s t \<longleftrightarrow> map c_tolower s = map c_tolower t"

definition digit_val :: "char \<Rightarrow> nat" where
  "digit_val c = char_code c - 48"

definition digit_char :: "nat \<Rightarrow> char" where
  "digit_char d = char_of (d + 48)"

lemma char_code_digit_char: "d < 10 \<Longrightarrow> char_code (digit_char d) = d + 48"
  by (simp add: digit_char_def)

lemma c_isdigit_digit_char [cstr]: "d < 10 \<Longrightarrow> c_isdigit (digit_char d)"
  by (simp add: c_isdigit_def char_code_digit_char)

lemma digit_val_digit_char [cstr]: "d < 10 \<Longrightarrow> digit_val (digit_char d) = d"
  by (simp add: digit_val_def char_code_digit_char)

lemma c_isspace_digit_char: "d < 10 \<Longrightarrow> \<not> c_isspace (digit_char d)"
  by (simp add: c_isspace_def char_code_digit_char)

lemma digit_not_space: "c_isdigit c \<Longrightarrow> \<not> c_isspace c"
  by (auto simp: c_isdigit_def c_isspace_def)

section \<open>String searches\<close>

text \<open>\<open>strncmp(s, p, strlen(p)) == 0\<close> for a NUL-free \<open>p\<close>.\<close>

definition starts_with :: "string \<Rightarrow> string \<Rightarrow> bool" where
  "starts_with p s \<longleftrightarrow> take (length p) s = p"

lemma starts_with_append [cstr]: "starts_with p (p @ s)"
  by (simp add: starts_with_def)

lemma starts_with_prefix: "starts_with p s \<longleftrightarrow> (\<exists>t. s = p @ t)"
  by (metis append_eq_conv_conj append_take_drop_id starts_with_def)

text \<open>\<open>strchr\<close>, \<open>strrchr\<close> and \<open>strstr\<close> return the suffix at the match.\<close>

fun strchr :: "char \<Rightarrow> string \<Rightarrow> string option" where
  "strchr c [] = None"
| "strchr c (x # xs) = (if x = c then Some (x # xs) else strchr c xs)"

fun strrchr :: "char \<Rightarrow> string \<Rightarrow> string option" where
  "strrchr c [] = None"
| "strrchr c (x # xs) =
     (case strrchr c xs of Some t \<Rightarrow> Some t | None \<Rightarrow> if x = c then Some (x # xs) else None)"

fun strstr :: "string \<Rightarrow> string \<Rightarrow> string option" where
  "strstr p [] = (if p = [] then Some [] else None)"
| "strstr p (x # xs) = (if starts_with p (x # xs) then Some (x # xs) else strstr p xs)"

text \<open>The part of the string before the pointer a search returned.\<close>

definition upto_ptr :: "string \<Rightarrow> string \<Rightarrow> string" where
  "upto_ptr s t = take (length s - length t) s"

lemma upto_ptr_append [cstr]: "upto_ptr (a @ t) t = a"
  by (simp add: upto_ptr_def)

lemma strchr_append [cstr]: "c \<notin> set a \<Longrightarrow> strchr c (a @ c # t) = Some (c # t)"
  by (induction a) auto

lemma strchr_None [cstr]: "strchr c s = None \<longleftrightarrow> c \<notin> set s"
  by (induction s) auto

lemma strchr_Some: "strchr c s = Some t \<Longrightarrow> \<exists>a u. s = a @ t \<and> t = c # u \<and> c \<notin> set a"
proof (induction s)
  case (Cons x xs)
  show ?case
  proof (cases "x = c")
    case True
    with Cons.prems show ?thesis by (intro exI [of _ "[]"] exI [of _ xs]) auto
  next
    case False
    with Cons obtain a u where "xs = a @ t" "t = c # u" "c \<notin> set a" by auto
    with False show ?thesis by (intro exI [of _ "x # a"] exI [of _ u]) auto
  qed
qed simp

lemma strrchr_append [cstr]: "c \<notin> set t \<Longrightarrow> strrchr c (a @ c # t) = Some (c # t)"
proof (induction a)
  case Nil
  have "strrchr c t = None" using Nil by (induction t) auto
  then show ?case by simp
qed simp

lemma strrchr_Some: "strrchr c s = Some t \<Longrightarrow> \<exists>a u. s = a @ t \<and> t = c # u \<and> c \<notin> set u"
proof (induction s)
  case (Cons x xs)
  show ?case
  proof (cases "strrchr c xs")
    case None
    moreover have "c \<notin> set xs" using None by (induction xs) (auto split: option.splits if_splits)
    ultimately show ?thesis using Cons.prems by (auto split: if_splits)
  next
    case (Some t')
    with Cons show ?thesis by (auto intro: exI [of _ "x # _"])
  qed
qed simp

lemma strrchr_None [cstr]: "strrchr c s = None \<longleftrightarrow> c \<notin> set s"
  by (induction s) (auto split: option.splits)

lemma strstr_Some: "strstr p s = Some t \<Longrightarrow> \<exists>a. s = a @ t \<and> starts_with p t"
proof (induction s)
  case Nil
  then show ?case by (auto simp: starts_with_def split: if_splits)
next
  case (Cons x xs)
  show ?case
  proof (cases "starts_with p (x # xs)")
    case True
    with Cons.prems show ?thesis by (intro exI [of _ "[]"]) auto
  next
    case False
    with Cons obtain a where "xs = a @ t" "starts_with p t" by auto
    then show ?thesis by (intro exI [of _ "x # a"]) auto
  qed
qed

lemma strstr_hit [cstr]: "strstr p (p @ s) = Some (p @ s)"
proof (cases "p @ s")
  case (Cons x xs)
  have "starts_with p (x # xs)" by (simp add: Cons [symmetric] cstr)
  with Cons show ?thesis by simp
qed simp

lemma strstr_skip [cstr]:
  "\<not> starts_with p (x # xs) \<Longrightarrow> strstr p (x # xs) = strstr p xs"
  by simp

lemma strstr_sublist: "strstr p s \<noteq> None \<longleftrightarrow> sublist p s"
proof (induction s)
  case (Cons x xs)
  have "starts_with p (x # xs) \<longleftrightarrow> prefix p (x # xs)"
    by (simp add: starts_with_prefix prefix_def)
  with Cons show ?case by (simp add: sublist_Cons_right)
qed (simp add: sublist_Nil_right)

text \<open>The C string stored in a byte buffer: everything before the first NUL byte.\<close>

definition c_str :: "byte list \<Rightarrow> string" where
  "c_str bs = map char_of_byte (takeWhile (\<lambda>b. b \<noteq> 0) bs)"

definition bytes_of_string :: "string \<Rightarrow> byte list" where
  "bytes_of_string s = map byte_of_char s"

lemma length_bytes_of_string [simp]: "length (bytes_of_string s) = length s"
  by (simp add: bytes_of_string_def)

section \<open>Bounded copies into fixed arrays\<close>

text \<open>
  \<open>strncpy(dst, src, n - 1); dst[n - 1] = 0\<close> and \<open>snprintf(dst, n, "%s", src)\<close> leave the
  first \<open>n - 1\<close> characters; the checked form of \<open>snprintf\<close> fails when the result does not
  fit.
\<close>

definition strncpy_term :: "nat \<Rightarrow> string \<Rightarrow> string" where
  "strncpy_term n s = take (n - 1) s"

definition snprintf_chk :: "nat \<Rightarrow> string \<Rightarrow> string option" where
  "snprintf_chk n s = (if length s < n then Some s else None)"

lemma snprintf_chk_Some [cstr]: "snprintf_chk n s = Some t \<longleftrightarrow> length s < n \<and> t = s"
  by (auto simp: snprintf_chk_def)

lemma snprintf_chk_None [cstr]: "snprintf_chk n s = None \<longleftrightarrow> n \<le> length s"
  by (auto simp: snprintf_chk_def)

lemma length_strncpy_term [bounds]: "0 < n \<Longrightarrow> length (strncpy_term n s) < n"
  by (simp add: strncpy_term_def)

lemma strncpy_term_id [cstr]: "length s < n \<Longrightarrow> strncpy_term n s = s"
  by (simp add: strncpy_term_def)

section \<open>Decimal numbers\<close>

text \<open>The value of a digit string, and \<open>strtol(s, &endp, 10)\<close>: leading white space, an
  optional sign, the longest digit string, with saturation at the limits of \<open>long\<close>.  The
  result is the value, the suffix \<open>endp\<close> points to, and whether any digit was read
  (\<open>endp != s\<close>); with no digits \<open>endp\<close> is the start of the string.\<close>

definition digits_val :: "string \<Rightarrow> nat" where
  "digits_val s = foldl (\<lambda>n c. 10 * n + digit_val c) 0 s"

definition clamp_long :: "int \<Rightarrow> int" where
  "clamp_long v = (if v > c_long_max then c_long_max else if v < c_long_min then c_long_min else v)"

definition strtol10 :: "string \<Rightarrow> int \<times> string \<times> bool" where
  "strtol10 s =
     (let t = dropWhile c_isspace s;
          neg = (case t of c # _ \<Rightarrow> c = CHR ''-'' | [] \<Rightarrow> False);
          u = (case t of c # r \<Rightarrow> if c = CHR ''-'' \<or> c = CHR ''+'' then r else t | [] \<Rightarrow> t);
          ds = takeWhile c_isdigit u
      in if ds = [] then (0, s, False)
         else (clamp_long (if neg then - int (digits_val ds) else int (digits_val ds)),
               dropWhile c_isdigit u, True))"

definition strtol_val :: "string \<Rightarrow> int" where
  "strtol_val s = fst (strtol10 s)"

definition atoi :: "string \<Rightarrow> int" where
  "atoi s = c_int_of_long (strtol_val s)"

text \<open>The decimal rendering of \<open>%d\<close>, \<open>%ld\<close> and \<open>%u\<close>.\<close>

fun show_nat :: "nat \<Rightarrow> string" where
  "show_nat n = (if n < 10 then [digit_char n] else show_nat (n div 10) @ [digit_char (n mod 10)])"

declare show_nat.simps [simp del]

definition show_int :: "int \<Rightarrow> string" where
  "show_int i = (if i < 0 then CHR ''-'' # show_nat (nat (- i)) else show_nat (nat i))"

lemma show_nat_not_Nil [simp]: "show_nat n \<noteq> []"
  by (subst show_nat.simps) simp

lemma show_nat_digits: "\<forall>c \<in> set (show_nat n). c_isdigit c"
proof (induction n rule: show_nat.induct)
  case (1 n)
  then show ?case
    by (cases "n < 10") (auto simp: show_nat.simps [of n] c_isdigit_digit_char)
qed

lemma digits_val_snoc: "digits_val (s @ [c]) = 10 * digits_val s + digit_val c"
  by (simp add: digits_val_def)

lemma digits_val_show_nat [simp]: "digits_val (show_nat n) = n"
proof (induction n rule: show_nat.induct)
  case (1 n)
  then show ?case
    by (cases "n < 10")
      (auto simp: show_nat.simps [of n] digits_val_snoc digit_val_digit_char, 
       simp add: digits_val_def digit_val_digit_char)
qed

lemma show_nat_inj: "show_nat m = show_nat n \<longleftrightarrow> m = n"
  by (metis digits_val_show_nat)

lemma show_nat_lengthI: "n < 10 ^ k \<Longrightarrow> 0 < k \<Longrightarrow> length (show_nat n) \<le> k"
proof (induction n arbitrary: k rule: show_nat.induct)
  case (1 n)
  show ?case
  proof (cases "n < 10")
    case True
    with "1.prems" show ?thesis by (simp add: show_nat.simps [of n])
  next
    case False
    with "1.prems" obtain j where k: "k = Suc j" "0 < j"
      by (cases k; cases "k - 1") auto
    with "1.prems" have "n div 10 < 10 ^ j" by (simp add: less_mult_imp_div_less mult.commute)
    with "1.IH" False k have "length (show_nat (n div 10)) \<le> j" by blast
    with False k show ?thesis by (simp add: show_nat.simps [of n])
  qed
qed

lemma show_nat_head:
  obtains c r where "show_nat n = c # r" "c_isdigit c" "\<not> c_isspace c" "c \<noteq> CHR ''-''" "c \<noteq> CHR ''+''"
proof -
  obtain c r where *: "show_nat n = c # r" by (cases "show_nat n") auto
  with show_nat_digits [of n] have d: "c_isdigit c" by simp
  then have "c \<noteq> CHR ''-''" "c \<noteq> CHR ''+''" by (auto simp: c_isdigit_def)
  with * d digit_not_space that show ?thesis by blast
qed

lemma takeWhile_show_nat:
  "(t = [] \<or> \<not> c_isdigit (hd t)) \<Longrightarrow> takeWhile c_isdigit (show_nat n @ t) = show_nat n"
  using show_nat_digits [of n] by (cases t) (auto simp: takeWhile_append2 takeWhile_append)

lemma dropWhile_show_nat:
  "(t = [] \<or> \<not> c_isdigit (hd t)) \<Longrightarrow> dropWhile c_isdigit (show_nat n @ t) = t"
  using show_nat_digits [of n] by (cases t) (auto simp: dropWhile_append)

text \<open>Reading back a rendered number that is followed by a non-digit.\<close>

lemma strtol10_show_nat [cstr]:
  assumes t: "t = [] \<or> \<not> c_isdigit (hd t)" and n: "int n \<le> c_long_max"
  shows "strtol10 (show_nat n @ t) = (int n, t, True)"
proof -
  obtain c r where h: "show_nat n = c # r" "\<not> c_isspace c" "c \<noteq> CHR ''-''" "c \<noteq> CHR ''+''"
    by (rule show_nat_head)
  have "dropWhile c_isspace (show_nat n @ t) = show_nat n @ t" by (simp add: h)
  moreover have "clamp_long (int n) = int n" using n by (simp add: clamp_long_def c_limits)
  ultimately show ?thesis
    using takeWhile_show_nat [OF t, of n] dropWhile_show_nat [OF t, of n] h
    by (simp add: strtol10_def Let_def) (metis digits_val_show_nat)
qed

lemma strtol10_range: "c_long_min \<le> fst (strtol10 s) \<and> fst (strtol10 s) \<le> c_long_max"
  by (simp add: strtol10_def Let_def clamp_long_def c_limits)

section \<open>Bounded first-in first-out windows\<close>

text \<open>The last \<open>n\<close> elements of a list: what a bounded queue that evicts its oldest element
  keeps of everything pushed.\<close>

definition last_n :: "nat \<Rightarrow> 'a list \<Rightarrow> 'a list" where
  "last_n n xs = drop (length xs - n) xs"

lemma length_last_n [simp]: "length (last_n n xs) = min n (length xs)"
  by (auto simp: last_n_def)

lemma last_n_short [simp]: "length xs \<le> n \<Longrightarrow> last_n n xs = xs"
  by (simp add: last_n_def)

lemma last_n_push: "last_n n (last_n n xs @ [x]) = last_n n (xs @ [x])"
  by (cases "length xs \<le> n") (auto simp: last_n_def Suc_diff_le)

lemma last_n_snoc_full: "length xs = n \<Longrightarrow> 0 < n \<Longrightarrow> last_n n (xs @ [x]) = tl xs @ [x]"
  by (cases xs) (auto simp: last_n_def)

text \<open>
  The contract of a bounded window: \<open>add\<close> appends a new element and drops the oldest one
  when the window is full.  One extension skips elements that are already there, the other
  records everything.
\<close>

locale fifo_window =
  fixes add :: "'s \<Rightarrow> 'e \<Rightarrow> 's" and contents :: "'s \<Rightarrow> 'e list"
    and inv :: "'s \<Rightarrow> bool" and cap :: nat
  assumes cap_pos: "0 < cap"
    and inv_add: "inv s \<Longrightarrow> inv (add s x)"
    and contents_bound: "inv s \<Longrightarrow> length (contents s) \<le> cap"
    and add_new: "inv s \<Longrightarrow> x \<notin> set (contents s) \<Longrightarrow> contents (add s x) = last_n cap (contents s @ [x])"
begin

lemma inv_foldl: "inv s \<Longrightarrow> inv (foldl add s xs)"
  by (induction xs arbitrary: s) (auto simp: inv_add)

end

locale dedup_window = fifo_window +
  assumes add_old: "inv s \<Longrightarrow> x \<in> set (contents s) \<Longrightarrow> contents (add s x) = contents s"
begin

lemma survives_one:
  assumes "inv s" "contents s = pre @ e # post" "length post < cap - 1"
  obtains pre' post' where "contents (add s x) = pre' @ e # post'" "length post' \<le> Suc (length post)"
proof (cases "x \<in> set (contents s)")
  case True
  with assms that show ?thesis by (simp add: add_old)
next
  case False
  let ?d = "length (contents s @ [x]) - cap"
  have "?d \<le> length pre" using assms(2,3) by simp
  then have "contents (add s x) = drop ?d pre @ e # (post @ [x])"
    using assms(1) False by (simp add: add_new last_n_def assms(2))
  then show ?thesis by (rule that) simp
qed

lemma survives:
  "inv s \<Longrightarrow> contents s = pre @ e # post \<Longrightarrow> length post + length xs < cap
     \<Longrightarrow> e \<in> set (contents (foldl add s xs))"
proof (induction xs arbitrary: s pre post)
  case (Cons x xs)
  then have "length post < cap - 1" by simp
  with Cons.prems obtain pre' post' where
    *: "contents (add s x) = pre' @ e # post'" "length post' \<le> Suc (length post)"
    by (blast elim: survives_one)
  have "length post' + length xs < cap" using * Cons.prems by simp
  with Cons.IH [OF inv_add *(1)] Cons.prems show ?case by simp
qed simp

text \<open>An element is still recognised after fewer than \<open>cap\<close> further additions.\<close>

lemma recent_is_known:
  assumes "inv s" "x \<notin> set (contents s)" "length xs < cap"
  shows "x \<in> set (contents (foldl add (add s x) xs))"
proof -
  have "contents (add s x) = drop (Suc (length (contents s)) - cap) (contents s) @ x # []"
    using assms contents_bound [of s] cap_pos by (simp add: add_new last_n_def)
  then show ?thesis using survives [of "add s x" _ x "[]" xs] assms inv_add by simp
qed

end

locale log_window = fifo_window +
  assumes add_any: "inv s \<Longrightarrow> contents (add s x) = last_n cap (contents s @ [x])"
begin

lemma contents_foldl: "inv s \<Longrightarrow> contents (foldl add s xs) = last_n cap (contents s @ xs)"
proof (induction xs rule: rev_induct)
  case Nil
  then show ?case by (simp add: contents_bound)
next
  case (snoc x xs)
  then show ?case
    using add_any [OF inv_foldl [OF snoc.prems], of xs x] last_n_push [of cap "contents s @ xs" x]
    by simp
qed

end

section \<open>Encoders with a decoder\<close>

text \<open>The contract of an encoder: on the values it accepts, a decoder recovers the input.  An
  extension adds that the encoding only uses a given alphabet.\<close>

locale codec =
  fixes enc :: "'a \<Rightarrow> 'b" and dec :: "'b \<Rightarrow> 'a option" and ok :: "'a \<Rightarrow> bool"
  assumes dec_enc: "ok x \<Longrightarrow> dec (enc x) = Some x"
begin

lemma enc_inj: "ok x \<Longrightarrow> ok y \<Longrightarrow> enc x = enc y \<longleftrightarrow> x = y"
  by (metis dec_enc option.inject)

end

locale text_codec = codec enc dec ok
  for enc :: "'a \<Rightarrow> string" and dec :: "string \<Rightarrow> 'a option" and ok :: "'a \<Rightarrow> bool" +
  fixes alphabet :: "char \<Rightarrow> bool"
  assumes enc_alphabet: "c \<in> set (enc x) \<Longrightarrow> alphabet c"
begin

lemma enc_avoids: "\<not> alphabet c \<Longrightarrow> c \<notin> set (enc x)"
  using enc_alphabet by blast

lemma strchr_enc: "\<not> alphabet c \<Longrightarrow> strchr c (enc x @ c # t) = Some (c # t)"
  by (simp add: enc_avoids cstr)

end

end
