(* ===== verification/WsSock.thy ===== *)
theory WsSock
  imports CPrelude
begin

text \<open>
  The transport under the WebSocket client: \<open>recv\<close>/\<open>SSL_read\<close> and \<open>send\<close>/\<open>SSL_write\<close>
  as scripts of outcomes, and the two loops of \<open>src/network/websocket.c\<close> over them,
  \<open>read_full\<close> and \<open>send_full\<close>.  The plain and the TLS branch of the code make the same
  decisions on the return value and \<open>errno\<close>, so one script stands for either.  An exhausted
  script is the timeout the code sets on the socket (\<open>SO_RCVTIMEO\<close>, \<open>SO_SNDTIMEO\<close>).
\<close>

section \<open>Receiving\<close>

text \<open>What the peer and the kernel deliver: some bytes, an interrupted call, an error.  Empty
  data is an orderly shutdown, which every further call sees again.\<close>

datatype rx = RxData "byte list" | RxEintr | RxErr

datatype io_result = IoBytes "byte list" | IoEintr | IoFail

fun recv_some :: "nat \<Rightarrow> rx list \<Rightarrow> io_result \<times> rx list" where
  "recv_some n [] = (IoFail, [])"
| "recv_some n (RxData bs # r) =
     (if bs = [] \<or> n = 0 then (IoFail, RxData bs # r)
      else if length bs \<le> n then (IoBytes bs, r)
      else (IoBytes (take n bs), RxData (drop n bs) # r))"
| "recv_some n (RxEintr # r) = (IoEintr, r)"
| "recv_some n (RxErr # r) = (IoFail, r)"

text \<open>The receiving side of the client: the script, and the bytes \<open>ws_handshake\<close> saved past the
  response headers (\<open>pending_buf\<close> up to \<open>pending_len\<close>, consumed up to \<open>pending_off\<close>).\<close>

record rx_state =
  rx_script :: "rx list"
  pending_buf :: "byte list"
  pending_off :: nat

fun rx_size :: "rx list \<Rightarrow> nat" where
  "rx_size [] = 0"
| "rx_size (RxData bs # r) = Suc (length bs) + rx_size r"
| "rx_size (_ # r) = Suc (rx_size r)"

lemma recv_some_smaller:
  "recv_some n r = (IoBytes bs, r') \<Longrightarrow> rx_size r' < rx_size r \<and> bs \<noteq> [] \<and> length bs \<le> n"
  "recv_some n r = (IoEintr, r') \<Longrightarrow> rx_size r' < rx_size r"
  by (cases "(n, r)" rule: recv_some.cases; auto split: if_splits)+

text \<open>The second loop of \<open>read_full\<close>: \<open>need\<close> bytes are still missing.\<close>

function recv_loop :: "nat \<Rightarrow> rx list \<Rightarrow> byte list \<Rightarrow> byte list option \<times> rx list" where
  "recv_loop need r got =
     (if need = 0 then (Some got, r)
      else case recv_some need r of
             (IoBytes bs, r') \<Rightarrow> recv_loop (need - length bs) r' (got @ bs)
           | (IoEintr, r') \<Rightarrow> recv_loop need r' got
           | (IoFail, r') \<Rightarrow> (None, r'))"
  by pat_completeness auto
termination
  by (relation "measure (\<lambda>(need, r, got). rx_size r)")
     (auto dest: recv_some_smaller recv_some_smaller [OF sym])

declare recv_loop.simps [simp del]

definition read_full :: "nat \<Rightarrow> rx_state \<Rightarrow> byte list option \<times> rx_state" where
  "read_full len st =
     (let avail = drop (pending_off st) (pending_buf st);
          k = min len (length avail);
          st1 = st\<lparr>pending_off := pending_off st + k\<rparr>
      in case recv_loop (len - k) (rx_script st1) (take k avail) of
           (res, r') \<Rightarrow> (res, st1\<lparr>rx_script := r'\<rparr>))"

text \<open>The byte stream the client has still to see, up to the point where the connection ends.\<close>

fun rx_stream :: "rx list \<Rightarrow> byte list" where
  "rx_stream [] = []"
| "rx_stream (RxData bs # r) = (if bs = [] then [] else bs @ rx_stream r)"
| "rx_stream (RxEintr # r) = rx_stream r"
| "rx_stream (RxErr # r) = []"

definition in_stream :: "rx_state \<Rightarrow> byte list" where
  "in_stream st = drop (pending_off st) (pending_buf st) @ rx_stream (rx_script st)"

definition rx_measure :: "rx_state \<Rightarrow> nat" where
  "rx_measure st = length (drop (pending_off st) (pending_buf st)) + rx_size (rx_script st)"

text \<open>The loop, one outcome at a time.\<close>

lemma recv_loop_steps [simp]:
  "recv_loop 0 r got = (Some got, r)"
  "0 < need \<Longrightarrow> recv_loop need [] got = (None, [])"
  "0 < need \<Longrightarrow> recv_loop need (RxData [] # r) got = (None, RxData [] # r)"
  "0 < need \<Longrightarrow> bs \<noteq> [] \<Longrightarrow> length bs \<le> need \<Longrightarrow>
     recv_loop need (RxData bs # r) got = recv_loop (need - length bs) r (got @ bs)"
  "0 < need \<Longrightarrow> need < length bs \<Longrightarrow>
     recv_loop need (RxData bs # r) got = (Some (got @ take need bs), RxData (drop need bs) # r)"
  "0 < need \<Longrightarrow> recv_loop need (RxEintr # r) got = recv_loop need r got"
  "0 < need \<Longrightarrow> recv_loop need (RxErr # r) got = (None, r)"
  by (auto simp: recv_loop.simps [of 0] recv_loop.simps [of need "[]"]
      recv_loop.simps [of need "RxData bs # r" for bs] recv_loop.simps [of need "RxEintr # r"]
      recv_loop.simps [of need "RxErr # r"])

lemma recv_loop_enough:
  "need \<le> length (rx_stream r) \<Longrightarrow>
     \<exists>r'. recv_loop need r got = (Some (got @ take need (rx_stream r)), r')
        \<and> rx_stream r' = drop need (rx_stream r)"
proof (induction r arbitrary: need got)
  case (Cons x r)
  show ?case
  proof (cases "need = 0")
    case False
    show ?thesis
    proof (cases x)
      case (RxData bs)
      consider "bs = []" | "bs \<noteq> []" "length bs \<le> need" | "bs \<noteq> []" "need < length bs" by linarith
      then show ?thesis
        using Cons.prems Cons.IH [of "need - length bs" "got @ bs"] False RxData by cases auto
    qed (use Cons False in auto)
  qed simp
qed simp

lemma recv_loop_short: "length (rx_stream r) < need \<Longrightarrow> fst (recv_loop need r got) = None"
proof (induction r arbitrary: need got)
  case (Cons x r)
  then have pos: "0 < need" by linarith
  show ?case
  proof (cases x)
    case (RxData bs)
    show ?thesis
    proof (cases "bs = []")
      case True
      with pos RxData show ?thesis by simp
    next
      case False
      with Cons.prems RxData have "length bs \<le> need" "length (rx_stream r) < need - length bs" by auto
      with Cons.IH [of "need - length bs" "got @ bs"] False RxData show ?thesis by simp
    qed
  qed (use Cons pos in auto)
qed simp

lemma recv_loop_size:
  "fst (recv_loop need r got) = Some bs \<Longrightarrow> 0 < need \<Longrightarrow> rx_size (snd (recv_loop need r got)) < rx_size r"
proof (induction need r got rule: recv_loop.induct)
  case (1 need r got)
  note unfold = recv_loop.simps [of need r got]
  obtain res r' where rs: "recv_some need r = (res, r')" by (metis prod.exhaust)
  show ?case
  proof (cases res)
    case (IoBytes b)
    have less: "rx_size r' < rx_size r" using recv_some_smaller(1) rs IoBytes by blast
    have eq: "recv_loop need r got = recv_loop (need - length b) r' (got @ b)"
      using "1.prems"(2) rs IoBytes by (simp add: unfold)
    show ?thesis
    proof (cases "need - length b = 0")
      case True
      with eq less show ?thesis by simp
    next
      case False
      with "1.IH"(1) [OF _ rs [symmetric] IoBytes] "1.prems" eq less
      show ?thesis by simp
    qed
  next
    case IoEintr
    have less: "rx_size r' < rx_size r" using recv_some_smaller(2) rs IoEintr by blast
    have eq: "recv_loop need r got = recv_loop need r' got"
      using "1.prems"(2) rs IoEintr by (simp add: unfold)
    with "1.IH"(2) [OF _ rs [symmetric] IoEintr] "1.prems" less show ?thesis by simp
  next
    case IoFail
    with "1.prems" rs show ?thesis by (simp add: unfold)
  qed
qed

text \<open>
  The contract of a byte source: reading \<open>n\<close> bytes delivers the next \<open>n\<close> bytes of the
  stream, however the transport cuts it into pieces, and fails if fewer are left.
\<close>

locale byte_source =
  fixes rd :: "nat \<Rightarrow> 's \<Rightarrow> byte list option \<times> 's" and strm :: "'s \<Rightarrow> byte list"
  assumes rd_enough: "n \<le> length (strm s) \<Longrightarrow>
      fst (rd n s) = Some (take n (strm s)) \<and> strm (snd (rd n s)) = drop n (strm s)"
    and rd_short: "length (strm s) < n \<Longrightarrow> fst (rd n s) = None"
begin

lemma rd_prefix:
  assumes "strm s = a @ b" "length a = n"
  obtains s' where "rd n s = (Some a, s')" "strm s' = b"
  using assms rd_enough [of n s] by (metis append_eq_conv_conj le_add1 length_append prod.collapse)

lemma rd_Some:
  assumes "rd n s = (Some bs, s')"
  shows "strm s = bs @ strm s' \<and> length bs = n"
proof (cases "n \<le> length (strm s)")
  case True
  with assms rd_enough [of n s] show ?thesis by (metis append_take_drop_id fst_conv length_take
        min.absorb2 option.inject snd_conv)
next
  case False
  with assms rd_short [of s n] show ?thesis by simp
qed

lemma rd_fails_iff: "fst (rd n s) = None \<longleftrightarrow> length (strm s) < n"
  using rd_enough [of n s] rd_short [of s n] by (cases "n \<le> length (strm s)") auto

end

interpretation sock: byte_source read_full in_stream
proof
  fix n :: nat and s :: rx_state
  let ?avail = "drop (pending_off s) (pending_buf s)"
  let ?k = "min n (length ?avail)"
  let ?l = "recv_loop (n - ?k) (rx_script s) (take ?k ?avail)"
  have rf: "fst (read_full n s) = fst ?l" "rx_script (snd (read_full n s)) = snd ?l"
    "drop (pending_off (snd (read_full n s))) (pending_buf (snd (read_full n s))) = drop ?k ?avail"
    by (simp_all add: read_full_def Let_def add.commute split: prod.split)
  show "fst (read_full n s) = Some (take n (in_stream s)) \<and> in_stream (snd (read_full n s)) = drop n (in_stream s)"
    if "n \<le> length (in_stream s)"
  proof -
    from that have "n - ?k \<le> length (rx_stream (rx_script s))" by (auto simp: in_stream_def)
    from recv_loop_enough [OF this, of "take ?k ?avail"]
    have "fst ?l = Some (take ?k ?avail @ take (n - ?k) (rx_stream (rx_script s)))"
      "rx_stream (snd ?l) = drop (n - ?k) (rx_stream (rx_script s))" by auto
    then show ?thesis by (auto simp: rf in_stream_def min_def)
  qed
  show "fst (read_full n s) = None" if "length (in_stream s) < n"
  proof -
    from that have "length (rx_stream (rx_script s)) < n - ?k" by (auto simp: in_stream_def)
    then show ?thesis by (simp add: rf recv_loop_short)
  qed
qed

lemma read_full_measure:
  assumes "read_full n s = (Some bs, s')" "0 < n"
  shows "rx_measure s' < rx_measure s"
proof -
  let ?avail = "drop (pending_off s) (pending_buf s)"
  let ?k = "min n (length ?avail)"
  let ?l = "recv_loop (n - ?k) (rx_script s) (take ?k ?avail)"
  have s': "fst ?l = Some bs" "rx_script s' = snd ?l" "pending_buf s' = pending_buf s"
      "pending_off s' = pending_off s + ?k"
    using assms(1) by (auto simp: read_full_def Let_def split: prod.splits)
  show ?thesis
  proof (cases "n - ?k = 0")
    case True
    then have "?k = n" by linarith
    moreover have "snd ?l = rx_script s" using True by simp
    ultimately show ?thesis using assms(2) s' True by (simp add: rx_measure_def)
  next
    case False
    then have "rx_size (rx_script s') < rx_size (rx_script s)"
      using recv_loop_size [OF s'(1)] s'(2) by simp
    moreover have "length (drop (pending_off s') (pending_buf s')) \<le> length ?avail" using s' by simp
    ultimately show ?thesis unfolding rx_measure_def by linarith
  qed
qed

lemma read_full_measure_le:
  assumes "read_full n s = (Some bs, s')"
  shows "rx_measure s' \<le> rx_measure s"
proof (cases "n = 0")
  case True
  with assms show ?thesis
    by (auto simp: read_full_def Let_def rx_measure_def)
next
  case False
  with read_full_measure [OF assms] show ?thesis by simp
qed

section \<open>Sending\<close>

datatype tx = TxSent nat | TxEintr | TxErr

text \<open>The result flag, the bytes that went out, and the rest of the script.  A call never takes
  more bytes than it was offered.\<close>

fun send_full :: "tx list \<Rightarrow> byte list \<Rightarrow> bool \<times> byte list \<times> tx list" where
  "send_full ts [] = (True, [], ts)"
| "send_full [] data = (False, [], [])"
| "send_full (TxSent k # ts) data =
     (if k = 0 then (False, [], ts)
      else case send_full ts (drop k data) of (ok, out, ts') \<Rightarrow> (ok, take k data @ out, ts'))"
| "send_full (TxEintr # ts) data = send_full ts data"
| "send_full (TxErr # ts) data = (False, [], ts)"

lemma send_full_prefix:
  "case send_full ts data of (ok, out, ts') \<Rightarrow> (\<exists>rest. data = out @ rest) \<and> (ok \<longleftrightarrow> out = data)"
proof (induction ts data rule: send_full.induct)
  case (3 k ts d ds)
  define D where "D = d # ds"
  show ?case
  proof (cases "k = 0")
    case False
    obtain ok out ts' where r: "send_full ts (drop k D) = (ok, out, ts')" by (metis prod_cases3)
    with 3 False obtain rest where *: "drop k D = out @ rest" "ok \<longleftrightarrow> out = drop k D"
      by (auto simp: D_def)
    have D: "take k D @ drop k D = D" by simp
    have "D = (take k D @ out) @ rest" using D *(1) by (metis append.assoc)
    moreover have "out = drop k D \<longleftrightarrow> take k D @ out = D" using D by (metis same_append_eq)
    ultimately show ?thesis using False r *(2) by (auto simp: D_def)
  qed simp
qed (auto split: prod.splits)

text \<open>\<open>send_full\<close> survives partial writes and interrupted calls: what it puts on the wire is
  always a prefix of the frame, and it reports success exactly when that is the whole frame.
  So no frame is ever duplicated, reordered or reported as sent when it is not.\<close>

theorem send_full_exact:
  "case send_full ts data of (ok, out, ts') \<Rightarrow> (\<exists>rest. data = out @ rest) \<and> (ok \<longleftrightarrow> out = data)"
  by (rule send_full_prefix)

end
