(* ===== verification/Utils.thy ===== *)
theory Utils
  imports WsSock
begin

text \<open>
  The helpers of \<open>src/utils/utils.c\<close>: string copies and trims, JSON string escaping, directory
  creation, file access and command execution.  NULL arguments, which every function refuses
  first, are not represented; system calls are outcomes.
\<close>

section \<open>Strings\<close>

definition utils_set_string :: "nat \<Rightarrow> string \<Rightarrow> string" where
  "utils_set_string dst_size src =
     (let len = length src in take (if len \<ge> dst_size then dst_size - 1 else len) src)"

lemma utils_set_string_bound [bounds]: "0 < n \<Longrightarrow> length (utils_set_string n s) < n"
  by (auto simp: utils_set_string_def Let_def)

lemma utils_set_string_id [cstr]: "length s < n \<Longrightarrow> utils_set_string n s = s"
  by (simp add: utils_set_string_def Let_def)

lemma utils_set_string_set: "set (utils_set_string n s) \<subseteq> set s"
  by (auto simp: utils_set_string_def Let_def dest: in_set_takeD)

definition trim_space :: "char \<Rightarrow> bool" where
  "trim_space c \<longleftrightarrow> c = CHR '' '' \<or> c = tab \<or> c = lf \<or> c = cr"

text \<open>The result starts at the first character kept; the NUL is put behind the last.\<close>

definition utils_str_trim :: "string \<Rightarrow> string" where
  "utils_str_trim str =
     (let s = dropWhile trim_space str
      in if s = [] then s else rev (dropWhile trim_space (rev s)))"

definition utils_str_starts_with :: "string \<Rightarrow> string \<Rightarrow> bool" where
  "utils_str_starts_with str pre = starts_with pre str"

definition utils_str_ends_with :: "string \<Rightarrow> string \<Rightarrow> bool" where
  "utils_str_ends_with str suf =
     (if length suf > length str then False else drop (length str - length suf) str = suf)"

section \<open>JSON escaping\<close>

definition hex_upper :: "nat \<Rightarrow> char" where
  "hex_upper d = ''0123456789ABCDEF'' ! d"

text \<open>The format \<open>%04X\<close> of a value below 65536.\<close>

definition hex4 :: "nat \<Rightarrow> string" where
  "hex4 n = [hex_upper (n div 4096 mod 16), hex_upper (n div 256 mod 16), hex_upper (n div 16 mod 16),
             hex_upper (n mod 16)]"

definition bslash :: char where "bslash = CHR 0x5C"
definition dquote :: char where "dquote = CHR 0x22"
definition bspace :: char where "bspace = CHR 0x08"
definition ffeed :: char where "ffeed = CHR 0x0C"

text \<open>One character; None ends the loop because the buffer is short.\<close>

definition escape_char :: "nat \<Rightarrow> char \<Rightarrow> string option" where
  "escape_char room c =
     (if c = dquote then Some [bslash, dquote]
      else if c = bslash then Some [bslash, bslash]
      else if c = bspace then Some [bslash, CHR ''b'']
      else if c = ffeed then Some [bslash, CHR ''f'']
      else if c = lf then Some [bslash, CHR ''n'']
      else if c = cr then Some [bslash, CHR ''r'']
      else if c = tab then Some [bslash, CHR ''t'']
      else if char_code c < 0x20 then
        (if room < 7 then None
         else case snprintf_chk room ([bslash, CHR ''u''] @ hex4 (char_code c)) of
                None \<Rightarrow> None | Some t \<Rightarrow> Some t)
      else Some [c])"

text \<open>The output goes to an allocation of \<open>cap\<close> bytes: a store past it is None.\<close>

fun json_escape_loop :: "nat \<Rightarrow> string \<Rightarrow> string \<Rightarrow> string option" where
  "json_escape_loop cap [] out = (if length out < cap then Some out else None)"
| "json_escape_loop cap (c # cs) out =
     (case escape_char (cap - length out) c of
        None \<Rightarrow> (if length out < cap then Some out else None)
      | Some t \<Rightarrow> if length out + length t \<le> cap then json_escape_loop cap cs (out @ t) else None)"

definition utils_json_escape :: "string \<Rightarrow> string option" where
  "utils_json_escape str = json_escape_loop (length str * 6 + 1) str []"

definition hexval :: "char \<Rightarrow> nat" where
  "hexval c = (let n = char_code c in if n \<le> 57 then n - 48 else if n \<le> 70 then n - 55 else n - 87)"

text \<open>\<open>strtoul(hex, NULL, 16)\<close> of a four-character string: optional blanks, sign and \<open>0x\<close>, then
  the longest run of hexadecimal digits, 0 when there is none.\<close>

definition hex_run :: "string \<Rightarrow> nat" where
  "hex_run s = foldl (\<lambda>v c. v * 16 + hexval c) 0 (takeWhile c_isxdigit s)"

definition strtoul16 :: "string \<Rightarrow> int" where
  "strtoul16 s0 =
     (let s1 = dropWhile c_isspace s0;
          neg = (s1 \<noteq> [] \<and> hd s1 = CHR ''-'');
          s2 = (if s1 \<noteq> [] \<and> (hd s1 = CHR ''-'' \<or> hd s1 = CHR ''+'') then tl s1 else s1);
          s3 = (case s2 of z # x # d # r \<Rightarrow>
                  if z = CHR ''0'' \<and> (x = CHR ''x'' \<or> x = CHR ''X'') \<and> c_isxdigit d then d # r else s2
                | _ \<Rightarrow> s2);
          v = int (hex_run s3)
      in if neg then - v else v)"

text \<open>The UTF-8 bytes of a code unit; \<open>room\<close> is \<open>out_len - 1 - j\<close>.  Nothing is written when they do
  not fit.\<close>

definition utf8_unit :: "nat \<Rightarrow> u32 \<Rightarrow> string" where
  "utf8_unit room cp =
     (if cp < 0x80 then (if 1 \<le> room then [char_of_byte (ucast cp)] else [])
      else if cp < 0x800 then
        (if 2 \<le> room then map (\<lambda>w. char_of_byte (ucast w)) [0xC0 OR drop_bit 6 cp, 0x80 OR (cp AND 0x3F)] else [])
      else (if 3 \<le> room then map (\<lambda>w. char_of_byte (ucast w))
              [0xE0 OR drop_bit 12 cp, 0x80 OR (drop_bit 6 cp AND 0x3F), 0x80 OR (cp AND 0x3F)] else []))"

text \<open>\<open>out_len\<close> counts the NUL.  The text after \<open>\\u\<close> must have at least four characters.\<close>

fun json_unescape_loop :: "nat \<Rightarrow> string \<Rightarrow> string \<Rightarrow> string" where
  "json_unescape_loop out_len [] out = out"
| "json_unescape_loop out_len [c] out = (if length out \<ge> out_len - 1 then out else out @ [c])"
| "json_unescape_loop out_len (c # e # s) out =
     (if length out \<ge> out_len - 1 then out
      else if c = bslash then
        (if e = dquote then json_unescape_loop out_len s (out @ [dquote])
         else if e = bslash then json_unescape_loop out_len s (out @ [bslash])
         else if e = CHR ''b'' then json_unescape_loop out_len s (out @ [bspace])
         else if e = CHR ''f'' then json_unescape_loop out_len s (out @ [ffeed])
         else if e = CHR ''n'' then json_unescape_loop out_len s (out @ [lf])
         else if e = CHR ''r'' then json_unescape_loop out_len s (out @ [cr])
         else if e = CHR ''t'' then json_unescape_loop out_len s (out @ [tab])
         else if e = CHR ''u'' then
           (if 4 \<le> length s then
              json_unescape_loop out_len (drop 4 s)
                (out @ utf8_unit (out_len - 1 - length out) (word_of_int (strtoul16 (take 4 s))))
            else json_unescape_loop out_len s (out @ [CHR ''u'']))
         else json_unescape_loop out_len s (out @ [e]))
      else json_unescape_loop out_len (e # s) (out @ [c]))"

definition utils_json_unescape :: "string \<Rightarrow> nat \<Rightarrow> string option" where
  "utils_json_unescape json out_len = (if out_len = 0 then None else Some (json_unescape_loop out_len json []))"


text \<open>The escape of one character, without regard to space.\<close>

definition esc :: "char \<Rightarrow> string" where
  "esc c = the (escape_char 7 c)"

lemma length_hex4 [simp]: "length (hex4 n) = 4"
  by (simp add: hex4_def)

lemma escape_char_enough: "7 \<le> room \<Longrightarrow> escape_char room c = Some (esc c) \<and> length (esc c) \<le> 6"
  by (auto simp: escape_char_def esc_def snprintf_chk_def)

lemma json_escape_loop_total:
  "length out + 6 * length cs < cap \<Longrightarrow> json_escape_loop cap cs out = Some (out @ concat (map esc cs))"
proof (induction cs arbitrary: out)
  case (Cons c cs)
  then have room: "7 \<le> cap - length out" by simp
  note e = escape_char_enough [OF room, of c]
  with Cons.IH [of "out @ esc c"] Cons.prems show ?case by simp
qed simp

lemma json_escape_eq: "utils_json_escape s = Some (concat (map esc s))"
  by (simp add: utils_json_escape_def json_escape_loop_total)

lemma hex_upper_facts:
  "c_isxdigit (hex_upper (n mod 16)) \<and> hexval (hex_upper (n mod 16)) = n mod 16
     \<and> \<not> c_isspace (hex_upper (n mod 16)) \<and> hex_upper (n mod 16) \<notin> {CHR ''-'', CHR ''+'', CHR ''x'', CHR ''X''}
     \<and> 32 \<le> char_code (hex_upper (n mod 16)) \<and> hex_upper (n mod 16) \<noteq> dquote"
proof -
  have "list_all (\<lambda>d. c_isxdigit (hex_upper d) \<and> hexval (hex_upper d) = d
     \<and> \<not> c_isspace (hex_upper d) \<and> hex_upper d \<notin> {CHR ''-'', CHR ''+'', CHR ''x'', CHR ''X''}
     \<and> 32 \<le> char_code (hex_upper d) \<and> hex_upper d \<noteq> dquote) [0..<16]"
    by code_simp
  then show ?thesis by (simp add: list_all_iff)
qed

lemma hex4_value:
  assumes "n < 65536"
  shows "strtoul16 (hex4 n) = int n"
proof -
  have x: "hex_upper (d mod 16) \<noteq> CHR ''x''" "hex_upper (d mod 16) \<noteq> CHR ''X''"
    "hex_upper (d mod 16) \<noteq> CHR ''-''" "hex_upper (d mod 16) \<noteq> CHR ''+''"
    "c_isxdigit (hex_upper (d mod 16))" "hexval (hex_upper (d mod 16)) = d mod 16"
    "\<not> c_isspace (hex_upper (d mod 16))" for d
    using hex_upper_facts [of d] by auto
  have d: "n div 256 = n div 16 div 16" "n div 4096 = n div 16 div 16 div 16"
    by (simp_all flip: div_mult2_eq)
  have m: "n div 16 div 16 div 16 mod 16 = n div 16 div 16 div 16"
    using assms by (simp flip: div_mult2_eq add: less_mult_imp_div_less)
  have v: "((n div 16 div 16 div 16 mod 16 * 16 + n div 16 div 16 mod 16) * 16 + n div 16 mod 16) * 16 + n mod 16 = n"
    unfolding m by (simp add: div_mult_mod_eq)
  have "hex_run (hex4 n) =
      ((n div 16 div 16 div 16 mod 16 * 16 + n div 16 div 16 mod 16) * 16 + n div 16 mod 16) * 16 + n mod 16"
    by (simp add: hex4_def hex_run_def x d)
  then have "hex_run (hex4 n) = n" unfolding v .
  moreover have "strtoul16 (hex4 n) = int (hex_run (hex4 n))"
    by (simp add: strtoul16_def hex4_def x Let_def)
  ultimately show ?thesis by simp
qed

lemma unescape_esc:
  assumes "length out < n - 1"
  shows "json_unescape_loop n (esc c @ s) out = json_unescape_loop n s (out @ [c])"
proof -
  consider "c = dquote" | "c = bslash" | "c = bspace" | "c = ffeed" | "c = lf" | "c = cr" | "c = tab"
    | "c \<notin> {dquote, bslash, bspace, ffeed, lf, cr, tab}" "char_code c < 0x20"
    | "c \<notin> {dquote, bslash, bspace, ffeed, lf, cr, tab}" "\<not> char_code c < 0x20" by blast
  then show ?thesis
  proof cases
    case 8
    then have e: "esc c = [bslash, CHR ''u''] @ hex4 (char_code c)"
      by (simp add: esc_def escape_char_def snprintf_chk_def)
    have u: "CHR ''u'' \<notin> {dquote, bslash, CHR ''b'', CHR ''f'', CHR ''n'', CHR ''r'', CHR ''t''}"
      by (simp add: dquote_def bslash_def)
    have w: "word_of_int (int (char_code c)) = (of_nat (char_code c) :: u32)" by simp
    have lt: "(of_nat (char_code c) :: u32) < 0x80"
      using 8(2) by (simp add: word_less_nat_alt unat_of_nat)
    have b: "char_of_byte (ucast (of_nat (char_code c) :: u32)) = c"
    proof -
      have "take_bit 8 (char_code c) = char_code c" using 8(2) by (intro take_bit_nat_eq_self) simp
      then show ?thesis using 8(2) by (simp add: char_of_byte_def unat_of_nat unsigned_ucast_eq)
    qed
    have r: "Suc 0 \<le> n - Suc (length out)" using assms by simp
    have hv: "strtoul16 (hex4 (char_code c)) = int (char_code c)" using 8(2) by (intro hex4_value) simp
    show ?thesis
      using assms u lt b r by (simp add: e hv utf8_unit_def w)
  next
    case 9
    then have e: "esc c = [c]" by (simp add: esc_def escape_char_def)
    with 9 assms show ?thesis by (cases s) simp_all
  qed (use assms in \<open>simp_all add: esc_def escape_char_def bslash_def dquote_def bspace_def ffeed_def
      lf_def cr_def tab_def\<close>)
qed

lemma unescape_escaped:
  "length out + length cs < n \<Longrightarrow> json_unescape_loop n (concat (map esc cs)) out = out @ cs"
proof (induction cs arbitrary: out)
  case (Cons c cs)
  then have "length out < n - 1" by simp
  from unescape_esc [OF this, of c] Cons show ?case by simp
qed simp


text \<open>What \<open>escape\<close> writes can stand between the quotes of a JSON string: no control character,
  and a quote only behind a backslash.\<close>

lemma hex4_ok: "c' \<in> set (hex4 n) \<Longrightarrow> 32 \<le> char_code c' \<and> c' \<noteq> dquote"
  unfolding hex4_def using hex_upper_facts by auto

lemma esc_control:
  assumes "c \<notin> {dquote, bslash, bspace, ffeed, lf, cr, tab}" "char_code c < 0x20"
  shows "esc c = [bslash, CHR ''u''] @ hex4 (char_code c)"
  using assms by (simp add: esc_def escape_char_def snprintf_chk_def)

lemma esc_printable: "list_all (\<lambda>c'. 32 \<le> char_code c') (esc c)"
proof -
  consider "c \<in> {dquote, bslash, bspace, ffeed, lf, cr, tab}"
    | "c \<notin> {dquote, bslash, bspace, ffeed, lf, cr, tab}" "char_code c < 0x20"
    | "c \<notin> {dquote, bslash, bspace, ffeed, lf, cr, tab}" "\<not> char_code c < 0x20" by blast
  then show ?thesis
  proof cases
    case 1
    have "list_all (\<lambda>c. list_all (\<lambda>c'. 32 \<le> char_code c') (esc c)) [dquote, bslash, bspace, ffeed, lf, cr, tab]"
      by code_simp
    with 1 show ?thesis by (auto simp: list_all_iff)
  next
    case 2
    then show ?thesis using hex4_ok [of _ "char_code c"]
      by (auto simp: esc_control list_all_iff bslash_def)
  next
    case 3
    then show ?thesis by (simp add: esc_def escape_char_def)
  qed
qed

text \<open>JSON escaping is total, inverted by \<open>utils_json_unescape\<close> in any buffer with room for the
  text and its NUL, and safe: it never truncates or overruns its allocation, and its output
  has no control character.\<close>

theorem json_escape_correct:
  assumes "length s < n"
  shows "\<exists>t. utils_json_escape s = Some t \<and> length t \<le> 6 * length s
     \<and> utils_json_unescape t n = Some s \<and> list_all (\<lambda>c. 32 \<le> char_code c) t"
proof -
  have "length (concat (map esc s)) \<le> 6 * length s"
  proof (induction s)
    case (Cons c s)
    then show ?case using escape_char_enough [of 7 c] by simp
  qed simp
  moreover have "list_all (\<lambda>c. 32 \<le> char_code c) (concat (map esc s))"
    using esc_printable by (auto simp: list_all_iff)
  ultimately show ?thesis
    using unescape_escaped [of "[]" s n] assms by (simp add: json_escape_eq utils_json_unescape_def)
qed

theorem json_escape_correct_witness:
  "\<exists>t. utils_json_escape [CHR ''a'', lf, CHR 0x01, dquote] = Some t
     \<and> length t \<le> 6 * length [CHR ''a'', lf, CHR 0x01, dquote]
     \<and> utils_json_unescape t 5 = Some [CHR ''a'', lf, CHR 0x01, dquote] \<and> list_all (\<lambda>c. 32 \<le> char_code c) t"
  by (rule json_escape_correct) simp

section \<open>Directories\<close>

datatype mkdir_result = MkOk | MkExists | MkFail

text \<open>The loop over \<open>tmp + 1\<close>: at each slash the prefix before it is created.  The result is the
  return value (True for 0) and the paths passed to \<open>mkdir\<close>, in order.\<close>

fun mkdir_prefixes :: "(string \<Rightarrow> mkdir_result) \<Rightarrow> string \<Rightarrow> string \<Rightarrow> bool \<times> string list" where
  "mkdir_prefixes mk done_part [] = (True, [])"
| "mkdir_prefixes mk done_part (c # cs) =
     (if c = CHR ''/'' then
        (if mk done_part = MkFail then (False, [done_part])
         else case mkdir_prefixes mk (done_part @ [c]) cs of (ok, ps) \<Rightarrow> (ok, done_part # ps))
      else mkdir_prefixes mk (done_part @ [c]) cs)"

fun slash_prefixes :: "string \<Rightarrow> string \<Rightarrow> string list" where
  "slash_prefixes d [] = []"
| "slash_prefixes d (c # cs) = (if c = CHR ''/'' then [d] else []) @ slash_prefixes (d @ [c]) cs"

definition utils_mkdir_p :: "(string \<Rightarrow> mkdir_result) \<Rightarrow> string \<Rightarrow> bool \<times> string list" where
  "utils_mkdir_p mk path =
     (if length path \<ge> 4096 then (False, [])
      else if path = [] then (False, [])
      else
        let tmp = (if last path = CHR ''/'' then butlast path else path)
        in case (case tmp of [] \<Rightarrow> (True, []) | c # cs \<Rightarrow> mkdir_prefixes mk [c] cs) of
             (False, ps) \<Rightarrow> (False, ps)
           | (True, ps) \<Rightarrow> (mk tmp \<noteq> MkFail, ps @ [tmp]))"

text \<open>The paths are created from the root down, and success means that none of the calls failed.\<close>

lemma mkdir_prefixes_calls:
  "snd (mkdir_prefixes mk d s) = takeWhile (\<lambda>p. mk p \<noteq> MkFail) (slash_prefixes d s)
       @ take 1 (dropWhile (\<lambda>p. mk p \<noteq> MkFail) (slash_prefixes d s))
     \<and> (fst (mkdir_prefixes mk d s) \<longleftrightarrow> (\<forall>p \<in> set (slash_prefixes d s). mk p \<noteq> MkFail))"
  by (induction mk d s rule: mkdir_prefixes.induct) (auto split: prod.splits)

section \<open>Files\<close>

text \<open>\<open>open\<close>, one \<open>read\<close> of at most \<open>buf_len - 1\<close> bytes, and what the caller sees as a string.\<close>

definition utils_read_file_string :: "byte list option \<Rightarrow> (nat \<Rightarrow> byte list option) \<Rightarrow> nat \<Rightarrow> byte list option" where
  "utils_read_file_string file rd buf_len =
     (if buf_len = 0 then None
      else case file of None \<Rightarrow> None
         | Some _ \<Rightarrow> (case rd (buf_len - 1) of None \<Rightarrow> None | Some bs \<Rightarrow> Some (bs @ [0])))"

text \<open>\<open>fgets\<close> into \<open>n\<close> bytes: through the first newline, at most \<open>n - 1\<close> characters, None at the end
  of the file.\<close>

definition fgets :: "nat \<Rightarrow> string \<Rightarrow> (string \<times> string) option" where
  "fgets n s =
     (if s = [] \<or> n \<le> 1 then None
      else let l = takeWhile (\<lambda>c. c \<noteq> lf) s;
               full = (if length l < length s then l @ [lf] else l);
               k = min (n - 1) (length full)
           in Some (take k s, drop k s))"

definition utils_read_file_line :: "string option \<Rightarrow> nat \<Rightarrow> string option" where
  "utils_read_file_line file buf_len =
     (if buf_len = 0 then None
      else case file of None \<Rightarrow> None
         | Some contents \<Rightarrow>
             (case fgets buf_len contents of None \<Rightarrow> None
              | Some (l, _) \<Rightarrow> Some (takeWhile (\<lambda>c. c \<noteq> lf) l)))"

text \<open>One \<open>write\<close> of the whole text; \<open>wr\<close> is the count it returns.\<close>

definition utils_write_file_string :: "bool \<Rightarrow> int \<Rightarrow> string \<Rightarrow> bool" where
  "utils_write_file_string open_ok wr data \<longleftrightarrow> open_ok \<and> wr = int (length data)"

lemma fgets_decreases: "fgets n s = Some (l, r) \<Longrightarrow> length r < length s \<and> l @ r = s \<and> length l < n"
  by (cases s) (auto simp: fgets_def Let_def min_def split: if_splits)


section \<open>Running a command\<close>

text \<open>The parent's side of \<open>utils_exec_capture\<close>: the pipe is read until it is full, closed or
  failing, with interrupted calls repeated; then the child is reaped.  The exit status is -1
  unless the child exited by itself.\<close>

datatype wait_status = Exited int | Killed

function capture_loop :: "nat \<Rightarrow> rx list \<Rightarrow> byte list \<Rightarrow> byte list" where
  "capture_loop cap r got =
     (if length got < cap then
        (case recv_some (cap - length got) r of
           (IoBytes bs, r') \<Rightarrow> capture_loop cap r' (got @ bs)
         | (IoEintr, r') \<Rightarrow> capture_loop cap r' got
         | (IoFail, r') \<Rightarrow> got)
      else got)"
  by pat_completeness auto
termination
  by (relation "measure (\<lambda>(cap, r, got). rx_size r)") (auto dest: recv_some_smaller recv_some_smaller [OF sym])

declare capture_loop.simps [simp del]

definition utils_exec_capture ::
    "bool \<Rightarrow> bool \<Rightarrow> rx list \<Rightarrow> wait_status \<Rightarrow> nat \<Rightarrow> (byte list \<times> int) option" where
  "utils_exec_capture pipe_ok fork_ok out status output_size =
     (if \<not> pipe_ok \<or> \<not> fork_ok then None
      else Some (if output_size > 0 then capture_loop (output_size - 1) out [] else [],
                 case status of Exited c \<Rightarrow> c | Killed \<Rightarrow> -1))"

lemma capture_loop_bound: "length got \<le> cap \<Longrightarrow> length (capture_loop cap r got) \<le> cap"
proof (induction cap r got rule: capture_loop.induct)
  case (1 cap r got)
  show ?case
    using 1 recv_some_smaller(1) [of "cap - length got" r]
    by (subst capture_loop.simps) (fastforce split: prod.splits io_result.splits)
qed

lemma capture_loop_prefix: "\<exists>rest. got @ rx_stream r = capture_loop cap r got @ rest"
proof (induction cap r got rule: capture_loop.induct)
  case (1 cap r got)
  have e: "rx_stream r = rx_stream r'" if "recv_some (cap - length got) r = (IoEintr, r')" for r'
    using that by (cases "(cap - length got, r)" rule: recv_some.cases) (auto split: if_splits)
  have b: "rx_stream r = bs @ rx_stream r'" if "recv_some (cap - length got) r = (IoBytes bs, r')" for bs r'
    using that by (cases "(cap - length got, r)" rule: recv_some.cases) (auto split: if_splits)
  show ?case
    using 1 e b by (subst capture_loop.simps) (force split: prod.splits io_result.splits)
qed

end
