(* ===== verification/WsCodec.thy ===== *)
theory WsCodec
  imports CPrelude
begin

text \<open>
  The pure helpers at the head of \<open>src/network/websocket.c\<close>: Base64, the CR/LF check,
  percent-encoding of the token, the handshake key and its accept value, and the payload
  mask.  SHA-1 and the random source of OpenSSL are parameters.
\<close>

section \<open>Base64\<close>

definition base64_table :: string where
  "base64_table = ''ABCDEFGHIJKLMNOPQRSTUVWXYZabcdefghijklmnopqrstuvwxyz0123456789+/''"

definition b64_sym :: "u32 \<Rightarrow> char" where
  "b64_sym v = base64_table ! unat (v AND 0x3F)"

text \<open>One round of the loop: up to three input bytes packed into \<open>n\<close>, four characters out.\<close>

definition b64_pack :: "byte \<Rightarrow> byte option \<Rightarrow> byte option \<Rightarrow> u32" where
  "b64_pack a mb mc =
     (let n0 = push_bit 16 (ucast a);
          n1 = (case mb of Some b \<Rightarrow> n0 OR push_bit 8 (ucast b) | None \<Rightarrow> n0)
      in (case mc of Some c \<Rightarrow> n1 OR ucast c | None \<Rightarrow> n1))"

definition b64_group :: "byte \<Rightarrow> byte option \<Rightarrow> byte option \<Rightarrow> string" where
  "b64_group a mb mc =
     (let n = b64_pack a mb mc
      in [b64_sym (drop_bit 18 n), b64_sym (drop_bit 12 n),
          (if mb \<noteq> None then b64_sym (drop_bit 6 n) else CHR ''=''),
          (if mc \<noteq> None then b64_sym n else CHR ''='')])"

fun ws_base64_encode :: "byte list \<Rightarrow> string" where
  "ws_base64_encode [] = []"
| "ws_base64_encode [a] = b64_group a None None"
| "ws_base64_encode [a, b] = b64_group a (Some b) None"
| "ws_base64_encode (a # b # c # rest) = b64_group a (Some b) (Some c) @ ws_base64_encode rest"

text \<open>The decoder of RFC 4648, the specification the encoder is measured against.\<close>

definition b64_val :: "char \<Rightarrow> u32" where
  "b64_val c = of_nat (length (takeWhile (\<lambda>x. x \<noteq> c) base64_table))"

definition b64_unpack :: "char \<Rightarrow> char \<Rightarrow> char \<Rightarrow> char \<Rightarrow> u32" where
  "b64_unpack w x y z =
     push_bit 18 (b64_val w) OR push_bit 12 (b64_val x) OR push_bit 6 (b64_val y) OR b64_val z"

fun b64_decode :: "string \<Rightarrow> byte list option" where
  "b64_decode [] = Some []"
| "b64_decode (w # x # y # z # rest) =
     (if y = CHR ''='' then
        (if rest = [] then Some [ucast (drop_bit 16 (b64_unpack w x CHR ''A'' CHR ''A''))] else None)
      else if z = CHR ''='' then
        (if rest = [] then
           Some [ucast (drop_bit 16 (b64_unpack w x y CHR ''A'')),
                 ucast (drop_bit 8 (b64_unpack w x y CHR ''A''))] else None)
      else map_option (\<lambda>bs. ucast (drop_bit 16 (b64_unpack w x y z))
             # ucast (drop_bit 8 (b64_unpack w x y z)) # ucast (b64_unpack w x y z) # bs)
             (b64_decode rest))"
| "b64_decode _ = None"

lemma base64_table_index:
  "i < 64 \<Longrightarrow> length (takeWhile (\<lambda>x. x \<noteq> base64_table ! i) base64_table) = i"
proof -
  have "\<forall>i \<in> set [0..<64]. length (takeWhile (\<lambda>x. x \<noteq> base64_table ! i) base64_table) = i"
    unfolding base64_table_def by code_simp
  then show "i < 64 \<Longrightarrow> ?thesis" by simp
qed

lemma base64_table_sym: "i < 64 \<Longrightarrow> base64_table ! i \<in> set base64_table"
  by (rule nth_mem) (simp add: base64_table_def)

lemma and_63_less: "unat (v AND 0x3F :: u32) < 64"
proof -
  have "v AND 0x3F \<le> (0x3F :: u32)" by (rule word_and_le1)
  then show ?thesis by (simp add: word_le_nat_alt)
qed

definition low6 :: "u32 \<Rightarrow> u32" where
  "low6 v = v AND 0x3F"

lemma b64_val_sym [simp]: "b64_val (b64_sym v) = low6 v"
  by (simp add: b64_val_def b64_sym_def low6_def base64_table_index and_63_less)

lemma b64_val_A [simp]: "b64_val CHR ''A'' = 0"
  by (simp add: b64_val_def base64_table_def)

lemma b64_sym_in_table: "b64_sym v \<in> set base64_table"
  by (simp add: b64_sym_def base64_table_sym and_63_less)

lemma b64_sym_not_pad [simp]: "b64_sym v \<noteq> CHR ''=''"
proof -
  have "CHR ''='' \<notin> set base64_table" by (simp add: base64_table_def)
  with b64_sym_in_table [of v] show ?thesis by metis
qed

lemma low6_mask: "low6 v = v AND mask 6"
  by (simp add: low6_def mask_eq_decr_exp)

lemma byte_bit_high: "8 \<le> k \<Longrightarrow> \<not> bit (x :: byte) k"
  using bit_imp_le_length [of x k] by auto

text \<open>Six-bit groups put together again give the bytes of the packed word back.\<close>

lemma b64_top:
  "ucast (drop_bit 16 (push_bit 18 (low6 (drop_bit 18 n)) OR push_bit 12 (low6 (drop_bit 12 n))
      OR push_bit 6 y OR z)) = (ucast (drop_bit 16 n) :: byte)"
  if "y = 0 \<or> y = low6 (drop_bit 6 n)" "z = 0 \<or> z = low6 n"
  using that unfolding low6_mask by (intro bit_word_eqI) (auto simp: bit_simps)

lemma b64_mid:
  "ucast (drop_bit 8 (push_bit 18 (low6 (drop_bit 18 n)) OR push_bit 12 (low6 (drop_bit 12 n))
      OR push_bit 6 (low6 (drop_bit 6 n)) OR z)) = (ucast (drop_bit 8 n) :: byte)"
  if "z = 0 \<or> z = low6 n"
  using that unfolding low6_mask by (intro bit_word_eqI) (auto simp: bit_simps)

lemma b64_low:
  "ucast (push_bit 18 (low6 (drop_bit 18 n)) OR push_bit 12 (low6 (drop_bit 12 n))
      OR push_bit 6 (low6 (drop_bit 6 n)) OR low6 n) = (ucast n :: byte)"
  unfolding low6_mask by (intro bit_word_eqI) (auto simp: bit_simps)

lemma b64_pack_top [simp]: "ucast (drop_bit 16 (b64_pack a mb mc)) = a"
  unfolding b64_pack_def Let_def
  by (intro bit_word_eqI) (auto simp: bit_simps byte_bit_high split: option.splits)

lemma b64_pack_mid [simp]: "ucast (drop_bit 8 (b64_pack a (Some b) mc)) = b"
  unfolding b64_pack_def Let_def
  by (intro bit_word_eqI) (auto simp: bit_simps byte_bit_high split: option.splits)

lemma b64_pack_low [simp]: "ucast (b64_pack a (Some b) (Some c)) = c"
  unfolding b64_pack_def Let_def
  by (intro bit_word_eqI) (auto simp: bit_simps byte_bit_high)

lemma b64_decode_group:
  "b64_decode (b64_group a None None) = Some [a]"
  "b64_decode (b64_group a (Some b) None) = Some [a, b]"
  "b64_decode (b64_group a (Some b) (Some c) @ t) = map_option (\<lambda>bs. a # b # c # bs) (b64_decode t)"
  by (simp_all add: b64_group_def Let_def b64_unpack_def b64_top b64_mid b64_low
      b64_top [where y = 0 and z = 0, simplified] b64_top [where z = 0, simplified]
      b64_mid [where z = 0, simplified]
      b64_top [where y = "low6 (drop_bit 6 n)" and z = "low6 n" and n = n for n, simplified]
      b64_mid [where z = "low6 n" and n = n for n, simplified])

lemma b64_decode_encode: "b64_decode (ws_base64_encode bs) = Some bs"
  by (induction bs rule: ws_base64_encode.induct) (simp_all add: b64_decode_group)

definition b64_alphabet :: "char \<Rightarrow> bool" where
  "b64_alphabet c \<longleftrightarrow> c \<in> set base64_table \<or> c = CHR ''=''"

lemma b64_group_alphabet: "c \<in> set (b64_group a mb mc) \<Longrightarrow> b64_alphabet c"
  by (auto simp: b64_group_def Let_def b64_alphabet_def b64_sym_in_table split: if_splits)

lemma b64_encode_alphabet: "c \<in> set (ws_base64_encode bs) \<Longrightarrow> b64_alphabet c"
  by (induction bs rule: ws_base64_encode.induct) (auto intro: b64_group_alphabet)

interpretation b64: text_codec ws_base64_encode b64_decode "\<lambda>_. True" b64_alphabet
  by unfold_locales (auto simp: b64_decode_encode b64_encode_alphabet)

lemma length_b64_encode: "length (ws_base64_encode bs) = (length bs + 2) div 3 * 4"
proof (induction bs rule: ws_base64_encode.induct)
  case (4 a b c rest)
  have "(5 + length rest) div 3 = Suc ((2 + length rest) div 3)" by presburger
  with 4 show ?case by (simp add: b64_group_def Let_def)
qed (simp_all add: b64_group_def Let_def)

text \<open>\<open>ws_base64_encode\<close> writes exactly the Base64 text of RFC 4648: decoding it gives the
  input back, it has \<open>4 * ceil(len / 3)\<close> characters (one less than the room the header file
  asks for), and it contains no character outside the alphabet, so no CR, LF or space.\<close>

theorem base64_correct:
  "b64_decode (ws_base64_encode bs) = Some bs
   \<and> length (ws_base64_encode bs) = (length bs + 2) div 3 * 4
   \<and> set (ws_base64_encode bs) \<subseteq> insert CHR ''='' (set base64_table)"
  using b64.dec_enc [of bs] b64.enc_alphabet [of _ bs]
  by (auto simp: length_b64_encode b64_alphabet_def)

section \<open>Header injection check\<close>

definition contains_crlf :: "string \<Rightarrow> bool" where
  "contains_crlf s \<longleftrightarrow> list_ex (\<lambda>c. c = cr \<or> c = lf) s"

lemma contains_crlf_iff: "contains_crlf s \<longleftrightarrow> cr \<in> set s \<or> lf \<in> set s"
  by (auto simp: contains_crlf_def list_ex_iff)

section \<open>Percent-encoding\<close>

definition hex_digit :: "nat \<Rightarrow> char" where
  "hex_digit d = ''0123456789ABCDEF'' ! d"

definition url_unreserved :: "char \<Rightarrow> bool" where
  "url_unreserved c \<longleftrightarrow> c_isalnum c \<or> c = CHR ''-'' \<or> c = CHR ''_'' \<or> c = CHR ''.'' \<or> c = CHR ''~''"

fun url_encode_loop :: "nat \<Rightarrow> string \<Rightarrow> string \<Rightarrow> string option" where
  "url_encode_loop out_size [] out = Some out"
| "url_encode_loop out_size (c # cs) out =
     (if url_unreserved c then
        (if length out + 1 \<ge> out_size then None
         else url_encode_loop out_size cs (out @ [c]))
      else
        (if length out + 3 \<ge> out_size then None
         else url_encode_loop out_size cs
                (out @ [CHR ''%'', hex_digit (char_code c div 16 mod 16), hex_digit (char_code c mod 16)])))"

definition url_encode :: "string \<Rightarrow> nat \<Rightarrow> string option" where
  "url_encode s out_size = (if out_size = 0 then None else url_encode_loop out_size s [])"

text \<open>The copy of the function in \<open>src/core/main.c\<close>, without the guard on \<open>out_size\<close>.\<close>

definition url_encode_query :: "string \<Rightarrow> nat \<Rightarrow> string option" where
  "url_encode_query s out_size = url_encode_loop out_size s []"

text \<open>The encoding without a buffer, and its decoder (RFC 3986).\<close>

definition pct_char :: "char \<Rightarrow> string" where
  "pct_char c = (if url_unreserved c then [c]
     else [CHR ''%'', hex_digit (char_code c div 16 mod 16), hex_digit (char_code c mod 16)])"

definition pct_encode :: "string \<Rightarrow> string" where
  "pct_encode s = concat (map pct_char s)"

definition hex_val :: "char \<Rightarrow> nat" where
  "hex_val c = length (takeWhile (\<lambda>x. x \<noteq> c) ''0123456789ABCDEF'')"

fun pct_decode :: "string \<Rightarrow> string option" where
  "pct_decode [] = Some []"
| "pct_decode (c # cs) =
     (if c = CHR ''%'' then
        (case cs of h # l # rest \<Rightarrow>
           map_option (\<lambda>t. char_of (16 * hex_val h + hex_val l) # t) (pct_decode rest)
         | _ \<Rightarrow> None)
      else map_option (\<lambda>t. c # t) (pct_decode cs))"

lemma pct_char_nonempty: "0 < length (pct_char c)"
  by (simp add: pct_char_def)

lemma url_encode_loop_iff:
  "length out < out_size \<Longrightarrow>
     url_encode_loop out_size s out =
       (if length out + length (pct_encode s) < out_size then Some (out @ pct_encode s) else None)"
proof (induction s arbitrary: out)
  case (Cons c cs)
  show ?case
  proof (cases "length out + length (pct_char c) < out_size")
    case True
    then have "url_encode_loop out_size (c # cs) out = url_encode_loop out_size cs (out @ pct_char c)"
      by (auto simp: pct_char_def)
    with Cons.IH [of "out @ pct_char c"] True show ?thesis by (simp add: pct_encode_def add.assoc)
  next
    case False
    then show ?thesis by (auto simp: pct_char_def pct_encode_def)
  qed
qed (simp add: pct_encode_def)

lemma url_encode_iff:
  "url_encode s n = (if length (pct_encode s) < n then Some (pct_encode s) else None)"
  by (cases n) (simp_all add: url_encode_def url_encode_loop_iff)

lemma url_encode_query_iff: "0 < n \<Longrightarrow> url_encode_query s n = url_encode s n"
  by (simp add: url_encode_def url_encode_query_def)

lemma hex_val_digit: "d < 16 \<Longrightarrow> hex_val (hex_digit d) = d"
proof -
  have "\<forall>d \<in> set [0..<16]. hex_val (hex_digit d) = d"
    unfolding hex_val_def hex_digit_def by code_simp
  then show "d < 16 \<Longrightarrow> ?thesis" by simp
qed

lemma hex_digit_unreserved: "d < 16 \<Longrightarrow> url_unreserved (hex_digit d)"
proof -
  have "\<forall>d \<in> set [0..<16]. url_unreserved (hex_digit d)"
    unfolding url_unreserved_def c_isalnum_def c_isdigit_def hex_digit_def by code_simp
  then show "d < 16 \<Longrightarrow> ?thesis" by simp
qed

lemma pct_not_unreserved: "\<not> url_unreserved CHR ''%''"
  by (simp add: url_unreserved_def c_isalnum_def c_isdigit_def)

lemma pct_decode_char: "pct_decode (pct_char c @ t) = map_option (\<lambda>u. c # u) (pct_decode t)"
proof (cases "url_unreserved c")
  case True
  with pct_not_unreserved have "c \<noteq> CHR ''%''" by metis
  with True show ?thesis by (simp add: pct_char_def)
next
  case False
  have "char_code c < 256" by simp
  then have "char_code c div 16 < 16" by (simp add: less_mult_imp_div_less)
  then have "16 * (char_code c div 16 mod 16) + char_code c mod 16 = char_code c" by simp
  with False show ?thesis by (simp add: pct_char_def hex_val_digit)
qed

lemma pct_decode_encode: "pct_decode (pct_encode s) = Some s"
  by (induction s) (simp_all add: pct_encode_def pct_decode_char)

definition pct_alphabet :: "char \<Rightarrow> bool" where
  "pct_alphabet c \<longleftrightarrow> url_unreserved c \<or> c = CHR ''%''"

lemma pct_encode_alphabet: "c \<in> set (pct_encode s) \<Longrightarrow> pct_alphabet c"
  by (auto simp: pct_encode_def pct_char_def pct_alphabet_def hex_digit_unreserved split: if_splits)

interpretation pct: text_codec pct_encode pct_decode "\<lambda>_. True" pct_alphabet
  by unfold_locales (auto simp: pct_decode_encode pct_encode_alphabet)

text \<open>\<open>url_encode\<close> either fails, exactly when the encoding and its NUL do not fit the
  buffer, or returns text from which the percent-decoder recovers the input and which
  consists of unreserved characters and \<open>%\<close> only: a token can neither end the query
  parameter nor start a header line.\<close>

theorem url_encode_correct:
  "case url_encode s n of
     None \<Rightarrow> n \<le> length (pct_encode s)
   | Some t \<Rightarrow> length t < n \<and> pct_decode t = Some s
       \<and> list_all (\<lambda>c. url_unreserved c \<or> c = CHR ''%'') t
       \<and> \<not> contains_crlf t \<and> CHR ''&'' \<notin> set t \<and> CHR ''='' \<notin> set t \<and> CHR '' '' \<notin> set t"
proof (cases "length (pct_encode s) < n")
  case True
  have "\<not> pct_alphabet cr" "\<not> pct_alphabet lf" "\<not> pct_alphabet CHR ''&''"
    "\<not> pct_alphabet CHR ''=''" "\<not> pct_alphabet CHR '' ''"
    by (simp_all add: pct_alphabet_def url_unreserved_def c_isalnum_def c_isdigit_def cr_def lf_def)
  then show ?thesis
    using True pct.enc_alphabet [of _ s] pct.dec_enc [of s] pct.enc_avoids [of _ s]
    by (auto simp: url_encode_iff contains_crlf_iff pct_alphabet_def list_all_iff)
qed (simp add: url_encode_iff)

section \<open>Handshake key\<close>

abbreviation WS_KEY_LEN :: nat where "WS_KEY_LEN \<equiv> 24"
abbreviation WS_MAGIC_KEY :: string where
  "WS_MAGIC_KEY \<equiv> ''258EAFA5-E914-47DA-95CA-C5AB0DC85B11''"

text \<open>\<open>random\<close> is the outcome of \<open>RAND_bytes\<close>: None when it fails.\<close>

definition generate_ws_key :: "byte list option \<Rightarrow> nat \<Rightarrow> string option" where
  "generate_ws_key random key_len =
     (case random of None \<Rightarrow> None
      | Some bs \<Rightarrow> if key_len < WS_KEY_LEN then None else Some (ws_base64_encode bs))"

definition ws_compute_accept_key ::
    "(byte list \<Rightarrow> byte list) \<Rightarrow> string \<Rightarrow> nat \<Rightarrow> string option" where
  "ws_compute_accept_key sha1 key accept_key_size =
     (if accept_key_size < 29 then None
      else case snprintf_chk 256 (key @ WS_MAGIC_KEY) of
             None \<Rightarrow> None
           | Some combined \<Rightarrow> Some (ws_base64_encode (sha1 (bytes_of_string combined))))"

text \<open>The accept value determines the SHA-1 digest it was made from: two keys get the same
  accept value only if SHA-1 collides on them, and with a 20-byte digest the value is the
  28 characters the buffer check reserves.\<close>

theorem accept_key_binding:
  assumes "ws_compute_accept_key sha1 k1 n = Some a" "ws_compute_accept_key sha1 k2 n = Some a"
    and "\<And>m. length (sha1 m) = 20"
  shows "sha1 (bytes_of_string (k1 @ WS_MAGIC_KEY)) = sha1 (bytes_of_string (k2 @ WS_MAGIC_KEY))
    \<and> length a = 28 \<and> length a < n"
  using assms b64.enc_inj
  by (auto simp: ws_compute_accept_key_def length_b64_encode cstr split: if_splits option.splits)

theorem accept_key_binding_witness:
  "(\<lambda>m. replicate 20 0) (bytes_of_string (''k'' @ WS_MAGIC_KEY))
     = (\<lambda>m. replicate 20 (0 :: byte)) (bytes_of_string (''k'' @ WS_MAGIC_KEY))
   \<and> length (ws_base64_encode (replicate 20 0)) = 28 \<and> length (ws_base64_encode (replicate 20 0)) < 64"
  by (rule accept_key_binding [where ?sha1.0 = "\<lambda>m. replicate 20 0" and ?k1.0 = "''k''" and ?k2.0 = "''k''"])
     (simp_all add: ws_compute_accept_key_def snprintf_chk_def)

section \<open>Payload mask\<close>

text \<open>\<open>data[i] ^= mask[i % 4]\<close>.\<close>

definition ws_apply_mask :: "byte list \<Rightarrow> byte list \<Rightarrow> byte list" where
  "ws_apply_mask msk data = map (\<lambda>(i, b). b XOR msk ! (i mod 4)) (enumerate 0 data)"

lemma length_apply_mask [simp]: "length (ws_apply_mask m d) = length d"
  by (simp add: ws_apply_mask_def)

lemma nth_apply_mask: "i < length d \<Longrightarrow> ws_apply_mask m d ! i = d ! i XOR m ! (i mod 4)"
  by (simp add: ws_apply_mask_def nth_enumerate_eq)

lemma apply_mask_involution [simp]: "ws_apply_mask m (ws_apply_mask m d) = d"
  by (rule nth_equalityI) (simp_all add: nth_apply_mask xor.assoc)

end
