(* ===== verification/WsUrl.thy ===== *)
theory WsUrl
  imports WsCodec
begin

text \<open>
  Two parsers of \<open>src/network/websocket.c\<close>: \<open>parse_url\<close>, which splits a \<open>ws://\<close> or
  \<open>wss://\<close> endpoint, and \<open>ws_extract_header\<close>, which looks up a header in the handshake
  response.
\<close>

section \<open>Endpoint URLs\<close>

abbreviation WS_HOST_MAX :: nat where "WS_HOST_MAX \<equiv> 256"
abbreviation WS_PATH_MAX :: nat where "WS_PATH_MAX \<equiv> 512"

record ws_url =
  url_scheme :: string
  url_host :: string
  url_port :: int
  url_path :: string

definition url_split_scheme :: "string \<Rightarrow> (string \<times> int \<times> string) option" where
  "url_split_scheme url =
     (if starts_with ''ws://'' url then Some (''ws'', 80, drop 5 url)
      else if starts_with ''wss://'' url then Some (''wss'', 443, drop 6 url)
      else None)"

text \<open>\<open>colon && (!slash || colon < slash)\<close>: the longer suffix is the earlier pointer.\<close>

definition colon_first :: "string option \<Rightarrow> string option \<Rightarrow> bool" where
  "colon_first colon slash =
     (case colon of None \<Rightarrow> False
      | Some c \<Rightarrow> (case slash of None \<Rightarrow> True | Some s \<Rightarrow> length s < length c))"

definition parse_url :: "string \<Rightarrow> ws_url option" where
  "parse_url url =
     (case url_split_scheme url of None \<Rightarrow> None
      | Some (scheme, dflt_port, u) \<Rightarrow>
          let slash = strchr CHR ''/'' u;
              colon = strchr CHR '':'' u;
              finish = (\<lambda>h p rest. if length rest \<ge> WS_PATH_MAX then None
                          else Some \<lparr>url_scheme = scheme, url_host = h, url_port = p, url_path = rest\<rparr>)
          in if colon_first colon slash then
               (let host = upto_ptr u (the colon)
                in if length host \<ge> WS_HOST_MAX then None
                   else case strtol10 (tl (the colon)) of (port_val, endp, some_digit) \<Rightarrow>
                     if \<not> some_digit \<or> port_val < 1 \<or> port_val > 65535 then None
                     else if endp \<noteq> [] \<and> hd endp \<noteq> CHR ''/'' then None
                     else finish host port_val (case slash of Some s \<Rightarrow> s | None \<Rightarrow> ''/''))
             else
               (case slash of
                  Some s \<Rightarrow> if length (upto_ptr u s) \<ge> WS_HOST_MAX then None
                            else finish (upto_ptr u s) dflt_port s
                | None \<Rightarrow> if length u \<ge> WS_HOST_MAX then None else finish u dflt_port ''/''))"

lemma colon_first_True:
  assumes "c = CHR '':''" "CHR '':'' \<notin> set h" "CHR ''/'' \<notin> set h"
  shows "colon_first (Some (c # t)) (strchr CHR ''/'' (h @ c # t))"
proof (cases "strchr CHR ''/'' (h @ c # t)")
  case None
  then show ?thesis by (simp add: colon_first_def)
next
  case (Some s)
  have "strchr CHR ''/'' (h @ c # t) = strchr CHR ''/'' t"
    using assms by (induction h) auto
  with Some have "\<exists>a. t = a @ s" by (auto dest: strchr_Some)
  then show ?thesis using Some by (auto simp: colon_first_def)
qed

lemma strchr_skip_prefix [cstr]: "c \<notin> set h \<Longrightarrow> strchr c (h @ t) = strchr c t"
  by (induction h) auto

text \<open>The endpoints \<open>main\<close> builds: scheme, host, port and path are recovered.\<close>

definition url_text :: "string \<Rightarrow> string \<Rightarrow> nat option \<Rightarrow> string \<Rightarrow> string" where
  "url_text scheme host port path =
     scheme @ ''://'' @ host @ (case port of None \<Rightarrow> [] | Some p \<Rightarrow> CHR '':'' # show_nat p) @ path"

definition url_dflt_port :: "string \<Rightarrow> int" where
  "url_dflt_port scheme = (if scheme = ''wss'' then 443 else 80)"

lemma split_scheme_text:
  "scheme = ''ws'' \<or> scheme = ''wss'' \<Longrightarrow>
     url_split_scheme (scheme @ ''://'' @ u) = Some (scheme, url_dflt_port scheme, u)"
  by (auto simp: url_split_scheme_def starts_with_def url_dflt_port_def)

lemma parse_url_text_port:
  assumes "scheme = ''ws'' \<or> scheme = ''wss''" "CHR ''/'' \<notin> set host" "CHR '':'' \<notin> set host"
    "length host < 256" "path = [] \<or> hd path = CHR ''/''" "length path < 512"
    "1 \<le> p" "p \<le> 65535"
  shows "parse_url (url_text scheme host (Some p) path) =
     Some \<lparr>url_scheme = scheme, url_host = host, url_port = int p,
           url_path = (if path = [] then ''/'' else path)\<rparr>"
proof -
  let ?t = "show_nat p @ path" and ?u = "host @ CHR '':'' # show_nat p @ path"
  have colon: "strchr CHR '':'' ?u = Some (CHR '':'' # ?t)" using assms by (simp add: cstr)
  have "CHR ''/'' \<notin> set (show_nat p)"
    using show_nat_digits [of p] by (auto simp: c_isdigit_def)
  then have slash: "strchr CHR ''/'' ?u = (if path = [] then None else Some path)"
    using assms by (cases path) (auto simp: cstr)
  have num: "strtol10 ?t = (int p, path, True)"
    using assms by (intro strtol10_show_nat) (auto simp: c_isdigit_def c_limits)
  have "colon_first (Some (CHR '':'' # ?t)) (if path = [] then None else Some path)"
    using colon_first_True [of "CHR '':''" host ?t] assms slash by simp
  with assms split_scheme_text [OF assms(1), of ?u] show ?thesis
    by (auto simp: parse_url_def url_text_def colon slash num Let_def upto_ptr_append)
qed

lemma parse_url_text_noport:
  assumes "scheme = ''ws'' \<or> scheme = ''wss''" "CHR ''/'' \<notin> set host" "CHR '':'' \<notin> set host"
    "length host < 256" "path = [] \<or> hd path = CHR ''/''" "length path < 512"
  shows "parse_url (url_text scheme host None path) =
     Some \<lparr>url_scheme = scheme, url_host = host, url_port = url_dflt_port scheme,
           url_path = (if path = [] then ''/'' else path)\<rparr>"
proof -
  have slash: "strchr CHR ''/'' (host @ path) = (if path = [] then None else Some path)"
    using assms by (cases path) (auto simp: cstr)
  have colon: "strchr CHR '':'' (host @ path) = strchr CHR '':'' path" using assms by (simp add: cstr)
  have "\<not> colon_first (strchr CHR '':'' path) (if path = [] then None else Some path)"
    using assms(5) by (auto simp: colon_first_def split: option.splits dest!: strchr_Some)
  with assms split_scheme_text [OF assms(1), of "host @ path"] show ?thesis
    by (auto simp: parse_url_def url_text_def colon slash Let_def upto_ptr_append)
qed

text \<open>\<open>parse_url\<close> recovers the parts of every \<open>ws\<close>/\<open>wss\<close> endpoint: scheme, host, the
  given port or the scheme's default (80, 443), and the path, \<open>/\<close> when there is none.\<close>

theorem parse_url_complete:
  assumes "scheme = ''ws'' \<or> scheme = ''wss''" "CHR ''/'' \<notin> set host" "CHR '':'' \<notin> set host"
    "length host < 256" "path = [] \<or> hd path = CHR ''/''" "length path < 512"
    "\<forall>p. port = Some p \<longrightarrow> 1 \<le> p \<and> p \<le> 65535"
  shows "parse_url (url_text scheme host port path) =
     Some \<lparr>url_scheme = scheme, url_host = host,
           url_port = (case port of None \<Rightarrow> url_dflt_port scheme | Some p \<Rightarrow> int p),
           url_path = (if path = [] then ''/'' else path)\<rparr>"
  using parse_url_text_port [OF assms(1-6)] parse_url_text_noport [OF assms(1-6)] assms(7)
  by (cases port) auto

theorem parse_url_complete_witness:
  "parse_url (url_text ''wss'' ''panel.example.com'' (Some 8443) ''/ws'') =
     Some \<lparr>url_scheme = ''wss'', url_host = ''panel.example.com'',
           url_port = (case Some 8443 of None \<Rightarrow> url_dflt_port ''wss'' | Some p \<Rightarrow> int p),
           url_path = (if ''/ws'' = [] then ''/'' else ''/ws'')\<rparr>"
  by (rule parse_url_complete) simp_all

lemma upto_ptr_facts:
  "strchr c u = Some s \<Longrightarrow> u = upto_ptr u s @ s \<and> c \<notin> set (upto_ptr u s) \<and> s \<noteq> [] \<and> hd s = c"
  by (auto dest!: strchr_Some simp: upto_ptr_append)

lemma colon_first_prefix:
  assumes "strchr a u = Some s" "length s \<le> length t"
  shows "a \<notin> set (upto_ptr u t)"
proof -
  have "upto_ptr u t = take (length u - length t) (upto_ptr u s)"
    using assms(2) by (simp add: upto_ptr_def min_def)
  then show ?thesis using upto_ptr_facts [OF assms(1)] by (metis in_set_takeD)
qed

text \<open>What an accepted URL satisfies, case by case of the two branches.\<close>

definition ws_url_ok :: "string \<Rightarrow> ws_url \<Rightarrow> bool" where
  "ws_url_ok url r \<longleftrightarrow>
     (url_scheme r = ''ws'' \<or> url_scheme r = ''wss'')
     \<and> (\<exists>t. url = url_scheme r @ ''://'' @ url_host r @ t)
     \<and> length (url_host r) < 256 \<and> CHR ''/'' \<notin> set (url_host r) \<and> CHR '':'' \<notin> set (url_host r)
     \<and> 1 \<le> url_port r \<and> url_port r \<le> 65535
     \<and> length (url_path r) < 512 \<and> (\<exists>t. url_path r = CHR ''/'' # t)"

lemma split_scheme_Some:
  "url_split_scheme url = Some (sch, dp, u) \<Longrightarrow>
     (sch = ''ws'' \<or> sch = ''wss'') \<and> url = sch @ ''://'' @ u \<and> (dp = 80 \<or> dp = 443)"
  by (auto simp: url_split_scheme_def starts_with_prefix split: if_splits)

lemma slash_path: "strchr CHR ''/'' u = Some s \<Longrightarrow> \<exists>t. s = CHR ''/'' # t"
  by (auto dest: strchr_Some)

lemma parse_url_port_ok:
  assumes sch: "url_split_scheme url = Some (sch, dp, u)"
    and cf: "colon_first (strchr CHR '':'' u) (strchr CHR ''/'' u)" and r: "parse_url url = Some r"
  shows "ws_url_ok url r"
proof -
  from cf obtain c where c: "strchr CHR '':'' u = Some c"
    by (auto simp: colon_first_def split: option.splits)
  note cfacts = upto_ptr_facts [OF c]
  have slash_free: "CHR ''/'' \<notin> set (upto_ptr u c)"
  proof (cases "strchr CHR ''/'' u")
    case None
    then show ?thesis using cfacts by (metis Un_iff set_append strchr_None)
  next
    case (Some s)
    with cf c have "length s \<le> length c" by (simp add: colon_first_def)
    with Some show ?thesis by (rule colon_first_prefix)
  qed
  obtain v e d where n: "strtol10 (tl c) = (v, e, d)" by (metis prod_cases3)
  from r sch cf c n show ?thesis
    using split_scheme_Some [OF sch] cfacts slash_free
    by (auto simp: parse_url_def Let_def ws_url_ok_def split: if_splits option.splits dest: slash_path)
qed

lemma parse_url_plain_ok:
  assumes sch: "url_split_scheme url = Some (sch, dp, u)"
    and cf: "\<not> colon_first (strchr CHR '':'' u) (strchr CHR ''/'' u)" and r: "parse_url url = Some r"
  shows "ws_url_ok url r"
proof (cases "strchr CHR ''/'' u")
  case None
  with cf have "strchr CHR '':'' u = None" by (auto simp: colon_first_def split: option.splits)
  with None have "CHR ''/'' \<notin> set u" "CHR '':'' \<notin> set u" by (simp_all add: strchr_None)
  with r sch cf None show ?thesis
    using split_scheme_Some [OF sch] by (auto simp: parse_url_def Let_def ws_url_ok_def split: if_splits)
next
  case (Some s)
  note sfacts = upto_ptr_facts [OF Some]
  have "CHR '':'' \<notin> set (upto_ptr u s)"
  proof (cases "strchr CHR '':'' u")
    case None
    then show ?thesis using sfacts by (metis Un_iff set_append strchr_None)
  next
    case (Some c)
    with cf \<open>strchr CHR ''/'' u = _\<close> have "length c \<le> length s" by (simp add: colon_first_def)
    with Some show ?thesis by (rule colon_first_prefix)
  qed
  with r sch cf Some sfacts show ?thesis
    using split_scheme_Some [OF sch]
    by (auto simp: parse_url_def Let_def ws_url_ok_def split: if_splits dest: slash_path)
qed

text \<open>Whatever \<open>parse_url\<close> accepts fits the caller's fixed buffers (host 256, path 512) and
  has a port in 1..65535, a scheme \<open>ws\<close> or \<open>wss\<close>, a host without \<open>:\<close> and \<open>/\<close> that follows
  the scheme in the input, and a path that starts with \<open>/\<close>.\<close>

theorem parse_url_sound:
  assumes "parse_url url = Some r"
  shows "ws_url_ok url r"
proof -
  from assms obtain sch dp u where "url_split_scheme url = Some (sch, dp, u)"
    by (auto simp: parse_url_def split: option.splits)
  with assms show ?thesis
    using parse_url_port_ok parse_url_plain_ok by blast
qed

theorem parse_url_sound_witness:
  "ws_url_ok ''ws://h:9/p'' \<lparr>url_scheme = ''ws'', url_host = ''h'', url_port = 9, url_path = ''/p''\<rparr>"
  by (rule parse_url_sound)
     (simp add: parse_url_def url_split_scheme_def starts_with_def colon_first_def Let_def upto_ptr_def
        strtol10_def c_isspace_def c_isdigit_def clamp_long_def c_limits digits_val_def digit_val_def)

section \<open>Header lookup\<close>

definition crlf :: string where "crlf = [cr, lf]"

text \<open>The case-insensitive comparison loop: the suffix after the name when all of it matched.\<close>

fun match_name :: "string \<Rightarrow> string \<Rightarrow> string option" where
  "match_name line [] = Some line"
| "match_name [] (n # ns) = None"
| "match_name (c # cs) (n # ns) =
     (if c = cr \<or> c = lf then None
      else if c_tolower c \<noteq> c_tolower n then None
      else match_name cs ns)"

definition is_blank :: "char \<Rightarrow> bool" where
  "is_blank c \<longleftrightarrow> c = CHR '' '' \<or> c = tab"

definition header_value :: "string \<Rightarrow> string" where
  "header_value v0 =
     (let v = dropWhile is_blank v0;
          raw = (case strstr crlf v of Some e \<Rightarrow> upto_ptr v e | None \<Rightarrow> v)
      in rev (dropWhile is_blank (rev raw)))"

text \<open>\<open>i == name_len && line[name_len] == ':'\<close>: the text after the colon.\<close>

definition header_hit :: "string \<Rightarrow> string \<Rightarrow> string option" where
  "header_hit line name =
     (case match_name line name of Some (c # v) \<Rightarrow> if c = CHR '':'' then Some v else None | _ \<Rightarrow> None)"

lemma strstr_length: "strstr p s = Some t \<Longrightarrow> length t \<le> length s"
  by (auto dest: strstr_Some)

function scan_headers :: "string \<Rightarrow> string \<Rightarrow> nat \<Rightarrow> string option" where
  "scan_headers line name out_size =
     (if line = [] then None
      else if starts_with crlf line \<or> hd line = lf then None
      else case header_hit line name of
             Some v \<Rightarrow>
               (let val = header_value v in if length val + 1 > out_size then None else Some val)
           | None \<Rightarrow> (case strstr crlf line of None \<Rightarrow> None
                     | Some e \<Rightarrow> scan_headers (drop 2 e) name out_size))"
  by pat_completeness auto
termination
  by (relation "measure (\<lambda>(line, _). length line)") (auto dest!: strstr_length simp: neq_Nil_conv)

declare scan_headers.simps [simp del]

definition ws_extract_header :: "string \<Rightarrow> string \<Rightarrow> nat \<Rightarrow> string option" where
  "ws_extract_header response header_name out_size =
     (if out_size = 0 \<or> header_name = [] then None
      else case strstr crlf response of None \<Rightarrow> None
           | Some e \<Rightarrow> scan_headers (drop 2 e) header_name out_size)"

text \<open>A block of header lines as a server writes it, ended by an empty line.\<close>

definition header_line :: "string \<times> string \<Rightarrow> string" where
  "header_line h = fst h @ CHR '':'' # CHR '' '' # snd h @ crlf"

definition header_block :: "(string \<times> string) list \<Rightarrow> string" where
  "header_block hs = concat (map header_line hs) @ crlf"

text \<open>Names are non-empty tokens; values carry no line break and no blank at either end.\<close>

definition wf_header :: "string \<times> string \<Rightarrow> bool" where
  "wf_header h \<longleftrightarrow> fst h \<noteq> [] \<and> CHR '':'' \<notin> set (fst h) \<and> \<not> contains_crlf (fst h)
     \<and> \<not> contains_crlf (snd h)
     \<and> (snd h \<noteq> [] \<longrightarrow> \<not> is_blank (hd (snd h)) \<and> \<not> is_blank (last (snd h)))"

lemma crlf_facts [simp]: "crlf \<noteq> []" "length crlf = 2" "cr \<noteq> lf" "lf \<noteq> cr" "cr \<noteq> CHR '':''"
  "\<not> is_blank cr" "lf \<noteq> CHR '':''"
  by (simp_all add: crlf_def cr_def lf_def is_blank_def tab_def)

lemma strstr_crlf [cstr]: "cr \<notin> set a \<Longrightarrow> strstr crlf (a @ crlf @ t) = Some (crlf @ t)"
proof (induction a)
  case Nil
  then show ?case by (simp add: strstr_hit)
next
  case (Cons x a)
  then show ?case by (auto simp: starts_with_def crlf_def)
qed

lemma header_value_line:
  assumes "wf_header (k, v)"
  shows "header_value (CHR '' '' # v @ crlf @ t) = v"
proof -
  have "cr \<notin> set v" using assms by (simp add: wf_header_def contains_crlf_iff)
  then have "strstr crlf (v @ crlf @ t) = Some (crlf @ t)" by (rule strstr_crlf)
  moreover have "dropWhile is_blank (CHR '' '' # v @ crlf @ t) = v @ crlf @ t"
    using assms by (cases v) (auto simp: wf_header_def is_blank_def crlf_def cr_def tab_def)
  moreover have "upto_ptr (v @ crlf @ t) (crlf @ t) = v" by (rule upto_ptr_append)
  moreover have "rev (dropWhile is_blank (rev v)) = v"
    using assms by (cases v rule: rev_cases) (auto simp: wf_header_def)
  ultimately show ?thesis by (simp add: header_value_def Let_def)
qed

lemma tolower_colon: "c_tolower c = CHR '':'' \<longleftrightarrow> c = CHR '':''"
proof -
  have "char_of (char_code c + 32) \<noteq> CHR '':''" if "65 \<le> char_code c" "char_code c \<le> 90"
  proof
    assume "char_of (char_code c + 32) = CHR '':''"
    then have "char_code (char_of (char_code c + 32)) = char_code CHR '':''" by simp
    with that show False by simp
  qed
  then show ?thesis by (auto simp: c_tolower_def)
qed

lemma tolower_colon_eq [simp]: "c_tolower CHR '':'' = c_tolower a \<longleftrightarrow> a = CHR '':''"
  by (metis tolower_colon)

lemma tolower_colon_eq2 [simp]: "c_tolower a = c_tolower CHR '':'' \<longleftrightarrow> a = CHR '':''"
  by (metis tolower_colon)

lemma header_block_Cons [simp]: "header_block (h # hs) = header_line h @ header_block hs"
  by (simp add: header_block_def)

lemma drop_crlf [simp]: "drop 2 (crlf @ t) = t"
  by (simp add: crlf_def)

lemma header_hit_line:
  "CHR '':'' \<notin> set k \<Longrightarrow> \<not> contains_crlf k \<Longrightarrow> CHR '':'' \<notin> set name \<Longrightarrow>
     header_hit (k @ CHR '':'' # t) name = (if strcaseeq k name then Some t else None)"
proof (induction k arbitrary: name)
  case Nil
  then show ?case
    by (cases name) (auto simp: header_hit_def strcaseeq_def)
next
  case (Cons c k)
  then have "c \<noteq> cr" "c \<noteq> lf" "c \<noteq> CHR '':''" "\<not> contains_crlf k" by (auto simp: contains_crlf_iff)
  with Cons show ?case by (cases name) (auto simp: header_hit_def strcaseeq_def)
qed

lemma header_hit_extra_colon:
  "CHR '':'' \<notin> set k \<Longrightarrow> \<not> contains_crlf k \<Longrightarrow> CHR '':'' \<notin> set name \<Longrightarrow> hd t \<noteq> CHR '':'' \<Longrightarrow> t \<noteq> []
     \<Longrightarrow> header_hit (k @ CHR '':'' # t) (name @ [CHR '':'']) = None"
proof (induction k arbitrary: name)
  case Nil
  then show ?case
    by (cases name; cases t) (auto simp: header_hit_def)
next
  case (Cons c k)
  then have "c \<noteq> cr" "c \<noteq> lf" "c \<noteq> CHR '':''" "\<not> contains_crlf k" by (auto simp: contains_crlf_iff)
  with Cons show ?case
    by (cases name) (auto simp: header_hit_def tolower_colon)
qed

text \<open>One step of the scan over a well-formed line.\<close>

lemma header_line_start:
  assumes "wf_header h"
  shows "header_line h @ t \<noteq> []" "\<not> starts_with crlf (header_line h @ t)" "hd (header_line h @ t) \<noteq> lf"
  using assms by (cases "fst h"; auto simp: wf_header_def header_line_def starts_with_def crlf_def
      contains_crlf_iff)+

lemma header_line_next:
  assumes "wf_header h"
  shows "strstr crlf (header_line h @ t) = Some (crlf @ t)"
proof -
  have "cr \<notin> set (fst h @ CHR '':'' # CHR '' '' # snd h)"
    using assms by (auto simp: wf_header_def contains_crlf_iff cr_def)
  then have "strstr crlf ((fst h @ CHR '':'' # CHR '' '' # snd h) @ crlf @ t) = Some (crlf @ t)"
    by (rule strstr_crlf)
  then show ?thesis by (simp add: header_line_def)
qed

lemma scan_header_line:
  assumes "wf_header h"
  shows "scan_headers (header_line h @ t) name n =
     (case header_hit (header_line h @ t) name of
        Some v \<Rightarrow> (let val = header_value v in if length val + 1 > n then None else Some val)
      | None \<Rightarrow> scan_headers t name n)"
  using header_line_start [OF assms, of t] header_line_next [OF assms, of t]
  by (subst scan_headers.simps; cases "header_hit (header_line h @ t) name") auto

lemma scan_headers_end: "scan_headers (crlf @ t) name n = None"
  by (subst scan_headers.simps) (simp add: starts_with_append)

lemma scan_headers_block:
  assumes "\<forall>h \<in> set hs. wf_header h" "CHR '':'' \<notin> set name"
  shows "scan_headers (header_block hs @ t) name n =
     (case find (\<lambda>h. strcaseeq (fst h) name) hs of
        None \<Rightarrow> None
      | Some h \<Rightarrow> if length (snd h) + 1 > n then None else Some (snd h))"
  using assms(1)
proof (induction hs)
  case Nil
  show ?case by (simp add: header_block_def scan_headers_end)
next
  case (Cons h hs)
  obtain k v where h: "h = (k, v)" by (cases h)
  have wf: "wf_header (k, v)" using Cons.prems h by simp
  have "header_hit (header_line h @ header_block hs @ t) name =
      (if strcaseeq k name then Some (CHR '' '' # v @ crlf @ header_block hs @ t) else None)"
    using wf assms(2) header_hit_line [of k name "CHR '' '' # v @ crlf @ header_block hs @ t"]
    by (simp add: header_line_def h wf_header_def)
  with Cons show ?case
    using header_value_line [OF wf, of "header_block hs @ t"]
    by (simp add: scan_header_line h Let_def)
qed

text \<open>On a well-formed response, \<open>ws_extract_header\<close> called with a bare header name returns
  the value of the first header of that name, compared without regard to case, and fails when
  there is none or when the value and its NUL do not fit.\<close>

theorem extract_header_correct:
  assumes "\<forall>h \<in> set hs. wf_header h" "CHR '':'' \<notin> set name" "name \<noteq> []" "0 < n" "cr \<notin> set status"
  shows "ws_extract_header (status @ crlf @ header_block hs @ body) name n =
     (case find (\<lambda>h. strcaseeq (fst h) name) hs of
        None \<Rightarrow> None
      | Some h \<Rightarrow> if length (snd h) + 1 > n then None else Some (snd h))"
proof -
  have "strstr crlf (status @ crlf @ header_block hs @ body) = Some (crlf @ header_block hs @ body)"
    using assms(5) by (rule strstr_crlf)
  then show ?thesis
    using assms scan_headers_block [OF assms(1,2)] by (simp add: ws_extract_header_def)
qed

theorem extract_header_correct_witness:
  "ws_extract_header (''HTTP/1.1 101 OK'' @ crlf @ header_block [(''Upgrade'', ''websocket''), (''X-A'', ''v'')] @ [])
      ''x-a'' 128 =
     (case find (\<lambda>h. strcaseeq (fst h) ''x-a'') [(''Upgrade'', ''websocket''), (''X-A'', ''v'')] of
        None \<Rightarrow> None
      | Some h \<Rightarrow> if length (snd h) + 1 > 128 then None else Some (snd h))"
  by (rule extract_header_correct)
     (simp_all add: wf_header_def contains_crlf_iff is_blank_def cr_def lf_def tab_def)

lemma scan_extra_colon:
  assumes "\<forall>h \<in> set hs. wf_header h" "CHR '':'' \<notin> set name"
  shows "scan_headers (header_block hs @ t) (name @ [CHR '':'']) n = None"
  using assms(1)
proof (induction hs)
  case Nil
  show ?case by (simp add: header_block_def scan_headers_end)
next
  case (Cons h hs)
  obtain k v where h: "h = (k, v)" by (cases h)
  have "header_hit (header_line h @ header_block hs @ t) (name @ [CHR '':'']) = None"
    using Cons.prems assms(2) header_hit_extra_colon [of k name "CHR '' '' # v @ crlf @ header_block hs @ t"]
    by (simp add: header_line_def h wf_header_def)
  with Cons show ?case
    by (simp add: scan_header_line)
qed

end
