(* ===== verification/Idn.thy ===== *)
theory Idn
  imports Utils WsUrl
begin

text \<open>
  The conversion of internationalised host names of \<open>src/network/idn.c\<close>: UTF-8 decoding, Punycode
  (RFC 3492), labels, hosts and URLs.  \<open>inet_pton\<close> is a parameter.  A buffer is the list written so
  far; the return values -1 and -2 are \<open>IdnInvalid\<close> and \<open>IdnTooLong\<close>.
\<close>

unbundle bit_operations_syntax

datatype idn_error = IdnInvalid | IdnTooLong | IdnFuel

section \<open>UTF-8\<close>

text \<open>The decoder of the source: continuation bytes are masked, not checked; at most 1024 code
  points are stored.\<close>

function utf8_decode :: "string \<Rightarrow> nat list \<Rightarrow> nat list option" where
  "utf8_decode s cps =
     (case s of [] \<Rightarrow> Some cps
      | ch # r \<Rightarrow>
         if length cps \<ge> 1024 then Some cps
         else let c = char_code ch; b = (\<lambda>i. char_code (r ! i) AND 63) in
           if c < 128 then utf8_decode r (cps @ [c])
           else if c AND 224 = 192 then
             (if length r < 1 then None
              else utf8_decode (drop 1 r) (cps @ [push_bit 6 (c AND 31) OR b 0]))
           else if c AND 240 = 224 then
             (if length r < 2 then None
              else utf8_decode (drop 2 r) (cps @ [push_bit 12 (c AND 15) OR push_bit 6 (b 0) OR b 1]))
           else if c AND 248 = 240 then
             (if length r < 3 then None
              else utf8_decode (drop 3 r)
                (cps @ [push_bit 18 (c AND 7) OR push_bit 12 (b 0) OR push_bit 6 (b 1) OR b 2]))
           else None)"
  by pat_completeness auto
termination
  by (relation "measure (\<lambda>(s, cps). length s)") auto

declare utf8_decode.simps [simp del]

section \<open>Punycode\<close>

text \<open>\<open>/\<close> and \<open>>>\<close> are applied to non-negative values (see \<open>adapt_rfc\<close>).\<close>

function adapt_loop :: "int \<Rightarrow> int \<Rightarrow> int \<times> int" where
  "adapt_loop delta k = (if delta > 455 then adapt_loop (delta div 35) (k + 36) else (delta, k))"
  by pat_completeness auto
termination
  by (relation "measure (\<lambda>(delta, k). nat delta)") auto

declare adapt_loop.simps [simp del]

definition adapt :: "int \<Rightarrow> int \<Rightarrow> bool \<Rightarrow> int" where
  "adapt delta numpoints first =
     (let d1 = (if first then delta div 700 else delta div 2);
          d2 = d1 + d1 div numpoints
      in case adapt_loop d2 0 of (d, k) \<Rightarrow> k + 36 * d div (d + 38))"

definition puny_digit :: "int \<Rightarrow> char" where
  "puny_digit digit = (if digit < 26 then char_of (nat ((97 + digit) mod 256))
                       else char_of (nat ((48 + (digit - 26)) mod 256)))"

definition puny_t :: "int \<Rightarrow> int \<Rightarrow> int" where
  "puny_t k bias = (if k \<le> bias then 1 else if k \<ge> bias + 26 then 26 else k - bias)"

lemma puny_t_range: "1 \<le> puny_t k bias \<and> puny_t k bias \<le> 26"
  by (simp add: puny_t_def)

text \<open>\<open>if (out_idx >= output_size - 1) return -2; output[out_idx++] = c\<close>.\<close>

definition idn_put :: "nat \<Rightarrow> char \<Rightarrow> string \<Rightarrow> idn_error + string" where
  "idn_put size1 c out = (if length out \<ge> size1 - 1 then Inl IdnTooLong else Inr (out @ [c]))"

lemma puny_q_decreases:
  assumes "1 \<le> t" "t \<le> 26" "t \<le> (q::int)"
  shows "0 \<le> (q - t) div (36 - t)" "(q - t) div (36 - t) < q"
proof -
  show "0 \<le> (q - t) div (36 - t)" using assms by (simp add: pos_imp_zdiv_nonneg_iff)
  show "(q - t) div (36 - t) < q"
  proof (cases "q = t")
    case False
    then have "(q - t) div (36 - t) < q - t" using assms by (intro int_div_less_self) auto
    then show ?thesis using assms by simp
  qed (use assms in simp)
qed

lemma puny_q_measure: "\<not> q < puny_t k bias \<Longrightarrow> 0 < q \<and> (q - puny_t k bias) div (36 - puny_t k bias) < q"
  using puny_t_range [of k bias] puny_q_decreases [of "puny_t k bias" q] by simp

function puny_digits :: "nat \<Rightarrow> int \<Rightarrow> int \<Rightarrow> int \<Rightarrow> string \<Rightarrow> idn_error + string" where
  "puny_digits size1 bias q k out =
     (let t = puny_t k bias
      in if q < t then idn_put size1 (puny_digit q) out
         else case idn_put size1 (puny_digit (t + (q - t) mod (36 - t))) out of
                Inl e \<Rightarrow> Inl e
              | Inr out' \<Rightarrow> puny_digits size1 bias ((q - t) div (36 - t)) (k + 36) out')"
  by pat_completeness auto
termination
  by (relation "measure (\<lambda>(size1, bias, q, k, out). nat q)") (simp_all add: puny_q_measure)

declare puny_digits.simps [simp del]

fun puny_basic :: "nat \<Rightarrow> nat list \<Rightarrow> string \<Rightarrow> idn_error + string" where
  "puny_basic size1 [] out = Inr out"
| "puny_basic size1 (c # cs) out =
     (if c < 128 then
        (case idn_put size1 (char_of c) out of Inl e \<Rightarrow> Inl e | Inr out' \<Rightarrow> puny_basic size1 cs out')
      else puny_basic size1 cs out)"

text \<open>The inner loop over the code points, for one value \<open>n\<close>; the state is the output, the bias,
  \<open>delta\<close> and \<open>h\<close>.  \<open>int q = delta\<close> converts to \<open>int\<close>.\<close>

type_synonym puny_state = "string \<times> int \<times> nat \<times> nat"

fun puny_pass :: "nat \<Rightarrow> nat \<Rightarrow> nat \<Rightarrow> nat list \<Rightarrow> puny_state \<Rightarrow> idn_error + puny_state" where
  "puny_pass size1 n b [] st = Inr st"
| "puny_pass size1 n b (c # cs) (out, bias, delta, h) =
     (let delta1 = (if c < n then (delta + 1) mod 2 ^ 64 else delta)
      in if c < n \<and> delta1 = 0 then Inl IdnTooLong
         else if c = n then
           (let q = c_int_of_long (int delta1)
            in case puny_digits size1 bias q 36 out of
                 Inl e \<Rightarrow> Inl e
               | Inr out' \<Rightarrow> puny_pass size1 n b cs (out', adapt q (int h + 1) (h = b), 0, h + 1))
         else puny_pass size1 n b cs (out, bias, delta1, h))"

definition puny_min :: "nat \<Rightarrow> nat list \<Rightarrow> nat" where
  "puny_min n cps = foldl (\<lambda>m c. if c \<ge> n \<and> c < m then c else m) 4294967295 cps"

text \<open>The outer loop with fuel; \<open>puny_never_fuel\<close> shows one unit more than the number of code points
  is enough.  The differences are of type \<open>size_t\<close>.\<close>

fun puny_outer :: "nat \<Rightarrow> nat \<Rightarrow> nat \<Rightarrow> nat list \<Rightarrow> nat \<Rightarrow> puny_state \<Rightarrow> idn_error + string" where
  "puny_outer 0 size1 b cps n st = Inl IdnFuel"
| "puny_outer (Suc f) size1 b cps n (out, bias, delta, h) =
     (if h \<ge> length cps then Inr out
      else let m = puny_min n cps; d = (int m - int n) mod 2 ^ 64
           in if d > (4294967295 - int delta) mod 2 ^ 64 div (int h + 1) then Inl IdnTooLong
              else case puny_pass size1 m b cps (out, bias, delta + nat d * (h + 1), h) of
                     Inl e \<Rightarrow> Inl e
                   | Inr (out', bias', delta', h') \<Rightarrow>
                       puny_outer f size1 b cps (m + 1) (out', bias', delta' + 1, h'))"

definition idn_punycode_encode :: "string \<Rightarrow> nat \<Rightarrow> idn_error + string" where
  "idn_punycode_encode input output_size =
     (if output_size = 0 then Inl IdnInvalid
      else case utf8_decode input [] of
        None \<Rightarrow> Inl IdnInvalid
      | Some cps \<Rightarrow>
         (case puny_basic output_size cps [] of
            Inl e \<Rightarrow> Inl e
          | Inr out \<Rightarrow>
             let b = length out
             in (case (if b > 0 \<and> b < length cps then idn_put output_size CHR ''-'' out else Inr out) of
                  Inl e \<Rightarrow> Inl e
                | Inr out' \<Rightarrow> puny_outer (length cps + 1) output_size b cps 128 (out', 72, 0, b))))"

section \<open>Labels, hosts and URLs\<close>

abbreviation IDN_MAX_INPUT_LEN :: nat where "IDN_MAX_INPUT_LEN \<equiv> 1024"
abbreviation IDN_MAX_OUTPUT_LEN :: nat where "IDN_MAX_OUTPUT_LEN \<equiv> 2048"

definition non_ascii :: "char \<Rightarrow> bool" where "non_ascii c \<longleftrightarrow> char_code c \<ge> 128"

definition idn_contains_non_ascii :: "string \<Rightarrow> bool" where
  "idn_contains_non_ascii str = list_ex non_ascii str"

definition punycode_encode_label :: "string \<Rightarrow> nat \<Rightarrow> idn_error + string" where
  "punycode_encode_label label output_size =
     (if output_size = 0 then Inl IdnInvalid
      else if label = [] then Inr []
      else if \<not> list_ex non_ascii label then
        (if length label \<ge> output_size then Inl IdnTooLong else Inr label)
      else if output_size \<le> 4 then Inl IdnTooLong
      else case idn_punycode_encode label IDN_MAX_OUTPUT_LEN of
             Inl e \<Rightarrow> Inl (if e = IdnFuel then IdnFuel else IdnTooLong)
           | Inr buf \<Rightarrow>
               let encoded = takeWhile (\<lambda>c. c \<noteq> nul) buf
               in if 4 + length encoded + 1 > output_size then Inl IdnTooLong
               else Inr (''xn--'' @ encoded))"

text \<open>The loop over the labels; \<open>out\<close> is the buffer up to \<open>out_idx\<close>.\<close>

function idn_labels :: "nat \<Rightarrow> string \<Rightarrow> string \<Rightarrow> idn_error + string" where
  "idn_labels output_size p out =
     (let dot = strchr CHR ''.'' p;
          label = (case dot of Some d \<Rightarrow> upto_ptr p d | None \<Rightarrow> p)
      in case punycode_encode_label label IDN_MAX_OUTPUT_LEN of
           Inl e \<Rightarrow> Inl (if e = IdnFuel then IdnFuel else IdnTooLong)
         | Inr encoded \<Rightarrow>
             if length out + length encoded \<ge> output_size then Inl IdnTooLong
             else (case dot of
                    None \<Rightarrow> Inr (out @ encoded)
                  | Some d \<Rightarrow>
                      if length (out @ encoded) + 1 \<ge> output_size then Inl IdnTooLong
                      else idn_labels output_size (tl d) (out @ encoded @ ''.'')))"
  by pat_completeness auto
termination
proof (relation "measure (\<lambda>(n, p, out). length p)", simp)
  fix output_size p out dot label encoded d
  assume "dot = strchr CHR ''.'' p" "dot = Some d"
  then obtain a where "p = a @ d" "d \<noteq> []" by (metis strchr_Some list.distinct(1))
  then show "((output_size, tl d, out @ encoded @ ''.''), output_size, p, out)
      \<in> measure (\<lambda>(n, p, out). length p)" by (cases d) auto
qed

declare idn_labels.simps [simp del]

definition idn_to_ascii :: "string \<Rightarrow> nat \<Rightarrow> idn_error + string" where
  "idn_to_ascii hostname output_size =
     (if output_size = 0 then Inl IdnInvalid
      else if hostname = [] then Inr [] else idn_labels output_size hostname [])"

definition reassemble_host :: "string \<Rightarrow> string option \<Rightarrow> bool \<Rightarrow> nat \<Rightarrow> idn_error + string" where
  "reassemble_host ascii_host port wrap_brackets output_size =
     (let host = (if wrap_brackets then ''['' @ ascii_host @ '']'' else ascii_host);
          text1 = host @ (case port of Some p \<Rightarrow> p | None \<Rightarrow> [])
      in case snprintf_chk output_size text1 of None \<Rightarrow> Inl IdnTooLong | Some t \<Rightarrow> Inr t)"

text \<open>\<open>strncpy(output, host, output_size - 1)\<close> and the terminator, for literal addresses.\<close>

definition idn_convert_host_to_ascii ::
    "(string \<Rightarrow> bool) \<Rightarrow> (string \<Rightarrow> bool) \<Rightarrow> string \<Rightarrow> nat \<Rightarrow> idn_error + string" where
  "idn_convert_host_to_ascii pton4 pton6 host output_size =
     (let encode_host = (\<lambda>hostname port wrap.
            case idn_to_ascii hostname IDN_MAX_OUTPUT_LEN of
              Inl e \<Rightarrow> Inl (if e = IdnFuel then IdnFuel else IdnTooLong)
            | Inr encoded \<Rightarrow> reassemble_host encoded port wrap output_size);
          plain = (if length (filter (\<lambda>c. c = CHR '':'') host) > 1
                   then Inr (strncpy_term output_size host)
                   else case strrchr CHR '':'' host of
                      Some colon \<Rightarrow>
                        if length (upto_ptr host colon) \<ge> IDN_MAX_OUTPUT_LEN then Inl IdnInvalid
                        else encode_host (upto_ptr host colon) (Some colon) False
                    | None \<Rightarrow>
                        if length host \<ge> IDN_MAX_OUTPUT_LEN then Inl IdnInvalid
                        else encode_host host None False)
      in if output_size = 0 then Inl IdnInvalid
         else if pton4 host \<or> pton6 host then Inr (strncpy_term output_size host)
         else if host \<noteq> [] \<and> hd host = CHR ''['' then
           (case strchr CHR '']'' host of
              Some close1 \<Rightarrow>
                let hostname = upto_ptr (tl host) close1;
                    port = (if starts_with '':'' (tl close1) then Some (tl close1) else None)
                in if length hostname \<ge> IDN_MAX_OUTPUT_LEN then Inl IdnInvalid
                   else if pton6 hostname then reassemble_host hostname port True output_size
                   else encode_host hostname port True
            | None \<Rightarrow> plain)
         else plain)"

text \<open>The end of the host: the first of \<open>/\<close>, \<open>?\<close>, \<open>#\<close>; the longer suffix is the earlier pointer.\<close>

definition host_end :: "string \<Rightarrow> string" where
  "host_end host_start =
     (let earlier = (\<lambda>q e. case q of None \<Rightarrow> e
                       | Some qs \<Rightarrow> (case e of None \<Rightarrow> Some qs
                            | Some es \<Rightarrow> if length qs > length es then Some qs else Some es));
          e = earlier (strchr CHR ''#'' host_start)
                (earlier (strchr CHR ''?'' host_start) (strchr CHR ''/'' host_start))
      in case e of Some t \<Rightarrow> t | None \<Rightarrow> [])"

definition idn_convert_url_to_ascii ::
    "(string \<Rightarrow> bool) \<Rightarrow> (string \<Rightarrow> bool) \<Rightarrow> string \<Rightarrow> nat \<Rightarrow> idn_error + string" where
  "idn_convert_url_to_ascii pton4 pton6 url_str output_size =
     (if output_size = 0 then Inl IdnInvalid
      else let host_start = (case strstr ''://'' url_str of Some s \<Rightarrow> drop 3 s | None \<Rightarrow> url_str);
               scheme = upto_ptr url_str host_start;
               rest = host_end host_start;
               host = upto_ptr host_start rest
           in if length host \<ge> IDN_MAX_INPUT_LEN then Inl IdnInvalid
              else case idn_convert_host_to_ascii pton4 pton6 host IDN_MAX_OUTPUT_LEN of
                     Inl e \<Rightarrow> Inl (if e = IdnFuel then IdnFuel else IdnTooLong)
                   | Inr ascii_host \<Rightarrow>
                       (case snprintf_chk output_size (scheme @ ascii_host @ rest) of
                          None \<Rightarrow> Inl IdnTooLong | Some t \<Rightarrow> Inr t))"

end
