(* ===== verification/IdnProps.thy ===== *)
theory IdnProps
  imports Idn
begin

text \<open>
  The Punycode encoder of \<open>src/network/idn.c\<close> against the decoder of RFC 3492.
\<close>

unbundle bit_operations_syntax

section \<open>The decoder of RFC 3492, section 6.2\<close>

function rfc_adapt_loop :: "nat \<Rightarrow> nat \<Rightarrow> nat" where
  "rfc_adapt_loop delta k =
     (if delta > 455 then rfc_adapt_loop (delta div 35) (k + 36) else k + 36 * delta div (delta + 38))"
  by pat_completeness auto
termination
  by (relation "measure fst") auto

declare rfc_adapt_loop.simps [simp del]

definition rfc_adapt :: "nat \<Rightarrow> nat \<Rightarrow> bool \<Rightarrow> nat" where
  "rfc_adapt delta numpoints first =
     (let d = (if first then delta div 700 else delta div 2) in rfc_adapt_loop (d + d div numpoints) 0)"

definition rfc_digit :: "char \<Rightarrow> nat option" where
  "rfc_digit c =
     (let v = char_code c
      in if 97 \<le> v \<and> v \<le> 122 then Some (v - 97)
         else if 48 \<le> v \<and> v \<le> 57 then Some (v - 48 + 26) else None)"

definition rfc_t :: "nat \<Rightarrow> nat \<Rightarrow> nat" where
  "rfc_t k bias = (if k \<le> bias then 1 else if k \<ge> bias + 26 then 26 else k - bias)"

fun rfc_vli :: "nat \<Rightarrow> string \<Rightarrow> nat \<Rightarrow> nat \<Rightarrow> nat \<Rightarrow> (nat \<times> string) option" where
  "rfc_vli bias [] k i w = None"
| "rfc_vli bias (c # s) k i w =
     (case rfc_digit c of None \<Rightarrow> None
      | Some d \<Rightarrow> if d < rfc_t k bias then Some (i + d * w, s)
                  else rfc_vli bias s (k + 36) (i + d * w) (w * (36 - rfc_t k bias)))"

lemma rfc_vli_decreases: "rfc_vli bias s k i w = Some (i', r) \<Longrightarrow> length r < length s"
  by (induction bias s k i w rule: rfc_vli.induct) (force split: option.splits if_splits)+

function rfc_loop :: "string \<Rightarrow> nat \<Rightarrow> nat \<Rightarrow> nat \<Rightarrow> nat list \<Rightarrow> nat list option" where
  "rfc_loop s n i bias out =
     (if s = [] then Some out
      else case rfc_vli bias s 36 i 1 of None \<Rightarrow> None
        | Some (i', r) \<Rightarrow>
            let len1 = length out + 1; n' = n + i' div len1; p = i' mod len1
            in rfc_loop r n' (p + 1) (rfc_adapt (i' - i) len1 (i = 0)) (take p out @ n' # drop p out))"
  by pat_completeness auto
termination
  by (relation "measure (\<lambda>(s, n, i, bias, out). length s)") (auto dest: rfc_vli_decreases)

declare rfc_loop.simps [simp del]

definition rfc_punycode_decode :: "string \<Rightarrow> nat list option" where
  "rfc_punycode_decode s =
     (case strrchr CHR ''-'' s of
        None \<Rightarrow> rfc_loop s 128 0 72 []
      | Some d \<Rightarrow> rfc_loop (tl d) 128 0 72 (map char_code (upto_ptr s d)))"

section \<open>Digits and bias\<close>

lemma adapt_loop_rfc: "(case adapt_loop (int d) (int k) of (d', k') \<Rightarrow> k' + 36 * d' div (d' + 38)) =
    int (rfc_adapt_loop d k)"
proof (induction d k rule: rfc_adapt_loop.induct)
  case (1 d k)
  show ?case
  proof (cases "d > 455")
    case True
    then have "adapt_loop (int d) (int k) = adapt_loop (int (d div 35)) (int (k + 36))"
      by (subst adapt_loop.simps) (simp add: zdiv_int)
    with 1 True show ?thesis by (subst rfc_adapt_loop.simps) simp
  next
    case False
    then show ?thesis
      by (subst adapt_loop.simps, subst rfc_adapt_loop.simps) (simp add: zdiv_int)
  qed
qed

lemma adapt_rfc: "adapt (int delta) (int h + 1) f = int (rfc_adapt delta (h + 1) f)"
proof -
  let ?d = "if f then delta div 700 else delta div 2"
  have "(if f then int delta div 700 else int delta div 2) = int ?d" by (simp add: zdiv_int)
  moreover have "int ?d + int ?d div (int h + 1) = int (?d + ?d div (h + 1))"
    by (simp only: of_nat_add zdiv_int of_nat_1)
  moreover have "adapt_loop (int n) 0 = adapt_loop (int n) (int 0)" for n by simp
  ultimately show ?thesis
    unfolding adapt_def rfc_adapt_def Let_def by (simp only: adapt_loop_rfc)
qed

lemma puny_t_rfc: "puny_t (int k) (int bias) = int (rfc_t k bias)"
  by (auto simp: puny_t_def rfc_t_def)

lemma rfc_t_range: "1 \<le> rfc_t k bias \<and> rfc_t k bias \<le> 26"
  by (auto simp: rfc_t_def)

lemma rfc_digit_puny: "d < 36 \<Longrightarrow> rfc_digit (puny_digit (int d)) = Some d"
proof -
  assume d: "d < 36"
  have "char_code (char_of n :: char) = n" if "n < 256" for n using that by simp
  then show ?thesis using d
    by (auto simp: rfc_digit_def puny_digit_def Let_def nat_add_distrib)
qed

lemma puny_digit_not_dash: "d < 36 \<Longrightarrow> puny_digit (int d) \<noteq> CHR ''-''"
  using rfc_digit_puny [of d] by (auto simp: rfc_digit_def)

text \<open>The digits written for \<open>q\<close> are read back by the decoder as \<open>q\<close>.\<close>

lemma puny_digits_read:
  "puny_digits size1 (int bias) (int q) (int k) out = Inr out' \<Longrightarrow>
     \<exists>ds. out' = out @ ds \<and> CHR ''-'' \<notin> set ds
        \<and> (\<forall>s i w. rfc_vli bias (ds @ s) k i w = Some (i + q * w, s))"
proof (induction q arbitrary: k out rule: less_induct)
  case (less q)
  let ?t = "rfc_t k bias"
  note t = rfc_t_range [of k bias]
  show ?case
  proof (cases "q < ?t")
    case True
    with less.prems have "out' = out @ [puny_digit (int q)]"
      by (subst (asm) puny_digits.simps) (auto simp: puny_t_rfc idn_put_def split: if_splits)
    moreover have "q < 36" using True t by simp
    ultimately show ?thesis using True
      by (intro exI [of _ "[puny_digit (int q)]"]) (simp add: rfc_digit_puny puny_digit_not_dash [symmetric])
  next
    case False
    let ?d = "?t + (q - ?t) mod (36 - ?t)" and ?q = "(q - ?t) div (36 - ?t)"
    have cast: "int ?t + (int q - int ?t) mod (36 - int ?t) = int ?d" "(int q - int ?t) div (36 - int ?t) = int ?q"
      using False t by (simp_all add: of_nat_diff zmod_int zdiv_int)
    have "(q - ?t) mod (36 - ?t) < 36 - ?t" using t by simp
    then have d36: "?d < 36" using t by linarith
    have k36: "int (k + 36) = int k + 36" by simp
    from less.prems False have rec: "puny_digits size1 (int bias) (int ?q) (int (k + 36)) (out @ [puny_digit (int ?d)]) = Inr out'"
      unfolding k36 by (subst (asm) puny_digits.simps)
        (simp add: puny_t_rfc Let_def cast idn_put_def del: of_nat_add split: if_splits)
    have "?q < q" using puny_q_measure [of "int q" "int k" "int bias"] False
      by (simp add: puny_t_rfc cast)
    from less.IH [OF this rec] obtain ds where ds: "out' = out @ puny_digit (int ?d) # ds" "CHR ''-'' \<notin> set ds"
      "\<And>s i w. rfc_vli bias (ds @ s) (k + 36) i w = Some (i + ?q * w, s)" by auto
    have dq: "?d + (36 - ?t) * ?q = q" using False t by simp
    have val: "i + ?d * w + ?q * (w * (36 - ?t)) = i + q * w" for i w
    proof -
      have "q * w = (?d + (36 - ?t) * ?q) * w" by (simp only: dq)
      also have "\<dots> = ?d * w + ?q * (w * (36 - ?t))" by (simp add: algebra_simps)
      finally show ?thesis by (simp only: add.assoc)
    qed
    have "rfc_digit (puny_digit (int ?d)) = Some ?d" "CHR ''-'' \<noteq> puny_digit (int ?d)" "\<not> ?d < ?t"
      using rfc_digit_puny [OF d36] puny_digit_not_dash [OF d36] by simp_all
    then show ?thesis
      by (intro exI [of _ "puny_digit (int ?d) # ds"])
        (simp add: ds val del: of_nat_add)
  qed
qed

section \<open>One pass of the encoder\<close>

text \<open>\<open>xs\<close> has been scanned in this pass, \<open>ys\<close> has not; the code points written so far are those up to
  \<open>n\<close> of \<open>xs\<close> and those below \<open>n\<close> of \<open>ys\<close>, and \<open>delta\<close> is the distance from the decoder's state to the
  scanning position.\<close>

definition puny_done :: "nat \<Rightarrow> nat list \<Rightarrow> nat list \<Rightarrow> nat list" where
  "puny_done n xs ys = filter (\<lambda>c. c \<le> n) xs @ filter (\<lambda>c. c < n) ys"

lemma puny_done_length: "length (puny_done n xs ys) \<le> length xs + length ys"
  by (simp add: puny_done_def add_mono)

definition puny_inv ::
    "string \<Rightarrow> nat list \<Rightarrow> nat \<Rightarrow> nat list \<Rightarrow> nat list \<Rightarrow> puny_state \<Rightarrow> bool" where
  "puny_inv pre basic n xs ys st \<longleftrightarrow>
     (case st of (out, bias, delta, h) \<Rightarrow>
        h = length (puny_done n xs ys) \<and> length basic \<le> h \<and>
        (\<exists>ext bd nd i. out = pre @ ext \<and> CHR ''-'' \<notin> set ext \<and> bias = int bd
           \<and> nd * (h + 1) + i + delta = n * (h + 1) + length (filter (\<lambda>c. c \<le> n) xs)
           \<and> (i = 0 \<longleftrightarrow> h = length basic)
           \<and> (\<forall>s. rfc_loop (ext @ s) 128 0 72 basic = rfc_loop s nd i bd (puny_done n xs ys))))"

lemma puny_inv_delta:
  assumes "puny_inv pre basic n xs ys (out, bias, delta, h)" "n < 2097152" "h < 1024" "length xs \<le> 1023"
  shows "delta \<le> 2147483647"
proof -
  from assms(1) have "delta \<le> n * (h + 1) + length (filter (\<lambda>c. c \<le> n) xs)"
    by (auto simp: puny_inv_def)
  moreover have "n * (h + 1) \<le> 2097151 * 1024" using assms(2,3) by (intro mult_le_mono) auto
  moreover have "length (filter (\<lambda>c. c \<le> n) xs) \<le> 1023" using assms(4) by (meson le_trans length_filter_le)
  ultimately show ?thesis by simp
qed

lemma puny_delta_64:
  assumes "puny_inv pre basic n xs ys (out, bias, delta, h)" "n < 2097152" "length xs + length ys \<le> 1024"
  shows "delta \<le> 2097152 * 1025 + 1024"
proof -
  have "delta \<le> n * (h + 1) + length (filter (\<lambda>c. c \<le> n) xs)" using assms(1) by (auto simp: puny_inv_def)
  also have "\<dots> \<le> 2097152 * 1025 + 1024"
  proof (intro add_mono mult_le_mono)
    show "h + 1 \<le> 1025" using assms(1,3) puny_done_length [of n xs ys] by (simp add: puny_inv_def)
    show "length (filter (\<lambda>c. c \<le> n) xs) \<le> 1024"
      by (rule le_trans [OF length_filter_le]) (use assms(3) in simp)
  qed (use assms(2) in simp)
  finally show ?thesis .
qed

lemma puny_done_skip: "c > n \<Longrightarrow> puny_done n (xs @ [c]) ys = puny_done n xs (c # ys)"
  by (simp add: puny_done_def)

lemma puny_done_old: "c < n \<Longrightarrow> puny_done n (xs @ [c]) ys = puny_done n xs (c # ys)"
  by (simp add: puny_done_def)

lemma puny_inv_skip:
  assumes "puny_inv pre basic n xs (c # ys) (out, bias, delta, h)" "c > n"
  shows "puny_inv pre basic n (xs @ [c]) ys (out, bias, delta, h)"
proof -
  have f: "filter (\<lambda>c. c \<le> n) (xs @ [c]) = filter (\<lambda>c. c \<le> n) xs" using assms(2) by simp
  show ?thesis using assms(1) unfolding puny_inv_def puny_done_skip [OF assms(2)] f .
qed

lemma puny_inv_old:
  assumes "puny_inv pre basic n xs (c # ys) (out, bias, delta, h)" "c < n"
  shows "puny_inv pre basic n (xs @ [c]) ys (out, bias, delta + 1, h)"
  using assms by (auto simp: puny_inv_def puny_done_old)

text \<open>Writing \<open>delta\<close> makes the decoder insert \<open>n\<close> at the scanning position.\<close>

lemma puny_inv_insert:
  assumes inv: "puny_inv pre basic n xs (n # ys) (out, bias, delta, h)"
    and enc: "puny_digits size1 bias (int delta) 36 out = Inr out'"
  shows "puny_inv pre basic n (xs @ [n]) ys
           (out', adapt (int delta) (int h + 1) (h = length basic), 0, h + 1)"
proof -
  let ?P = "puny_done n xs (n # ys)" and ?a = "filter (\<lambda>c. c \<le> n) xs"
  from inv obtain ext bd nd i where
    h: "h = length ?P" "length basic \<le> h" and out: "out = pre @ ext" "CHR ''-'' \<notin> set ext" and bias: "bias = int bd"
    and dist: "nd * (h + 1) + i + delta = n * (h + 1) + length ?a"
    and first: "i = 0 \<longleftrightarrow> h = length basic"
    and dec: "\<And>s. rfc_loop (ext @ s) 128 0 72 basic = rfc_loop s nd i bd ?P"
    by (auto simp: puny_inv_def)
  from enc obtain ds where ds: "out' = out @ ds" "CHR ''-'' \<notin> set ds"
    "\<And>s i w. rfc_vli bd (ds @ s) 36 i w = Some (i + delta * w, s)"
    using puny_digits_read [of size1 bd delta 36 out out'] by (auto simp: bias)
  have ne: "ds \<noteq> []" using ds(3) [of "[]" 0 0] by auto
  have pos: "length ?a < h + 1" by (simp add: h(1) puny_done_def)
  from dist have eq: "i + delta + nd * (h + 1) = length ?a + n * (h + 1)" by simp
  have le: "nd \<le> n"
  proof (rule ccontr)
    assume "\<not> nd \<le> n"
    then have "(n + 1) * (h + 1) \<le> nd * (h + 1)" by (intro mult_le_mono1) simp
    then show False using eq pos by simp
  qed
  then obtain m where m: "n = nd + m" by (metis le_add_diff_inverse)
  have "i + delta = length ?a + (n - nd) * (h + 1)" using eq by (simp add: m add_mult_distrib)
  then have divmod: "(i + delta) div (h + 1) = n - nd" "(i + delta) mod (h + 1) = length ?a"
    using pos by (simp_all only: div_mult_self1 mod_mult_self1 div_less mod_less add_0_right
        add_is_0 one_neq_zero simp_thms not_False_eq_True)
  have ins: "take (length ?a) ?P @ n # drop (length ?a) ?P = puny_done n (xs @ [n]) ys"
    by (simp add: puny_done_def)
  have step: "rfc_loop (ds @ s) nd i bd ?P = rfc_loop s n (length ?a + 1) (rfc_adapt delta (h + 1) (i = 0))
      (puny_done n (xs @ [n]) ys)" for s
    using le by (subst rfc_loop.simps) (simp add: Let_def ne ds(3) divmod [unfolded Suc_eq_plus1 [symmetric]] ins flip: h(1))
  show ?thesis
    unfolding puny_inv_def prod.case
  proof (intro conjI exI)
    show "h + 1 = length (puny_done n (xs @ [n]) ys)" by (simp add: h(1) puny_done_def)
    show "length basic \<le> h + 1" using h(2) by simp
    show "out' = pre @ (ext @ ds)" by (simp add: ds out)
    show "CHR ''-'' \<notin> set (ext @ ds)" using ds out by simp
    show "adapt (int delta) (int h + 1) (h = length basic) = int (rfc_adapt delta (h + 1) (i = 0))"
      by (simp only: adapt_rfc first)
    show "n * (h + 1 + 1) + (length ?a + 1) + 0 = n * (h + 1 + 1) + length (filter (\<lambda>c. c \<le> n) (xs @ [n]))"
      by simp
    show "(length ?a + 1 = 0) = (h + 1 = length basic)"
      using h(2) by simp
    show "\<forall>s. rfc_loop ((ext @ ds) @ s) 128 0 72 basic
        = rfc_loop s n (length ?a + 1) (rfc_adapt delta (h + 1) (i = 0)) (puny_done n (xs @ [n]) ys)"
      by (simp add: dec step)
  qed
qed

text \<open>\<open>int q = delta\<close> loses nothing: the code points are below \<open>2 ^ 21\<close> and at most 1024.\<close>

lemma puny_pass_inv:
  assumes "puny_inv pre basic n xs ys st" "n < 2097152" "length xs + length ys \<le> 1024"
    "puny_pass size1 n (length basic) ys st = Inr st'"
  shows "puny_inv pre basic n (xs @ ys) [] st'"
  using assms
proof (induction ys arbitrary: xs st)
  case (Cons c ys)
  obtain out bias delta h where st: "st = (out, bias, delta, h)" by (cases st)
  note inv = Cons.prems(1) [unfolded st] and run = Cons.prems(4) [unfolded st]
  have goal: "puny_inv pre basic n ((xs @ [c]) @ ys) [] st'" 
    if "puny_inv pre basic n (xs @ [c]) ys st1" "puny_pass size1 n (length basic) ys st1 = Inr st'" for st1
    by (rule Cons.IH [OF that(1) Cons.prems(2) _ that(2)]) (use Cons.prems(3) in simp)
  have hlen: "h = length (puny_done n xs (c # ys))" using inv by (simp add: puny_inv_def)
  consider "c > n" | "c = n" | "c < n" by linarith
  then show ?case
  proof cases
    case 1
    then show ?thesis using goal [OF puny_inv_skip [OF inv 1]] run by simp
  next
    case 2
    have "h \<le> length xs + length ys"
      unfolding hlen puny_done_def 2 by (simp add: add_mono)
    then have small: "h < 1024" "length xs \<le> 1023" using Cons.prems(3) by auto
    have q: "c_int_of_long (int delta) = int delta"
      using puny_inv_delta [OF inv Cons.prems(2) small] by (simp add: c_limits)
    from run 2 obtain out' where d: "puny_digits size1 bias (int delta) 36 out = Inr out'"
      and r: "puny_pass size1 n (length basic) ys
          (out', adapt (int delta) (int h + 1) (h = length basic), 0, h + 1) = Inr st'"
      by (auto simp: q Let_def split: sum.splits)
    show ?thesis using goal [OF _ r] puny_inv_insert [OF _ d] inv 2 by simp
  next
    case 3
    have "(delta + 1) mod 2 ^ 64 = delta + 1" using puny_delta_64 [OF inv Cons.prems(2,3)] by simp
    then show ?thesis using goal [OF puny_inv_old [OF inv 3]] run 3 by (simp add: Let_def)
  qed
qed simp

section \<open>The whole encoder\<close>

lemma puny_min_le: "puny_min n cps \<le> 4294967295"
  unfolding puny_min_def
proof (induction cps rule: rev_induct)
  case (snoc c cps)
  then show ?case by (auto simp: Let_def)
qed simp

lemma foldl_min:
  assumes "m0 = foldl (\<lambda>m c. if c \<ge> n \<and> c < m then c else m) (i::nat) cps"
  shows "(m0 = i \<or> m0 \<in> set cps \<and> n \<le> m0) \<and> m0 \<le> i \<and> list_all (\<lambda>c. n \<le> c \<longrightarrow> m0 \<le> c) cps"
  using assms
proof (induction cps arbitrary: m0 rule: rev_induct)
  case (snoc c cps)
  let ?m = "foldl (\<lambda>m c. if c \<ge> n \<and> c < m then c else m) i cps"
  have "(?m = i \<or> ?m \<in> set cps \<and> n \<le> ?m) \<and> ?m \<le> i \<and> list_all (\<lambda>c. n \<le> c \<longrightarrow> ?m \<le> c) cps"
    by (rule snoc.IH) simp
  then show ?case unfolding snoc.prems by (auto simp: list_all_iff)
qed simp

text \<open>While a code point is left, the minimum is one of them and none lies between.\<close>

lemma puny_min_hit:
  assumes "length (filter (\<lambda>c. c < n) cps) < length cps" "\<forall>c \<in> set cps. c < 2097152"
  shows "puny_min n cps \<in> set cps \<and> n \<le> puny_min n cps
     \<and> filter (\<lambda>c. c < puny_min n cps) cps = filter (\<lambda>c. c < n) cps"
proof -
  note m = foldl_min [OF refl, of n "4294967295::nat" cps, folded puny_min_def]
  from assms(1) obtain c where c: "c \<in> set cps" "n \<le> c"
    by (metis filter_True less_irrefl linorder_not_less)
  then have "puny_min n cps \<le> c" using m by (auto simp: list_all_iff)
  then have "puny_min n cps \<noteq> 4294967295" using c assms(2) by auto
  with m have hit: "puny_min n cps \<in> set cps \<and> n \<le> puny_min n cps" by simp
  moreover have "filter (\<lambda>c. c < puny_min n cps) cps = filter (\<lambda>c. c < n) cps"
    using m hit by (intro filter_cong) (auto simp: list_all_iff)
  ultimately show ?thesis by simp
qed

lemma puny_inv_done_lt:
  "puny_inv pre basic n [] cps (out, bias, delta, h) \<Longrightarrow> h = length (filter (\<lambda>c. c < n) cps)"
  by (simp add: puny_inv_def puny_done_def)

text \<open>Raising \<open>n\<close> to the next code point, and the step after a pass.\<close>

lemma puny_inv_raise:
  assumes "puny_inv pre basic n [] cps (out, bias, delta, h)" "n \<le> m"
    "filter (\<lambda>c. c < m) cps = filter (\<lambda>c. c < n) cps"
  shows "puny_inv pre basic m [] cps (out, bias, delta + (m - n) * (h + 1), h)"
proof -
  from assms(1) obtain ext bd nd i where *: "out = pre @ ext" "CHR ''-'' \<notin> set ext" "bias = int bd"
    "nd * (h + 1) + i + delta = n * (h + 1)" "i = 0 \<longleftrightarrow> h = length basic"
    "\<forall>s. rfc_loop (ext @ s) 128 0 72 basic = rfc_loop s nd i bd (puny_done n [] cps)"
    by (auto simp: puny_inv_def)
  have "n * (h + 1) + (m - n) * (h + 1) = m * (h + 1)" using assms(2) by (simp flip: add_mult_distrib)
  then have "nd * (h + 1) + i + (delta + (m - n) * (h + 1)) = m * (h + 1)" using *(4) by linarith
  then show ?thesis using * assms
    unfolding puny_inv_def puny_done_def prod.case by auto
qed

lemma puny_inv_next:
  assumes "puny_inv pre basic m cps [] (out, bias, delta, h)"
  shows "puny_inv pre basic (m + 1) [] cps (out, bias, delta + 1, h)"
proof -
  have f: "puny_done (m + 1) [] cps = puny_done m cps []" by (simp add: puny_done_def less_Suc_eq_le)
  from assms obtain ext bd nd i where *: "out = pre @ ext" "CHR ''-'' \<notin> set ext" "bias = int bd"
    "nd * (h + 1) + i + delta = m * (h + 1) + h" "i = 0 \<longleftrightarrow> h = length basic"
    "h = length (puny_done m cps [])" "length basic \<le> h"
    "\<forall>s. rfc_loop (ext @ s) 128 0 72 basic = rfc_loop s nd i bd (puny_done m cps [])"
    by (auto simp: puny_inv_def puny_done_def)
  have "nd * (h + 1) + i + (delta + 1) = (m + 1) * (h + 1) + length (filter (\<lambda>c. c \<le> m + 1) [])"
    using *(4) by simp
  with * show ?thesis unfolding puny_inv_def prod.case f by blast
qed

lemma puny_inv_unpack:
  "puny_inv pre basic n xs ys (out, bias, delta, h) \<Longrightarrow> length basic \<le> h \<and> h = length (puny_done n xs ys)"
  by (simp add: puny_inv_def)

text \<open>With all code points written, the text decodes to them.\<close>

lemma puny_inv_final:
  assumes "puny_inv pre basic n [] cps (out, bias, delta, h)" "length cps \<le> h"
  shows "\<exists>ext. out = pre @ ext \<and> CHR ''-'' \<notin> set ext \<and> rfc_loop ext 128 0 72 basic = Some cps"
proof -
  have "length (filter (\<lambda>c. c < n) cps) = length cps"
    using assms puny_inv_done_lt [OF assms(1)] length_filter_le [of "\<lambda>c. c < n" cps] by simp
  then have "filter (\<lambda>c. c < n) cps = cps" by (metis filter_True length_filter_less nat_neq_iff)
  then have *: "puny_done n [] cps = cps" by (simp add: puny_done_def)
  from assms(1) obtain ext nd i bd where "out = pre @ ext" "CHR ''-'' \<notin> set ext"
    "\<forall>s. rfc_loop (ext @ s) 128 0 72 basic = rfc_loop s nd i bd cps"
    by (auto simp: puny_inv_def *)
  moreover have "rfc_loop [] nd i bd cps = Some cps" by (simp add: rfc_loop.simps)
  ultimately show ?thesis by (metis append_Nil2)
qed

lemma puny_pass_fuel: "puny_pass size1 n b ys st \<noteq> Inl IdnFuel"
proof (induction size1 n b ys st rule: puny_pass.induct)
  case (2 size1 n b c cs out bias delta h)
  have d: "puny_digits size1 bias q k out \<noteq> Inl IdnFuel" for bias q k out
    by (induction size1 bias q k out rule: puny_digits.induct)
      (subst puny_digits.simps, auto simp: Let_def idn_put_def split: sum.splits if_splits)
  from 2 d show ?case by (auto simp: Let_def split: sum.splits)
qed simp

text \<open>One round of the outer loop: the overflow check passes, the pass runs on the next code point,
  and at least that code point is written.\<close>

lemma puny_round:
  assumes inv: "puny_inv pre basic n [] cps (out, bias, delta, h)" and len: "length cps \<le> 1024"
    and bnd: "\<forall>c \<in> set cps. c < 2097152" and more1: "h < length cps"
  defines "m \<equiv> puny_min n cps"
  defines "st0 \<equiv> (out, bias, delta + (m - n) * (h + 1), h)"
  shows "m < 2097152" "puny_inv pre basic m [] cps st0"
    "puny_outer (Suc f) size1 (length basic) cps n (out, bias, delta, h) =
       (case puny_pass size1 m (length basic) cps st0 of Inl e \<Rightarrow> Inl e
        | Inr (out', bias', delta', h') \<Rightarrow>
            puny_outer f size1 (length basic) cps (m + 1) (out', bias', delta' + 1, h'))"
    "puny_pass size1 m (length basic) cps st0 = Inr (out', bias', delta', h') \<Longrightarrow>
       puny_inv pre basic (m + 1) [] cps (out', bias', delta' + 1, h') \<and> h < h'"
proof -
  note h = puny_inv_done_lt [OF inv]
  have lt: "length (filter (\<lambda>c. c < n) cps) < length cps" using more1 by (simp flip: h)
  note hit = puny_min_hit [OF lt bnd, folded m_def]
  show mb: "m < 2097152" using hit bnd by auto
  show inv0: "puny_inv pre basic m [] cps st0"
    unfolding st0_def using puny_inv_raise [OF inv] hit by simp
  have "int (delta + (m - n) * (h + 1)) \<le> int 2147483647"
    unfolding of_nat_le_iff using puny_inv_delta [OF inv0 [unfolded st0_def] mb] more1 len by simp
  then have le: "int delta + int (m - n) * (int h + 1) \<le> 2147483647"
    by (simp only: of_nat_add of_nat_mult of_nat_1 of_nat_numeral)
  have "0 \<le> int (m - n) * (int h + 1)" by simp
  with le have "int delta \<le> 2147483647" by linarith
  then have wrap: "(4294967295 - int delta) mod 2 ^ 64 = 4294967295 - int delta" by simp
  have d: "int m - int n = int (m - n)" using hit by simp
  have "int (m - n) \<le> (4294967295 - int delta) div (int h + 1)"
    using zdiv_mono1 [of "int (m - n) * (int h + 1)" "4294967295 - int delta" "int h + 1"] le by simp
  then have "\<not> (int m - int n) mod 2 ^ 64 > (4294967295 - int delta) mod 2 ^ 64 div (int h + 1)"
    "nat ((int m - int n) mod 2 ^ 64) = m - n"
    unfolding d wrap using mb by (simp_all add: not_less)
  then show "puny_outer (Suc f) size1 (length basic) cps n (out, bias, delta, h) =
       (case puny_pass size1 m (length basic) cps st0 of Inl e \<Rightarrow> Inl e
        | Inr (out', bias', delta', h') \<Rightarrow>
            puny_outer f size1 (length basic) cps (m + 1) (out', bias', delta' + 1, h'))"
    using more1 by (simp add: Let_def st0_def flip: m_def)
  assume pass: "puny_pass size1 m (length basic) cps st0 = Inr (out', bias', delta', h')"
  have "puny_inv pre basic m ([] @ cps) [] (out', bias', delta', h')"
    by (rule puny_pass_inv [OF inv0 mb _ pass]) (use len in simp)
  then have next_inv: "puny_inv pre basic (m + 1) [] cps (out', bias', delta' + 1, h')"
    by (intro puny_inv_next) simp
  have sub: "filter (\<lambda>c. c < n) cps = filter (\<lambda>c. c < m) (filter (\<lambda>c. c < m + 1) cps)"
  proof -
    have "filter (\<lambda>c. c < m) (filter (\<lambda>c. c < m + 1) cps) = filter (\<lambda>c. c < m) cps"
      unfolding filter_filter by (intro filter_cong refl) auto
    with hit show ?thesis by simp
  qed
  have "m \<in> set (filter (\<lambda>c. c < m + 1) cps)" using hit by simp
  then have "h < h'"
    unfolding h puny_inv_done_lt [OF next_inv] sub by (rule length_filter_less) simp
  with next_inv show "puny_inv pre basic (m + 1) [] cps (out', bias', delta' + 1, h') \<and> h < h'" ..
qed

text \<open>The outer loop ends before its fuel does, and what it returns decodes to all code points.\<close>

lemma puny_outer_inv:
  assumes "puny_inv pre basic n [] cps (out, bias, delta, h)" "length cps \<le> 1024"
    "\<forall>c \<in> set cps. c < 2097152" "length cps < f + h"
  shows "puny_outer f size1 (length basic) cps n (out, bias, delta, h) \<noteq> Inl IdnFuel
    \<and> (\<forall>out'. puny_outer f size1 (length basic) cps n (out, bias, delta, h) = Inr out' \<longrightarrow>
        (\<exists>ext. out' = pre @ ext \<and> CHR ''-'' \<notin> set ext \<and> rfc_loop ext 128 0 72 basic = Some cps))"
  using assms
proof (induction f arbitrary: n out bias delta h)
  case 0
  then show ?case
    using puny_inv_unpack [OF 0(1)] puny_done_length [of n "[]" cps] by simp
next
  case (Suc f)
  show ?case
  proof (cases "length cps \<le> h")
    case True
    then show ?thesis using puny_inv_final [OF Suc.prems(1)] by auto
  next
    case False
    then have more1: "h < length cps" by simp
    note rd = puny_round [OF Suc.prems(1-3) more1]
    show ?thesis
      unfolding rd(3)
    proof (cases "puny_pass size1 (puny_min n cps) (length basic) cps
        (out, bias, delta + (puny_min n cps - n) * (h + 1), h)", goal_cases)
      case (1 e)
      have "Inl e \<noteq> (Inl IdnFuel :: idn_error + puny_state)" unfolding 1 [symmetric] by (rule puny_pass_fuel)
      then show ?case unfolding 1 sum.case by simp
    next
      case (2 st')
      obtain out' bias' delta' h' where st': "st' = (out', bias', delta', h')" by (cases st')
      from rd(4) [OF 2 [unfolded st']] have "puny_inv pre basic (puny_min n cps + 1) [] cps (out', bias', delta' + 1, h')"
        "length cps < f + h'" using Suc.prems(4) by auto
      from Suc.IH [OF this(1) Suc.prems(2,3) this(2)] show ?case unfolding 2 st' sum.case prod.case .
    qed
  qed
qed

section \<open>Room in the output buffer\<close>

text \<open>A value below \<open>10 ^ k\<close> takes at most \<open>k + 1\<close> digits.\<close>

lemma puny_digits_total:
  "0 \<le> q \<Longrightarrow> q < 10 ^ k \<Longrightarrow> length out + k + 1 < size1 \<Longrightarrow>
     \<exists>out'. puny_digits size1 bias q kk out = Inr out' \<and> length out' \<le> length out + k + 1"
proof (induction k arbitrary: q kk out)
  case 0
  then have "q < puny_t kk bias" using puny_t_range [of kk bias] by simp
  with 0 show ?case by (subst puny_digits.simps) (simp add: Let_def idn_put_def)
next
  case (Suc k)
  let ?t = "puny_t kk bias"
  note t = puny_t_range [of kk bias]
  show ?case
  proof (cases "q < ?t")
    case True
    with Suc.prems show ?thesis by (subst puny_digits.simps) (simp add: Let_def idn_put_def)
  next
    case False
    let ?q = "(q - ?t) div (36 - ?t)" and ?o = "out @ [puny_digit (?t + (q - ?t) mod (36 - ?t))]"
    have "?q \<le> (q - ?t) div 10" using t False by (intro zdiv_mono2) auto
    also have "\<dots> \<le> q div 10" using t by (intro zdiv_mono1) auto
    also have "\<dots> < 10 ^ k" using Suc.prems(2) by (simp add: div_less_iff_less_mult)
    finally have "?q < 10 ^ k" .
    moreover have "0 \<le> ?q" using False t by (simp add: pos_imp_zdiv_nonneg_iff)
    ultimately obtain out' where "puny_digits size1 bias ?q (kk + 36) ?o = Inr out'"
      "length out' \<le> length ?o + k + 1"
      using Suc.IH [of ?q ?o "kk + 36"] Suc.prems(3) by auto
    then show ?thesis using False Suc.prems(3)
      by (subst puny_digits.simps) (auto simp: Let_def idn_put_def)
  qed
qed

text \<open>A pass cannot fail when eleven characters are free for every code point that is left.\<close>

definition puny_room :: "nat \<Rightarrow> nat \<Rightarrow> puny_state \<Rightarrow> bool" where
  "puny_room size1 len st \<longleftrightarrow> (case st of (out, bias, delta, h) \<Rightarrow> length out + 11 * (len - h) < size1)"

lemma puny_pass_total:
  assumes "puny_inv pre basic n xs ys st" "n < 2097152" "length xs + length ys \<le> 1024"
    "puny_room size1 (length xs + length ys) st"
  shows "\<exists>st'. puny_pass size1 n (length basic) ys st = Inr st' \<and> puny_room size1 (length xs + length ys) st'"
  using assms
proof (induction ys arbitrary: xs st)
  case (Cons c ys)
  obtain out bias delta h where st: "st = (out, bias, delta, h)" by (cases st)
  note inv = Cons.prems(1) [unfolded st]
  have IH: "\<exists>st'. puny_pass size1 n (length basic) ys st1 = Inr st' \<and> puny_room size1 (length xs + length (c # ys)) st'"
    if "puny_inv pre basic n (xs @ [c]) ys st1" "puny_room size1 (length xs + length (c # ys)) st1" for st1
    using Cons.IH [OF that(1) Cons.prems(2)] Cons.prems(3) that(2) by simp
  note hlen = conjunct2 [OF puny_inv_unpack [OF inv]]
  consider "c > n" | "c = n" | "c < n" by linarith
  then show ?case
  proof cases
    case 1
    then show ?thesis using IH [OF puny_inv_skip [OF inv 1]] Cons.prems(4) by (simp add: st)
  next
    case 2
    have hle: "h \<le> length xs + length ys" unfolding hlen puny_done_def 2 by (simp add: add_mono)
    then have small: "h < 1024" "length xs \<le> 1023" using Cons.prems(3) by auto
    note dl = puny_inv_delta [OF inv Cons.prems(2) small]
    have q: "c_int_of_long (int delta) = int delta" using dl by (simp add: c_limits)
    have room: "length out + 10 + 1 < size1"
      and room': "length out + 11 + 11 * (length xs + length ys - h) < size1"
      using Cons.prems(4) hle by (auto simp: puny_room_def st Suc_diff_le)
    have "int delta < 10 ^ 10" using dl by simp
    from puny_digits_total [OF _ this room] obtain out' where
      d: "puny_digits size1 bias (int delta) 36 out = Inr out'" "length out' \<le> length out + 10 + 1" by auto
    let ?st1 = "(out', adapt (int delta) (int h + 1) (h = length basic), 0, h + 1)"
    have "puny_room size1 (length xs + length (c # ys)) ?st1" using d(2) room' by (simp add: puny_room_def)
    moreover have "puny_inv pre basic n (xs @ [c]) ys ?st1" using puny_inv_insert [OF _ d(1)] inv 2 by simp
    ultimately show ?thesis using IH [of ?st1] 2 by (simp add: st q d(1) Let_def)
  next
    case 3
    have "(delta + 1) mod 2 ^ 64 = delta + 1"
      using puny_delta_64 [OF inv Cons.prems(2,3)] by simp
    then show ?thesis using IH [OF puny_inv_old [OF inv 3]] Cons.prems(4) 3
      by (simp add: Let_def st puny_room_def)
  qed
qed auto

lemma puny_outer_total:
  assumes "puny_inv pre basic n [] cps (out, bias, delta, h)" "length cps \<le> 1024"
    "\<forall>c \<in> set cps. c < 2097152" "length cps < f + h" "puny_room size1 (length cps) (out, bias, delta, h)"
  shows "\<exists>out'. puny_outer f size1 (length basic) cps n (out, bias, delta, h) = Inr out'"
  using assms
proof (induction f arbitrary: n out bias delta h)
  case 0
  then show ?case
    using puny_inv_unpack [OF 0(1)] puny_done_length [of n "[]" cps] by simp
next
  case (Suc f)
  show ?case
  proof (cases "length cps \<le> h")
    case False
    then have more1: "h < length cps" by simp
    note rd = puny_round [OF Suc.prems(1-3) more1]
    have "puny_room size1 (length [] + length cps) (out, bias, delta + (puny_min n cps - n) * (h + 1), h)"
      using Suc.prems(5) by (simp add: puny_room_def)
    with puny_pass_total [OF rd(2,1) _ this] Suc.prems(2) obtain out' bias' delta' h' where
      pass: "puny_pass size1 (puny_min n cps) (length basic) cps
        (out, bias, delta + (puny_min n cps - n) * (h + 1), h) = Inr (out', bias', delta', h')"
      and room: "puny_room size1 (length cps) (out', bias', delta' + 1, h')"
      by (auto simp: puny_room_def)
    from rd(4) [OF pass] have "puny_inv pre basic (puny_min n cps + 1) [] cps (out', bias', delta' + 1, h')"
      "length cps < f + h'" using Suc.prems(4) by auto
    from Suc.IH [OF this(1) Suc.prems(2,3) this(2) room] show ?thesis unfolding rd(3) pass sum.case prod.case .
  qed simp
qed

section \<open>From UTF-8 to the encoded label\<close>

lemma or_below: "a < 2 ^ n \<Longrightarrow> b < 2 ^ n \<Longrightarrow> a OR b < (2 ^ n :: nat)"
  by (simp add: take_bit_or flip: take_bit_nat_eq_self_iff)

lemma utf8_parts:
  "push_bit 6 (c AND 31) < 2 ^ 21" "push_bit 12 (c AND 15) < 2 ^ 21" "push_bit 18 (c AND 7) < 2 ^ 21"
  "push_bit 6 (c AND 63) < 2 ^ 21" "push_bit 12 (c AND 63) < 2 ^ 21" "c AND 63 < (2 ^ 21 :: nat)"
proof -
  have "c AND 31 = take_bit 5 c" "c AND 15 = take_bit 4 c" "c AND 7 = take_bit 3 c" "c AND 63 = take_bit 6 c"
    by (simp_all add: take_bit_eq_mask mask_eq_exp_minus_1)
  with take_bit_nat_less_exp [of 5 c] take_bit_nat_less_exp [of 4 c] take_bit_nat_less_exp [of 3 c]
    take_bit_nat_less_exp [of 6 c]
  show
    "push_bit 6 (c AND 31) < 2 ^ 21" "push_bit 12 (c AND 15) < 2 ^ 21" "push_bit 18 (c AND 7) < 2 ^ 21"
    "push_bit 6 (c AND 63) < 2 ^ 21" "push_bit 12 (c AND 63) < 2 ^ 21" "c AND 63 < 2 ^ 21"
    by (simp_all add: push_bit_eq_mult)
qed

lemma utf8_decode_range:
  "utf8_decode s cps = Some cps' \<Longrightarrow> length cps \<le> 1024 \<Longrightarrow> \<forall>c \<in> set cps. c < 2 ^ 21 \<Longrightarrow>
     length cps' \<le> 1024 \<and> (\<forall>c \<in> set cps'. c < 2 ^ 21) \<and> length cps' \<le> length cps + length s"
proof (induction s cps rule: utf8_decode.induct)
  case (1 s cps)
  show ?case
  proof (cases s)
    case Nil
    with 1 show ?thesis by (auto simp: utf8_decode.simps)
  next
    case (Cons ch r)
    show ?thesis
    proof (cases "length cps \<ge> 1024")
      case True
      with 1 Cons show ?thesis by (auto simp: utf8_decode.simps)
    next
      case False
      note IH = 1(1-4) [OF Cons False refl refl]
      note run = 1(5) [unfolded utf8_decode.simps [of s], unfolded Cons list.case Let_def]
      have len: "length (cps @ [x]) \<le> 1024" for x using False by simp
      have bnd: "x < 2 ^ 21 \<Longrightarrow> \<forall>c \<in> set (cps @ [x]). c < 2 ^ 21" for x using 1(7) by auto
      let ?c = "char_code ch"
      consider "?c < 128" | "\<not> ?c < 128" "?c AND 224 = 192"
        | "\<not> ?c < 128" "?c AND 224 \<noteq> 192" "?c AND 240 = 224"
        | "\<not> ?c < 128" "?c AND 224 \<noteq> 192" "?c AND 240 \<noteq> 224" by blast
      then show ?thesis
      proof cases
        case 1
        with run False have "utf8_decode r (cps @ [?c]) = Some cps'" by simp
        from IH(1) [OF 1 this len bnd] show ?thesis using 1 by (simp add: Cons)
      next
        case 2
        have "push_bit 6 (?c AND 31) OR (char_code (r ! 0) AND 63) < 2 ^ 21"
          by (intro or_below utf8_parts)
        from run False IH(2) [OF 2 _ _ len bnd [OF this]] 2 show ?thesis by (auto simp: Cons split: if_splits)
      next
        case 3
        have "push_bit 12 (?c AND 15) OR push_bit 6 (char_code (r ! 0) AND 63) OR (char_code (r ! 1) AND 63)
            < 2 ^ 21" by (intro or_below utf8_parts)
        from run False IH(3) [OF 3 _ _ len bnd [OF this]] 3 show ?thesis by (auto simp: Cons split: if_splits)
      next
        case 4
        have "push_bit 18 (?c AND 7) OR push_bit 12 (char_code (r ! 0) AND 63)
            OR push_bit 6 (char_code (r ! 1) AND 63) OR (char_code (r ! 2) AND 63) < 2 ^ 21"
          by (intro or_below utf8_parts)
        from run False IH(4) [OF 4 _ _ _ len bnd [OF this]] 4 show ?thesis by (auto simp: Cons split: if_splits)
      qed
    qed
  qed
qed

lemma puny_basic_out:
  "puny_basic size1 cps out = Inr out' \<Longrightarrow> out' = out @ map char_of (filter (\<lambda>c. c < 128) cps)"
  by (induction size1 cps out rule: puny_basic.induct)
    (auto simp: idn_put_def split: sum.splits if_splits)

lemma puny_basic_total:
  "length out + length cps + 1 < size1 \<Longrightarrow> \<exists>out'. puny_basic size1 cps out = Inr out'"
  by (induction size1 cps out rule: puny_basic.induct) (auto simp: idn_put_def)

text \<open>No function writes past \<open>output[output_size - 1]\<close>.\<close>

lemma puny_digits_len:
  "puny_digits size1 bias q k out = Inr out' \<Longrightarrow> length out < size1 \<Longrightarrow> length out' < size1"
proof (induction size1 bias q k out rule: puny_digits.induct)
  case (1 size1 bias q k out)
  then show ?case
    by (subst (asm) (2) puny_digits.simps) (auto simp: Let_def idn_put_def split: if_splits sum.splits)
qed

lemma puny_basic_len: "puny_basic size1 cps out = Inr out' \<Longrightarrow> length out < size1 \<Longrightarrow> length out' < size1"
  by (induction size1 cps out rule: puny_basic.induct) (auto simp: idn_put_def split: if_splits sum.splits)

lemma puny_pass_len:
  "puny_pass size1 n b ys st = Inr st' \<Longrightarrow> length (fst st) < size1 \<Longrightarrow> length (fst st') < size1"
  by (induction size1 n b ys st rule: puny_pass.induct)
    (auto simp: Let_def split: if_splits sum.splits dest: puny_digits_len)

lemma puny_outer_len:
  "puny_outer f size1 b cps n st = Inr out' \<Longrightarrow> length (fst st) < size1 \<Longrightarrow> length out' < size1"
  by (induction f size1 b cps n st rule: puny_outer.induct)
    (fastforce simp: Let_def split: if_splits sum.splits dest: puny_pass_len)+

section \<open>The encoder and the decoder\<close>

definition puny_pre :: "nat list \<Rightarrow> string" where
  "puny_pre cps = (let bs = map char_of (filter (\<lambda>c. c < 128) cps)
                   in if bs = [] then [] else bs @ ''-'')"

lemma puny_start:
  assumes "list_ex (\<lambda>c. 128 \<le> c) cps"
  shows "puny_inv (puny_pre cps) (filter (\<lambda>c. c < 128) cps) 128 [] cps
           (puny_pre cps, 72, 0, length (filter (\<lambda>c. c < 128) cps))"
    "length (filter (\<lambda>c. c < 128) cps) < length cps"
proof -
  show "length (filter (\<lambda>c. c < 128) cps) < length cps"
    using assms by (auto simp: list_ex_iff intro!: length_filter_less)
  have "rfc_loop ([] @ s) 128 0 72 (filter (\<lambda>c. c < 128) cps)
      = rfc_loop s 128 0 72 (puny_done 128 [] cps)" for s by (simp add: puny_done_def)
  then show "puny_inv (puny_pre cps) (filter (\<lambda>c. c < 128) cps) 128 [] cps
           (puny_pre cps, 72, 0, length (filter (\<lambda>c. c < 128) cps))"
    unfolding puny_inv_def prod.case
    by (intro conjI exI [of _ "[]"] exI [of _ "72::nat"] exI [of _ "128::nat"] exI [of _ "0::nat"])
      (auto simp: puny_done_def)
qed

text \<open>The encoder, with its two first loops evaluated.\<close>

lemma punycode_encode_unfold:
  assumes "utf8_decode input [] = Some cps" "list_ex (\<lambda>c. 128 \<le> c) cps"
    "idn_punycode_encode input size1 = Inr out'"
  shows "puny_outer (length cps + 1) size1 (length (filter (\<lambda>c. c < 128) cps)) cps 128
      (puny_pre cps, 72, 0, length (filter (\<lambda>c. c < 128) cps)) = Inr out'"
proof -
  from assms obtain out where b: "puny_basic size1 cps [] = Inr out"
    by (auto simp: idn_punycode_encode_def split: if_splits sum.splits)
  note out = puny_basic_out [OF b]
  have "length out < length cps" using puny_start(2) [OF assms(2)] by (simp add: out)
  then show ?thesis using assms b
    by (cases "out = []") (auto simp: idn_punycode_encode_def puny_pre_def out idn_put_def Let_def split: if_splits)
qed

lemma rfc_decode_split:
  assumes "CHR ''-'' \<notin> set ext"
  shows "rfc_punycode_decode (puny_pre cps @ ext) = rfc_loop ext 128 0 72 (filter (\<lambda>c. c < 128) cps)"
proof -
  have "map char_code (map (char_of :: nat \<Rightarrow> char) (filter (\<lambda>c. c < 128) cps)) = filter (\<lambda>c. c < 128) cps"
    unfolding map_map by (rule map_idI) auto
  moreover have "strrchr CHR ''-'' ext = None" using assms by (simp add: strrchr_None)
  ultimately show ?thesis
    using assms by (auto simp: rfc_punycode_decode_def puny_pre_def Let_def upto_ptr_append strrchr_append)
qed

lemma punycode_decodes:
  assumes "utf8_decode input [] = Some cps" "list_ex (\<lambda>c. 128 \<le> c) cps"
    "idn_punycode_encode input size1 = Inr out"
  shows "rfc_punycode_decode out = Some cps"
proof -
  from utf8_decode_range [OF assms(1)] have r: "length cps \<le> 1024" "\<forall>c \<in> set cps. c < 2097152" by auto
  note inv = puny_start(1) [OF assms(2)]
  from puny_outer_inv [OF inv r, of "length cps + 1" size1] punycode_encode_unfold [OF assms]
  show ?thesis by (auto simp: rfc_decode_split)
qed

lemma punycode_fits:
  assumes "utf8_decode input [] = Some cps" "list_ex (\<lambda>c. 128 \<le> c) cps"
    "11 * length cps + 1 < size1"
  shows "\<exists>out. idn_punycode_encode input size1 = Inr out \<and> length out < size1"
proof -
  let ?b = "length (filter (\<lambda>c. c < 128) cps)"
  from utf8_decode_range [OF assms(1)] have r: "length cps \<le> 1024" "\<forall>c \<in> set cps. c < 2097152" by auto
  have blt: "?b < length cps" by (rule puny_start(2) [OF assms(2)])
  obtain out where b: "puny_basic size1 cps [] = Inr out"
    using puny_basic_total [of "[]" cps size1] assms(3) blt by auto
  note out = puny_basic_out [OF b]
  have "puny_room size1 (length cps) (puny_pre cps, 72, 0, ?b)"
    using assms(3) blt by (auto simp: puny_room_def puny_pre_def Let_def)
  from puny_outer_total [OF puny_start(1) [OF assms(2)] r _ this, of "length cps + 1"] obtain out' where
    o: "puny_outer (length cps + 1) size1 ?b cps 128 (puny_pre cps, 72, 0, ?b) = Inr out'" by auto
  have run: "idn_punycode_encode input size1 = Inr out'"
  proof (cases "filter (\<lambda>c. c < 128) cps = []")
    case True
    with assms b o show ?thesis
      by (simp add: idn_punycode_encode_def out puny_pre_def)
  next
    case False
    with assms b o blt show ?thesis
      by (simp add: idn_punycode_encode_def out puny_pre_def Let_def idn_put_def)
  qed
  have "length (fst (puny_pre cps, 72 :: int, 0 :: nat, ?b)) < size1"
    using assms(3) blt by (auto simp: puny_pre_def Let_def)
  from puny_outer_len [OF o this] run show ?thesis by blast
qed

text \<open>C9. The Punycode encoder is right: for every UTF-8 label with a non-ASCII code point, whatever
  it returns is decoded by the RFC 3492 decoder to exactly the label's code points; and with eleven
  characters of room per code point it does return, inside the buffer, without \<open>int\<close> overflow.\<close>

theorem punycode_roundtrip:
  assumes "utf8_decode input [] = Some cps" "list_ex (\<lambda>c. 128 \<le> c) cps" "11 * length cps + 1 < size1"
  shows "\<exists>out. idn_punycode_encode input size1 = Inr out \<and> length out < size1
           \<and> rfc_punycode_decode out = Some cps"
  using punycode_fits [OF assms] punycode_decodes [OF assms(1,2)] by blast

theorem punycode_roundtrip_witness:
  "\<exists>out. idn_punycode_encode [CHR ''m'', CHR 0xC3, CHR 0xBC, CHR ''n''] 2048 = Inr out \<and> length out < 2048
     \<and> rfc_punycode_decode out = Some [0x6D, 0xFC, 0x6E]"
proof (rule punycode_roundtrip)
  show "utf8_decode [CHR ''m'', CHR 0xC3, CHR 0xBC, CHR ''n''] [] = Some [0x6D, 0xFC, 0x6E]"
    by (simp add: utf8_decode.simps push_bit_eq_mult)
qed simp_all

end
