(* ===== verification/Cjson.thy ===== *)
theory Cjson
  imports CPrelude
begin

text \<open>
  JSON values as the vendored cJSON library (\<open>src/vendor/cJSON.c\<close>) represents them, with
  the part of its interface the agent calls.  Parsing and printing of JSON text are in
  \<open>CjsonText\<close>.  A number carries the value of its double, a
  rational; infinities and NaN are not represented.  An object is the list of its members
  in order, so duplicate keys and first-match lookup are as in the library.
\<close>

datatype cjson =
    CNull
  | CBool bool
  | CNumber rat
  | CString string
  | CArray "cjson list"
  | CObject "(string \<times> cjson) list"

section \<open>Type tests and fields\<close>

fun cJSON_IsBool :: "cjson \<Rightarrow> bool" where
  "cJSON_IsBool (CBool b) = True"
| "cJSON_IsBool j = False"

fun cJSON_IsTrue :: "cjson \<Rightarrow> bool" where
  "cJSON_IsTrue (CBool b) = b"
| "cJSON_IsTrue j = False"

fun cJSON_IsNumber :: "cjson \<Rightarrow> bool" where
  "cJSON_IsNumber (CNumber x) = True"
| "cJSON_IsNumber j = False"

fun cJSON_IsString :: "cjson \<Rightarrow> bool" where
  "cJSON_IsString (CString s) = True"
| "cJSON_IsString j = False"

fun cJSON_IsObject :: "cjson \<Rightarrow> bool" where
  "cJSON_IsObject (CObject ms) = True"
| "cJSON_IsObject j = False"

text \<open>\<open>valuestring\<close> is NULL except for strings.\<close>

fun valuestring :: "cjson \<Rightarrow> string option" where
  "valuestring (CString s) = Some s"
| "valuestring j = None"

fun valuedouble :: "cjson \<Rightarrow> rat" where
  "valuedouble (CNumber x) = x"
| "valuedouble j = 0"

text \<open>\<open>valueint\<close> is the double cut off towards zero and saturated at the limits of \<open>int\<close>; the
  parser also sets it to 1 for \<open>true\<close>.\<close>

definition double_to_valueint :: "rat \<Rightarrow> int" where
  "double_to_valueint x =
     (if x \<ge> of_int c_int_max then c_int_max
      else if x \<le> of_int c_int_min then c_int_min
      else trunc_rat x)"

fun valueint :: "cjson \<Rightarrow> int" where
  "valueint (CNumber x) = double_to_valueint x"
| "valueint (CBool b) = (if b then 1 else 0)"
| "valueint j = 0"

section \<open>Lookup\<close>

text \<open>Member names are compared without regard to case; the first match wins; anything but an
  object has no named members.\<close>

fun find_member :: "string \<Rightarrow> (string \<times> cjson) list \<Rightarrow> cjson option" where
  "find_member name [] = None"
| "find_member name ((k, v) # ms) = (if strcaseeq name k then Some v else find_member name ms)"

definition cJSON_GetObjectItem :: "cjson \<Rightarrow> string \<Rightarrow> cjson option" where
  "cJSON_GetObjectItem obj name =
     (case obj of CObject ms \<Rightarrow> find_member name ms | _ \<Rightarrow> None)"

text \<open>The string or number stored under a name, when it has that type.\<close>

definition get_string :: "cjson \<Rightarrow> string \<Rightarrow> string option" where
  "get_string obj name = Option.bind (cJSON_GetObjectItem obj name) valuestring"

section \<open>Construction\<close>

text \<open>Appending a member copies its name first, which can fail; then nothing is added.\<close>

definition cJSON_AddItemToObject :: "bool \<Rightarrow> string \<Rightarrow> cjson \<Rightarrow> cjson \<Rightarrow> cjson" where
  "cJSON_AddItemToObject ok name item obj =
     (case obj of CObject ms \<Rightarrow> if ok then CObject (ms @ [(name, item)]) else obj | _ \<Rightarrow> obj)"

lemma find_member_append [simp]:
  "find_member n (xs @ ys) = (case find_member n xs of Some v \<Rightarrow> Some v | None \<Rightarrow> find_member n ys)"
  by (induction xs) auto

lemma GetObjectItem_CObject [simp]: "cJSON_GetObjectItem (CObject ms) n = find_member n ms"
  by (simp add: cJSON_GetObjectItem_def)

lemma GetObjectItem_other [simp]: "\<not> cJSON_IsObject j \<Longrightarrow> cJSON_GetObjectItem j n = None"
  by (cases j) (auto simp: cJSON_GetObjectItem_def)

lemma IsString_iff: "cJSON_IsString j \<longleftrightarrow> (\<exists>s. j = CString s)"
  by (cases j) auto

lemma IsNumber_iff: "cJSON_IsNumber j \<longleftrightarrow> (\<exists>x. j = CNumber x)"
  by (cases j) auto

lemma trunc_rat_bounds: "of_int a \<le> x \<Longrightarrow> x \<le> of_int b \<Longrightarrow> a \<le> 0 \<Longrightarrow> 0 \<le> b
    \<Longrightarrow> a \<le> trunc_rat x \<and> trunc_rat x \<le> b"
proof (cases "x < 0")
  case True
  assume "of_int a \<le> x" "a \<le> 0" "0 \<le> b"
  then have "\<lfloor>- x\<rfloor> \<le> - a" by (simp add: floor_le_iff) 
  moreover have "0 \<le> \<lfloor>- x\<rfloor>" using True by simp
  ultimately have "a \<le> - \<lfloor>- x\<rfloor>" "- \<lfloor>- x\<rfloor> \<le> b" using \<open>0 \<le> b\<close> by linarith+
  then show ?thesis using True by (simp add: trunc_rat_def)
next
  case False
  assume "x \<le> of_int b" "a \<le> 0"
  then have "\<lfloor>x\<rfloor> \<le> b" by (simp add: floor_le_iff)
  moreover have "0 \<le> \<lfloor>x\<rfloor>" using False by simp
  ultimately have "a \<le> \<lfloor>x\<rfloor>" "\<lfloor>x\<rfloor> \<le> b" using \<open>a \<le> 0\<close> by linarith+
  then show ?thesis using False by (simp add: trunc_rat_def)
qed

lemma valueint_range: "c_int_min \<le> valueint j \<and> valueint j \<le> c_int_max"
proof (cases j)
  case (CNumber x)
  then show ?thesis
    using trunc_rat_bounds [of c_int_min x c_int_max]
    by (auto simp: double_to_valueint_def c_limits)
qed (auto simp: c_limits)

lemma strcaseeq_refl [simp]: "strcaseeq s s"
  by (simp add: strcaseeq_def)

end
