(* ===== verification/JsonRpc.thy ===== *)
theory JsonRpc
  imports Cjson
begin

text \<open>
  The JSON-RPC layer of \<open>src/protocol/jsonrpc.c\<close> with the payload builders of
  \<open>src/protocol/v1.c\<close> and \<open>src/protocol/v2.c\<close>.  Allocation is an oracle \<open>ok\<close> numbered in
  the order of the calls; \<open>print\<close> and \<open>parse\<close> stand for \<open>cJSON_PrintUnformatted\<close> and
  \<open>cJSON_Parse\<close> and may fail.  A NULL pointer argument is None.
\<close>

abbreviation JSONRPC_VERSION :: string where "JSONRPC_VERSION \<equiv> ''2.0''"
abbreviation AGENT_REPORT :: string where "AGENT_REPORT \<equiv> ''agent.report''"
abbreviation AGENT_BASIC_INFO :: string where "AGENT_BASIC_INFO \<equiv> ''agent.basicInfo''"
abbreviation AGENT_PING_RESULT :: string where "AGENT_PING_RESULT \<equiv> ''agent.pingResult''"
abbreviation AGENT_TASK_RESULT :: string where "AGENT_TASK_RESULT \<equiv> ''agent.taskResult''"
abbreviation AGENT_EXEC :: string where "AGENT_EXEC \<equiv> ''agent.exec''"
abbreviation AGENT_PING :: string where "AGENT_PING \<equiv> ''agent.ping''"
abbreviation AGENT_MESSAGE :: string where "AGENT_MESSAGE \<equiv> ''agent.message''"
abbreviation AGENT_EVENT :: string where "AGENT_EVENT \<equiv> ''agent.event''"
abbreviation AGENT_TERMINAL_REQUEST :: string where
  "AGENT_TERMINAL_REQUEST \<equiv> ''agent.terminal.request''"

section \<open>Requests\<close>

definition add_opt :: "bool \<Rightarrow> string \<Rightarrow> cjson option \<Rightarrow> cjson \<Rightarrow> cjson" where
  "add_opt ok name item obj =
     (case item of None \<Rightarrow> obj | Some j \<Rightarrow> cJSON_AddItemToObject ok name j obj)"

definition jsonrpc_new_notification ::
    "(nat \<Rightarrow> bool) \<Rightarrow> string option \<Rightarrow> cjson option \<Rightarrow> cjson option" where
  "jsonrpc_new_notification ok meth params =
     (case meth of None \<Rightarrow> None
      | Some m \<Rightarrow>
          if \<not> ok 0 then None
          else Some (add_opt (ok 3) ''params'' params
                 (cJSON_AddItemToObject (ok 2) ''method'' (CString m)
                   (cJSON_AddItemToObject (ok 1) ''jsonrpc'' (CString JSONRPC_VERSION)
                     (CObject [])))))"

definition jsonrpc_new_request ::
    "(nat \<Rightarrow> bool) \<Rightarrow> int \<Rightarrow> string option \<Rightarrow> cjson option \<Rightarrow> cjson option" where
  "jsonrpc_new_request ok rid meth params =
     (case meth of None \<Rightarrow> None
      | Some m \<Rightarrow>
          if \<not> ok 0 then None
          else Some (add_opt (ok 4) ''params'' params
                 (cJSON_AddItemToObject (ok 3) ''id'' (CNumber (of_int rid))
                   (cJSON_AddItemToObject (ok 2) ''method'' (CString m)
                     (cJSON_AddItemToObject (ok 1) ''jsonrpc'' (CString JSONRPC_VERSION)
                       (CObject []))))))"

text \<open>The builders allocate their \<open>params\<close> object first (call 0 and 1), the envelope after it.\<close>

definition jsonrpc_build_report_payload :: "(nat \<Rightarrow> bool) \<Rightarrow> cjson option \<Rightarrow> cjson option" where
  "jsonrpc_build_report_payload ok report_data =
     (if \<not> ok 0 then None
      else jsonrpc_new_notification (\<lambda>n. ok (n + 2)) (Some AGENT_REPORT)
             (Some (add_opt (ok 1) ''report'' report_data (CObject []))))"

definition jsonrpc_build_basic_info_payload :: "(nat \<Rightarrow> bool) \<Rightarrow> cjson option \<Rightarrow> cjson option" where
  "jsonrpc_build_basic_info_payload ok info_data =
     (if \<not> ok 0 then None
      else jsonrpc_new_notification (\<lambda>n. ok (n + 2)) (Some AGENT_BASIC_INFO)
             (Some (add_opt (ok 1) ''info'' info_data (CObject []))))"

definition jsonrpc_build_ping_result_payload ::
    "(nat \<Rightarrow> bool) \<Rightarrow> int \<Rightarrow> cjson option \<Rightarrow> cjson option" where
  "jsonrpc_build_ping_result_payload ok rid ping_result =
     jsonrpc_new_request ok rid (Some AGENT_PING_RESULT) ping_result"

text \<open>One array item per id whose number node can be allocated.\<close>

fun ack_items :: "(nat \<Rightarrow> bool) \<Rightarrow> int list \<Rightarrow> cjson list" where
  "ack_items ok [] = []"
| "ack_items ok (i # is') =
     (if ok 0 then [CNumber (of_int i)] else []) @ ack_items (\<lambda>n. ok (Suc n)) is'"

definition jsonrpc_build_report_request ::
    "(nat \<Rightarrow> bool) \<Rightarrow> int \<Rightarrow> cjson option \<Rightarrow> int list option \<Rightarrow> int \<Rightarrow> cjson option" where
  "jsonrpc_build_report_request ok rid report_data ids ack_count =
     (if \<not> ok 0 then None
      else
        let params = add_opt (ok 1) ''report'' report_data (CObject []);
            items = (case ids of None \<Rightarrow> []
                     | Some xs \<Rightarrow> if ack_count > 0
                                  then ack_items (\<lambda>n. ok (n + 9)) (take (nat ack_count) xs) else []);
            params' = (if ok 2 then cJSON_AddItemToObject (ok 3) ''ack_event_ids'' (CArray items) params
                       else params)
        in jsonrpc_new_request (\<lambda>n. ok (n + 4)) rid (Some AGENT_REPORT) (Some params'))"

section \<open>Responses and events\<close>

record jsonrpc_error =
  err_code :: int
  err_message :: "string option"
  err_data :: "cjson option"

record jsonrpc_response =
  resp_jsonrpc :: "string option"
  resp_id :: int
  resp_has_id :: bool
  resp_result :: "cjson option"
  resp_error :: "jsonrpc_error option"

record jsonrpc_event =
  ev_id :: "string option"
  ev_method :: "string option"
  ev_params :: "cjson option"
  ev_created_at :: "string option"
  ev_expires_at :: "string option"

definition response_id :: "cjson option \<Rightarrow> int \<times> bool" where
  "response_id idn =
     (case idn of
        Some (CNumber x) \<Rightarrow> (valueint (CNumber x), True)
      | Some (CString s) \<Rightarrow> (c_int_of_long (strtol_val s), True)
      | _ \<Rightarrow> (0, False))"

definition response_error :: "cjson option \<Rightarrow> jsonrpc_error option" where
  "response_error err =
     (case err of
        Some (CObject ms) \<Rightarrow>
          Some \<lparr>err_code = (case find_member ''code'' ms of Some (CNumber x) \<Rightarrow> valueint (CNumber x) | _ \<Rightarrow> 0),
                err_message = get_string (CObject ms) ''message'',
                err_data = find_member ''data'' ms\<rparr>
      | _ \<Rightarrow> None)"

text \<open>Memory is assumed to suffice for the copies the parsers make.\<close>

definition jsonrpc_parse_response ::
    "(string \<Rightarrow> cjson option) \<Rightarrow> string option \<Rightarrow> jsonrpc_response option" where
  "jsonrpc_parse_response parse json_str =
     (case json_str of None \<Rightarrow> None
      | Some s \<Rightarrow>
         (case parse s of None \<Rightarrow> None
          | Some rt \<Rightarrow>
              let (i, has) = response_id (cJSON_GetObjectItem rt ''id'')
              in Some \<lparr>resp_jsonrpc = get_string rt ''jsonrpc'',
                       resp_id = i, resp_has_id = has,
                       resp_result = cJSON_GetObjectItem rt ''result'',
                       resp_error = response_error (cJSON_GetObjectItem rt ''error'')\<rparr>))"

definition jsonrpc_parse_event_from_json :: "cjson option \<Rightarrow> jsonrpc_event option" where
  "jsonrpc_parse_event_from_json rto =
     (case rto of None \<Rightarrow> None
      | Some rt \<Rightarrow>
          Some \<lparr>ev_id = get_string rt ''id'',
                ev_method = get_string rt ''method'',
                ev_params = cJSON_GetObjectItem rt ''params'',
                ev_created_at = get_string rt ''created_at'',
                ev_expires_at = get_string rt ''expires_at''\<rparr>)"

definition jsonrpc_parse_event ::
    "(string \<Rightarrow> cjson option) \<Rightarrow> string option \<Rightarrow> jsonrpc_event option" where
  "jsonrpc_parse_event parse json_str =
     (case json_str of None \<Rightarrow> None
      | Some s \<Rightarrow>
         (case parse s of None \<Rightarrow> None | Some rt \<Rightarrow> jsonrpc_parse_event_from_json (Some rt)))"

section \<open>Payload builders of the two protocol versions\<close>

text \<open>The result is the text stored through \<open>output\<close> on return value 0; None stands for -1
  with \<open>*output\<close> NULL.\<close>

definition v1_build_report_payload ::
    "(cjson \<Rightarrow> string option) \<Rightarrow> cjson option \<Rightarrow> string option" where
  "v1_build_report_payload print report_data =
     (case report_data of None \<Rightarrow> None | Some j \<Rightarrow> print j)"

definition v1_build_basic_info_payload ::
    "(cjson \<Rightarrow> string option) \<Rightarrow> cjson option \<Rightarrow> string option" where
  "v1_build_basic_info_payload print info_data =
     (case info_data of None \<Rightarrow> None | Some j \<Rightarrow> print j)"

definition v2_build_report_payload ::
    "(nat \<Rightarrow> bool) \<Rightarrow> (cjson \<Rightarrow> string option) \<Rightarrow> cjson option \<Rightarrow> string option" where
  "v2_build_report_payload ok print report_data =
     (case jsonrpc_build_report_payload ok report_data of None \<Rightarrow> None | Some rt \<Rightarrow> print rt)"

definition v2_build_basic_info_payload ::
    "(nat \<Rightarrow> bool) \<Rightarrow> (cjson \<Rightarrow> string option) \<Rightarrow> cjson option \<Rightarrow> string option" where
  "v2_build_basic_info_payload ok print info_data =
     (case jsonrpc_build_basic_info_payload ok info_data of None \<Rightarrow> None | Some rt \<Rightarrow> print rt)"

definition v2_build_ping_result_payload ::
    "(nat \<Rightarrow> bool) \<Rightarrow> (cjson \<Rightarrow> string option) \<Rightarrow> int \<Rightarrow> cjson option \<Rightarrow> string option" where
  "v2_build_ping_result_payload ok print rid ping_result =
     (case jsonrpc_build_ping_result_payload ok rid ping_result of
        None \<Rightarrow> None | Some rt \<Rightarrow> print rt)"

definition v2_build_task_result_payload ::
    "(nat \<Rightarrow> bool) \<Rightarrow> (cjson \<Rightarrow> string option) \<Rightarrow> int \<Rightarrow> cjson option \<Rightarrow> string option" where
  "v2_build_task_result_payload ok print rid task_result =
     (case jsonrpc_new_request ok rid (Some AGENT_TASK_RESULT) task_result of
        None \<Rightarrow> None | Some rt \<Rightarrow> print rt)"

section \<open>Envelope lemmas\<close>

abbreviation all_ok :: "nat \<Rightarrow> bool" where "all_ok \<equiv> \<lambda>n. True"

lemma ack_items_all_ok [simp]: "ack_items (\<lambda>n. True) xs = map (\<lambda>i. CNumber (of_int i)) xs"
  by (induction xs) auto

lemma strcaseeq_lits [simp]:
  "\<not> strcaseeq ''method'' ''jsonrpc''" "\<not> strcaseeq ''params'' ''jsonrpc''"
  "\<not> strcaseeq ''params'' ''method''" "\<not> strcaseeq ''id'' ''jsonrpc''"
  "\<not> strcaseeq ''id'' ''method''" "\<not> strcaseeq ''id'' ''params''"
  "\<not> strcaseeq ''params'' ''id''" "\<not> strcaseeq ''created_at'' ''jsonrpc''"
  "\<not> strcaseeq ''created_at'' ''method''" "\<not> strcaseeq ''created_at'' ''params''"
  "\<not> strcaseeq ''created_at'' ''id''"
  "\<not> strcaseeq ''expires_at'' ''jsonrpc''" "\<not> strcaseeq ''expires_at'' ''method''"
  "\<not> strcaseeq ''expires_at'' ''params''" "\<not> strcaseeq ''expires_at'' ''id''"
  "\<not> strcaseeq ''ack_event_ids'' ''report''"
  by (auto dest!: arg_cong [where f = length] simp: strcaseeq_def c_tolower_def)

lemma new_notification_ok:
  "jsonrpc_new_notification all_ok (Some m) params =
     Some (CObject ([(''jsonrpc'', CString JSONRPC_VERSION), (''method'', CString m)]
       @ (case params of None \<Rightarrow> [] | Some p \<Rightarrow> [(''params'', p)])))"
  by (simp add: jsonrpc_new_notification_def add_opt_def cJSON_AddItemToObject_def split: option.split)

lemma new_request_ok:
  "jsonrpc_new_request all_ok i (Some m) params =
     Some (CObject ([(''jsonrpc'', CString JSONRPC_VERSION), (''method'', CString m),
        (''id'', CNumber (of_int i))]
       @ (case params of None \<Rightarrow> [] | Some p \<Rightarrow> [(''params'', p)])))"
  by (simp add: jsonrpc_new_request_def add_opt_def cJSON_AddItemToObject_def split: option.split)

text \<open>A notification built by \<open>jsonrpc_new_notification\<close> is read back by
  \<open>jsonrpc_parse_event_from_json\<close> with its method and its parameters, and with no id: the
  receiver of a notification never acknowledges it.\<close>

theorem notification_roundtrip:
  "jsonrpc_parse_event_from_json (jsonrpc_new_notification all_ok (Some m) params)
     = Some \<lparr>ev_id = None, ev_method = Some m, ev_params = params,
             ev_created_at = None, ev_expires_at = None\<rparr>"
  by (cases params)
     (simp_all add: new_notification_ok jsonrpc_parse_event_from_json_def get_string_def)

text \<open>An \<open>agent.report\<close> request carries the version, the method, the numeric id, the report
  and exactly the acknowledged ids, in order; with no ids it carries an empty array.\<close>

theorem report_request_fields:
  assumes "j = jsonrpc_build_report_request all_ok i (Some report) ids n"
  shows "\<exists>rt params. j = Some rt
    \<and> cJSON_GetObjectItem rt ''jsonrpc'' = Some (CString JSONRPC_VERSION)
    \<and> cJSON_GetObjectItem rt ''method'' = Some (CString AGENT_REPORT)
    \<and> cJSON_GetObjectItem rt ''id'' = Some (CNumber (of_int i))
    \<and> cJSON_GetObjectItem rt ''params'' = Some params
    \<and> cJSON_GetObjectItem params ''report'' = Some report
    \<and> cJSON_GetObjectItem params ''ack_event_ids''
        = Some (CArray (map (\<lambda>k. CNumber (of_int k)) (take (nat n) (case ids of None \<Rightarrow> [] | Some xs \<Rightarrow> xs))))"
  unfolding assms
  by (cases ids)
     (simp_all add: jsonrpc_build_report_request_def new_request_ok Let_def add_opt_def
       cJSON_AddItemToObject_def)

theorem report_request_fields_witness:
  "\<exists>rt params. jsonrpc_build_report_request all_ok 1 (Some CNull) (Some [5, 6]) 2 = Some rt
    \<and> cJSON_GetObjectItem rt ''jsonrpc'' = Some (CString JSONRPC_VERSION)
    \<and> cJSON_GetObjectItem rt ''method'' = Some (CString AGENT_REPORT)
    \<and> cJSON_GetObjectItem rt ''id'' = Some (CNumber (of_int 1))
    \<and> cJSON_GetObjectItem rt ''params'' = Some params
    \<and> cJSON_GetObjectItem params ''report'' = Some CNull
    \<and> cJSON_GetObjectItem params ''ack_event_ids''
        = Some (CArray (map (\<lambda>k. CNumber (of_int k)) (take (nat 2) (case Some [5, 6] of None \<Rightarrow> [] | Some xs \<Rightarrow> xs))))"
  by (rule report_request_fields [OF refl])

end
