(* ===== verification/V2State.thy ===== *)
theory V2State
  imports CPrelude
begin

text \<open>
  The v2 protocol runtime state of \<open>src/protocol/v2.c\<close>: the consecutive-failure counter
  behind the fallback to v1, the bounded list of event ids already seen, and the bounded
  list of ids waiting to be acknowledged.  The two C arrays are lists (their counters are
  the list lengths) beside the capacity of their allocation.  A store outside the
  allocation is the result None, so memory safety is a theorem; a failing \<open>realloc\<close> or
  \<open>malloc\<close> is a boolean argument.  Each operation is one critical section of
  \<open>state->mutex\<close>, so interleavings of threads are sequences of operations.
\<close>

section \<open>State\<close>

abbreviation V2_FALLBACK_THRESHOLD :: int where "V2_FALLBACK_THRESHOLD \<equiv> 3"
abbreviation V2_SEEN_EVENTS_MAX :: nat where "V2_SEEN_EVENTS_MAX \<equiv> 1000"
abbreviation V2_ACK_IDS_MAX :: nat where "V2_ACK_IDS_MAX \<equiv> 1024"
abbreviation V2_SEEN_EVENTS_INIT_CAPACITY :: nat where "V2_SEEN_EVENTS_INIT_CAPACITY \<equiv> 64"
abbreviation V2_ACK_IDS_INIT_CAPACITY :: nat where "V2_ACK_IDS_INIT_CAPACITY \<equiv> 16"

record v2_state =
  fail_count :: int
  seen_events :: "string list"
  seen_capacity :: nat
  ack_ids :: "int list"
  ack_capacity :: nat

definition v2_state_init :: v2_state where
  "v2_state_init = \<lparr>fail_count = 0, seen_events = [], seen_capacity = 0,
     ack_ids = [], ack_capacity = 0\<rparr>"

text \<open>An array is freed and its counters reset only if it was allocated.\<close>

definition v2_state_cleanup :: "v2_state \<Rightarrow> v2_state" where
  "v2_state_cleanup s =
     (let s1 = (if seen_capacity s \<noteq> 0 then s\<lparr>seen_events := [], seen_capacity := 0\<rparr> else s);
          s2 = (if ack_capacity s1 \<noteq> 0 then s1\<lparr>ack_ids := [], ack_capacity := 0\<rparr> else s1)
      in s2\<lparr>fail_count := 0\<rparr>)"

section \<open>Failure counting\<close>

definition v2_note_attempt_result :: "bool \<Rightarrow> v2_state \<Rightarrow> int \<times> v2_state" where
  "v2_note_attempt_result success s =
     (let s' = (if success then s\<lparr>fail_count := 0\<rparr> else s\<lparr>fail_count := fail_count s + 1\<rparr>)
      in (fail_count s', s'))"

definition v2_should_fallback_to_v1 :: "v2_state \<Rightarrow> bool" where
  "v2_should_fallback_to_v1 s \<longleftrightarrow> fail_count s \<ge> V2_FALLBACK_THRESHOLD"

section \<open>Seen events and pending acknowledgements\<close>

text \<open>\<open>arr[count++] = x\<close> in an allocation of \<open>cap\<close> elements.\<close>

definition array_push :: "nat \<Rightarrow> 'a list \<Rightarrow> 'a \<Rightarrow> 'a list option" where
  "array_push cap xs x = (if length xs < cap then Some (xs @ [x]) else None)"

definition v2_is_event_seen :: "v2_state \<Rightarrow> string \<Rightarrow> bool" where
  "v2_is_event_seen s event_id \<longleftrightarrow> list_ex (\<lambda>e. e = event_id) (seen_events s)"

definition v2_add_seen_event ::
    "bool \<Rightarrow> bool \<Rightarrow> string \<Rightarrow> v2_state \<Rightarrow> (int \<times> v2_state) option" where
  "v2_add_seen_event realloc_ok malloc_ok event_id s =
     (if v2_is_event_seen s event_id then Some (0, s)
      else
        let s1 = (if length (seen_events s) \<ge> V2_SEEN_EVENTS_MAX
                  then s\<lparr>seen_events := tl (seen_events s)\<rparr> else s);
            grow = length (seen_events s1) \<ge> seen_capacity s1;
            new_capacity = (if seen_capacity s1 = 0 then V2_SEEN_EVENTS_INIT_CAPACITY
                            else seen_capacity s1 * 2)
        in if grow \<and> \<not> realloc_ok then Some (-1, s1)
           else
             let s2 = (if grow then s1\<lparr>seen_capacity := new_capacity\<rparr> else s1)
             in if \<not> malloc_ok then Some (-1, s2)
                else case array_push (seen_capacity s2) (seen_events s2) event_id of
                       None \<Rightarrow> None
                     | Some xs \<Rightarrow> Some (0, s2\<lparr>seen_events := xs\<rparr>))"

definition v2_add_ack_event :: "bool \<Rightarrow> int \<Rightarrow> v2_state \<Rightarrow> (int \<times> v2_state) option" where
  "v2_add_ack_event realloc_ok event_id s =
     (let s1 = (if length (ack_ids s) \<ge> V2_ACK_IDS_MAX
                then s\<lparr>ack_ids := tl (ack_ids s)\<rparr> else s);
          grow = (length (ack_ids s1) \<ge> ack_capacity s1 \<and> ack_capacity s1 < V2_ACK_IDS_MAX);
          new_capacity = (if ack_capacity s1 = 0 then V2_ACK_IDS_INIT_CAPACITY
                          else min (ack_capacity s1 * 2) V2_ACK_IDS_MAX)
      in if grow \<and> \<not> realloc_ok then Some (-1, s1)
         else
           let s2 = (if grow then s1\<lparr>ack_capacity := new_capacity\<rparr> else s1)
           in case array_push (ack_capacity s2) (ack_ids s2) event_id of
                None \<Rightarrow> None
              | Some xs \<Rightarrow> Some (0, s2\<lparr>ack_ids := xs\<rparr>))"

definition v2_get_ack_ids :: "v2_state \<Rightarrow> int list \<times> nat" where
  "v2_get_ack_ids s = (ack_ids s, length (ack_ids s))"

text \<open>\<open>max\<close> is a C \<open>int\<close>: a negative one is refused with -1 (None here).\<close>

definition v2_snapshot_ack_ids :: "v2_state \<Rightarrow> int \<Rightarrow> (int list \<times> nat) option" where
  "v2_snapshot_ack_ids s mx =
     (if mx < 0 then None
      else let to_copy = min (length (ack_ids s)) (nat mx)
           in Some (take to_copy (ack_ids s), to_copy))"

definition v2_clear_acks :: "v2_state \<Rightarrow> v2_state" where
  "v2_clear_acks s = s\<lparr>ack_ids := []\<rparr>"

section \<open>Invariant\<close>

text \<open>The capacities the two doubling policies go through.\<close>

definition seen_caps :: "nat set" where "seen_caps = {0, 64, 128, 256, 512, 1024}"
definition ack_caps :: "nat set" where "ack_caps = {0, 16, 32, 64, 128, 256, 512, 1024}"

lemma seen_caps_grow:
  "c \<in> seen_caps \<Longrightarrow> c \<le> n \<Longrightarrow> n \<le> c \<Longrightarrow> n < 1000 \<Longrightarrow>
     (if c = 0 then 64 else c * 2) \<in> seen_caps \<and> n < (if c = 0 then 64 else c * 2)"
  by (auto simp: seen_caps_def)

lemma ack_caps_grow:
  "c \<in> ack_caps \<Longrightarrow> c \<le> n \<Longrightarrow> n \<le> c \<Longrightarrow> n < 1024 \<Longrightarrow>
     (if c = 0 then 16 else min (c * 2) 1024) \<in> ack_caps
     \<and> n < (if c = 0 then 16 else min (c * 2) 1024) \<and> c < 1024"
  by (auto simp: ack_caps_def)

lemma caps_zero [simp]: "0 \<in> seen_caps" "0 \<in> ack_caps"
  by (auto simp: seen_caps_def ack_caps_def)

lemma seen_caps_full: "c \<in> seen_caps \<Longrightarrow> 1000 \<le> c \<Longrightarrow> c = 1024"
  by (auto simp: seen_caps_def)

lemma ack_caps_le: "c \<in> ack_caps \<Longrightarrow> c \<le> 1024"
  by (auto simp: ack_caps_def)

definition v2_inv :: "v2_state \<Rightarrow> bool" where
  "v2_inv s \<longleftrightarrow> 0 \<le> fail_count s
     \<and> length (seen_events s) \<le> V2_SEEN_EVENTS_MAX
     \<and> length (seen_events s) \<le> seen_capacity s
     \<and> seen_capacity s \<in> seen_caps
     \<and> distinct (seen_events s)
     \<and> length (ack_ids s) \<le> ack_capacity s
     \<and> ack_capacity s \<in> ack_caps"

lemma v2_inv_init: "v2_inv v2_state_init"
  by (simp add: v2_inv_def v2_state_init_def)

lemma v2_inv_cleanup: "v2_inv s \<Longrightarrow> v2_inv (v2_state_cleanup s)"
  by (auto simp: v2_inv_def v2_state_cleanup_def Let_def)

lemma v2_inv_note: "v2_inv s \<Longrightarrow> v2_inv (snd (v2_note_attempt_result b s))"
  by (auto simp: v2_inv_def v2_note_attempt_result_def)

lemma v2_inv_clear: "v2_inv s \<Longrightarrow> v2_inv (v2_clear_acks s)"
  by (auto simp: v2_inv_def v2_clear_acks_def)

lemma is_seen_iff [simp]: "v2_is_event_seen s e \<longleftrightarrow> e \<in> set (seen_events s)"
  by (auto simp: v2_is_event_seen_def list_ex_iff)

lemma array_push_Some [simp]: "length xs < cap \<Longrightarrow> array_push cap xs x = Some (xs @ [x])"
  by (simp add: array_push_def)

lemma distinct_tl_push: "distinct xs \<Longrightarrow> x \<notin> set (tl xs) \<Longrightarrow> distinct (tl xs @ [x])"
  by (cases xs) auto

lemma take_min_length: "length xs = m \<Longrightarrow> take (min n m) xs = take n xs"
  by (auto simp: min_def)

lemma in_set_tl: "x \<in> set (tl xs) \<Longrightarrow> x \<in> set xs"
  by (cases xs) auto

text \<open>Neither operation stores out of bounds, whatever the allocator does, and both keep the
  invariant and the other half of the state.\<close>

lemma v2_add_seen_event_ok:
  assumes "v2_inv s"
  obtains r s' where "v2_add_seen_event ro mo e s = Some (r, s')" "v2_inv s'"
    "fail_count s' = fail_count s" "ack_ids s' = ack_ids s" "ack_capacity s' = ack_capacity s"
proof -
  define s1 where "s1 = (if length (seen_events s) \<ge> V2_SEEN_EVENTS_MAX
                  then s\<lparr>seen_events := tl (seen_events s)\<rparr> else s)"
  have s1: "v2_inv s1" "length (seen_events s1) < V2_SEEN_EVENTS_MAX"
      "e \<notin> set (seen_events s) \<Longrightarrow> e \<notin> set (seen_events s1)"
      "fail_count s1 = fail_count s" "ack_ids s1 = ack_ids s" "ack_capacity s1 = ack_capacity s"
    using assms by (auto simp: s1_def v2_inv_def distinct_tl in_set_tl)
  define cap where "cap = (if seen_capacity s1 = 0 then V2_SEEN_EVENTS_INIT_CAPACITY
                            else seen_capacity s1 * 2)"
  have grow: "seen_capacity s1 \<le> length (seen_events s1) \<Longrightarrow>
      cap \<in> seen_caps \<and> length (seen_events s1) < cap"
    using s1(1,2) seen_caps_grow [of "seen_capacity s1" "length (seen_events s1)"]
    by (simp add: v2_inv_def cap_def)
  show ?thesis
  proof (cases "e \<in> set (seen_events s)")
    case True
    with assms show ?thesis by (intro that [of 0 s]) (simp_all add: v2_add_seen_event_def)
  next
    case False
    with s1(3) have "e \<notin> set (seen_events s1)" by simp
    then show ?thesis
      using False s1 grow that
      unfolding v2_add_seen_event_def s1_def [symmetric] cap_def [symmetric] Let_def
      by (cases "seen_capacity s1 \<le> length (seen_events s1)"; cases ro; cases mo)
         (simp_all add: v2_inv_def)
  qed
qed

lemma v2_add_ack_event_ok:
  assumes "v2_inv s"
  obtains r s' where "v2_add_ack_event ro i s = Some (r, s')" "v2_inv s'"
    "fail_count s' = fail_count s" "seen_events s' = seen_events s"
    "seen_capacity s' = seen_capacity s"
proof -
  define s1 where "s1 = (if length (ack_ids s) \<ge> V2_ACK_IDS_MAX
                  then s\<lparr>ack_ids := tl (ack_ids s)\<rparr> else s)"
  have s1: "v2_inv s1" "length (ack_ids s1) < V2_ACK_IDS_MAX"
      "fail_count s1 = fail_count s" "seen_events s1 = seen_events s"
      "seen_capacity s1 = seen_capacity s"
    using assms ack_caps_le [of "ack_capacity s"] by (auto simp: s1_def v2_inv_def)
  define cap where "cap = (if ack_capacity s1 = 0 then V2_ACK_IDS_INIT_CAPACITY
                          else min (ack_capacity s1 * 2) V2_ACK_IDS_MAX)"
  have grow: "ack_capacity s1 \<le> length (ack_ids s1) \<Longrightarrow>
      cap \<in> ack_caps \<and> length (ack_ids s1) < cap \<and> ack_capacity s1 < V2_ACK_IDS_MAX"
    using s1(1,2) ack_caps_grow [of "ack_capacity s1" "length (ack_ids s1)"]
    by (simp add: v2_inv_def cap_def)
  show ?thesis
    using s1 grow that
    unfolding v2_add_ack_event_def s1_def [symmetric] cap_def [symmetric] Let_def
    by (cases "ack_capacity s1 \<le> length (ack_ids s1)"; cases ro) (simp_all add: v2_inv_def)
qed

text \<open>What a successful call records, as a function of the list alone.\<close>

lemma v2_add_seen_event_known:
  "e \<in> set (seen_events s) \<Longrightarrow> v2_add_seen_event ro mo e s = Some (0, s)"
  by (simp add: v2_add_seen_event_def)

lemma v2_add_seen_event_new:
  assumes "v2_inv s" "e \<notin> set (seen_events s)"
  shows "\<exists>s'. v2_add_seen_event True True e s = Some (0, s')
           \<and> seen_events s' = last_n V2_SEEN_EVENTS_MAX (seen_events s @ [e])"
proof (cases "length (seen_events s) \<ge> V2_SEEN_EVENTS_MAX")
  case True
  with assms(1) have l: "length (seen_events s) = V2_SEEN_EVENTS_MAX" by (simp add: v2_inv_def)
  with assms(1) have "seen_capacity s = 1024" by (auto simp: v2_inv_def intro: seen_caps_full)
  with True l assms(2) show ?thesis
    by (simp add: v2_add_seen_event_def Let_def last_n_snoc_full)
next
  case False
  with assms show ?thesis
    using seen_caps_grow [of "seen_capacity s" "length (seen_events s)"]
    by (cases "seen_capacity s \<le> length (seen_events s)")
       (simp_all add: v2_add_seen_event_def Let_def v2_inv_def split del: if_split)
qed

lemma v2_add_ack_event_new:
  assumes "v2_inv s"
  shows "\<exists>s'. v2_add_ack_event True i s = Some (0, s')
           \<and> ack_ids s' = last_n V2_ACK_IDS_MAX (ack_ids s @ [i])"
proof (cases "length (ack_ids s) \<ge> V2_ACK_IDS_MAX")
  case True
  with assms have l: "length (ack_ids s) = V2_ACK_IDS_MAX" "ack_capacity s = 1024"
    using ack_caps_le [of "ack_capacity s"] by (simp_all add: v2_inv_def)
  with True show ?thesis
    by (simp add: v2_add_ack_event_def Let_def last_n_snoc_full)
next
  case False
  with assms show ?thesis
    using ack_caps_grow [of "ack_capacity s" "length (ack_ids s)"]
    by (cases "ack_capacity s \<le> length (ack_ids s)")
       (simp_all add: v2_add_ack_event_def Let_def v2_inv_def split del: if_split)
qed

text \<open>The two lists provide the window contracts.\<close>

definition seen_add :: "v2_state \<Rightarrow> string \<Rightarrow> v2_state" where
  "seen_add s e = snd (the (v2_add_seen_event True True e s))"

definition ack_add :: "v2_state \<Rightarrow> int \<Rightarrow> v2_state" where
  "ack_add s i = snd (the (v2_add_ack_event True i s))"

lemma seen_add_inv: "v2_inv s \<Longrightarrow> v2_inv (seen_add s e)"
  by (erule v2_add_seen_event_ok [of s True True e]) (simp add: seen_add_def)

lemma ack_add_inv: "v2_inv s \<Longrightarrow> v2_inv (ack_add s i)"
  by (erule v2_add_ack_event_ok [of s True i]) (simp add: ack_add_def)

lemma seen_add_new:
  "v2_inv s \<Longrightarrow> e \<notin> set (seen_events s)
     \<Longrightarrow> seen_events (seen_add s e) = last_n V2_SEEN_EVENTS_MAX (seen_events s @ [e])"
  using v2_add_seen_event_new [of s e] by (auto simp: seen_add_def)

lemma ack_add_new:
  "v2_inv s \<Longrightarrow> ack_ids (ack_add s i) = last_n V2_ACK_IDS_MAX (ack_ids s @ [i])"
  using v2_add_ack_event_new [of s i] by (auto simp: ack_add_def)

lemma seen_add_known:
  "v2_inv s \<Longrightarrow> e \<in> set (seen_events s) \<Longrightarrow> seen_events (seen_add s e) = seen_events s"
  by (simp add: seen_add_def v2_add_seen_event_known)

lemma v2_inv_seen_len: "v2_inv s \<Longrightarrow> length (seen_events s) \<le> V2_SEEN_EVENTS_MAX"
  by (simp add: v2_inv_def)

lemma v2_inv_ack_len: "v2_inv s \<Longrightarrow> length (ack_ids s) \<le> V2_ACK_IDS_MAX"
  using ack_caps_le [of "ack_capacity s"] by (simp add: v2_inv_def)

interpretation seen_w: dedup_window seen_add seen_events v2_inv V2_SEEN_EVENTS_MAX
  by unfold_locales
     (simp_all add: seen_add_inv seen_add_new seen_add_known v2_inv_seen_len)

interpretation ack_w: log_window ack_add ack_ids v2_inv V2_ACK_IDS_MAX
  by unfold_locales (auto simp: ack_add_inv ack_add_new v2_inv_ack_len)

section \<open>Runs of the component\<close>

text \<open>
  A step is one critical section of any thread: the receive thread records and acknowledges
  events, the report thread snapshots and clears, both note protocol results.
\<close>

inductive v2_step :: "v2_state \<Rightarrow> v2_state \<Rightarrow> bool" where
  seen: "v2_add_seen_event ro mo e s = Some (r, s') \<Longrightarrow> v2_step s s'"
| ack: "v2_add_ack_event ro i s = Some (r, s') \<Longrightarrow> v2_step s s'"
| noted: "v2_note_attempt_result b s = (n, s') \<Longrightarrow> v2_step s s'"
| clear: "v2_step s (v2_clear_acks s)"

inductive v2_reachable :: "v2_state \<Rightarrow> bool" where
  init: "v2_reachable v2_state_init"
| step: "v2_reachable s \<Longrightarrow> v2_step s t \<Longrightarrow> v2_reachable t"

lemma v2_step_inv: "v2_step s t \<Longrightarrow> v2_inv s \<Longrightarrow> v2_inv t"
proof (induction rule: v2_step.induct)
  case (seen ro mo e s r s')
  then show ?case using v2_add_seen_event_ok [of s ro mo e] by (metis Pair_inject option.inject)
next
  case (ack ro i s r s')
  then show ?case using v2_add_ack_event_ok [of s ro i] by (metis Pair_inject option.inject)
next
  case (noted b s n s')
  then show ?case using v2_inv_note [of s b] by simp
qed (rule v2_inv_clear)

lemma v2_reachable_inv: "v2_reachable s \<Longrightarrow> v2_inv s"
  by (induction rule: v2_reachable.induct) (auto intro: v2_inv_init v2_step_inv)

text \<open>C40. In every state any interleaving of the threads' critical sections can reach, the
  invariant holds (at most 1000 distinct seen ids and 1024 pending acknowledgements, both
  inside their allocations) and no operation stores outside an allocation, whatever
  \<open>malloc\<close> and \<open>realloc\<close> return.\<close>

theorem v2_memory_safe:
  assumes "v2_reachable s"
  shows "v2_inv s \<and> v2_add_seen_event ro mo e s \<noteq> None \<and> v2_add_ack_event ra i s \<noteq> None"
proof -
  from assms have inv: "v2_inv s" by (rule v2_reachable_inv)
  then show ?thesis
    using v2_add_seen_event_ok [of s ro mo e] v2_add_ack_event_ok [of s ra i]
    by (metis option.distinct(1))
qed

theorem v2_memory_safe_witness:
  "v2_inv (seen_add v2_state_init ''e1'')
   \<and> v2_add_seen_event True False ''e2'' (seen_add v2_state_init ''e1'') \<noteq> None
   \<and> v2_add_ack_event False 7 (seen_add v2_state_init ''e1'') \<noteq> None"
proof -
  have "v2_add_seen_event True True ''e1'' v2_state_init = Some (0, seen_add v2_state_init ''e1'')"
    by (simp add: seen_add_def v2_add_seen_event_def v2_state_init_def)
  then have "v2_reachable (seen_add v2_state_init ''e1'')"
    by (rule v2_reachable.step [OF v2_reachable.init v2_step.seen])
  then show ?thesis by (rule v2_memory_safe)
qed

text \<open>Duplicate suppression: a new event id that is recorded is still recognised by
  \<open>v2_is_event_seen\<close> after fewer than 1000 further recordings of any ids, so a
  retransmission within that window is never taken for a new event.\<close>

theorem v2_dedup_window:
  assumes "v2_reachable s" "\<not> v2_is_event_seen s e" "length es < 1000"
  shows "v2_is_event_seen (foldl seen_add (seen_add s e) es) e"
  using seen_w.recent_is_known [of s e es] assms by (simp add: v2_reachable_inv)

theorem v2_dedup_window_witness:
  "v2_is_event_seen (foldl seen_add (seen_add v2_state_init ''a'') [''b'', ''a'', ''c'']) ''a''"
  by (rule v2_dedup_window [OF v2_reachable.init]) (simp_all add: v2_state_init_def)

text \<open>Acknowledgement list: after recording any ids, the list holds the last 1024 of the
  ids pending before and the new ones, in order; a snapshot then copies its first
  \<open>max\<close> ids and \<open>v2_clear_acks\<close> empties it.\<close>

theorem v2_ack_fifo:
  assumes "v2_reachable s" "0 \<le> m"
  shows "ack_ids (foldl ack_add s ids) = last_n 1024 (ack_ids s @ ids)
    \<and> v2_snapshot_ack_ids (foldl ack_add s ids) m =
        Some (take (nat m) (last_n 1024 (ack_ids s @ ids)),
              min (min 1024 (length (ack_ids s) + length ids)) (nat m))
    \<and> ack_ids (v2_clear_acks (foldl ack_add s ids)) = []"
proof -
  have "ack_ids (foldl ack_add s ids) = last_n 1024 (ack_ids s @ ids)"
    using ack_w.contents_foldl [of s ids] assms by (simp add: v2_reachable_inv)
  then show ?thesis using assms(2)
    by (simp add: v2_snapshot_ack_ids_def v2_clear_acks_def Let_def min.commute take_min_length)
qed

theorem v2_ack_fifo_witness:
  "ack_ids (foldl ack_add v2_state_init [3, 1, 2]) = last_n 1024 (ack_ids v2_state_init @ [3, 1, 2])
   \<and> v2_snapshot_ack_ids (foldl ack_add v2_state_init [3, 1, 2]) 2 =
        Some (take (nat 2) (last_n 1024 (ack_ids v2_state_init @ [3, 1, 2])),
              min (min 1024 (length (ack_ids v2_state_init) + length [3, 1, 2 :: int])) (nat 2))
   \<and> ack_ids (v2_clear_acks (foldl ack_add v2_state_init [3, 1, 2])) = []"
  by (rule v2_ack_fifo [OF v2_reachable.init]) simp

definition v2_note_all :: "bool list \<Rightarrow> v2_state \<Rightarrow> v2_state" where
  "v2_note_all rs s = foldl (\<lambda>s b. snd (v2_note_attempt_result b s)) s rs"

lemma v2_note_all_count:
  "fail_count (v2_note_all rs v2_state_init) = int (length (takeWhile Not (rev rs)))"
proof (induction rs rule: rev_induct)
  case Nil
  show ?case by (simp add: v2_note_all_def v2_state_init_def)
next
  case (snoc r rs)
  then show ?case by (simp add: v2_note_all_def v2_note_attempt_result_def)
qed

text \<open>Fallback rule: the failure counter is the number of failures since the last success,
  so \<open>v2_should_fallback_to_v1\<close> holds exactly when the attempts noted since the start end in
  at least three failures in a row.\<close>

theorem v2_fallback_iff:
  "v2_should_fallback_to_v1 (v2_note_all rs v2_state_init)
     \<longleftrightarrow> 3 \<le> length rs \<and> last_n 3 rs = [False, False, False]"
proof -
  have "3 \<le> length (takeWhile Not (rev rs)) \<longleftrightarrow> 3 \<le> length rs \<and> take 3 (rev rs) = [False, False, False]"
  proof (cases "rev rs")
    case (Cons a as)
    then have "length rs = Suc (length as)" by (metis length_Cons length_rev)
    with Cons show ?thesis
      by (cases as; cases "tl as") (auto simp: numeral_3_eq_3)
  qed simp
  moreover have "take 3 (rev rs) = rev (last_n 3 rs)" by (simp add: last_n_def take_rev)
  moreover have "rev (last_n 3 rs) = [False, False, False] \<longleftrightarrow> last_n 3 rs = [False, False, False]"
    by (metis append.simps(1) append.simps(2) rev.simps rev_rev_ident)
  ultimately show ?thesis
    by (simp add: v2_should_fallback_to_v1_def v2_note_all_count)
qed

end
