(* ===== verification/WsEvent.thy ===== *)
theory WsEvent
  imports JsonRpc V2State WsCodec
begin

text \<open>
  What the receive thread does with one complete text message: the field extraction of v1
  messages (\<open>ws_message_parse_from_json\<close>), the v2 JSON-RPC events (\<open>ws_handle_v2_event\<close>)
  and the choice between them, all of \<open>src/network/websocket.c\<close>.  Calls of the registered
  handlers are outputs, in order.
\<close>

section \<open>Messages\<close>

record ws_message =
  msg_message :: string
  msg_terminal_id :: string
  msg_exec_command :: string
  msg_exec_task_id :: string
  msg_ping_task_id :: u32
  msg_ping_type :: string
  msg_ping_target :: string

definition empty_message :: ws_message where
  "empty_message = \<lparr>msg_message = [], msg_terminal_id = [], msg_exec_command = [],
     msg_exec_task_id = [], msg_ping_task_id = 0, msg_ping_type = [], msg_ping_target = []\<rparr>"

text \<open>Every string field holds its text and a NUL in the array of \<open>ws_message_t\<close>.\<close>

definition message_fits :: "ws_message \<Rightarrow> bool" where
  "message_fits m \<longleftrightarrow> length (msg_message m) < 32 \<and> length (msg_terminal_id m) < 64
     \<and> length (msg_exec_command m) < 1024 \<and> length (msg_exec_task_id m) < 64
     \<and> length (msg_ping_type m) < 16 \<and> length (msg_ping_target m) < 256"

text \<open>What the compiler makes of a double outside the range of the target type (undefined in C),
  and the outcomes of the allocations.\<close>

record ws_env =
  ub_u32 :: "rat \<Rightarrow> u32"
  ub_long :: "rat \<Rightarrow> int"
  json_parse :: "string \<Rightarrow> cjson option"
  realloc_seen_ok :: bool
  dup_ok :: bool
  realloc_ack_ok :: bool

definition double_to_u32 :: "ws_env \<Rightarrow> rat \<Rightarrow> u32" where
  "double_to_u32 env x = (if - 1 < x \<and> x < 4294967296 then of_int (trunc_rat x) else ub_u32 env x)"

definition double_to_long :: "ws_env \<Rightarrow> rat \<Rightarrow> int" where
  "double_to_long env x =
     (if of_int c_long_min - 1 < x \<and> x < of_int c_long_max + 1 then trunc_rat x else ub_long env x)"

text \<open>\<open>strncpy(dst, item->valuestring, n - 1)\<close> when the item is a string.\<close>

definition copy_string_item :: "cjson option \<Rightarrow> nat \<Rightarrow> string \<Rightarrow> string" where
  "copy_string_item item n dst =
     (case item of Some (CString s) \<Rightarrow> strncpy_term n s | _ \<Rightarrow> dst)"

definition get_item_or :: "cjson \<Rightarrow> string \<Rightarrow> string \<Rightarrow> cjson option" where
  "get_item_or rt a b =
     (case cJSON_GetObjectItem rt a of None \<Rightarrow> cJSON_GetObjectItem rt b | Some i \<Rightarrow> Some i)"

definition ws_message_parse_from_json :: "ws_env \<Rightarrow> cjson \<Rightarrow> ws_message \<Rightarrow> ws_message" where
  "ws_message_parse_from_json env rt m =
     m\<lparr>msg_message := copy_string_item (cJSON_GetObjectItem rt ''message'') 32 (msg_message m),
       msg_terminal_id :=
         copy_string_item (get_item_or rt ''terminal_id'' ''request_id'') 64 (msg_terminal_id m),
       msg_exec_command :=
         copy_string_item (get_item_or rt ''exec_command'' ''command'') 1024 (msg_exec_command m),
       msg_exec_task_id :=
         copy_string_item (get_item_or rt ''exec_task_id'' ''task_id'') 64 (msg_exec_task_id m),
       msg_ping_type := copy_string_item (cJSON_GetObjectItem rt ''ping_type'') 16 (msg_ping_type m),
       msg_ping_target :=
         copy_string_item (cJSON_GetObjectItem rt ''ping_target'') 256 (msg_ping_target m),
       msg_ping_task_id :=
         (case cJSON_GetObjectItem rt ''ping_task_id'' of
            Some (CNumber x) \<Rightarrow> double_to_u32 env x | _ \<Rightarrow> msg_ping_task_id m)\<rparr>"

section \<open>v2 events\<close>

definition v2_extract_string :: "cjson \<Rightarrow> string \<Rightarrow> nat \<Rightarrow> string \<Rightarrow> string" where
  "v2_extract_string obj field n dst = copy_string_item (cJSON_GetObjectItem obj field) n dst"

definition v2_extract_uint32 :: "ws_env \<Rightarrow> cjson \<Rightarrow> string \<Rightarrow> u32" where
  "v2_extract_uint32 env obj field =
     (case cJSON_GetObjectItem obj field of Some (CNumber x) \<Rightarrow> double_to_u32 env x | _ \<Rightarrow> 0)"

text \<open>The id used for duplicate detection (None for an event without one) and the id to
  acknowledge (0 for none).\<close>

definition v2_event_ids :: "ws_env \<Rightarrow> cjson \<Rightarrow> jsonrpc_event \<Rightarrow> string option \<times> int" where
  "v2_event_ids env rt ev =
     (case ev_id ev of
        Some (c # cs) \<Rightarrow>
          (case strtol10 (c # cs) of (val, endp, some_digit) \<Rightarrow>
            (Some (c # cs), if some_digit \<and> val > 0 then c_int_of_long val else 0))
      | _ \<Rightarrow>
          (case cJSON_GetObjectItem rt ''id'' of
             Some (CNumber x) \<Rightarrow>
               (let val = double_to_long env x
                in if val > 0 then (snprintf_chk 32 (show_int val), c_int_of_long val) else (None, 0))
           | _ \<Rightarrow> (None, 0)))"

text \<open>The dispatch on the method: the message for the handler, if one is called, and the
  \<open>processed\<close> flag.\<close>

definition v2_dispatch :: "ws_env \<Rightarrow> string \<Rightarrow> cjson option \<Rightarrow> ws_message option \<times> bool" where
  "v2_dispatch env meth params =
     (if meth = AGENT_EXEC then
        (let m = empty_message\<lparr>msg_message := ''exec''\<rparr>
         in (Some (case params of None \<Rightarrow> m
               | Some p \<Rightarrow> m\<lparr>msg_exec_task_id := v2_extract_string p ''task_id'' 64 [],
                             msg_exec_command := v2_extract_string p ''command'' 1024 []\<rparr>), True))
      else if meth = AGENT_PING then
        (let m0 = empty_message\<lparr>msg_message := ''ping''\<rparr>;
             m = (case params of None \<Rightarrow> m0
               | Some p \<Rightarrow> m0\<lparr>msg_ping_task_id := v2_extract_uint32 env p ''ping_task_id'',
                              msg_ping_type := v2_extract_string p ''ping_type'' 16 [],
                              msg_ping_target := v2_extract_string p ''ping_target'' 256 []\<rparr>)
         in (if contains_crlf (msg_ping_target m) then None else Some m, True))
      else if meth = AGENT_TERMINAL_REQUEST then
        (let m = (case params of None \<Rightarrow> empty_message
               | Some p \<Rightarrow> empty_message\<lparr>msg_terminal_id := v2_extract_string p ''request_id'' 64 []\<rparr>)
         in (if contains_crlf (msg_terminal_id m) then None else Some m, True))
      else if meth = AGENT_MESSAGE \<or> meth = AGENT_EVENT then (None, True)
      else (None, False))"

text \<open>The whole handler.  The result is the messages given to the handler and the new v2 state;
  None is a store outside an allocation.\<close>

definition v2_record_seen :: "ws_env \<Rightarrow> string option \<Rightarrow> v2_state \<Rightarrow> (bool \<times> v2_state) option" where
  "v2_record_seen env id_str s =
     (case id_str of None \<Rightarrow> Some (False, s)
      | Some i \<Rightarrow>
          if v2_is_event_seen s i then Some (True, s)
          else map_option (\<lambda>(r, s'). (False, s'))
                 (v2_add_seen_event (realloc_seen_ok env) (dup_ok env) i s))"

definition v2_record_ack :: "ws_env \<Rightarrow> int \<Rightarrow> bool \<Rightarrow> v2_state \<Rightarrow> v2_state option" where
  "v2_record_ack env ack_id wanted s =
     (if ack_id > 0 \<and> wanted then map_option snd (v2_add_ack_event (realloc_ack_ok env) ack_id s)
      else Some s)"

definition ws_handle_v2_event ::
    "ws_env \<Rightarrow> bool \<Rightarrow> cjson \<Rightarrow> v2_state \<Rightarrow> (ws_message list \<times> v2_state) option" where
  "ws_handle_v2_event env has_handler rt s =
     (case jsonrpc_parse_event_from_json (Some rt) of None \<Rightarrow> Some ([], s)
      | Some ev \<Rightarrow>
         (case v2_event_ids env rt ev of (id_str, ack_id) \<Rightarrow>
           (case v2_record_seen env id_str s of None \<Rightarrow> None
            | Some (is_duplicate, s1) \<Rightarrow>
                let (msg, processed) =
                      (if is_duplicate then (None, False)
                       else case ev_method ev of None \<Rightarrow> (None, False)
                            | Some meth \<Rightarrow> v2_dispatch env meth (ev_params ev));
                    calls = (case msg of Some m \<Rightarrow> if has_handler then [m] else [] | None \<Rightarrow> [])
                in map_option (\<lambda>s2. (calls, s2))
                     (v2_record_ack env ack_id (is_duplicate \<or> processed) s1))))"

section \<open>One text message\<close>

datatype ws_out = CallHandler ws_message | CallRaw "byte list"

definition is_v2_event :: "cjson \<Rightarrow> bool" where
  "is_v2_event rt \<longleftrightarrow>
     get_string rt ''jsonrpc'' = Some JSONRPC_VERSION \<and> get_string rt ''method'' \<noteq> None"

definition ws_handle_v1_message :: "ws_env \<Rightarrow> cjson \<Rightarrow> ws_out list" where
  "ws_handle_v1_message env rt =
     (let m = ws_message_parse_from_json env rt empty_message
      in if contains_crlf (msg_terminal_id m) \<or> contains_crlf (msg_ping_target m) then []
         else [CallHandler m])"

definition ws_dispatch_text ::
    "ws_env \<Rightarrow> bool \<Rightarrow> bool \<Rightarrow> byte list \<Rightarrow> v2_state \<Rightarrow> (ws_out list \<times> v2_state) option" where
  "ws_dispatch_text env has_raw has_handler data s =
     (if has_raw then Some ([CallRaw data], s)
      else if has_handler then
        (case json_parse env (c_str data) of
           None \<Rightarrow> Some ([CallHandler empty_message], s)
         | Some rt \<Rightarrow>
             if is_v2_event rt then
               map_option (\<lambda>(ms, s'). (map CallHandler ms, s')) (ws_handle_v2_event env has_handler rt s)
             else Some (ws_handle_v1_message env rt, s))
      else Some ([], s))"

section \<open>Bounds of the dispatched messages\<close>

lemma copy_string_item_bound [bounds]:
  "length dst < n \<Longrightarrow> length (copy_string_item item n dst) < n"
  by (auto simp: copy_string_item_def split: option.splits cjson.splits intro: length_strncpy_term)

lemma empty_message_fits: "message_fits empty_message"
  by (simp add: message_fits_def empty_message_def)

lemma empty_message_no_crlf:
  "\<not> contains_crlf (msg_terminal_id empty_message) \<and> \<not> contains_crlf (msg_ping_target empty_message)"
  by (simp add: empty_message_def contains_crlf_def)

lemma v1_message_fits: "message_fits m \<Longrightarrow> message_fits (ws_message_parse_from_json env rt m)"
  by (simp add: message_fits_def ws_message_parse_from_json_def bounds)

lemma ws_handle_v1_ok:
  "CallHandler m \<in> set (ws_handle_v1_message env rt) \<Longrightarrow> message_fits m
     \<and> \<not> contains_crlf (msg_terminal_id m) \<and> \<not> contains_crlf (msg_ping_target m)"
  using v1_message_fits [OF empty_message_fits, of env rt]
  by (auto simp: ws_handle_v1_message_def Let_def split: if_splits)

lemma v2_dispatch_ok:
  assumes "v2_dispatch env meth params = (Some m, p)"
  shows "message_fits m \<and> \<not> contains_crlf (msg_terminal_id m) \<and> \<not> contains_crlf (msg_ping_target m) \<and> p"
  using assms
  by (auto simp: v2_dispatch_def Let_def message_fits_def empty_message_def v2_extract_string_def
        bounds contains_crlf_def split: if_splits option.splits)

lemma v2_record_seen_ok:
  assumes "v2_inv s"
  obtains d s' where "v2_record_seen env i s = Some (d, s')" "v2_inv s'" "ack_ids s' = ack_ids s"
    "d \<longleftrightarrow> (\<exists>e. i = Some e \<and> v2_is_event_seen s e)"
proof (cases i)
  case None
  with assms show ?thesis by (intro that [of False s]) (simp_all add: v2_record_seen_def)
next
  case (Some e)
  show ?thesis
  proof (cases "v2_is_event_seen s e")
    case True
    with assms Some show ?thesis by (intro that [of True s]) (simp_all add: v2_record_seen_def)
  next
    case False
    obtain r s' where "v2_add_seen_event (realloc_seen_ok env) (dup_ok env) e s = Some (r, s')"
        "v2_inv s'" "ack_ids s' = ack_ids s"
      using assms by (rule v2_add_seen_event_ok)
    with False Some show ?thesis by (intro that [of False s']) (simp_all add: v2_record_seen_def)
  qed
qed

lemma v2_record_ack_ok:
  assumes "v2_inv s"
  obtains s' where "v2_record_ack env a w s = Some s'" "v2_inv s'"
    "seen_events s' = seen_events s"
proof (cases "a > 0 \<and> w")
  case True
  then show ?thesis
    using v2_add_ack_event_ok [OF assms, of "realloc_ack_ok env" a] that
    by (metis map_option_eq_Some snd_conv v2_record_ack_def)
next
  case False
  then have "v2_record_ack env a w s = Some s" by (auto simp: v2_record_ack_def)
  then show ?thesis using assms that by simp
qed

text \<open>The handler in one equation: the duplicate flag decides the calls, and the
  acknowledgement follows the flag or the dispatch.\<close>

definition v2_calls :: "ws_env \<Rightarrow> bool \<Rightarrow> bool \<Rightarrow> jsonrpc_event \<Rightarrow> ws_message list \<times> bool" where
  "v2_calls env has_handler dup ev =
     (case (if dup then (None, False)
            else case ev_method ev of None \<Rightarrow> (None, False)
                 | Some meth \<Rightarrow> v2_dispatch env meth (ev_params ev)) of
        (msg, processed) \<Rightarrow>
          ((case msg of Some m \<Rightarrow> if has_handler then [m] else [] | None \<Rightarrow> []), processed))"

lemma handle_v2_event_eq:
  assumes "jsonrpc_parse_event_from_json (Some rt) = Some ev" "v2_event_ids env rt ev = (i, a)"
    "v2_record_seen env i s = Some (d, s1)"
  shows "ws_handle_v2_event env hh rt s =
     map_option (\<lambda>s2. (fst (v2_calls env hh d ev), s2))
       (v2_record_ack env a (d \<or> snd (v2_calls env hh d ev)) s1)"
  using assms
  by (simp add: ws_handle_v2_event_def v2_calls_def Let_def split: prod.splits)

lemma handle_v2_event_ackD:
  assumes "jsonrpc_parse_event_from_json (Some rt) = Some ev" "v2_event_ids env rt ev = (i, a)"
    "v2_record_seen env i s = Some (d, s1)" "ws_handle_v2_event env hh rt s = Some (ms, s')"
  shows "v2_record_ack env a (d \<or> snd (v2_calls env hh d ev)) s1 = Some s'"
  using assms(4) unfolding handle_v2_event_eq [OF assms(1-3)] by auto

lemma v2_calls_dup [simp]: "v2_calls env hh True ev = ([], False)"
  by (simp add: v2_calls_def)

lemma v2_calls_ok:
  assumes "m \<in> set (fst (v2_calls env hh d ev))"
  shows "message_fits m \<and> \<not> contains_crlf (msg_terminal_id m) \<and> \<not> contains_crlf (msg_ping_target m)"
  using assms v2_dispatch_ok
  by (fastforce simp: v2_calls_def split: prod.splits if_splits option.splits)

lemma handle_v2_event_ok:
  assumes "v2_inv s"
  obtains ms s' where "ws_handle_v2_event env hh rt s = Some (ms, s')" "v2_inv s'"
    "\<And>m. m \<in> set ms \<Longrightarrow> message_fits m \<and> \<not> contains_crlf (msg_terminal_id m)
                        \<and> \<not> contains_crlf (msg_ping_target m)"
proof (cases "jsonrpc_parse_event_from_json (Some rt)")
  case None
  with assms show ?thesis by (intro that [of "[]" s]) (simp_all add: ws_handle_v2_event_def)
next
  case (Some ev)
  obtain i a where ia: "v2_event_ids env rt ev = (i, a)" by fastforce
  obtain d s1 where seen: "v2_record_seen env i s = Some (d, s1)" "v2_inv s1"
    using assms by (rule v2_record_seen_ok)
  obtain s2 where "v2_record_ack env a (d \<or> snd (v2_calls env hh d ev)) s1 = Some s2" "v2_inv s2"
    using seen(2) by (rule v2_record_ack_ok)
  with handle_v2_event_eq [OF Some ia seen(1), of hh] show ?thesis
    by (intro that [of "fst (v2_calls env hh d ev)" s2]) (auto dest: v2_calls_ok)
qed

lemma ws_dispatch_text_ok:
  assumes "v2_inv s"
  obtains outs s' where "ws_dispatch_text env has_raw hh data s = Some (outs, s')" "v2_inv s'"
    "\<And>m. CallHandler m \<in> set outs \<Longrightarrow> message_fits m \<and> \<not> contains_crlf (msg_terminal_id m)
                        \<and> \<not> contains_crlf (msg_ping_target m)"
proof (cases "has_raw \<or> \<not> hh \<or> json_parse env (c_str data) = None")
  case True
  then consider "has_raw" | "\<not> has_raw" "\<not> hh" | "\<not> has_raw" "hh" "json_parse env (c_str data) = None"
    by (cases has_raw; cases hh) auto
  then show ?thesis
  proof cases
    case 1
    with assms show ?thesis by (intro that [of "[CallRaw data]" s]) (auto simp: ws_dispatch_text_def)
  next
    case 2
    with assms show ?thesis by (intro that [of "[]" s]) (auto simp: ws_dispatch_text_def)
  next
    case 3
    with assms empty_message_fits empty_message_no_crlf show ?thesis
      by (intro that [of "[CallHandler empty_message]" s]) (auto simp: ws_dispatch_text_def)
  qed
next
  case False
  then obtain rt where rt: "\<not> has_raw" "hh" "json_parse env (c_str data) = Some rt" by auto
  show ?thesis
  proof (cases "is_v2_event rt")
    case True
    obtain ms s' where "ws_handle_v2_event env True rt s = Some (ms, s')" "v2_inv s'"
      "\<And>m. m \<in> set ms \<Longrightarrow> message_fits m \<and> \<not> contains_crlf (msg_terminal_id m)
                        \<and> \<not> contains_crlf (msg_ping_target m)"
      using handle_v2_event_ok [OF assms, of env True rt] by metis
    with rt True show ?thesis
      by (intro that [of "map CallHandler ms" s']) (auto simp: ws_dispatch_text_def)
  next
    case False
    with rt assms show ?thesis
      by (intro that [of "ws_handle_v1_message env rt" s])
         (simp_all add: ws_dispatch_text_def ws_handle_v1_ok)
  qed
qed

text \<open>Events never touch the failure counter.\<close>

lemma add_event_fail_count [frame_simps]:
  "v2_add_seen_event ro mo e s = Some (r, s') \<Longrightarrow> fail_count s' = fail_count s"
  "v2_add_ack_event ro i s = Some (r, s') \<Longrightarrow> fail_count s' = fail_count s"
  by (auto simp: v2_add_seen_event_def v2_add_ack_event_def Let_def split: if_splits option.splits)

lemma record_fail_count [frame_simps]:
  "v2_record_seen env i s = Some (d, s') \<Longrightarrow> fail_count s' = fail_count s"
  "v2_record_ack env a w s = Some s' \<Longrightarrow> fail_count s' = fail_count s"
  by (auto simp: v2_record_seen_def v2_record_ack_def frame_simps split: if_splits option.splits)

lemma dispatch_text_fail_count [frame_simps]:
  "ws_dispatch_text env hr hh data s = Some (outs, s') \<Longrightarrow> fail_count s' = fail_count s"
  by (auto simp: ws_dispatch_text_def ws_handle_v2_event_def Let_def
      split: if_splits option.splits prod.splits dest!: record_fail_count)

text \<open>Every text message is handled without a store outside an allocation and keeps the v2
  invariant, and every message given to the handler fits the fixed arrays of
  \<open>ws_message_t\<close> and carries no CR or LF in its terminal id or ping target, whatever JSON
  the server sends over v1 or v2.\<close>

theorem dispatch_text_safe:
  assumes "v2_reachable s"
  shows "\<exists>outs s'. ws_dispatch_text env has_raw hh data s = Some (outs, s') \<and> v2_inv s'
    \<and> (\<forall>m. CallHandler m \<in> set outs \<longrightarrow> message_fits m \<and> \<not> contains_crlf (msg_terminal_id m)
                                         \<and> \<not> contains_crlf (msg_ping_target m))"
  by (rule ws_dispatch_text_ok [OF v2_reachable_inv [OF assms], of env has_raw hh data]) blast


text \<open>A concrete environment and event for the witnesses.\<close>

definition sample_env :: "cjson option \<Rightarrow> ws_env" where
  "sample_env rt = \<lparr>ub_u32 = (\<lambda>_. 0), ub_long = (\<lambda>_. 0), json_parse = (\<lambda>_. rt),
     realloc_seen_ok = True, dup_ok = True, realloc_ack_ok = True\<rparr>"

definition sample_event :: "string \<Rightarrow> string \<Rightarrow> cjson" where
  "sample_event ident cmd = CObject [(''jsonrpc'', CString ''2.0''), (''method'', CString ''agent.exec''),
     (''id'', CString ident), (''params'', CObject [(''command'', CString cmd)])]"

theorem dispatch_text_safe_witness:
  "\<exists>outs s'. ws_dispatch_text (sample_env (Some (sample_event ''5'' ''uptime''))) False True [] v2_state_init
        = Some (outs, s') \<and> v2_inv s'
    \<and> (\<forall>m. CallHandler m \<in> set outs \<longrightarrow> message_fits m \<and> \<not> contains_crlf (msg_terminal_id m)
                                         \<and> \<not> contains_crlf (msg_ping_target m))"
  by (rule dispatch_text_safe [OF v2_reachable.init])

section \<open>Duplicate events\<close>

text \<open>\<open>e\<close> has been recorded and at most \<open>k\<close> ids were recorded after it.\<close>

definition seen_age :: "string \<Rightarrow> nat \<Rightarrow> v2_state \<Rightarrow> bool" where
  "seen_age e k s \<longleftrightarrow> (\<exists>pre post. seen_events s = pre @ e # post \<and> length post \<le> k)"

lemma seen_age_seen: "seen_age e k s \<Longrightarrow> v2_is_event_seen s e"
  by (auto simp: seen_age_def)

lemma seen_age_mono: "seen_age e k s \<Longrightarrow> seen_events s' = seen_events s \<Longrightarrow> k \<le> k' \<Longrightarrow> seen_age e k' s'"
  by (auto simp: seen_age_def intro: order_trans)

lemma add_seen_event_lists:
  assumes "v2_add_seen_event ro mo x s = Some (r, s')"
  shows "seen_events s' \<in> (let xs = seen_events s; ys = (if length xs \<ge> V2_SEEN_EVENTS_MAX then tl xs else xs)
                           in {xs, ys, ys @ [x]})"
  using assms
  by (auto simp: v2_add_seen_event_def Let_def array_push_def split: if_splits option.splits)

lemma seen_age_add:
  assumes "v2_add_seen_event ro mo x s = Some (r, s')" "seen_age e k s" "Suc k < 1000"
  shows "seen_age e (Suc k) s'"
proof -
  obtain pre post where xs: "seen_events s = pre @ e # post" "length post \<le> k"
    using assms(2) by (auto simp: seen_age_def)
  define pre' where "pre' = (if length (seen_events s) \<ge> V2_SEEN_EVENTS_MAX then tl pre else pre)"
  have ys: "(if length (seen_events s) \<ge> V2_SEEN_EVENTS_MAX then tl (seen_events s) else seen_events s)
      = pre' @ e # post"
    using xs assms(3) by (cases pre) (auto simp: pre'_def)
  have "seen_events s' \<in> {pre @ e # post, pre' @ e # post, (pre' @ e # post) @ [x]}"
    using add_seen_event_lists [OF assms(1)] unfolding Let_def ys by (simp only: xs(1))
  then show ?thesis using xs(2) unfolding seen_age_def by fastforce
qed

lemma seen_age_record:
  assumes "v2_record_seen env i s = Some (d, s')" "seen_age e k s" "Suc k < 1000"
  shows "seen_age e (Suc k) s'"
  using assms seen_age_add [OF _ assms(2,3)]
  by (fastforce simp: v2_record_seen_def split: option.splits if_splits intro: seen_age_mono [OF assms(2)])

lemma seen_age_ack:
  "v2_record_ack env a w s = Some s' \<Longrightarrow> seen_events s' = seen_events s"
  by (auto simp: v2_record_ack_def v2_add_ack_event_def Let_def split: if_splits option.splits)

lemma seen_age_handle:
  assumes "ws_handle_v2_event env hh rt s = Some (ms, s')" "seen_age e k s" "Suc k < 1000" "v2_inv s"
  shows "seen_age e (Suc k) s'"
proof (cases "jsonrpc_parse_event_from_json (Some rt)")
  case None
  with assms(1) have "s' = s" by (simp add: ws_handle_v2_event_def)
  with assms(2) show ?thesis by (auto intro: seen_age_mono)
next
  case (Some ev)
  obtain i a where ia: "v2_event_ids env rt ev = (i, a)" by fastforce
  obtain d s1 where seen: "v2_record_seen env i s = Some (d, s1)"
    using assms(4) by (rule v2_record_seen_ok)
  have "v2_record_ack env a (d \<or> snd (v2_calls env hh d ev)) s1 = Some s'"
    by (rule handle_v2_event_ackD [OF Some ia seen assms(1)])
  with seen_age_record [OF seen assms(2,3)] show ?thesis
    using seen_age_ack seen_age_mono by blast
qed

text \<open>Events handled one after the other, each with its own allocation outcomes.\<close>

fun ws_handle_v2_events ::
    "bool \<Rightarrow> (ws_env \<times> cjson) list \<Rightarrow> v2_state \<Rightarrow> (ws_message list list \<times> v2_state) option" where
  "ws_handle_v2_events hh [] s = Some ([], s)"
| "ws_handle_v2_events hh ((env, rt) # evs) s =
     (case ws_handle_v2_event env hh rt s of None \<Rightarrow> None
      | Some (ms, s1) \<Rightarrow>
          map_option (\<lambda>(mss, s2). (ms # mss, s2)) (ws_handle_v2_events hh evs s1))"

lemma seen_age_events:
  "ws_handle_v2_events hh evs s = Some (mss, s') \<Longrightarrow> v2_inv s \<Longrightarrow> seen_age e k s
     \<Longrightarrow> k + length evs < 1000 \<Longrightarrow> v2_inv s' \<and> seen_age e (k + length evs) s'"
proof (induction evs arbitrary: s mss k)
  case Nil
  then show ?case by simp
next
  case (Cons ev evs)
  obtain env rt where ev: "ev = (env, rt)" by fastforce
  obtain ms s1 where h: "ws_handle_v2_event env hh rt s = Some (ms, s1)" "v2_inv s1"
    using Cons.prems(2) by (rule handle_v2_event_ok)
  obtain mss' where r: "ws_handle_v2_events hh evs s1 = Some (mss', s')"
    using Cons.prems(1) h(1) ev by auto
  have "seen_age e (Suc k) s1" using Cons.prems by (intro seen_age_handle [OF h(1)]) auto
  from Cons.IH [OF r h(2) this] Cons.prems(4) show ?case by simp
qed

lemma recorded_age:
  assumes "v2_record_seen env (Some e) s = Some (d, s1)" "realloc_seen_ok env" "dup_ok env" "v2_inv s"
    "\<not> v2_is_event_seen s e"
  shows "seen_age e 0 s1"
proof -
  obtain s' where "v2_add_seen_event True True e s = Some (0, s')"
      "seen_events s' = last_n V2_SEEN_EVENTS_MAX (seen_events s @ [e])"
    using v2_add_seen_event_new [OF assms(4)] assms(5) by auto
  with assms have "seen_events s1 = last_n V2_SEEN_EVENTS_MAX (seen_events s @ [e])"
    by (auto simp: v2_record_seen_def)
  then show ?thesis by (auto simp: seen_age_def last_n_def)
qed

lemma ack_recorded:
  assumes "v2_record_ack env a True s = Some s'" "realloc_ack_ok env" "v2_inv s" "0 < a"
  shows "a \<in> set (ack_ids s')"
proof -
  obtain t where "v2_add_ack_event True a s = Some (0, t)"
      "ack_ids t = last_n V2_ACK_IDS_MAX (ack_ids s @ [a])"
    using v2_add_ack_event_new [OF assms(3)] by auto
  with assms show ?thesis by (auto simp: v2_record_ack_def last_n_def)
qed

text \<open>C4. At-most-once dispatch with repeated acknowledgement: once an event with a fresh id has
  been handled (and its id stored), a retransmission of that id arriving after fewer than
  1000 other events, whatever these are and whichever of their allocations fail, calls no
  handler; it is still acknowledged, so the server stops retransmitting.\<close>

theorem duplicate_event_dispatched_once:
  assumes "v2_reachable s"
    and "jsonrpc_parse_event_from_json (Some rt) = Some ev" "v2_event_ids env rt ev = (Some e, a)"
    and "jsonrpc_parse_event_from_json (Some rt') = Some ev'" "v2_event_ids env' rt' ev' = (Some e, a')"
    and "realloc_seen_ok env" "dup_ok env" "\<not> v2_is_event_seen s e"
    and "ws_handle_v2_event env hh rt s = Some (ms, s1)"
    and "ws_handle_v2_events hh evs s1 = Some (mss, s2)" "length evs < 1000"
  shows "\<exists>s3. ws_handle_v2_event env' hh rt' s2 = Some ([], s3)
    \<and> (0 < a' \<longrightarrow> realloc_ack_ok env' \<longrightarrow> a' \<in> set (ack_ids s3))"
proof -
  have inv: "v2_inv s" using assms(1) by (rule v2_reachable_inv)
  obtain d t where t: "v2_record_seen env (Some e) s = Some (d, t)" "v2_inv t"
    using inv by (rule v2_record_seen_ok)
  have s1: "v2_record_ack env a (d \<or> snd (v2_calls env hh d ev)) t = Some s1"
    by (rule handle_v2_event_ackD [OF assms(2,3) t(1) assms(9)])
  have "seen_age e 0 t" by (rule recorded_age [OF t(1) assms(6,7) inv assms(8)])
  then have "seen_age e 0 s1" using seen_age_ack [OF s1] by (simp add: seen_age_def)
  moreover have "v2_inv s1" using v2_record_ack_ok [OF t(2)] s1 by (metis option.inject)
  ultimately have s2: "v2_inv s2" "seen_age e (length evs) s2"
    using seen_age_events [OF assms(10), of e 0] assms(11) by auto
  then have rec: "v2_record_seen env' (Some e) s2 = Some (True, s2)"
    using seen_age_seen by (simp add: v2_record_seen_def)
  obtain s3 where s3: "v2_record_ack env' a' True s2 = Some s3"
    using s2(1) by (rule v2_record_ack_ok)
  with handle_v2_event_eq [OF assms(4,5) rec, of hh] show ?thesis
    using ack_recorded [OF s3 _ s2(1)] by auto
qed


lemma sample_event_parsed:
  "jsonrpc_parse_event_from_json (Some (sample_event ident c)) =
     Some \<lparr>ev_id = Some ident, ev_method = Some ''agent.exec'',
           ev_params = Some (CObject [(''command'', CString c)]), ev_created_at = None, ev_expires_at = None\<rparr>"
  by (simp add: sample_event_def jsonrpc_parse_event_from_json_def get_string_def)

lemma sample_event_ids:
  "v2_event_ids (sample_env r) (sample_event ''5'' c)
     \<lparr>ev_id = Some ''5'', ev_method = m, ev_params = p, ev_created_at = None, ev_expires_at = None\<rparr>
   = (Some ''5'', 5)"
  by code_simp

definition sample_state :: v2_state where
  "sample_state = \<lparr>fail_count = 0, seen_events = [''5''], seen_capacity = 64,
     ack_ids = [5], ack_capacity = 16\<rparr>"

definition sample_msg :: "string \<Rightarrow> ws_message" where
  "sample_msg c = empty_message\<lparr>msg_message := ''exec'', msg_exec_command := c\<rparr>"

lemma sample_first:
  "ws_handle_v2_event (sample_env None) True (sample_event ''5'' ''uptime'') v2_state_init
     = Some ([sample_msg ''uptime''], sample_state)"
  by code_simp

theorem duplicate_event_dispatched_once_witness:
  "\<exists>s3. ws_handle_v2_event (sample_env None) True (sample_event ''5'' ''reboot'') sample_state = Some ([], s3)
    \<and> (0 < (5::int) \<longrightarrow> realloc_ack_ok (sample_env None) \<longrightarrow> 5 \<in> set (ack_ids s3))"
  by (rule duplicate_event_dispatched_once [OF v2_reachable.init sample_event_parsed sample_event_ids
        sample_event_parsed sample_event_ids _ _ _ sample_first, where evs = "[]"])
     (simp_all add: sample_env_def v2_state_init_def)

text \<open>Numeric event ids are read as 64-bit integers and used as such for duplicate
  detection, but acknowledged as C \<open>int\<close>s: an id that does not fit is acknowledged under
  another number, congruent to it modulo 2^32.\<close>

theorem numeric_event_id_truncated:
  assumes "ev_id ev = None" "cJSON_GetObjectItem rt ''id'' = Some (CNumber (of_int n))"
    "0 < n" "n \<le> c_long_max"
  shows "v2_event_ids env rt ev = (Some (show_int n), c_int_of_long n)
    \<and> (c_int_of_long n = n \<longleftrightarrow> n \<le> c_int_max) \<and> (c_int_of_long n - n) mod 4294967296 = 0"
proof -
  have l: "double_to_long env (of_int n) = n"
    using assms(3,4) by (simp add: double_to_long_def c_limits)
  have "n < 10 ^ 19" using assms(4) by (simp add: c_limits)
  then have "length (show_int n) \<le> 19"
    using assms(3) show_nat_lengthI [of "nat n" 19] by (simp add: show_int_def)
  then have "snprintf_chk 32 (show_int n) = Some (show_int n)" by (simp add: cstr)
  moreover have "c_int_of_long n = n \<longleftrightarrow> n \<le> c_int_max"
    using c_int_of_long_range [of n] assms(3) by (auto simp: c_limits)
  moreover have "(c_int_of_long n - n) mod 4294967296 = 0"
  proof -
    have "c_int_of_long n - n = (n + 2147483648) mod 4294967296 - (n + 2147483648)"
      by (simp add: c_int_of_long_def)
    then show ?thesis by (metis mod_diff_left_eq mod_mod_trivial diff_self mod_0)
  qed
  ultimately show ?thesis using assms l by (simp add: v2_event_ids_def Let_def)
qed

theorem numeric_event_id_truncated_witness:
  "v2_event_ids (sample_env None) (CObject [(''id'', CNumber (of_int 4294967297))])
     \<lparr>ev_id = None, ev_method = None, ev_params = None, ev_created_at = None, ev_expires_at = None\<rparr>
   = (Some (show_int 4294967297), c_int_of_long 4294967297)
    \<and> (c_int_of_long 4294967297 = 4294967297 \<longleftrightarrow> (4294967297 :: int) \<le> c_int_max)
    \<and> (c_int_of_long 4294967297 - 4294967297) mod 4294967296 = 0"
  by (rule numeric_event_id_truncated) (simp_all add: c_limits)

end
