(* ===== verification/WsFrame.thy ===== *)
theory WsFrame
  imports WsSock WsCodec
begin

text \<open>
  One WebSocket frame (RFC 6455 section 5): \<open>ws_send_frame\<close> and \<open>ws_recv_frame\<close> of
  \<open>src/network/websocket.c\<close>.  Opcodes are the low nibble of the first byte; lengths on the
  wire are 64-bit words.
\<close>

abbreviation WS_MAX_MESSAGE_SIZE :: nat where "WS_MAX_MESSAGE_SIZE \<equiv> 65536"
abbreviation WS_HEADER_SIZE :: nat where "WS_HEADER_SIZE \<equiv> 14"

section \<open>Sending\<close>

definition frame_len_bytes :: "nat \<Rightarrow> byte list" where
  "frame_len_bytes len =
     (let l = of_nat len :: u64
      in if len \<le> 125 then [0x80 OR of_nat len]
         else if len \<le> 65535 then
           [0x80 OR 126, ucast (drop_bit 8 l AND 0xFF), ucast (l AND 0xFF)]
         else (0x80 OR 127) # map (\<lambda>i. ucast (drop_bit (56 - i * 8) l AND 0xFF)) [0..<8])"

definition frame_bytes :: "byte \<Rightarrow> byte list \<Rightarrow> byte list \<Rightarrow> byte list" where
  "frame_bytes opcode msk data =
     (0x80 OR (opcode AND 0x0F)) # frame_len_bytes (length data) @ msk @ ws_apply_mask msk data"

text \<open>The mask is random; \<open>rand()\<close> fills it when \<open>RAND_bytes\<close> fails.\<close>

definition frame_mask :: "byte list option \<Rightarrow> byte list \<Rightarrow> byte list" where
  "frame_mask rand_bytes fallback = (case rand_bytes of Some m \<Rightarrow> m | None \<Rightarrow> fallback)"

definition ws_send_frame ::
    "tx list \<Rightarrow> byte list \<Rightarrow> byte \<Rightarrow> byte list \<Rightarrow> bool \<times> byte list \<times> tx list" where
  "ws_send_frame ts msk opcode data = send_full ts (frame_bytes opcode msk data)"

section \<open>Receiving\<close>

definition recv_payload_len :: "byte \<Rightarrow> rx_state \<Rightarrow> u64 option \<times> rx_state" where
  "recv_payload_len b st =
     (let l7 = (ucast (b AND 0x7F) :: u64)
      in if l7 = 126 then
           (case read_full 2 st of
              (None, st') \<Rightarrow> (None, st')
            | (Some ext, st') \<Rightarrow> (Some (push_bit 8 (ucast (ext ! 0)) OR ucast (ext ! 1)), st'))
         else if l7 = 127 then
           (case read_full 8 st of
              (None, st') \<Rightarrow> (None, st')
            | (Some ext, st') \<Rightarrow> (Some (foldl (\<lambda>p e. push_bit 8 p OR ucast e) 0 ext), st'))
         else (Some l7, st))"

definition recv_mask :: "bool \<Rightarrow> rx_state \<Rightarrow> byte list option \<times> rx_state" where
  "recv_mask masked st = (if masked then read_full 4 st else (Some (replicate 4 0), st))"

text \<open>RSV bits and reserved opcodes, and the rules for control frames.\<close>

definition bad_first_byte :: "byte \<Rightarrow> bool" where
  "bad_first_byte h0 \<longleftrightarrow>
     h0 AND 0x70 \<noteq> 0
     \<or> (0x03 \<le> h0 AND 0x0F \<and> h0 AND 0x0F \<le> 0x07) \<or> (0x0B \<le> h0 AND 0x0F \<and> h0 AND 0x0F \<le> 0x0F)"

definition bad_control :: "byte \<Rightarrow> bool \<Rightarrow> u64 \<Rightarrow> bool" where
  "bad_control op fin plen \<longleftrightarrow> 0x08 \<le> op \<and> op \<le> 0x0A \<and> (plen > 125 \<or> \<not> fin)"

record ws_frame =
  f_opcode :: byte
  f_fin :: bool
  f_data :: "byte list"

definition ws_recv_frame :: "nat \<Rightarrow> rx_state \<Rightarrow> ws_frame option \<times> rx_state" where
  "ws_recv_frame buflen st =
     (case read_full 2 st of
        (None, st1) \<Rightarrow> (None, st1)
      | (Some h, st1) \<Rightarrow>
          let fin = (h ! 0 AND 0x80 \<noteq> 0); op = h ! 0 AND 0x0F; masked = (h ! 1 AND 0x80 \<noteq> 0)
          in if bad_first_byte (h ! 0) then (None, st1)
             else case recv_payload_len (h ! 1) st1 of
               (None, st2) \<Rightarrow> (None, st2)
             | (Some plen, st2) \<Rightarrow>
                 if bad_control op fin plen then (None, st2)
                 else case recv_mask masked st2 of
                   (None, st3) \<Rightarrow> (None, st3)
                 | (Some msk, st3) \<Rightarrow>
                     if unat plen > buflen then (None, st3)
                     else case read_full (unat plen) st3 of
                       (None, st4) \<Rightarrow> (None, st4)
                     | (Some d, st4) \<Rightarrow>
                         (Some \<lparr>f_opcode = op, f_fin = fin,
                                f_data = (if masked then ws_apply_mask msk d else d)\<rparr>, st4))"

section \<open>Length fields\<close>

lemma high_bits_zero: "\<lbrakk>n < 2 ^ k; k \<le> i\<rbrakk> \<Longrightarrow> \<not> bit (of_nat n :: u64) i"
proof -
  assume "n < 2 ^ k" "k \<le> i"
  then have "take_bit i n = n" by (metis order_less_le_trans one_le_numeral power_increasing take_bit_nat_eq_self)
  then have "\<not> bit n i" by (metis bit_take_bit_iff less_irrefl)
  then show ?thesis by (simp add: bit_simps)
qed

lemma len16_roundtrip:
  assumes "n \<le> 65535"
  shows "push_bit 8 (ucast (ucast (drop_bit 8 (of_nat n :: u64) AND 0xFF) :: byte))
     OR ucast (ucast ((of_nat n :: u64) AND 0xFF) :: byte) = (of_nat n :: u64)"
proof -
  have m: "(0xFF :: u64) = mask 8" by (simp add: mask_eq_decr_exp)
  have low: "i < 16" if "bit (of_nat n :: u64) i" for i
    using that assms high_bits_zero [of n 16 i] by (cases "16 \<le> i") simp_all
  show ?thesis unfolding m
    by (intro bit_word_eqI) (auto simp del: bit_of_nat_iff_bit simp: bit_word_ucast_iff bit_push_bit_iff bit_or_iff
        bit_and_iff bit_mask_iff bit_drop_bit_eq dest: low)
qed

fun be_bytes :: "nat \<Rightarrow> u64 \<Rightarrow> byte list" where
  "be_bytes 0 l = []"
| "be_bytes (Suc k) l = be_bytes k (drop_bit 8 l) @ [ucast l]"

lemma be_fold_bytes:
  "foldl (\<lambda>p e. push_bit 8 p OR ucast e) (0 :: u64) (be_bytes k l) = take_bit (8 * k) l"
proof (induction k arbitrary: l)
  case (Suc k)
  have "push_bit 8 (take_bit (8 * k) (drop_bit 8 l)) OR ucast (ucast l :: byte) = take_bit (8 + 8 * k) l"
    by (intro bit_word_eqI) (auto simp: bit_simps)
  with Suc show ?case by simp
qed simp

lemma len64_bytes:
  "map (\<lambda>i. ucast (drop_bit (56 - i * 8) l AND 0xFF)) [0..<8] = be_bytes 8 (l :: u64)"
proof -
  have ff: "(0xFF :: u64) = mask 8" by (simp add: mask_eq_decr_exp)
  have m: "ucast (w AND 0xFF) = (ucast w :: byte)" for w :: u64
    unfolding ff by (intro bit_word_eqI) (auto simp: bit_simps)
  show ?thesis by (simp add: m upt_rec numeral_eq_Suc)
qed

lemma len7_roundtrip:
  "n \<le> 125 \<Longrightarrow> (0x80 OR of_nat n :: byte) AND 0x7F = of_nat n \<and> (0x80 OR of_nat n :: byte) AND 0x80 \<noteq> 0"
proof -
  have "\<forall>n \<in> set [0..<126]. (0x80 OR of_nat n :: byte) AND 0x7F = of_nat n
      \<and> (0x80 OR of_nat n :: byte) AND 0x80 \<noteq> 0"
    by code_simp
  then show "n \<le> 125 \<Longrightarrow> ?thesis" by simp
qed

lemma small_ucast: "n < 256 \<Longrightarrow> ucast (of_nat n :: byte) = (of_nat n :: u64)"
  by (simp add: unsigned_of_nat take_bit_nat_eq_self)

lemma recv_payload_len_ok:
  assumes "frame_len_bytes len = b # ext" "len < 2 ^ 64" "in_stream st = ext @ tail"
  shows "b AND 0x80 \<noteq> 0"
    and "\<exists>st'. recv_payload_len b st = (Some (of_nat len), st') \<and> in_stream st' = tail"
proof -
  consider "len \<le> 125" | "125 < len" "len \<le> 65535" | "65535 < len" by linarith
  then have "b AND 0x80 \<noteq> 0 \<and>
      (\<exists>st'. recv_payload_len b st = (Some (of_nat len), st') \<and> in_stream st' = tail)"
  proof cases
    case 1
    then have b: "b = 0x80 OR of_nat len" "ext = []"
      using assms(1) by (simp_all add: frame_len_bytes_def)
    have l: "(of_nat len :: u64) \<noteq> 126" "(of_nat len :: u64) \<noteq> 127"
      using 1 by (auto simp: word_unat_eq_iff unat_of_nat)
    have "recv_payload_len b st = (Some (of_nat len), st)"
      using len7_roundtrip [OF 1] 1 l by (simp add: recv_payload_len_def b small_ucast)
    then show ?thesis using len7_roundtrip [OF 1] b assms(3) by simp
  next
    case 2
    then obtain e0 e1 where b: "b = 0x80 OR 126" "ext = [e0, e1]"
      "push_bit 8 (ucast e0) OR ucast e1 = (of_nat len :: u64)"
      using assms(1) len16_roundtrip [of len] by (auto simp: frame_len_bytes_def Let_def)
    obtain st' where "read_full 2 st = (Some [e0, e1], st')" "in_stream st' = tail"
      by (rule sock.rd_prefix [of st "[e0, e1]" tail 2]) (simp_all add: assms(3) b)
    then show ?thesis using b by (simp add: recv_payload_len_def)
  next
    case 3
    then have b: "b = 0x80 OR 127" "ext = be_bytes 8 (of_nat len)"
      using assms(1) len64_bytes [of "of_nat len"] by (auto simp: frame_len_bytes_def Let_def)
    have len: "length (be_bytes 8 (of_nat len)) = 8"
      by (simp add: len64_bytes [symmetric])
    obtain st' where r: "read_full 8 st = (Some (be_bytes 8 (of_nat len)), st')" "in_stream st' = tail"
      by (rule sock.rd_prefix [of st "be_bytes 8 (of_nat len)" tail 8]) (simp_all add: assms(3) b len)
    have "foldl (\<lambda>p e. push_bit 8 p OR ucast e) 0 (be_bytes 8 (of_nat len)) = (of_nat len :: u64)"
      by (simp only: be_fold_bytes) (simp add: take_bit_word_eq_self)
    with r show ?thesis by (simp add: recv_payload_len_def b)
  qed
  then show "b AND 0x80 \<noteq> 0"
    and "\<exists>st'. recv_payload_len b st = (Some (of_nat len), st') \<and> in_stream st' = tail" by auto
qed

definition valid_opcode :: "byte \<Rightarrow> bool" where
  "valid_opcode op \<longleftrightarrow> op \<in> {0x00, 0x01, 0x02, 0x08, 0x09, 0x0A}"

lemma first_byte_ok:
  "valid_opcode op \<Longrightarrow> \<not> bad_first_byte (0x80 OR (op AND 0x0F)) \<and> (0x80 OR (op AND 0x0F)) AND 0x0F = op
     \<and> (0x80 OR (op AND 0x0F)) AND 0x80 \<noteq> 0"
  by (auto simp: valid_opcode_def bad_first_byte_def word_le_nat_alt)

lemma frame_len_bytes_Cons:
  obtains b ext where "frame_len_bytes len = b # ext"
  by (cases "frame_len_bytes len") (auto simp: frame_len_bytes_def Let_def split: if_splits)

lemma frame_read:
  assumes "valid_opcode op" "length msk = 4" "length data \<le> buflen" "buflen < 2 ^ 64"
    "0x08 \<le> op \<longrightarrow> length data \<le> 125"
    "in_stream st = frame_bytes op msk data @ rest"
  shows "\<exists>st'. ws_recv_frame buflen st = (Some \<lparr>f_opcode = op, f_fin = True, f_data = data\<rparr>, st')
      \<and> in_stream st' = rest"
proof -
  obtain b ext where len: "frame_len_bytes (length data) = b # ext" by (rule frame_len_bytes_Cons)
  let ?h0 = "0x80 OR (op AND 0x0F)" and ?d = "ws_apply_mask msk data"
  have small: "length data < 2 ^ 64" using assms(3,4) by simp
  obtain st1 where st1: "read_full 2 st = (Some [?h0, b], st1)" "in_stream st1 = ext @ msk @ ?d @ rest"
    by (rule sock.rd_prefix [of st "[?h0, b]" "ext @ msk @ ?d @ rest" 2])
       (simp_all add: assms(6) frame_bytes_def len)
  from recv_payload_len_ok [OF len small st1(2)] obtain st2 where
    st2: "b AND 0x80 \<noteq> 0" "recv_payload_len b st1 = (Some (of_nat (length data)), st2)"
      "in_stream st2 = msk @ ?d @ rest" by blast
  obtain st3 where st3: "read_full 4 st2 = (Some msk, st3)" "in_stream st3 = ?d @ rest"
    by (rule sock.rd_prefix [OF st2(3)]) (simp add: assms(2))
  obtain st4 where st4: "read_full (length data) st3 = (Some ?d, st4)" "in_stream st4 = rest"
    by (rule sock.rd_prefix [OF st3(2)]) simp
  have u: "unat (of_nat (length data) :: u64) = length data"
    using small by (simp add: unat_of_nat)
  have "\<not> bad_control op True (of_nat (length data))"
    using assms(5) by (auto simp: bad_control_def word_less_nat_alt u)
  then show ?thesis
    using first_byte_ok [OF assms(1)] st1 st2 st3 st4 assms(3) u
    by (simp add: ws_recv_frame_def Let_def recv_mask_def)
qed

text \<open>C6. A frame written by \<open>ws_send_frame\<close> is read back by \<open>ws_recv_frame\<close> with the same
  opcode, FIN set and the same payload, for every payload that fits the reader's buffer (and
  every control payload up to 125 bytes), every mask key, and every way the transport cuts
  the bytes into pieces; exactly the bytes of the frame are consumed.\<close>

theorem frame_roundtrip:
  assumes "valid_opcode op" "length msk = 4" "length data \<le> buflen" "buflen < 2 ^ 64"
    "0x08 \<le> op \<longrightarrow> length data \<le> 125"
    "in_stream st = frame_bytes op msk data @ rest"
  shows "\<exists>st'. ws_recv_frame buflen st = (Some \<lparr>f_opcode = op, f_fin = True, f_data = data\<rparr>, st')
      \<and> in_stream st' = rest"
  using assms by (rule frame_read)

theorem frame_roundtrip_witness:
  "\<exists>st'. ws_recv_frame 65536 \<lparr>rx_script = [RxData (frame_bytes 1 [7, 8, 9, 10] [72, 105] @ [5])],
        pending_buf = [], pending_off = 0\<rparr>
      = (Some \<lparr>f_opcode = 1, f_fin = True, f_data = [72, 105]\<rparr>, st') \<and> in_stream st' = [5]"
  by (rule frame_roundtrip [where msk = "[7, 8, 9, 10]"])
     (simp_all add: valid_opcode_def in_stream_def frame_bytes_def)

lemma good_first_byte_opcode:
  assumes "\<not> bad_first_byte h"
  shows "valid_opcode (h AND 0x0F)"
proof -
  let ?op = "h AND 0x0F"
  have "?op \<le> 0x0F" by (rule word_and_le1)
  then have "unat ?op \<le> 15" by (simp add: word_le_nat_alt)
  moreover have "\<not> (3 \<le> unat ?op \<and> unat ?op \<le> 7)" "\<not> (11 \<le> unat ?op \<and> unat ?op \<le> 15)"
    using assms by (auto simp: bad_first_byte_def word_le_nat_alt)
  ultimately have "unat ?op \<in> {0, 1, 2, 8, 9, 10}" by auto
  then show ?thesis by (auto simp: valid_opcode_def word_unat_eq_iff)
qed

lemma recv_payload_len_measure:
  "recv_payload_len b st = (Some l, st') \<Longrightarrow> rx_measure st' \<le> rx_measure st"
  by (auto simp: recv_payload_len_def Let_def dest: read_full_measure_le
      split: if_splits prod.splits option.splits)

lemma recv_mask_measure: "recv_mask m st = (Some k, st') \<Longrightarrow> rx_measure st' \<le> rx_measure st"
  by (auto simp: recv_mask_def dest: read_full_measure_le split: if_splits)

lemma ws_recv_frame_inv:
  assumes "ws_recv_frame buflen st = (Some f, st')"
  obtains h plen msk d st1 st2 st3 where
    "read_full 2 st = (Some h, st1)" "\<not> bad_first_byte (h ! 0)"
    "recv_payload_len (h ! 1) st1 = (Some plen, st2)"
    "\<not> bad_control (h ! 0 AND 0x0F) (h ! 0 AND 0x80 \<noteq> 0) plen"
    "recv_mask (h ! 1 AND 0x80 \<noteq> 0) st2 = (Some msk, st3)" "unat plen \<le> buflen"
    "read_full (unat plen) st3 = (Some d, st')"
    "f = \<lparr>f_opcode = h ! 0 AND 0x0F, f_fin = (h ! 0 AND 0x80 \<noteq> 0),
          f_data = (if h ! 1 AND 0x80 \<noteq> 0 then ws_apply_mask msk d else d)\<rparr>"
  using assms
  by (auto simp: ws_recv_frame_def Let_def not_less split: if_splits prod.splits option.splits)

lemma ws_recv_frame_safe:
  assumes "ws_recv_frame buflen st = (Some f, st')"
  shows "valid_opcode (f_opcode f) \<and> length (f_data f) \<le> buflen
    \<and> (0x08 \<le> f_opcode f \<longrightarrow> f_fin f \<and> length (f_data f) \<le> 125)
    \<and> rx_measure st' < rx_measure st"
  using assms
proof (rule ws_recv_frame_inv)
  fix h plen msk d st1 st2 st3
  assume h: "read_full 2 st = (Some h, st1)" "\<not> bad_first_byte (h ! 0)"
    and l: "recv_payload_len (h ! 1) st1 = (Some plen, st2)"
      "\<not> bad_control (h ! 0 AND 0x0F) (h ! 0 AND 0x80 \<noteq> 0) plen"
    and m: "recv_mask (h ! 1 AND 0x80 \<noteq> 0) st2 = (Some msk, st3)"
    and d: "unat plen \<le> buflen" "read_full (unat plen) st3 = (Some d, st')"
    and f: "f = \<lparr>f_opcode = h ! 0 AND 0x0F, f_fin = (h ! 0 AND 0x80 \<noteq> 0),
          f_data = (if h ! 1 AND 0x80 \<noteq> 0 then ws_apply_mask msk d else d)\<rparr>"
  have op: "valid_opcode (f_opcode f)" using good_first_byte_opcode [OF h(2)] f by simp
  have len: "length (f_data f) = unat plen" using sock.rd_Some [OF d(2)] f by simp
  have "f_fin f \<and> unat plen \<le> 125" if "0x08 \<le> f_opcode f"
  proof -
    from op that have "f_opcode f \<le> 0x0A" by (auto simp: valid_opcode_def word_le_nat_alt)
    with that l(2) f show ?thesis by (auto simp: bad_control_def word_less_nat_alt)
  qed
  moreover have "rx_measure st' < rx_measure st"
    using read_full_measure [OF h(1)] recv_payload_len_measure [OF l(1)]
      recv_mask_measure [OF m] read_full_measure_le [OF d(2)] by simp
  ultimately show ?thesis using op len d(1) by simp
qed

text \<open>Every frame \<open>ws_recv_frame\<close> hands to the caller has a defined opcode and a payload
  that fits the caller's buffer; a control frame is final and carries at most 125 bytes; and
  the call consumed input, so the receive loop cannot spin on a frame.\<close>

theorem recv_frame_safe:
  assumes "ws_recv_frame buflen st = (Some f, st')"
  shows "valid_opcode (f_opcode f) \<and> length (f_data f) \<le> buflen
    \<and> (0x08 \<le> f_opcode f \<longrightarrow> f_fin f \<and> length (f_data f) \<le> 125)
    \<and> rx_measure st' < rx_measure st"
  using assms by (rule ws_recv_frame_safe)

theorem recv_frame_safe_witness:
  "valid_opcode 9 \<and> length [1 :: byte] \<le> 65536 \<and> length [1 :: byte] \<le> 125
    \<and> rx_measure \<lparr>rx_script = [], pending_buf = [0x89, 0x01, 0x01], pending_off = 3\<rparr>
      < rx_measure \<lparr>rx_script = [], pending_buf = [0x89, 0x01, 0x01], pending_off = 0\<rparr>"
proof -
  have "ws_recv_frame 65536 \<lparr>rx_script = [], pending_buf = [0x89, 0x01, 0x01], pending_off = 0\<rparr>
    = (Some \<lparr>f_opcode = 9, f_fin = True, f_data = [1]\<rparr>,
       \<lparr>rx_script = [], pending_buf = [0x89, 0x01, 0x01], pending_off = 3\<rparr>)"
    by (simp add: ws_recv_frame_def read_full_def recv_payload_len_def recv_mask_def
        bad_first_byte_def bad_control_def Let_def word_le_nat_alt)
  from recv_frame_safe [OF this] show ?thesis by simp
qed

end
