(* ===== verification/WsFragment.thy ===== *)
theory WsFragment
  imports WsFrame
begin

text \<open>
  Reassembly of fragmented messages: \<open>ws_fragment_accumulate\<close> of
  \<open>src/network/websocket.c\<close>.  The buffer is the list of the bytes written to it beside the
  capacity of its allocation; a write past the allocation is the result None.  \<open>alloc\<close> says
  which sizes \<open>realloc\<close> can serve.
\<close>

abbreviation WS_FRAGMENT_MAX_SIZE :: nat where "WS_FRAGMENT_MAX_SIZE \<equiv> 1048576"

record frag_state =
  fragment_buf :: "byte list option"
  fragment_len :: nat
  fragment_capacity :: nat
  fragment_opcode :: byte

datatype frag_result =
    FragError
  | FragMore
  | FragDone byte "byte list"

definition frag_init :: frag_state where
  "frag_init = \<lparr>fragment_buf = None, fragment_len = 0, fragment_capacity = 0, fragment_opcode = 0\<rparr>"

definition frag_reset :: "frag_state \<Rightarrow> frag_state" where
  "frag_reset fr = fr\<lparr>fragment_len := 0, fragment_opcode := 0\<rparr>"

text \<open>\<open>memcpy(buf + off, data, len)\<close> into an allocation of \<open>cap\<close> bytes.\<close>

definition buf_write :: "nat \<Rightarrow> byte list \<Rightarrow> nat \<Rightarrow> byte list \<Rightarrow> byte list option" where
  "buf_write cap buf off data =
     (if off + length data \<le> cap \<and> off \<le> length buf then Some (take off buf @ data) else None)"

text \<open>\<open>realloc\<close> to \<open>cap\<close> bytes keeps the contents.\<close>

definition frag_grow :: "nat \<Rightarrow> frag_state \<Rightarrow> frag_state" where
  "frag_grow cap fr =
     fr\<lparr>fragment_buf := Some (case fragment_buf fr of None \<Rightarrow> [] | Some b \<Rightarrow> b), fragment_capacity := cap\<rparr>"

definition frag_first ::
    "(nat \<Rightarrow> bool) \<Rightarrow> byte \<Rightarrow> byte list \<Rightarrow> frag_state \<Rightarrow> (frag_result \<times> frag_state) option" where
  "frag_first alloc opcode data fr =
     (if fragment_opcode fr \<noteq> 0 then Some (FragError, frag_reset fr)
      else if length data > WS_FRAGMENT_MAX_SIZE then Some (FragError, fr)
      else
        let needed = length data + 1;
            cap = (if needed > 4096 then needed else 4096);
            grow = (fragment_buf fr = None \<or> fragment_capacity fr < cap)
        in if grow \<and> \<not> alloc cap then Some (FragError, fr)
           else
             let fr1 = (if grow then frag_grow cap fr else fr)
             in case buf_write (fragment_capacity fr1) (the (fragment_buf fr1)) 0 data of
                  None \<Rightarrow> None
                | Some b \<Rightarrow> Some (FragMore,
                    fr1\<lparr>fragment_buf := Some b, fragment_len := length data, fragment_opcode := opcode\<rparr>))"

definition frag_cont ::
    "(nat \<Rightarrow> bool) \<Rightarrow> bool \<Rightarrow> byte list \<Rightarrow> frag_state \<Rightarrow> (frag_result \<times> frag_state) option" where
  "frag_cont alloc fin data fr =
     (if fragment_opcode fr = 0 then Some (FragError, fr)
      else if fragment_len fr + length data > WS_FRAGMENT_MAX_SIZE then Some (FragError, frag_reset fr)
      else
        let needed = fragment_len fr + length data + 1;
            grow = (fragment_capacity fr < needed);
            new_cap = (if fragment_capacity fr * 2 < needed then needed else fragment_capacity fr * 2)
        in if grow \<and> \<not> alloc new_cap then Some (FragError, frag_reset fr)
           else
             let fr1 = (if grow then frag_grow new_cap fr else fr)
             in case buf_write (fragment_capacity fr1) (the (fragment_buf fr1)) (fragment_len fr1) data of
                  None \<Rightarrow> None
                | Some b \<Rightarrow>
                    let fr2 = fr1\<lparr>fragment_buf := Some b, fragment_len := fragment_len fr1 + length data\<rparr>
                    in if fin
                       then Some (FragDone (fragment_opcode fr2) (take (fragment_len fr2) b), frag_reset fr2)
                       else Some (FragMore, fr2))"

definition ws_fragment_accumulate ::
    "(nat \<Rightarrow> bool) \<Rightarrow> byte \<Rightarrow> bool \<Rightarrow> byte list \<Rightarrow> frag_state \<Rightarrow> (frag_result \<times> frag_state) option" where
  "ws_fragment_accumulate alloc opcode fin data fr =
     (if fin \<and> opcode \<noteq> 0 then
        (if fragment_opcode fr \<noteq> 0 then Some (FragError, frag_reset fr)
         else Some (FragDone opcode data, fr))
      else if \<not> fin \<and> (opcode = 1 \<or> opcode = 2) then frag_first alloc opcode data fr
      else if opcode = 0 then frag_cont alloc fin data fr
      else Some (FragError, fr))"

section \<open>Memory safety\<close>

definition frag_inv :: "frag_state \<Rightarrow> bool" where
  "frag_inv fr \<longleftrightarrow>
     fragment_opcode fr \<in> {0, 1, 2}
     \<and> fragment_capacity fr \<le> 2 * WS_FRAGMENT_MAX_SIZE
     \<and> (case fragment_buf fr of
          None \<Rightarrow> fragment_capacity fr = 0 \<and> fragment_opcode fr = 0
        | Some b \<Rightarrow> length b \<le> fragment_capacity fr
            \<and> (fragment_opcode fr \<noteq> 0 \<longrightarrow> length b = fragment_len fr \<and> fragment_len fr < fragment_capacity fr
                 \<and> fragment_len fr \<le> WS_FRAGMENT_MAX_SIZE))"

lemma frag_inv_init: "frag_inv frag_init"
  by (simp add: frag_inv_def frag_init_def)

lemma frag_inv_reset: "frag_inv fr \<Longrightarrow> frag_inv (frag_reset fr)"
  by (auto simp: frag_inv_def frag_reset_def split: option.splits)

lemma frag_first_ok:
  assumes "frag_inv fr" "opcode = 1 \<or> opcode = 2"
  shows "\<exists>r fr'. frag_first alloc opcode data fr = Some (r, fr') \<and> frag_inv fr' \<and> (\<forall>o' m. r \<noteq> FragDone o' m)"
proof -
  consider "fragment_opcode fr \<noteq> 0" | "fragment_opcode fr = 0" "length data > WS_FRAGMENT_MAX_SIZE"
    | "fragment_opcode fr = 0" "length data \<le> WS_FRAGMENT_MAX_SIZE" by linarith
  then show ?thesis
  proof cases
    case 3
    define cap where "cap = (if length data + 1 > 4096 then length data + 1 else 4096)"
    have cap: "length data < cap" "cap \<le> 2 * WS_FRAGMENT_MAX_SIZE" using 3 by (auto simp: cap_def)
    show ?thesis
      unfolding frag_first_def cap_def [symmetric] Let_def
      using 3 assms cap
      by (cases "fragment_buf fr"; cases "fragment_capacity fr < cap"; cases "alloc cap")
         (auto simp: frag_grow_def buf_write_def frag_inv_def)
  qed (use assms(1) frag_inv_reset [OF assms(1)] in \<open>auto simp: frag_first_def\<close>)
qed

lemma frag_cont_ok:
  assumes "frag_inv fr"
  shows "\<exists>r fr'. frag_cont alloc fin data fr = Some (r, fr') \<and> frag_inv fr'
     \<and> (\<forall>o' m. r = FragDone o' m \<longrightarrow> length m < fragment_capacity fr' \<and> length m \<le> WS_FRAGMENT_MAX_SIZE)"
proof -
  consider "fragment_opcode fr = 0"
    | "fragment_opcode fr \<noteq> 0" "fragment_len fr + length data > WS_FRAGMENT_MAX_SIZE"
    | "fragment_opcode fr \<noteq> 0" "fragment_len fr + length data \<le> WS_FRAGMENT_MAX_SIZE" by linarith
  then show ?thesis
  proof cases
    case 3
    define needed where "needed = fragment_len fr + length data + 1"
    define cap where "cap = (if fragment_capacity fr * 2 < needed then needed else fragment_capacity fr * 2)"
    obtain b where b: "fragment_buf fr = Some b" "length b = fragment_len fr"
      "fragment_len fr < fragment_capacity fr"
      using assms 3(1) by (auto simp: frag_inv_def split: option.splits)
    have cap: "needed \<le> cap" "fragment_capacity fr < needed \<Longrightarrow> cap \<le> 2 * WS_FRAGMENT_MAX_SIZE"
      using 3(2) by (auto simp: cap_def needed_def)
    show ?thesis
      unfolding frag_cont_def needed_def [symmetric] cap_def [symmetric] Let_def
      using 3 assms b cap
      by (cases "fragment_capacity fr < needed"; cases "alloc cap"; cases fin)
         (auto simp: frag_grow_def buf_write_def frag_inv_def frag_reset_def needed_def)
  qed (use assms frag_inv_reset [OF assms] in \<open>auto simp: frag_cont_def\<close>)
qed

lemma fragment_safe:
  assumes "frag_inv fr"
  shows "\<exists>r fr'. ws_fragment_accumulate alloc opcode fin data fr = Some (r, fr') \<and> frag_inv fr'
    \<and> fragment_capacity fr' \<le> 2097152
    \<and> (\<forall>o' m. r = FragDone o' m \<and> opcode = 0 \<longrightarrow> length m < fragment_capacity fr' \<and> length m \<le> 1048576)"
proof -
  have le: "frag_inv x \<Longrightarrow> fragment_capacity x \<le> 2097152" for x by (simp add: frag_inv_def)
  consider "fin \<and> opcode \<noteq> 0" | "\<not> fin" "opcode = 1 \<or> opcode = 2" | "opcode = 0"
    | "\<not> fin" "opcode \<noteq> 0" "opcode \<noteq> 1" "opcode \<noteq> 2" by blast
  then show ?thesis
  proof cases
    case 1
    then show ?thesis using assms frag_inv_reset [OF assms] le by (auto simp: ws_fragment_accumulate_def)
  next
    case 2
    then show ?thesis
      using frag_first_ok [OF assms 2(2), of alloc data] le by (auto simp: ws_fragment_accumulate_def)
  next
    case 3
    then show ?thesis
      using frag_cont_ok [OF assms, of alloc fin data] le by (auto simp: ws_fragment_accumulate_def)
  next
    case 4
    then show ?thesis using assms le by (auto simp: ws_fragment_accumulate_def)
  qed
qed

text \<open>Reassembly never writes outside its allocation, whatever frames arrive and whichever
  reallocations fail: the invariant is kept, the allocation stays within 2 MiB, and a message
  it hands out from the buffer leaves room for the NUL byte the caller appends.\<close>

theorem fragment_memory_safe:
  assumes "frag_inv fr"
  shows "\<exists>r fr'. ws_fragment_accumulate alloc opcode fin data fr = Some (r, fr') \<and> frag_inv fr'
    \<and> fragment_capacity fr' \<le> 2097152
    \<and> (\<forall>o' m. r = FragDone o' m \<and> opcode = 0 \<longrightarrow> length m < fragment_capacity fr' \<and> length m \<le> 1048576)"
  using assms by (rule fragment_safe)

theorem fragment_memory_safe_witness:
  "\<exists>r fr'. ws_fragment_accumulate (\<lambda>n. n < 5000) 1 False [1, 2] frag_init = Some (r, fr') \<and> frag_inv fr'
    \<and> fragment_capacity fr' \<le> 2097152
    \<and> (\<forall>o' m. r = FragDone o' m \<and> (1 :: byte) = 0 \<longrightarrow> length m < fragment_capacity fr' \<and> length m \<le> 1048576)"
  by (rule fragment_memory_safe [OF frag_inv_init])

section \<open>Specification: the assembler of RFC 6455 section 5.4\<close>

text \<open>The abstract state is the message under construction: its opcode and the payload so far.\<close>

type_synonym assembly = "(byte \<times> byte list) option"

definition rfc_assemble :: "byte \<Rightarrow> bool \<Rightarrow> byte list \<Rightarrow> assembly \<Rightarrow> frag_result \<times> assembly" where
  "rfc_assemble opcode fin data st =
     (if fin \<and> opcode \<noteq> 0 then
        (case st of None \<Rightarrow> (FragDone opcode data, None) | Some _ \<Rightarrow> (FragError, None))
      else if \<not> fin \<and> (opcode = 1 \<or> opcode = 2) then
        (case st of None \<Rightarrow>
             if length data > WS_FRAGMENT_MAX_SIZE then (FragError, None) else (FragMore, Some (opcode, data))
         | Some _ \<Rightarrow> (FragError, None))
      else if opcode = 0 then
        (case st of None \<Rightarrow> (FragError, None)
         | Some (opc, b) \<Rightarrow>
             if length b + length data > WS_FRAGMENT_MAX_SIZE then (FragError, None)
             else if fin then (FragDone opc (b @ data), None) else (FragMore, Some (opc, b @ data)))
      else (FragError, st))"

definition frag_abs :: "frag_state \<Rightarrow> assembly" where
  "frag_abs fr = (if fragment_opcode fr = 0 then None
     else Some (fragment_opcode fr, take (fragment_len fr) (the (fragment_buf fr))))"

lemma frag_abs_idle [simp]: "frag_abs (frag_reset fr) = None"
  by (simp add: frag_abs_def frag_reset_def)

lemma frag_first_refines:
  assumes "frag_inv fr" "opcode = 1 \<or> opcode = 2"
  shows "\<exists>r fr'. frag_first (\<lambda>_. True) opcode data fr = Some (r, fr')
     \<and> (r, frag_abs fr') = rfc_assemble opcode False data (frag_abs fr)"
proof -
  consider "fragment_opcode fr \<noteq> 0" | "fragment_opcode fr = 0" "length data > WS_FRAGMENT_MAX_SIZE"
    | "fragment_opcode fr = 0" "length data \<le> WS_FRAGMENT_MAX_SIZE" by linarith
  then show ?thesis
  proof cases
    case 3
    define cap where "cap = (if length data + 1 > 4096 then length data + 1 else 4096)"
    have cap: "length data < cap" by (auto simp: cap_def)
    show ?thesis
      unfolding frag_first_def cap_def [symmetric] Let_def
      using 3 assms cap
      by (cases "fragment_buf fr"; cases "fragment_capacity fr < cap")
         (auto simp: frag_grow_def buf_write_def frag_abs_def rfc_assemble_def)
  qed (use assms in \<open>auto simp: frag_first_def rfc_assemble_def frag_abs_def frag_reset_def\<close>)
qed

lemma frag_cont_refines:
  assumes "frag_inv fr"
  shows "\<exists>r fr'. frag_cont (\<lambda>_. True) fin data fr = Some (r, fr')
     \<and> (r, frag_abs fr') = rfc_assemble 0 fin data (frag_abs fr)"
proof (cases "fragment_opcode fr = 0")
  case True
  then show ?thesis by (auto simp: frag_cont_def rfc_assemble_def frag_abs_def)
next
  case False
  then obtain b where b: "fragment_buf fr = Some b" "length b = fragment_len fr"
      "fragment_len fr < fragment_capacity fr"
    using assms by (auto simp: frag_inv_def split: option.splits)
  have abs: "frag_abs fr = Some (fragment_opcode fr, b)" using False b by (simp add: frag_abs_def)
  define needed where "needed = fragment_len fr + length data + 1"
  define cap where "cap = (if fragment_capacity fr * 2 < needed then needed else fragment_capacity fr * 2)"
  have cap: "needed \<le> cap" by (auto simp: cap_def needed_def)
  show ?thesis
    unfolding frag_cont_def needed_def [symmetric] cap_def [symmetric] Let_def
    using False b cap
    by (cases "fragment_len fr + length data > WS_FRAGMENT_MAX_SIZE"; cases "fragment_capacity fr < needed"; cases fin)
       (auto simp: frag_grow_def buf_write_def frag_reset_def needed_def abs rfc_assemble_def frag_abs_def)
qed

lemma fragment_sim:
  assumes "frag_inv fr"
  shows "\<exists>r fr'. ws_fragment_accumulate (\<lambda>_. True) opcode fin data fr = Some (r, fr') \<and> frag_inv fr'
     \<and> (r, frag_abs fr') = rfc_assemble opcode fin data (frag_abs fr)"
proof -
  have inv: "\<exists>r fr'. ws_fragment_accumulate (\<lambda>_. True) opcode fin data fr = Some (r, fr') \<and> frag_inv fr'"
  proof -
    consider "fin \<and> opcode \<noteq> 0" | "\<not> fin" "opcode = 1 \<or> opcode = 2" | "opcode = 0"
      | "\<not> fin" "opcode \<noteq> 0" "opcode \<noteq> 1" "opcode \<noteq> 2" by blast
    then show ?thesis
      using assms frag_inv_reset [OF assms] frag_first_ok [OF assms, of opcode "\<lambda>_. True" data]
        frag_cont_ok [OF assms, of "\<lambda>_. True" fin data]
      by cases (auto simp: ws_fragment_accumulate_def)
  qed
  have sim: "\<exists>r fr'. ws_fragment_accumulate (\<lambda>_. True) opcode fin data fr = Some (r, fr')
     \<and> (r, frag_abs fr') = rfc_assemble opcode fin data (frag_abs fr)"
  proof -
    consider "fin \<and> opcode \<noteq> 0" | "\<not> fin" "opcode = 1 \<or> opcode = 2" | "opcode = 0"
      | "\<not> fin" "opcode \<noteq> 0" "opcode \<noteq> 1" "opcode \<noteq> 2" by blast
    then show ?thesis
    proof cases
      case 1
      then show ?thesis
        by (auto simp: ws_fragment_accumulate_def rfc_assemble_def frag_abs_def frag_reset_def)
    next
      case 2
      then show ?thesis
        using frag_first_refines [OF assms 2(2), of data] by (auto simp: ws_fragment_accumulate_def)
    next
      case 3
      then show ?thesis
        using frag_cont_refines [OF assms, of fin data] by (simp add: ws_fragment_accumulate_def)
    next
      case 4
      then show ?thesis by (simp add: ws_fragment_accumulate_def rfc_assemble_def)
    qed
  qed
  from inv sim show ?thesis by auto
qed

text \<open>C5. Refinement: while memory lasts, \<open>ws_fragment_accumulate\<close> computes exactly the steps of
  the RFC 6455 assembler on the message under construction, with the 1 MiB limit, on every
  combination of opcode and FIN, the protocol errors included.\<close>

theorem fragment_refines_rfc:
  assumes "frag_inv fr"
  shows "\<exists>r fr'. ws_fragment_accumulate (\<lambda>_. True) opcode fin data fr = Some (r, fr') \<and> frag_inv fr'
     \<and> (r, frag_abs fr') = rfc_assemble opcode fin data (frag_abs fr)"
  using assms by (rule fragment_sim)

theorem fragment_refines_rfc_witness:
  "\<exists>r fr'. ws_fragment_accumulate (\<lambda>_. True) 0 True [3] frag_init = Some (r, fr') \<and> frag_inv fr'
     \<and> (r, frag_abs fr') = rfc_assemble 0 True [3] (frag_abs frag_init)"
  by (rule fragment_refines_rfc [OF frag_inv_init])

text \<open>Feeding frames one after the other while each is accepted and none completes.\<close>

fun frag_feed ::
    "(byte \<times> bool \<times> byte list) list \<Rightarrow> frag_state \<Rightarrow> (frag_result list \<times> frag_state) option" where
  "frag_feed [] fr = Some ([], fr)"
| "frag_feed ((opc, fin, data) # fs) fr =
     (case ws_fragment_accumulate (\<lambda>_. True) opc fin data fr of
        None \<Rightarrow> None
      | Some (r, fr') \<Rightarrow> map_option (\<lambda>(rs, fr''). (r # rs, fr'')) (frag_feed fs fr'))"

lemma frag_feed_continuations:
  assumes "frag_inv fr" "frag_abs fr = Some (opc, b)"
    "length b + length (concat ds) + length z \<le> WS_FRAGMENT_MAX_SIZE"
  shows "\<exists>fr'. frag_feed (map (\<lambda>d. (0, False, d)) ds @ [(0, True, z)]) fr
      = Some (replicate (length ds) FragMore @ [FragDone opc (b @ concat ds @ z)], fr')
      \<and> frag_inv fr' \<and> frag_abs fr' = None"
  using assms
proof (induction ds arbitrary: fr b)
  case Nil
  with fragment_sim [of fr 0 True z] show ?case
    by (auto simp: rfc_assemble_def)
next
  case (Cons d ds)
  from fragment_sim [OF Cons.prems(1), of 0 False d] Cons.prems obtain fr1 where
    fr1: "ws_fragment_accumulate (\<lambda>_. True) 0 False d fr = Some (FragMore, fr1)" "frag_inv fr1"
      "frag_abs fr1 = Some (opc, b @ d)"
    by (auto simp: rfc_assemble_def)
  from Cons.IH [OF fr1(2,3)] Cons.prems(3) fr1(1) show ?case by auto
qed

text \<open>A text or binary message of at most 1 MiB cut into a first frame, any number of
  continuation frames and a final one comes out as the concatenation of the pieces, once, with
  the opcode of the first frame, and leaves the assembler idle for the next message.\<close>

theorem fragmented_message:
  assumes "frag_inv fr" "frag_abs fr = None" "opc = 1 \<or> opc = 2"
    "length a + length (concat ds) + length z \<le> 1048576"
  shows "\<exists>fr'. frag_feed ((opc, False, a) # map (\<lambda>d. (0, False, d)) ds @ [(0, True, z)]) fr
      = Some (FragMore # replicate (length ds) FragMore @ [FragDone opc (a @ concat ds @ z)], fr')
      \<and> frag_inv fr' \<and> frag_abs fr' = None"
proof -
  from fragment_sim [OF assms(1), of opc False a] assms(2-4) obtain fr1 where
    fr1: "ws_fragment_accumulate (\<lambda>_. True) opc False a fr = Some (FragMore, fr1)" "frag_inv fr1"
      "frag_abs fr1 = Some (opc, a)"
    by (auto simp: rfc_assemble_def)
  from frag_feed_continuations [OF fr1(2,3), of ds z] assms(4) fr1(1) show ?thesis by auto
qed

theorem fragmented_message_witness:
  "\<exists>fr'. frag_feed ((1, False, [104]) # map (\<lambda>d. (0, False, d)) [[105], []] @ [(0, True, [33])]) frag_init
      = Some (FragMore # replicate (length [[105], [] :: byte list]) FragMore
          @ [FragDone 1 ([104] @ concat [[105], []] @ [33])], fr')
      \<and> frag_inv fr' \<and> frag_abs fr' = None"
  by (rule fragmented_message [OF frag_inv_init]) (simp_all add: frag_abs_def frag_init_def)

end
