(* ===== verification/WsHandshake.thy ===== *)
theory WsHandshake
  imports WsUrl WsSock
begin

text \<open>
  The opening handshake, \<open>ws_handshake\<close> of \<open>src/network/websocket.c\<close>: the request, the loop
  that reads the response into 2047 bytes, the bytes kept for the frame reader, and the
  checks of the response.
\<close>

abbreviation TOKEN_MAX_LEN :: nat where "TOKEN_MAX_LEN \<equiv> 256"
abbreviation WS_PENDING_BUF_SIZE :: nat where "WS_PENDING_BUF_SIZE \<equiv> 2048"
abbreviation RESPONSE_SIZE :: nat where "RESPONSE_SIZE \<equiv> 2048"

section \<open>The request\<close>

definition ws_query :: "string \<Rightarrow> string option \<Rightarrow> string option" where
  "ws_query encoded_token extra_query =
     (case extra_query of
        Some (c # cs) \<Rightarrow> snprintf_chk (TOKEN_MAX_LEN * 3 + 256) (''?token='' @ encoded_token @ c # cs)
      | _ \<Rightarrow> snprintf_chk (TOKEN_MAX_LEN * 3 + 256) (''?token='' @ encoded_token))"

definition ws_request_text :: "string \<Rightarrow> string \<Rightarrow> string \<Rightarrow> string \<Rightarrow> string" where
  "ws_request_text path query host key =
     ''GET '' @ path @ query @ '' HTTP/1.1'' @ crlf
     @ ''Host: '' @ host @ crlf
     @ ''Upgrade: websocket'' @ crlf
     @ ''Connection: Upgrade'' @ crlf
     @ ''Sec-WebSocket-Key: '' @ key @ crlf
     @ ''Sec-WebSocket-Version: 13'' @ crlf
     @ ''User-Agent: komari-agent-c/1.0'' @ crlf
     @ crlf"

text \<open>A missing token is refused by \<open>url_encode\<close>.\<close>

definition ws_request ::
    "string \<Rightarrow> string \<Rightarrow> string option \<Rightarrow> string option \<Rightarrow> string \<Rightarrow> string option" where
  "ws_request host path token extra_query key =
     (case token of None \<Rightarrow> None
      | Some t \<Rightarrow>
         (case url_encode t (TOKEN_MAX_LEN * 3 + 1) of None \<Rightarrow> None
          | Some encoded_token \<Rightarrow>
             (case ws_query encoded_token extra_query of None \<Rightarrow> None
              | Some query \<Rightarrow> snprintf_chk 2048 (ws_request_text path query host key))))"

section \<open>Reading the response\<close>

definition header_end :: string where "header_end = crlf @ crlf"

text \<open>Every failing call, an interrupted one included, ends the loop.\<close>

function hs_read :: "rx list \<Rightarrow> byte list \<Rightarrow> byte list \<times> rx list" where
  "hs_read r got =
     (if length got < RESPONSE_SIZE - 1 then
        (case recv_some (RESPONSE_SIZE - 1 - length got) r of
           (IoBytes bs, r') \<Rightarrow>
             (if strstr header_end (c_str (got @ bs)) \<noteq> None then (got @ bs, r')
              else hs_read r' (got @ bs))
         | (_, r') \<Rightarrow> (got, r'))
      else (got, r))"
  by pat_completeness auto
termination
  by (relation "measure (\<lambda>(r, got). rx_size r)") (auto dest: recv_some_smaller [OF sym])

declare hs_read.simps [simp del]

text \<open>The bytes past the end of the headers.\<close>

definition hs_extra :: "byte list \<Rightarrow> byte list" where
  "hs_extra got =
     (case strstr header_end (c_str got) of
        None \<Rightarrow> []
      | Some e \<Rightarrow> drop (length (upto_ptr (c_str got) e) + 4) got)"

definition ws_response_ok :: "string \<Rightarrow> string \<Rightarrow> bool" where
  "ws_response_ok response expected_accept \<longleftrightarrow>
     starts_with ''HTTP/1.1 101'' response
     \<and> strstr ''Upgrade'' response \<noteq> None
     \<and> strstr ''websocket'' response \<noteq> None
     \<and> (case ws_extract_header response ''Sec-WebSocket-Accept:'' 128 of
          None \<Rightarrow> False | Some server_accept \<Rightarrow> server_accept = expected_accept)"

section \<open>The handshake\<close>

text \<open>One call of \<open>send\<close>/\<open>SSL_write\<close>: only a negative result is a failure.\<close>

fun send_once :: "tx list \<Rightarrow> byte list \<Rightarrow> bool \<times> byte list \<times> tx list" where
  "send_once (TxSent k # ts) data = (True, take k data, ts)"
| "send_once (_ # ts) data = (False, [], ts)"
| "send_once [] data = (False, [], [])"

definition ws_handshake ::
    "(byte list \<Rightarrow> byte list) \<Rightarrow> byte list option \<Rightarrow> string \<Rightarrow> string \<Rightarrow> string option \<Rightarrow> string option
       \<Rightarrow> tx list \<Rightarrow> rx_state \<Rightarrow> bool \<times> byte list \<times> tx list \<times> rx_state" where
  "ws_handshake sha1 random host path token extra_query ts st0 =
     (let st = st0\<lparr>pending_buf := [], pending_off := 0\<rparr>
      in case generate_ws_key random 32 of None \<Rightarrow> (False, [], ts, st)
       | Some key \<Rightarrow>
         (case ws_compute_accept_key sha1 key 64 of None \<Rightarrow> (False, [], ts, st)
          | Some expected_accept \<Rightarrow>
            (case ws_request host path token extra_query key of None \<Rightarrow> (False, [], ts, st)
             | Some request \<Rightarrow>
               (case send_once ts (bytes_of_string request) of
                  (False, out, ts') \<Rightarrow> (False, out, ts', st)
                | (True, out, ts') \<Rightarrow>
                  (case hs_read (rx_script st) [] of
                     (got, r) \<Rightarrow>
                       let st1 = st\<lparr>rx_script := r\<rparr>
                       in if got = [] then (False, out, ts', st1)
                          else if length (hs_extra got) > WS_PENDING_BUF_SIZE then (False, out, ts', st1)
                          else (ws_response_ok (c_str got) expected_accept, out, ts',
                                st1\<lparr>pending_buf := hs_extra got\<rparr>))))))"

section \<open>The read loop\<close>

lemma recv_some_stream:
  "recv_some n r = (IoBytes bs, r') \<Longrightarrow> rx_stream r = bs @ rx_stream r'"
  by (cases "(n, r)" rule: recv_some.cases) (auto split: if_splits)

lemma hs_read_bound: "length got \<le> 2047 \<Longrightarrow> length (fst (hs_read r got)) \<le> 2047"
proof (induction r got rule: hs_read.induct)
  case (1 r got)
  show ?case
    using 1 recv_some_smaller(1) [of "2047 - length got" r]
    by (subst hs_read.simps) (fastforce split: prod.splits io_result.splits)
qed

text \<open>The response is a prefix of the stream; unless the stream ended, none of it is lost.\<close>

lemma hs_read_prefix: "\<exists>rest. got @ rx_stream r = fst (hs_read r got) @ rest"
proof (induction r got rule: hs_read.induct)
  case (1 r got)
  show ?case
    using 1 recv_some_stream [of "2047 - length got" r]
    by (subst hs_read.simps) (force split: prod.splits io_result.splits)
qed

lemma hs_read_header_end:
  "strstr header_end (c_str (fst (hs_read r got))) \<noteq> None \<Longrightarrow> strstr header_end (c_str got) = None
     \<Longrightarrow> got @ rx_stream r = fst (hs_read r got) @ rx_stream (snd (hs_read r got))"
proof (induction r got rule: hs_read.induct)
  case (1 r got)
  show ?case
  proof (cases "length got < 2047")
    case False
    with 1 show ?thesis by (simp add: hs_read.simps [of r got])
  next
    case True
    obtain x r' where x: "recv_some (2047 - length got) r = (x, r')" by fastforce
    show ?thesis
    proof (cases x)
      case (IoBytes bs)
      have s: "rx_stream r = bs @ rx_stream r'" using x IoBytes recv_some_stream by blast
      show ?thesis
      proof (cases "strstr header_end (c_str (got @ bs)) = None")
        case True
        then have "hs_read r got = hs_read r' (got @ bs)"
          using x IoBytes \<open>length got < 2047\<close> by (simp add: hs_read.simps [of r got])
        with 1 s True x IoBytes \<open>length got < 2047\<close> show ?thesis by simp
      next
        case False
        then show ?thesis using x IoBytes s True by (simp add: hs_read.simps [of r got])
      qed
    next
      case IoEintr
      with 1 x True show ?thesis by (simp add: hs_read.simps [of r got])
    next
      case IoFail
      with 1 x True show ?thesis by (simp add: hs_read.simps [of r got])
    qed
  qed
qed



lemma c_str_append:
  "c_str (a @ b) = (if 0 \<in> set a then c_str a else map char_of_byte a @ c_str b)"
  by (induction a) (auto simp: c_str_def)

lemma strstr_extend: "strstr p s \<noteq> None \<Longrightarrow> strstr p (s @ t) \<noteq> None"
  unfolding strstr_sublist by (simp add: sublist_append)

lemma c_str_no_nul: "0 \<notin> set a \<Longrightarrow> c_str a = map char_of_byte a"
proof -
  assume "0 \<notin> set a"
  then have "takeWhile (\<lambda>b. b \<noteq> 0) a = a" by (subst takeWhile_eq_all_conv) blast
  then show ?thesis by (simp only: c_str_def)
qed

lemma c_str_prefix: "\<exists>t. c_str (a @ b) = c_str a @ t"
  by (cases "0 \<in> set a") (auto simp: c_str_append c_str_no_nul)

lemma c_str_split: "\<exists>t. map char_of_byte a = c_str a @ t"
  unfolding c_str_def by (metis map_append takeWhile_dropWhile_id)

lemma header_end_extend:
  "strstr p (c_str a) \<noteq> None \<Longrightarrow> strstr p (c_str (a @ b)) \<noteq> None"
  using c_str_prefix [of a b] strstr_extend by metis

text \<open>A script without interruption or error before the end of the stream.\<close>

definition clean_script :: "rx list \<Rightarrow> bool" where
  "clean_script r \<longleftrightarrow> (\<forall>x \<in> set r. \<exists>bs. x = RxData bs \<and> bs \<noteq> [])"

lemma recv_some_clean:
  assumes "clean_script r" "0 < n"
  shows "(\<exists>bs r'. recv_some n r = (IoBytes bs, r') \<and> clean_script r') \<or> recv_some n r = (IoFail, []) \<and> r = []"
proof (cases r)
  case (Cons x xs)
  then obtain bs where x: "x = RxData bs" "bs \<noteq> []" using assms(1) by (auto simp: clean_script_def)
  have "drop n bs \<noteq> [] \<or> length bs \<le> n" by auto
  with assms Cons x show ?thesis by (auto simp: clean_script_def)
qed simp

lemma hs_read_clean:
  "clean_script r \<Longrightarrow> strstr header_end (c_str (fst (hs_read r got))) = None
     \<Longrightarrow> 2047 \<le> length (fst (hs_read r got)) \<or> fst (hs_read r got) = got @ rx_stream r"
proof (induction r got rule: hs_read.induct)
  case (1 r got)
  show ?case
  proof (cases "length got < 2047")
    case False
    then show ?thesis by (simp add: hs_read.simps [of r got])
  next
    case True
    then have "0 < 2047 - length got" by simp
    from recv_some_clean [OF 1(2) this] show ?thesis
    proof
      assume "\<exists>bs r'. recv_some (2047 - length got) r = (IoBytes bs, r') \<and> clean_script r'"
      then obtain bs r' where x: "recv_some (2047 - length got) r = (IoBytes bs, r')" "clean_script r'"
        by blast
      then have s: "rx_stream r = bs @ rx_stream r'" using recv_some_stream by blast
      show ?thesis
      proof (cases "strstr header_end (c_str (got @ bs)) = None")
        case T: True
        then have "hs_read r got = hs_read r' (got @ bs)"
          using x True by (simp add: hs_read.simps [of r got])
        with 1 x s T True show ?thesis by simp
      next
        case False
        then have "fst (hs_read r got) = got @ bs" using x True by (simp add: hs_read.simps [of r got])
        with 1(3) False show ?thesis by simp
      qed
    next
      assume "recv_some (2047 - length got) r = (IoFail, []) \<and> r = []"
      then show ?thesis using True by (simp add: hs_read.simps [of "[]" got])
    qed
  qed
qed

text \<open>The bytes up to the blank line, read as a C string.\<close>

lemma hs_read_finds_end:
  assumes "clean_script r" "rx_stream r = hdr @ rest" "length hdr \<le> 2047"
    "strstr header_end (c_str hdr) \<noteq> None"
  shows "strstr header_end (c_str (fst (hs_read r []))) \<noteq> None"
proof
  assume none: "strstr header_end (c_str (fst (hs_read r []))) = None"
  obtain t where t: "rx_stream r = fst (hs_read r []) @ t" using hs_read_prefix [of "[]" r] by auto
  have "length hdr \<le> length (fst (hs_read r []))"
    using hs_read_clean [OF assms(1) none] assms(2,3) by auto
  then obtain u where "fst (hs_read r []) = hdr @ u"
    using t assms(2) by (metis append_eq_append_conv_if append_take_drop_id)
  with header_end_extend [OF assms(4), of u] none show False by simp
qed

lemma strstr_first:
  "strstr p (a @ p) = Some p \<Longrightarrow> strstr p (a @ p @ t) = Some (p @ t)"
proof (induction a)
  case Nil
  show ?case by (simp add: strstr_hit)
next
  case (Cons x a)
  have no: "\<not> starts_with p (x # a @ p)"
  proof
    assume "starts_with p (x # a @ p)"
    then have "strstr p ((x # a) @ p) = Some (x # a @ p)" by simp
    with Cons.prems have "x # a @ p = p" by simp
    then have "length (x # a @ p) = length p" by (rule arg_cong)
    then show False by simp
  qed
  have "\<not> starts_with p ((x # a @ p) @ t)"
  proof
    assume "starts_with p ((x # a @ p) @ t)"
    then have "prefix p ((x # a @ p) @ t)" by (simp add: starts_with_prefix prefix_def)
    then have "prefix p (x # a @ p)" by (rule prefix_length_prefix) auto
    with no show False by (simp add: starts_with_prefix prefix_def)
  qed
  with Cons no show ?case by simp
qed

definition head_complete :: "string \<Rightarrow> bool" where
  "head_complete h \<longleftrightarrow> nul \<notin> set h \<and> strstr header_end (h @ header_end) = Some header_end"

lemma bytes_no_nul: "nul \<notin> set s \<Longrightarrow> 0 \<notin> set (bytes_of_string s)"
proof
  assume "nul \<notin> set s" "0 \<in> set (bytes_of_string s)"
  then obtain c where "c \<in> set s" "byte_of_char c = 0" by (auto simp: bytes_of_string_def)
  then have "char_of_byte (byte_of_char c) = nul" by (simp add: char_of_byte_def nul_def char_of_def)
  with \<open>c \<in> set s\<close> \<open>nul \<notin> set s\<close> show False by simp
qed

lemma map_char_of_bytes [simp]: "map char_of_byte (bytes_of_string s) = s"
  by (simp add: bytes_of_string_def comp_def)

lemma head_nul: "head_complete h \<Longrightarrow> nul \<notin> set (h @ header_end)"
  by (simp add: head_complete_def header_end_def crlf_def nul_def cr_def lf_def)

lemma c_str_head:
  "head_complete h \<Longrightarrow> c_str (bytes_of_string (h @ header_end) @ u) = h @ header_end @ c_str u"
  using bytes_no_nul [OF head_nul] by (simp add: c_str_append)

lemma hs_extra_eq:
  assumes "head_complete h"
  shows "hs_extra (bytes_of_string (h @ header_end) @ u) = u"
proof -
  have "strstr header_end (h @ header_end @ c_str u) = Some (header_end @ c_str u)"
    using assms strstr_first unfolding head_complete_def by blast
  moreover have "upto_ptr (h @ header_end @ c_str u) (header_end @ c_str u) = h"
    by (rule upto_ptr_append)
  moreover have "length (bytes_of_string (h @ header_end)) = length h + 4"
    by (simp add: header_end_def)
  ultimately show ?thesis by (simp add: hs_extra_def c_str_head [OF assms] del: length_bytes_of_string)
qed


lemma strstr_extend_Some: "strstr p s = Some e \<Longrightarrow> strstr p (s @ t) = Some (e @ t)"
proof (induction s)
  case Nil
  then show ?case by (cases p) (cases t; simp add: starts_with_def)+
next
  case (Cons x s)
  show ?case
  proof (cases "starts_with p (x # s)")
    case True
    then obtain u where "x # s = p @ u" by (auto simp: starts_with_prefix)
    then have "x # s @ t = p @ u @ t" by simp
    then have "starts_with p (x # s @ t)" unfolding starts_with_prefix by blast
    then have "strstr p ((x # s) @ t) = Some ((x # s) @ t)" by simp
    moreover have "e = x # s" using Cons.prems True by simp
    ultimately show ?thesis by (simp only:)
  next
    case False
    with Cons.prems have "strstr p s = Some e" by simp
    with Cons.IH have ih: "strstr p (s @ t) = Some (e @ t)" by simp
    have "length p \<le> length (x # s)"
      using strstr_Some [OF \<open>strstr p s = Some e\<close>] by (auto simp: starts_with_prefix)
    then have "take (length p) (x # s @ t) = take (length p) (x # s)"
      by (metis append_Cons take_append diff_is_0_eq append_Nil2 take0)
    with False have "\<not> starts_with p (x # s @ t)" by (simp add: starts_with_def)
    with ih show ?thesis by simp
  qed
qed

lemma head_not_shorter:
  assumes "head_complete h" "strstr header_end (c_str got) \<noteq> None"
    "bytes_of_string (h @ header_end) @ rest = got @ tl_bytes"
  shows "length (bytes_of_string (h @ header_end)) \<le> length got"
proof (rule ccontr)
  assume less: "\<not> ?thesis"
  then obtain v where v: "bytes_of_string (h @ header_end) = got @ v"
    using assms(3) by (auto simp: append_eq_append_conv2)
  have "v \<noteq> []" using less unfolding v by auto
  have "h @ header_end = map char_of_byte got @ map char_of_byte v"
    using arg_cong [OF v, of "map char_of_byte"] by simp
  moreover have "0 \<notin> set got" using bytes_no_nul [OF head_nul [OF assms(1)]] v by simp
  then have "c_str got = map char_of_byte got" by (rule c_str_no_nul)
  moreover obtain e where e: "strstr header_end (c_str got) = Some e" using assms(2) by blast
  ultimately have "strstr header_end (h @ header_end) = Some (e @ map char_of_byte v)"
    using strstr_extend_Some by metis
  then have "header_end = e @ map char_of_byte v" using assms(1) by (simp add: head_complete_def)
  moreover obtain w where "e = header_end @ w"
    using strstr_Some [OF e] by (auto simp: starts_with_prefix)
  ultimately show False using \<open>v \<noteq> []\<close> by simp
qed

section \<open>What the handshake guarantees\<close>

text \<open>The handshake after its early failures, in one equation.\<close>

lemma ws_handshake_eq:
  assumes "ws_request host path token extra (ws_base64_encode rnd) = Some request"
    "ws_compute_accept_key sha1 (ws_base64_encode rnd) 64 = Some acc"
    "send_once ts (bytes_of_string request) = (True, out, ts')"
  shows "ws_handshake sha1 (Some rnd) host path token extra ts st =
     (let got = fst (hs_read (rx_script st) []);
          st1 = st\<lparr>pending_buf := [], pending_off := 0, rx_script := snd (hs_read (rx_script st) [])\<rparr>
      in if got = [] then (False, out, ts', st1)
         else (ws_response_ok (c_str got) acc, out, ts', st1\<lparr>pending_buf := hs_extra got\<rparr>))"
proof -
  let ?got = "fst (hs_read (rx_script st) [])"
  have "length (hs_extra ?got) \<le> length ?got"
    by (simp add: hs_extra_def split: option.split)
  also have "\<dots> \<le> 2047" by (rule hs_read_bound) simp
  finally have le: "\<not> WS_PENDING_BUF_SIZE < length (hs_extra ?got)" by simp
  obtain got r where hr: "hs_read (rx_script st) [] = (got, r)" by fastforce
  with le assms show ?thesis
    by (simp add: ws_handshake_def generate_ws_key_def Let_def)
qed

text \<open>A handshake that returns success went through the checks of the response.\<close>

lemma ws_handshake_True:
  assumes "ws_handshake sha1 random host path token extra ts st = (True, out, ts', st')"
  obtains rnd acc where "random = Some rnd"
    "ws_compute_accept_key sha1 (ws_base64_encode rnd) 64 = Some acc"
    "ws_response_ok (c_str (fst (hs_read (rx_script st) []))) acc"
  using assms
  by (auto simp: ws_handshake_def generate_ws_key_def Let_def split: option.splits prod.splits bool.splits if_splits)

text \<open>The header name passed with its colon asks the response for two colons in a row.\<close>

lemma match_name_Some: "match_name line name = Some t \<Longrightarrow> \<exists>m. line = m @ t \<and> map c_tolower m = map c_tolower name"
proof (induction line name rule: match_name.induct)
  case (3 c cs n ns)
  then obtain m where "cs = m @ t" "map c_tolower m = map c_tolower ns" "c_tolower c = c_tolower n"
    by (auto split: if_splits)
  then show ?case by (intro exI [of _ "c # m"]) simp
qed simp_all

lemma header_hit_colon:
  assumes "header_hit line (name @ '':'') = Some v"
  shows "sublist ''::'' line"
proof -
  have "match_name line (name @ '':'') = Some (CHR '':'' # v)"
    using assms by (auto simp: header_hit_def split: option.splits list.splits if_splits)
  then obtain m where m: "line = m @ CHR '':'' # v" "map c_tolower m = map c_tolower (name @ '':'')"
    using match_name_Some by blast
  from m(2) obtain m' where "m = m' @ '':''"
    by (cases m rule: rev_cases) (auto simp: tolower_colon)
  with m(1) have "line = m' @ ''::'' @ v" by simp
  then show ?thesis unfolding sublist_def by blast
qed

lemma scan_headers_colon:
  "scan_headers line (name @ '':'') n = Some v \<Longrightarrow> sublist ''::'' line"
proof (induction line "name @ '':''" n rule: scan_headers.induct)
  case (1 line n)
  show ?case
  proof (cases "header_hit line (name @ '':'')")
    case (Some w)
    then show ?thesis by (rule header_hit_colon)
  next
    case None
    with 1(2) obtain e where e: "strstr crlf line = Some e" "scan_headers (drop 2 e) (name @ '':'') n = Some v"
        "line \<noteq> []" "\<not> (starts_with crlf line \<or> hd line = lf)"
      by (auto simp: scan_headers.simps [of line] split: if_splits option.splits)
    with 1(1) None have "sublist ''::'' (drop 2 e)" by auto
    moreover obtain a where "line = a @ e" using e(1) strstr_Some by blast
    ultimately show ?thesis
      by (metis append_take_drop_id sublist_append)
  qed
qed

lemma ws_response_ok_colons: "ws_response_ok resp acc \<Longrightarrow> sublist ''::'' resp"
proof -
  assume "ws_response_ok resp acc"
  then obtain v where "ws_extract_header resp (''Sec-WebSocket-Accept'' @ '':'') 128 = Some v"
    by (auto simp: ws_response_ok_def split: option.splits)
  then obtain e where e: "strstr crlf resp = Some e"
      "scan_headers (drop 2 e) (''Sec-WebSocket-Accept'' @ '':'') 128 = Some v"
    by (auto simp: ws_extract_header_def split: if_splits option.splits)
  then have "sublist ''::'' (drop 2 e)" by (blast intro: scan_headers_colon)
  moreover obtain a where "resp = a @ e" using e(1) strstr_Some by blast
  ultimately show ?thesis by (metis append_take_drop_id sublist_append)
qed


text \<open>C38. Defect: the handshake asks \<open>ws_extract_header\<close> for the name with its colon while that
  function looks for a colon after the name, so it succeeds only if the server's stream
  contains two colons in a row.  A response without \<open>::\<close>, which includes every usual response
  with the correct \<open>Sec-WebSocket-Accept\<close> value, is refused.\<close>

theorem handshake_needs_double_colon:
  assumes "ws_handshake sha1 random host path token extra ts st = (True, out, ts', st')"
  shows "sublist ''::'' (map char_of_byte (rx_stream (rx_script st)))"
proof -
  obtain acc where ok: "ws_response_ok (c_str (fst (hs_read (rx_script st) []))) acc"
    using ws_handshake_True [OF assms] by blast
  obtain rest where rest: "rx_stream (rx_script st) = fst (hs_read (rx_script st) []) @ rest"
    using hs_read_prefix [of "[]" "rx_script st"] by auto
  obtain t where "map char_of_byte (fst (hs_read (rx_script st) [])) = c_str (fst (hs_read (rx_script st) [])) @ t"
    using c_str_split by blast
  then show ?thesis using ws_response_ok_colons [OF ok] by (simp add: rest sublist_append)
qed

text \<open>C7. No byte is lost or read twice at the change of protocol: when the server's stream starts
  with a complete response head of at most 2047 bytes, however it is cut into pieces, then
  after \<open>ws_handshake\<close> the frame reader sees exactly the bytes that follow the blank line,
  through \<open>pending_buf\<close> first and the socket next.\<close>

theorem handshake_keeps_stream:
  assumes "ws_request host path token extra (ws_base64_encode rnd) = Some request"
    "ws_compute_accept_key sha1 (ws_base64_encode rnd) 64 = Some acc" "0 < k"
    "head_complete h" "length h + 4 \<le> 2047" "clean_script (rx_script st)"
    "rx_stream (rx_script st) = bytes_of_string (h @ header_end) @ rest"
  shows "\<exists>st'. ws_handshake sha1 (Some rnd) host path token extra (TxSent k # ts) st =
        (ws_response_ok (h @ header_end @ c_str (pending_buf st')) acc,
         take k (bytes_of_string request), ts, st')
      \<and> in_stream st' = rest"
proof -
  let ?got = "fst (hs_read (rx_script st) [])" and ?r = "snd (hs_read (rx_script st) [])"
  let ?hdr = "bytes_of_string (h @ header_end)"
  have found: "strstr header_end (c_str ?hdr) \<noteq> None"
    using c_str_head [OF assms(4), of "[]"] assms(4) by (simp add: head_complete_def c_str_def)
  have len: "length ?hdr \<le> 2047" using assms(5) by (simp add: header_end_def)
  have all: "?hdr @ rest = ?got @ rx_stream ?r"
    using hs_read_header_end [OF hs_read_finds_end [OF assms(6,7) len found]] assms(7)
    by (simp add: c_str_def header_end_def crlf_def)
  have "length ?hdr \<le> length ?got"
    using head_not_shorter [OF assms(4) hs_read_finds_end [OF assms(6,7) len found]] all by blast
  then obtain u where u: "?got = ?hdr @ u" using all
    by (metis append_eq_append_conv_if append_take_drop_id)
  have "?got \<noteq> []" using u by (simp add: header_end_def bytes_of_string_def crlf_def)
  moreover have "hs_extra ?got = u" using u hs_extra_eq [OF assms(4), of u] by simp
  moreover have "c_str ?got = h @ header_end @ c_str u" using u c_str_head [OF assms(4), of u] by simp
  moreover have "rest = u @ rx_stream ?r" using all u by simp
  ultimately show ?thesis
    using ws_handshake_eq [OF assms(1,2), of "TxSent k # ts"] by (simp add: Let_def in_stream_def)
qed


text \<open>Concrete runs for the witnesses: a conforming head, one with a doubled colon, and a
  stand-in for SHA-1.\<close>

definition toy_sha1 :: "byte list \<Rightarrow> byte list" where "toy_sha1 bs = [1, 2, 3]"

definition sample_rnd :: "byte list" where "sample_rnd = [7, 7, 7]"

definition sample_head :: "string \<Rightarrow> string" where
  "sample_head colons = ''HTTP/1.1 101 OK'' @ crlf @ ''Upgrade: websocket'' @ crlf
     @ ''Sec-WebSocket-Accept'' @ colons @ '' AQID''"

definition sample_rx :: "string \<Rightarrow> rx_state" where
  "sample_rx colons = \<lparr>rx_script = [RxData (bytes_of_string (sample_head colons @ header_end) @ [1, 2, 3])],
     pending_buf = [], pending_off = 0\<rparr>"

definition sample_request :: string where
  "sample_request = ws_request_text ''/p'' ''?token=tok'' ''h'' ''BwcH''"

lemma sample_request_ok:
  "ws_request ''h'' ''/p'' (Some ''tok'') None (ws_base64_encode sample_rnd) = Some sample_request"
  "ws_compute_accept_key toy_sha1 (ws_base64_encode sample_rnd) 64 = Some ''AQID''"
  by code_simp+

lemma hs_read_one:
  assumes "bs \<noteq> []" "length bs \<le> 2047"
  shows "hs_read [RxData bs] [] = (bs, [])"
  using assms by (simp add: hs_read.simps [of "[RxData bs]"] hs_read.simps [of "[]"])

lemma sample_head_ok:
  "length (sample_head '':'') = 63" "length (sample_head ''::'') = 64"
  "head_complete (sample_head '':'')" "head_complete (sample_head ''::'')"
  "ws_response_ok (sample_head ''::'' @ header_end @ [CHR 0x01, CHR 0x02, CHR 0x03]) ''AQID''"
  "\<not> ws_response_ok (sample_head '':'' @ header_end @ [CHR 0x01, CHR 0x02, CHR 0x03]) ''AQID''"
  by code_simp+

lemma sample_stream: "rx_stream (rx_script (sample_rx c)) = bytes_of_string (sample_head c @ header_end) @ [1, 2, 3]"
  by (simp add: sample_rx_def)

lemma sample_tail: "c_str [1, 2, 3] = [CHR 0x01, CHR 0x02, CHR 0x03]"
  by code_simp

lemma sample_handshake_ok:
  "\<exists>out ts' st'. ws_handshake toy_sha1 (Some sample_rnd) ''h'' ''/p'' (Some ''tok'') None [TxSent 500]
      (sample_rx ''::'') = (True, out, ts', st')"
proof -
  let ?bs = "bytes_of_string (sample_head ''::'' @ header_end) @ [1, 2, 3]"
  have "hs_read [RxData ?bs] [] = (?bs, [])"
    by (rule hs_read_one) (simp_all add: sample_head_ok header_end_def)
  then show ?thesis
    using ws_handshake_eq [OF sample_request_ok, of "[TxSent 500]"] sample_head_ok(5)
    by (simp add: sample_rx_def c_str_head [OF sample_head_ok(4)] sample_tail)
qed

theorem handshake_needs_double_colon_witness:
  "sublist ''::'' (map char_of_byte (rx_stream (rx_script (sample_rx ''::''))))"
  using sample_handshake_ok handshake_needs_double_colon by blast

theorem handshake_keeps_stream_witness:
  "\<exists>st'. ws_handshake toy_sha1 (Some sample_rnd) ''h'' ''/p'' (Some ''tok'') None [TxSent 500] (sample_rx '':'')
     = (ws_response_ok (sample_head '':'' @ header_end @ c_str (pending_buf st')) ''AQID'',
        take 500 (bytes_of_string sample_request), [], st')
   \<and> in_stream st' = [1, 2, 3]"
  by (rule handshake_keeps_stream [OF sample_request_ok _ sample_head_ok(3) _ _ sample_stream])
     (simp_all add: sample_head_ok sample_rx_def clean_script_def)

text \<open>The request as lines.\<close>

definition request_lines :: "string \<Rightarrow> string \<Rightarrow> string \<Rightarrow> string \<Rightarrow> string list" where
  "request_lines path query host key =
     [''GET '' @ path @ query @ '' HTTP/1.1'', ''Host: '' @ host, ''Upgrade: websocket'',
      ''Connection: Upgrade'', ''Sec-WebSocket-Key: '' @ key, ''Sec-WebSocket-Version: 13'',
      ''User-Agent: komari-agent-c/1.0'']"

lemma ws_request_Some:
  assumes "ws_request host path (Some token) extra key = Some req"
  obtains enc where "url_encode token 769 = Some enc" "length req < 2048"
    "req = ws_request_text path (''?token='' @ enc @ (case extra of None \<Rightarrow> [] | Some e \<Rightarrow> e)) host key"
  using assms that
  by (auto simp: ws_request_def ws_query_def cstr split: option.splits list.splits)

lemma contains_crlf_append [simp]:
  "contains_crlf (a @ b) \<longleftrightarrow> contains_crlf a \<or> contains_crlf b" "\<not> contains_crlf []"
  by (auto simp: contains_crlf_def)


lemma contains_crlf_Cons:
  "contains_crlf (c # s) \<longleftrightarrow> c = CHR 0x0D \<or> c = CHR 0x0A \<or> contains_crlf s"
  by (simp add: contains_crlf_def cr_def lf_def)

lemma b64_no_crlf: "\<not> contains_crlf (ws_base64_encode bs)"
proof -
  have "\<not> b64_alphabet cr" "\<not> b64_alphabet lf"
    by (simp_all add: b64_alphabet_def base64_table_def cr_def lf_def)
  then show ?thesis by (simp add: contains_crlf_iff b64.enc_avoids)
qed

lemma pct_no_crlf: "\<not> contains_crlf (pct_encode t)"
proof -
  have "\<not> pct_alphabet cr" "\<not> pct_alphabet lf"
    by (simp_all add: pct_alphabet_def url_unreserved_def c_isalnum_def c_isdigit_def cr_def lf_def)
  then show ?thesis by (simp add: contains_crlf_iff pct.enc_avoids)
qed

text \<open>The token cannot inject anything into the request: whatever it contains, the request
  sent is the seven lines of the upgrade and a blank line, none of which has a line break
  inside, with the percent-encoded token in the query.  Host, path and extra query come from
  checked or constant text; the key is Base64.\<close>

theorem request_no_injection:
  assumes "ws_request host path (Some token) extra (ws_base64_encode rnd) = Some req"
    "\<not> contains_crlf host" "\<not> contains_crlf path" "\<not> contains_crlf (case extra of None \<Rightarrow> [] | Some e \<Rightarrow> e)"
  shows "let query = ''?token='' @ pct_encode token @ (case extra of None \<Rightarrow> [] | Some e \<Rightarrow> e);
             ls = request_lines path query host (ws_base64_encode rnd)
         in req = concat (map (\<lambda>l. l @ crlf) ls) @ crlf \<and> length req < 2048
            \<and> \<not> list_ex contains_crlf ls"
proof -
  obtain enc where r: "url_encode token 769 = Some enc" "length req < 2048"
    "req = ws_request_text path (''?token='' @ enc @ (case extra of None \<Rightarrow> [] | Some e \<Rightarrow> e))
             host (ws_base64_encode rnd)"
    using assms(1) by (rule ws_request_Some)
  from r(1) have enc: "enc = pct_encode token" by (simp add: url_encode_iff split: if_splits)
  show ?thesis
    unfolding Let_def request_lines_def
    using assms(2-4) r(2) b64_no_crlf [of rnd] pct_no_crlf [of token]
    by (simp add: r(3) enc ws_request_text_def contains_crlf_Cons)
qed

theorem request_no_injection_witness:
  "let query = ''?token='' @ pct_encode [CHR ''a'', cr, lf] @ (case Some ''&id=7'' of None \<Rightarrow> [] | Some e \<Rightarrow> e);
       ls = request_lines ''/p'' query ''h'' (ws_base64_encode sample_rnd)
   in ''GET /p?token=a%0D%0A&id=7 HTTP/1.1'' @ crlf @ ''Host: h'' @ crlf @ ''Upgrade: websocket'' @ crlf
        @ ''Connection: Upgrade'' @ crlf @ ''Sec-WebSocket-Key: BwcH'' @ crlf
        @ ''Sec-WebSocket-Version: 13'' @ crlf @ ''User-Agent: komari-agent-c/1.0'' @ crlf @ crlf
      = concat (map (\<lambda>l. l @ crlf) ls) @ crlf
      \<and> length (''GET /p?token=a%0D%0A&id=7 HTTP/1.1'' @ crlf @ ''Host: h'' @ crlf @ ''Upgrade: websocket'' @ crlf
        @ ''Connection: Upgrade'' @ crlf @ ''Sec-WebSocket-Key: BwcH'' @ crlf
        @ ''Sec-WebSocket-Version: 13'' @ crlf @ ''User-Agent: komari-agent-c/1.0'' @ crlf @ crlf) < 2048
      \<and> \<not> list_ex contains_crlf ls"
  by (rule request_no_injection) code_simp+

end
