(* ===== verification/WsClient.thy ===== *)
theory WsClient
  imports WsEvent WsFragment WsHandshake
begin

text \<open>
  The WebSocket client object of \<open>src/network/websocket.c\<close>: its life cycle, the connection set-up,
  the receive thread and the choice between the two protocol versions.  Calls that acquire or
  release a resource of the system or of OpenSSL are recorded in a log, in order, so leaks and
  double releases are statements about the log.  A NULL client is refused by every function
  before anything else and is not represented.
\<close>

section \<open>State\<close>

datatype protocol_version = PROTOCOL_VERSION_V1 | PROTOCOL_VERSION_V2

datatype sys_op =
    OpenFd int | CloseFd int | ShutdownFd int
  | CtxNew | CtxFree | SslNew | SslShutdown | SslFree
  | VerifyNone | VerifyPeer | CheckHost string
  | ThreadStart | ThreadJoin

record ws_client_config =
  cfg_endpoint :: "string option"
  cfg_token :: "string option"
  cfg_extra_query :: "string option"
  cfg_ignore_cert :: bool

record ws_client =
  cl_fd :: int
  cl_connected :: bool
  cl_should_stop :: bool
  cl_use_tls :: bool
  cl_ssl :: bool
  cl_ssl_ctx :: bool
  cl_recv_thread :: bool
  cl_config :: ws_client_config
  cl_handler :: bool
  cl_raw_handler :: bool
  cl_user_data :: nat
  cl_v2 :: v2_state
  cl_protocol :: protocol_version
  cl_frag :: frag_state
  cl_rx :: rx_state
  cl_log :: "sys_op list"

definition log_ops :: "sys_op list \<Rightarrow> ws_client \<Rightarrow> ws_client" where
  "log_ops ops c = c\<lparr>cl_log := cl_log c @ ops\<rparr>"

section \<open>Protocol version\<close>

definition ws_client_should_use_current_protocol :: "ws_client \<Rightarrow> bool" where
  "ws_client_should_use_current_protocol c \<longleftrightarrow> \<not> v2_should_fallback_to_v1 (cl_v2 c)"

definition ws_client_note_protocol_result :: "bool \<Rightarrow> ws_client \<Rightarrow> ws_client" where
  "ws_client_note_protocol_result success c =
     (let c' = c\<lparr>cl_v2 := snd (v2_note_attempt_result success (cl_v2 c))\<rparr>
      in if success then c'\<lparr>cl_protocol := PROTOCOL_VERSION_V2\<rparr>
         else if v2_should_fallback_to_v1 (cl_v2 c') then c'\<lparr>cl_protocol := PROTOCOL_VERSION_V1\<rparr>
         else c')"

section \<open>Creation\<close>

text \<open>The three results are those of \<open>v2_state_init\<close> (it initialises a mutex) and of the two
  \<open>pthread_mutex_init\<close> calls; \<open>calloc\<close> is assumed to succeed.\<close>

definition ws_client_create ::
    "ws_client_config option \<Rightarrow> bool \<Rightarrow> bool \<Rightarrow> bool \<Rightarrow> ws_client option" where
  "ws_client_create config v2_ok send_mutex_ok state_mutex_ok =
     (if \<not> v2_ok \<or> \<not> send_mutex_ok \<or> \<not> state_mutex_ok then None
      else Some \<lparr>cl_fd = -1, cl_connected = False, cl_should_stop = False, cl_use_tls = False,
        cl_ssl = False, cl_ssl_ctx = False, cl_recv_thread = False,
        cl_config = (case config of Some cfg \<Rightarrow> cfg
          | None \<Rightarrow> \<lparr>cfg_endpoint = None, cfg_token = None, cfg_extra_query = None, cfg_ignore_cert = False\<rparr>),
        cl_handler = False, cl_raw_handler = False, cl_user_data = 0, cl_v2 = v2_state_init,
        cl_protocol = PROTOCOL_VERSION_V2, cl_frag = frag_init,
        cl_rx = \<lparr>rx_script = [], pending_buf = [], pending_off = 0\<rparr>, cl_log = []\<rparr>)"

section \<open>Disconnection\<close>

text \<open>\<open>pthread_join\<close> waits for the receive thread, which \<open>shutdown\<close> has woken.\<close>

definition ws_client_disconnect :: "ws_client \<Rightarrow> ws_client" where
  "ws_client_disconnect c0 =
     (let c1 = c0\<lparr>cl_should_stop := True, cl_connected := False\<rparr>;
          c2 = (if cl_fd c1 \<ge> 0 then log_ops [ShutdownFd (cl_fd c1)] c1 else c1);
          c3 = (if cl_recv_thread c2 then log_ops [ThreadJoin] (c2\<lparr>cl_recv_thread := False\<rparr>) else c2);
          c4 = (if cl_ssl c3 then log_ops [SslShutdown, SslFree] (c3\<lparr>cl_ssl := False\<rparr>) else c3)
      in if cl_fd c4 \<ge> 0 then log_ops [CloseFd (cl_fd c4)] (c4\<lparr>cl_fd := -1\<rparr>) else c4)"

text \<open>What is left of the object just before \<open>free\<close>: the log and the freed parts.\<close>

definition ws_client_destroy :: "ws_client \<Rightarrow> ws_client" where
  "ws_client_destroy c0 =
     (let c1 = ws_client_disconnect c0;
          c2 = (if cl_ssl_ctx c1 then log_ops [CtxFree] (c1\<lparr>cl_ssl_ctx := False\<rparr>) else c1)
      in c2\<lparr>cl_v2 := v2_state_cleanup (cl_v2 c2), cl_frag := frag_init\<rparr>)"

section \<open>Connection\<close>

text \<open>The outcomes of the calls \<open>ws_client_connect\<close> makes: \<open>getaddrinfo\<close>, for each address the
  descriptor \<open>socket\<close> returns (negative on failure) and whether \<open>connect\<close> succeeds, the OpenSSL
  calls, the handshake's randomness and traffic, another thread's \<open>ws_client_stop\<close> meanwhile,
  and \<open>pthread_create\<close>.\<close>

record conn_env =
  gai :: "(int \<times> bool) list option"
  ctx_ok :: bool
  ssl_new_ok :: bool
  ssl_connect_ok :: bool
  hs_sha1 :: "byte list \<Rightarrow> byte list"
  hs_random :: "byte list option"
  hs_tx :: "tx list"
  net_rx :: "rx list"
  stopped_meanwhile :: bool
  thread_ok :: bool

fun connect_addrs :: "(int \<times> bool) list \<Rightarrow> int \<times> sys_op list" where
  "connect_addrs [] = (-1, [])"
| "connect_addrs ((fd, conn) # rest) =
     (if fd < 0 then connect_addrs rest
      else if conn then (fd, [OpenFd fd])
      else case connect_addrs rest of (r, ops) \<Rightarrow> (r, OpenFd fd # CloseFd fd # ops))"

text \<open>The release sequence shared by the failures after the TLS set-up.\<close>

definition release_conn :: "ws_client \<Rightarrow> ws_client" where
  "release_conn c0 =
     (let c1 = (if cl_ssl c0 then log_ops [SslShutdown, SslFree] (c0\<lparr>cl_ssl := False\<rparr>) else c0);
          c2 = (if cl_ssl_ctx c1 then log_ops [CtxFree] (c1\<lparr>cl_ssl_ctx := False\<rparr>) else c1)
      in log_ops [CloseFd (cl_fd c2)] (c2\<lparr>cl_fd := -1\<rparr>))"

text \<open>TLS set-up on a connected descriptor: False after releasing what it took.\<close>

definition tls_setup :: "conn_env \<Rightarrow> string \<Rightarrow> ws_client \<Rightarrow> bool \<times> ws_client" where
  "tls_setup env host c0 =
     (if \<not> ctx_ok env then
        (False, log_ops [CloseFd (cl_fd c0)] (c0\<lparr>cl_ssl_ctx := False, cl_fd := -1\<rparr>))
      else
        let ign = cfg_ignore_cert (cl_config c0);
            c1 = log_ops [CtxNew, if ign then VerifyNone else VerifyPeer] (c0\<lparr>cl_ssl_ctx := True\<rparr>)
        in if \<not> ssl_new_ok env then
             (False, log_ops [CtxFree, CloseFd (cl_fd c1)] (c1\<lparr>cl_ssl := False, cl_ssl_ctx := False, cl_fd := -1\<rparr>))
           else
             let c2 = log_ops (SslNew # (if ign then [] else [CheckHost host])) (c1\<lparr>cl_ssl := True\<rparr>)
             in if \<not> ssl_connect_ok env then
                  (False, log_ops [SslFree, CtxFree, CloseFd (cl_fd c2)]
                            (c2\<lparr>cl_ssl := False, cl_ssl_ctx := False, cl_fd := -1\<rparr>))
                else (True, c2))"

definition connect_path :: "ws_client \<Rightarrow> string option" where
  "connect_path c =
     (if ws_client_should_use_current_protocol c then snprintf_chk 512 ''/api/clients/v2/rpc''
      else snprintf_chk 512 ''/api/clients/report'')"

text \<open>From the connected descriptor to the receive thread.\<close>

definition connect_upgrade :: "conn_env \<Rightarrow> string \<Rightarrow> string \<Rightarrow> ws_client \<Rightarrow> bool \<times> byte list \<times> ws_client" where
  "connect_upgrade env host path c0 =
     (case ws_handshake (hs_sha1 env) (hs_random env) host path (cfg_token (cl_config c0))
             (cfg_extra_query (cl_config c0)) (hs_tx env) ((cl_rx c0)\<lparr>rx_script := net_rx env\<rparr>) of
        (ok, out, ts, rx) \<Rightarrow>
          let c1 = c0\<lparr>cl_rx := rx, cl_should_stop := cl_should_stop c0 \<or> stopped_meanwhile env\<rparr>
          in if \<not> ok then (False, out, ws_client_note_protocol_result False (release_conn c1))
             else if cl_should_stop c1 then (False, out, release_conn c1)
             else let c2 = c1\<lparr>cl_connected := True\<rparr>
                  in if \<not> thread_ok env then
                       (False, out, ws_client_note_protocol_result False
                                      ((release_conn c2)\<lparr>cl_connected := False\<rparr>))
                     else (True, out, ws_client_note_protocol_result True
                                        (log_ops [ThreadStart] (c2\<lparr>cl_recv_thread := True\<rparr>))))"

text \<open>Name resolution, \<open>connect\<close> and TLS.\<close>

definition connect_open :: "conn_env \<Rightarrow> ws_url \<Rightarrow> string \<Rightarrow> ws_client \<Rightarrow> bool \<times> byte list \<times> ws_client" where
  "connect_open env u path c3 =
     (case gai env of None \<Rightarrow> (False, [], ws_client_note_protocol_result False c3)
      | Some addrs \<Rightarrow>
         (case connect_addrs addrs of (fd, ops) \<Rightarrow>
           let c4 = log_ops ops (c3\<lparr>cl_fd := fd\<rparr>)
           in if fd < 0 then (False, [], ws_client_note_protocol_result False c4)
              else case (if cl_use_tls c4 then tls_setup env (url_host u) c4 else (True, c4)) of
                (False, c5) \<Rightarrow> (False, [], ws_client_note_protocol_result False c5)
              | (True, c5) \<Rightarrow> connect_upgrade env (url_host u) path c5))"

text \<open>The state of an attempt once the flag is cleared and the old connection is gone.\<close>

definition connect_base :: "ws_client \<Rightarrow> ws_client" where
  "connect_base c0 =
     (let c1 = c0\<lparr>cl_should_stop := False\<rparr>
      in if cl_fd c1 \<ge> 0 then ws_client_disconnect c1 else c1)"

definition ws_client_connect :: "conn_env \<Rightarrow> ws_client \<Rightarrow> bool \<times> byte list \<times> ws_client" where
  "ws_client_connect env c0 =
     (case cfg_endpoint (cl_config c0) of None \<Rightarrow> (False, [], c0)
      | Some endpoint \<Rightarrow>
        let c2 = connect_base c0
        in case parse_url endpoint of None \<Rightarrow> (False, [], ws_client_note_protocol_result False c2)
         | Some u \<Rightarrow>
           (case connect_path c2 of None \<Rightarrow> (False, [], ws_client_note_protocol_result False c2)
            | Some path \<Rightarrow>
              let c3 = c2\<lparr>cl_use_tls := (url_scheme u = ''wss'')\<rparr>
              in case snprintf_chk 16 (show_int (url_port u)) of
                   None \<Rightarrow> (False, [], ws_client_note_protocol_result False c3)
                 | Some _ \<Rightarrow> connect_open env u path c3))"

section \<open>Sending and the accessors\<close>

definition ws_client_send_text ::
    "tx list \<Rightarrow> byte list \<Rightarrow> byte list \<Rightarrow> ws_client \<Rightarrow> bool \<times> byte list \<times> tx list \<times> ws_client" where
  "ws_client_send_text ts msk data c =
     (if \<not> cl_connected c then (False, [], ts, c)
      else case ws_send_frame ts msk 0x01 data of
             (True, out, ts') \<Rightarrow> (True, out, ts', c)
           | (False, out, ts') \<Rightarrow> (False, out, ts', ws_client_note_protocol_result False c))"

definition ws_client_send_ping ::
    "tx list \<Rightarrow> byte list \<Rightarrow> ws_client \<Rightarrow> bool \<times> byte list \<times> tx list" where
  "ws_client_send_ping ts msk c =
     (if \<not> cl_connected c then (False, [], ts) else ws_send_frame ts msk 0x09 [])"

definition ws_client_set_handler :: "bool \<Rightarrow> ws_client \<Rightarrow> ws_client" where
  "ws_client_set_handler h c = c\<lparr>cl_handler := h\<rparr>"

definition ws_client_set_raw_handler :: "bool \<Rightarrow> ws_client \<Rightarrow> ws_client" where
  "ws_client_set_raw_handler h c = c\<lparr>cl_raw_handler := h\<rparr>"

definition ws_client_set_user_data :: "nat \<Rightarrow> ws_client \<Rightarrow> ws_client" where
  "ws_client_set_user_data d c = c\<lparr>cl_user_data := d\<rparr>"

definition ws_client_stop :: "ws_client \<Rightarrow> ws_client" where
  "ws_client_stop c = c\<lparr>cl_should_stop := True\<rparr>"

section \<open>The receive thread\<close>

text \<open>What the thread does outwardly: frames it sends back and calls of the handlers.\<close>

datatype recv_out = SendFrame byte "byte list" | Out ws_out

text \<open>One complete message.\<close>

definition deliver :: "ws_env \<Rightarrow> byte \<Rightarrow> byte list \<Rightarrow> ws_client \<Rightarrow> (recv_out list \<times> ws_client) option" where
  "deliver env opcode data c =
     (if opcode = 0x01 then
        map_option (\<lambda>(outs, s). (map Out outs, c\<lparr>cl_v2 := s\<rparr>))
          (ws_dispatch_text env (cl_raw_handler c) (cl_handler c) data (cl_v2 c))
      else if opcode = 0x02 \<and> cl_raw_handler c then Some ([Out (CallRaw data)], c)
      else Some ([], c))"

text \<open>One turn of the loop, with what another thread's \<open>ws_client_stop\<close> makes of the stop flag.
  The flag says whether the loop goes on; None is a store outside an allocation.\<close>

record turn_env =
  te_env :: ws_env
  te_alloc :: "nat \<Rightarrow> bool"
  te_stop :: bool

definition recv_turn :: "turn_env \<Rightarrow> ws_client \<Rightarrow> (bool \<times> recv_out list \<times> ws_client) option" where
  "recv_turn te c =
     (if te_stop te \<or> cl_should_stop c \<or> \<not> cl_connected c then Some (False, [], c)
      else case ws_recv_frame WS_MAX_MESSAGE_SIZE (cl_rx c) of
        (None, rx) \<Rightarrow>
          Some (False, [], (ws_client_note_protocol_result False (c\<lparr>cl_rx := rx\<rparr>))\<lparr>cl_connected := False\<rparr>)
      | (Some f, rx) \<Rightarrow>
          let c1 = c\<lparr>cl_rx := rx\<rparr>; op = f_opcode f
          in if op = 0x08 then Some (False, [], c1\<lparr>cl_connected := False\<rparr>)
             else if op = 0x09 then Some (True, [SendFrame 0x0A (f_data f)], c1)
             else if op = 0x0A then Some (True, [], c1)
             else case ws_fragment_accumulate (te_alloc te) op (f_fin f) (f_data f) (cl_frag c1) of
                    None \<Rightarrow> None
                  | Some (FragError, fr) \<Rightarrow> Some (False, [], c1\<lparr>cl_frag := fr, cl_connected := False\<rparr>)
                  | Some (FragMore, fr) \<Rightarrow> Some (True, [], c1\<lparr>cl_frag := fr\<rparr>)
                  | Some (FragDone mop data, fr) \<Rightarrow>
                      map_option (\<lambda>(outs, c2). (True, outs, c2)) (deliver (te_env te) mop data (c1\<lparr>cl_frag := fr\<rparr>)))"


text \<open>The loop.  Each turn that goes on has consumed input, so the thread always ends; the turns
  take their circumstances from a function of the turn number.\<close>

lemma deliver_rx: "deliver env mop data c = Some (outs, c') \<Longrightarrow> cl_rx c' = cl_rx c"
  by (auto simp: deliver_def split: if_splits)

lemma note_fields [simp]:
  "cl_rx (ws_client_note_protocol_result b c) = cl_rx c"
  "cl_fd (ws_client_note_protocol_result b c) = cl_fd c"
  "cl_ssl (ws_client_note_protocol_result b c) = cl_ssl c"
  "cl_ssl_ctx (ws_client_note_protocol_result b c) = cl_ssl_ctx c"
  "cl_recv_thread (ws_client_note_protocol_result b c) = cl_recv_thread c"
  "cl_connected (ws_client_note_protocol_result b c) = cl_connected c"
  "cl_should_stop (ws_client_note_protocol_result b c) = cl_should_stop c"
  "cl_log (ws_client_note_protocol_result b c) = cl_log c"
  "cl_frag (ws_client_note_protocol_result b c) = cl_frag c"
  "cl_config (ws_client_note_protocol_result b c) = cl_config c"
  "cl_use_tls (ws_client_note_protocol_result b c) = cl_use_tls c"
  "cl_v2 (ws_client_note_protocol_result b c) = snd (v2_note_attempt_result b (cl_v2 c))"
  by (simp_all add: ws_client_note_protocol_result_def Let_def)

lemma recv_turn_measure:
  assumes "recv_turn te c = Some (True, outs, c')"
  shows "rx_measure (cl_rx c') < rx_measure (cl_rx c)"
proof -
  obtain f rx where f: "ws_recv_frame WS_MAX_MESSAGE_SIZE (cl_rx c) = (Some f, rx)" and "cl_rx c' = rx"
    using assms
    by (auto simp: recv_turn_def Let_def deliver_rx split: if_splits prod.splits option.splits frag_result.splits
        dest!: deliver_rx)
  with ws_recv_frame_safe [OF f] show ?thesis by simp
qed

function recv_loop_from ::
    "(nat \<Rightarrow> turn_env) \<Rightarrow> nat \<Rightarrow> ws_client \<Rightarrow> (recv_out list \<times> ws_client) option" where
  "recv_loop_from te k c =
     (case recv_turn (te k) c of
        None \<Rightarrow> None
      | Some (go, outs, c') \<Rightarrow>
          (if go then map_option (\<lambda>(outs', c''). (outs @ outs', c'')) (recv_loop_from te (Suc k) c')
           else Some (outs, c')))"
  by pat_completeness auto
termination
  by (relation "measure (\<lambda>(te, k, c). rx_measure (cl_rx c))") (auto dest: recv_turn_measure)

declare recv_loop_from.simps [simp del]

definition ws_recv_thread :: "(nat \<Rightarrow> turn_env) \<Rightarrow> ws_client \<Rightarrow> (recv_out list \<times> ws_client) option" where
  "ws_recv_thread te c = recv_loop_from te 0 (c\<lparr>cl_frag := frag_reset (cl_frag c)\<rparr>)"

end
