(* ===== verification/WsClientInv.thy ===== *)
theory WsClientInv
  imports WsClient
begin

text \<open>
  Invariants of the WebSocket client: its resources against the log of acquisitions and
  releases, the protocol version against the failure counter, and what the receive thread
  delivers.
\<close>

section \<open>The receive thread\<close>

text \<open>What the thread may rely on and keeps.\<close>

definition recv_inv :: "ws_client \<Rightarrow> bool" where
  "recv_inv c \<longleftrightarrow> v2_inv (cl_v2 c) \<and> frag_inv (cl_frag c)
     \<and> (cl_protocol c = PROTOCOL_VERSION_V1 \<longleftrightarrow> v2_should_fallback_to_v1 (cl_v2 c))"

text \<open>The fields the thread never writes.\<close>

definition thread_frame :: "ws_client \<Rightarrow> ws_client \<Rightarrow> bool" where
  "thread_frame c c' \<longleftrightarrow> cl_fd c' = cl_fd c \<and> cl_ssl c' = cl_ssl c \<and> cl_ssl_ctx c' = cl_ssl_ctx c
     \<and> cl_recv_thread c' = cl_recv_thread c \<and> cl_log c' = cl_log c
     \<and> cl_handler c' = cl_handler c \<and> cl_raw_handler c' = cl_raw_handler c
     \<and> cl_should_stop c' = cl_should_stop c \<and> (cl_connected c' \<longrightarrow> cl_connected c)"

lemma thread_frame_refl [simp]: "thread_frame c c"
  by (simp add: thread_frame_def)

lemma thread_frame_trans: "thread_frame a b \<Longrightarrow> thread_frame b c \<Longrightarrow> thread_frame a c"
  by (auto simp: thread_frame_def)

lemma note_handlers [simp]:
  "cl_handler (ws_client_note_protocol_result b c) = cl_handler c"
  "cl_raw_handler (ws_client_note_protocol_result b c) = cl_raw_handler c"
  by (simp_all add: ws_client_note_protocol_result_def Let_def)

lemma note_inv:
  assumes "recv_inv c"
  shows "recv_inv (ws_client_note_protocol_result b c)"
  using assms v2_inv_note [of "cl_v2 c" b]
  by (auto simp: recv_inv_def ws_client_note_protocol_result_def Let_def v2_note_attempt_result_def
      v2_should_fallback_to_v1_def)

definition out_ok :: "recv_out \<Rightarrow> bool" where
  "out_ok r = (case r of Out (CallHandler m) \<Rightarrow> message_fits m \<and> \<not> contains_crlf (msg_terminal_id m)
                              \<and> \<not> contains_crlf (msg_ping_target m)
     | SendFrame opcode data \<Rightarrow> opcode = 0x0A \<and> length data \<le> 125
     | _ \<Rightarrow> True)"

lemma deliver_ok:
  assumes "recv_inv c"
  obtains outs c' where "deliver env mop data c = Some (outs, c')" "recv_inv c'" "thread_frame c c'"
    "list_all out_ok outs" "cl_rx c' = cl_rx c" "cl_connected c' = cl_connected c"
proof (cases "mop = 0x01")
  case True
  have "v2_inv (cl_v2 c)" using assms by (simp add: recv_inv_def)
  then obtain os s where s: "ws_dispatch_text env (cl_raw_handler c) (cl_handler c) data (cl_v2 c) = Some (os, s)"
      "v2_inv s" "\<And>m. CallHandler m \<in> set os \<Longrightarrow> message_fits m \<and> \<not> contains_crlf (msg_terminal_id m)
                        \<and> \<not> contains_crlf (msg_ping_target m)"
    by (rule ws_dispatch_text_ok) blast
  have "fail_count s = fail_count (cl_v2 c)"
    using s(1) by (rule frame_simps)
  then show ?thesis
    using assms True s
    by (intro that [of "map Out os" "c\<lparr>cl_v2 := s\<rparr>"])
       (auto simp: deliver_def recv_inv_def thread_frame_def list_all_iff out_ok_def v2_should_fallback_to_v1_def
          split: ws_out.splits)
next
  case False
  then show ?thesis
    using assms that [of "if mop = 2 \<and> cl_raw_handler c then [Out (CallRaw data)] else []" c]
    by (simp add: deliver_def out_ok_def)
qed

text \<open>The outcome of one turn, as one predicate on the result.\<close>

definition turn_ok :: "turn_env \<Rightarrow> ws_client \<Rightarrow> bool \<times> recv_out list \<times> ws_client \<Rightarrow> bool" where
  "turn_ok te c r = (case r of (go, outs, c') \<Rightarrow> recv_inv c' \<and> thread_frame c c' \<and> list_all out_ok outs
     \<and> (go \<or> te_stop te \<or> cl_should_stop c \<or> \<not> cl_connected c'))"

lemma recv_turn_ok:
  assumes "recv_inv c"
  shows "\<exists>r. recv_turn te c = Some r \<and> turn_ok te c r"
proof (cases "te_stop te \<or> cl_should_stop c \<or> \<not> cl_connected c")
  case True
  with assms show ?thesis by (auto simp: recv_turn_def turn_ok_def)
next
  case run: False
  obtain fo rx where f: "ws_recv_frame WS_MAX_MESSAGE_SIZE (cl_rx c) = (fo, rx)" by fastforce
  show ?thesis
  proof (cases fo)
    case None
    have "recv_inv (ws_client_note_protocol_result False (c\<lparr>cl_rx := rx\<rparr>)\<lparr>cl_connected := False\<rparr>)"
      using note_inv [of "c\<lparr>cl_rx := rx\<rparr>" False] assms by (simp add: recv_inv_def)
    then show ?thesis using run f None
      by (simp add: recv_turn_def turn_ok_def thread_frame_def)
  next
    case (Some fr)
    note safe = ws_recv_frame_safe [OF f [unfolded Some]]
    have invs: "recv_inv (c\<lparr>cl_rx := rx\<rparr>)" "recv_inv (c\<lparr>cl_rx := rx, cl_connected := False\<rparr>)"
      using assms by (simp_all add: recv_inv_def)
    consider "f_opcode fr = 8" | "f_opcode fr = 9" | "f_opcode fr = 10"
      | "f_opcode fr \<noteq> 8" "f_opcode fr \<noteq> 9" "f_opcode fr \<noteq> 10" by blast
    then show ?thesis
    proof cases
      case 4
      have "frag_inv (cl_frag c)" using assms by (simp add: recv_inv_def)
      from fragment_safe [OF this, of "te_alloc te" "f_opcode fr" "f_fin fr" "f_data fr"]
      obtain r g where g: "ws_fragment_accumulate (te_alloc te) (f_opcode fr) (f_fin fr) (f_data fr) (cl_frag c) = Some (r, g)"
        "frag_inv g" by blast
      have inv: "recv_inv (c\<lparr>cl_rx := rx, cl_frag := g\<rparr>)" "recv_inv (c\<lparr>cl_rx := rx, cl_frag := g, cl_connected := False\<rparr>)"
        using assms g(2) by (simp_all add: recv_inv_def)
      have eq: "recv_turn te c = (case r of FragError \<Rightarrow> Some (False, [], c\<lparr>cl_rx := rx, cl_frag := g, cl_connected := False\<rparr>)
          | FragMore \<Rightarrow> Some (True, [], c\<lparr>cl_rx := rx, cl_frag := g\<rparr>)
          | FragDone mop data \<Rightarrow> map_option (\<lambda>(outs, c2). (True, outs, c2))
                (deliver (te_env te) mop data (c\<lparr>cl_rx := rx, cl_frag := g\<rparr>)))"
        using run f Some 4 g(1) by (simp add: recv_turn_def Let_def split: frag_result.split)
      show ?thesis
      proof (cases r)
        case (FragDone mop data)
        obtain outs c' where "deliver (te_env te) mop data (c\<lparr>cl_rx := rx, cl_frag := g\<rparr>) = Some (outs, c')"
          "recv_inv c'" "thread_frame (c\<lparr>cl_rx := rx, cl_frag := g\<rparr>) c'" "list_all out_ok outs"
          using inv(1) by (rule deliver_ok)
        then show ?thesis by (simp add: eq FragDone turn_ok_def thread_frame_def)
      qed (use inv in \<open>simp_all add: eq turn_ok_def thread_frame_def\<close>)
    qed (use run f Some invs safe in \<open>simp_all add: recv_turn_def Let_def turn_ok_def thread_frame_def out_ok_def\<close>)
  qed
qed

lemma recv_loop_ok:
  "recv_inv c \<Longrightarrow> \<exists>outs c'. recv_loop_from te k c = Some (outs, c') \<and> recv_inv c' \<and> thread_frame c c'
     \<and> list_all out_ok outs \<and> ((\<exists>i. te_stop (te i)) \<or> cl_should_stop c' \<or> \<not> cl_connected c')"
proof (induction te k c rule: recv_loop_from.induct)
  case (1 te k c)
  obtain go outs c1 where t: "recv_turn (te k) c = Some (go, outs, c1)" "recv_inv c1" "thread_frame c c1"
    "list_all out_ok outs" "\<not> go \<Longrightarrow> te_stop (te k) \<or> cl_should_stop c \<or> \<not> cl_connected c1"
    using recv_turn_ok [OF 1(2), of "te k"] by (auto simp: turn_ok_def)
  show ?case
  proof (cases go)
    case False
    with t have "(\<exists>i. te_stop (te i)) \<or> cl_should_stop c1 \<or> \<not> cl_connected c1"
      by (auto simp: thread_frame_def)
    with t False show ?thesis by (simp add: recv_loop_from.simps [of te k c])
  next
    case True
    obtain outs' c' where "recv_loop_from te (Suc k) c1 = Some (outs', c')" "recv_inv c'" "thread_frame c1 c'"
      "list_all out_ok outs'" "(\<exists>i. te_stop (te i)) \<or> cl_should_stop c' \<or> \<not> cl_connected c'"
      using 1(1) [OF t(1) refl refl True t(2)] by blast
    with t True show ?thesis
      by (auto simp: recv_loop_from.simps [of te k c] intro: thread_frame_trans)
  qed
qed



definition fresh_client :: ws_client where
  "fresh_client = the (ws_client_create None True True True)"

lemma fresh_client_inv: "recv_inv fresh_client"
  using v2_inv_init frag_inv_init
  by (simp add: fresh_client_def ws_client_create_def recv_inv_def
      v2_should_fallback_to_v1_def v2_state_init_def)

definition quiet_turns :: "nat \<Rightarrow> turn_env" where
  "quiet_turns k = \<lparr>te_env = sample_env None, te_alloc = (\<lambda>_. True), te_stop = False\<rparr>"


section \<open>Delivery\<close>

text \<open>What a session of unfragmented frames should make the thread do when the raw handler is
  registered: data frames go to the handler, pings are answered, pongs ignored.\<close>

fun session_outs :: "(byte \<times> byte list \<times> byte list) list \<Rightarrow> recv_out list" where
  "session_outs [] = []"
| "session_outs ((op, msk, data) # fs) =
     (if op = 0x01 \<or> op = 0x02 then [Out (CallRaw data)]
      else if op = 0x09 then [SendFrame 0x0A data] else []) @ session_outs fs"

definition session_frame_ok :: "byte \<times> byte list \<times> byte list \<Rightarrow> bool" where
  "session_frame_ok f = (case f of (op, msk, data) \<Rightarrow>
     op \<in> {0x01, 0x02, 0x09, 0x0A} \<and> length msk = 4 \<and> length data \<le> WS_MAX_MESSAGE_SIZE
     \<and> (0x08 \<le> op \<longrightarrow> length data \<le> 125))"

definition session_bytes :: "(byte \<times> byte list \<times> byte list) list \<Rightarrow> byte list" where
  "session_bytes fs = concat (map (\<lambda>(op, msk, data). frame_bytes op msk data) fs)"

definition raw_running :: "ws_client \<Rightarrow> bool" where
  "raw_running c \<longleftrightarrow> cl_connected c \<and> \<not> cl_should_stop c \<and> cl_raw_handler c \<and> fragment_opcode (cl_frag c) = 0"

lemma session_turn:
  assumes "raw_running c" "\<not> te_stop te" "session_frame_ok (op, msk, data)"
    "in_stream (cl_rx c) = frame_bytes op msk data @ rest"
  shows "\<exists>c'. recv_turn te c = Some (True, session_outs [(op, msk, data)], c') \<and> raw_running c'
     \<and> in_stream (cl_rx c') = rest"
proof -
  have "valid_opcode op" "length msk = 4" "length data \<le> WS_MAX_MESSAGE_SIZE" "0x08 \<le> op \<longrightarrow> length data \<le> 125"
    using assms(3) by (auto simp: session_frame_ok_def valid_opcode_def)
  then obtain rx where rx: "ws_recv_frame WS_MAX_MESSAGE_SIZE (cl_rx c)
      = (Some \<lparr>f_opcode = op, f_fin = True, f_data = data\<rparr>, rx)" "in_stream rx = rest"
    using frame_read [of op msk data WS_MAX_MESSAGE_SIZE "cl_rx c" rest] assms(4) by auto
  have "op \<in> {0x01, 0x02, 0x09, 0x0A}" using assms(3) by (simp add: session_frame_ok_def)
  then show ?thesis
    using rx assms(1,2)
    by (auto simp: recv_turn_def raw_running_def ws_fragment_accumulate_def deliver_def ws_dispatch_text_def)
qed

lemma close_turn:
  assumes "raw_running c" "\<not> te_stop te" "length msk = 4" "in_stream (cl_rx c) = frame_bytes 0x08 msk [] @ rest"
  shows "\<exists>c'. recv_turn te c = Some (False, [], c') \<and> \<not> cl_connected c' \<and> in_stream (cl_rx c') = rest"
proof -
  obtain rx where rx: "ws_recv_frame WS_MAX_MESSAGE_SIZE (cl_rx c)
      = (Some \<lparr>f_opcode = 0x08, f_fin = True, f_data = []\<rparr>, rx)" "in_stream rx = rest"
    using frame_read [of "0x08" msk "[]" WS_MAX_MESSAGE_SIZE "cl_rx c" rest] assms(3,4)
    by (auto simp: valid_opcode_def)
  then show ?thesis using assms(1,2) by (auto simp: recv_turn_def raw_running_def Let_def)
qed

lemma session_loop:
  assumes "\<forall>i. \<not> te_stop (te i)" "\<forall>f \<in> set fs. session_frame_ok f" "length cmsk = 4" "raw_running c"
    "in_stream (cl_rx c) = session_bytes fs @ frame_bytes 0x08 cmsk [] @ rest"
  shows "\<exists>c'. recv_loop_from te k c = Some (session_outs fs, c') \<and> \<not> cl_connected c'
     \<and> in_stream (cl_rx c') = rest"
  using assms
proof (induction fs arbitrary: c k)
  case Nil
  then obtain c' where "recv_turn (te k) c = Some (False, [], c')" "\<not> cl_connected c'" "in_stream (cl_rx c') = rest"
    using close_turn [of c "te k" cmsk rest] by (auto simp: session_bytes_def)
  then show ?case by (simp add: recv_loop_from.simps [of te k c])
next
  case (Cons f fs)
  obtain op msk data where f: "f = (op, msk, data)" by (metis prod_cases3)
  have "in_stream (cl_rx c) = frame_bytes op msk data @ session_bytes fs @ frame_bytes 0x08 cmsk [] @ rest"
    using Cons.prems(5) by (simp add: session_bytes_def f)
  then obtain c1 where c1: "recv_turn (te k) c = Some (True, session_outs [(op, msk, data)], c1)" "raw_running c1"
      "in_stream (cl_rx c1) = session_bytes fs @ frame_bytes 0x08 cmsk [] @ rest"
    using session_turn [OF Cons.prems(4), of "te k" op msk data] Cons.prems(1,2) f by auto
  obtain c' where "recv_loop_from te (Suc k) c1 = Some (session_outs fs, c')" "\<not> cl_connected c'"
      "in_stream (cl_rx c') = rest"
    using Cons.IH [OF Cons.prems(1) _ Cons.prems(3) c1(2,3)] Cons.prems(2) by auto
  with c1(1) show ?case by (auto simp: recv_loop_from.simps [of te k c] f)
qed


definition sample_session :: "(byte \<times> byte list \<times> byte list) list" where
  "sample_session = [(1, [1, 2, 3, 4], [104, 105]), (9, [0, 0, 0, 0], [7]), (2, [9, 9, 9, 9], [33])]"



section \<open>Resources\<close>

text \<open>How often one operation occurs in the log more than another.\<close>

definition surplus :: "sys_op \<Rightarrow> sys_op \<Rightarrow> sys_op list \<Rightarrow> int" where
  "surplus a b ops = int (count_list ops a) - int (count_list ops b)"

lemma surplus_append [simp]: "surplus a b (xs @ ys) = surplus a b xs + surplus a b ys"
  by (simp add: surplus_def)

lemma surplus_Cons: "surplus a b (x # xs) = (if x = a then 1 else 0) - (if x = b then 1 else 0) + surplus a b xs"
  by (simp add: surplus_def)

lemma surplus_Nil [simp]: "surplus a b [] = 0"
  by (simp add: surplus_def)

text \<open>Every descriptor opened and not closed is the one in the client, every TLS session and
  thread started and not released is the one the client records, and both need a descriptor.\<close>

definition owned :: "ws_client \<Rightarrow> bool" where
  "owned c \<longleftrightarrow>
     (\<forall>fd. surplus (OpenFd fd) (CloseFd fd) (cl_log c) = (if fd = cl_fd c \<and> 0 \<le> fd then 1 else 0))
     \<and> surplus SslNew SslFree (cl_log c) = (if cl_ssl c then 1 else 0)
     \<and> surplus ThreadStart ThreadJoin (cl_log c) = (if cl_recv_thread c then 1 else 0)
     \<and> (cl_ssl c \<or> cl_recv_thread c \<longrightarrow> 0 \<le> cl_fd c)
     \<and> (cl_connected c \<longrightarrow> cl_recv_thread c)"

lemma log_ops_simps [simp]:
  "cl_log (log_ops ops c) = cl_log c @ ops" "cl_fd (log_ops ops c) = cl_fd c" "cl_ssl (log_ops ops c) = cl_ssl c"
  "cl_ssl_ctx (log_ops ops c) = cl_ssl_ctx c" "cl_recv_thread (log_ops ops c) = cl_recv_thread c"
  "cl_connected (log_ops ops c) = cl_connected c" "cl_should_stop (log_ops ops c) = cl_should_stop c"
  "cl_config (log_ops ops c) = cl_config c" "cl_use_tls (log_ops ops c) = cl_use_tls c"
  "cl_v2 (log_ops ops c) = cl_v2 c" "cl_frag (log_ops ops c) = cl_frag c" "cl_rx (log_ops ops c) = cl_rx c"
  "cl_protocol (log_ops ops c) = cl_protocol c"
  by (simp_all add: log_ops_def)

lemma owned_note [simp]: "owned (ws_client_note_protocol_result b c) = owned c"
  by (simp add: owned_def)

text \<open>After a disconnect nothing is held but the TLS context.\<close>

lemma disconnect_fields [simp]:
  "cl_fd (ws_client_disconnect c) = (if 0 \<le> cl_fd c then -1 else cl_fd c)"
  "\<not> cl_ssl (ws_client_disconnect c)" "\<not> cl_recv_thread (ws_client_disconnect c)"
  "\<not> cl_connected (ws_client_disconnect c)" "cl_should_stop (ws_client_disconnect c)"
  "cl_ssl_ctx (ws_client_disconnect c) = cl_ssl_ctx c" "cl_config (ws_client_disconnect c) = cl_config c"
  "cl_v2 (ws_client_disconnect c) = cl_v2 c" "cl_protocol (ws_client_disconnect c) = cl_protocol c"
  "cl_frag (ws_client_disconnect c) = cl_frag c" "cl_rx (ws_client_disconnect c) = cl_rx c"
  "cl_use_tls (ws_client_disconnect c) = cl_use_tls c"
  by (simp_all add: ws_client_disconnect_def Let_def log_ops_def)

lemma disconnect_log:
  "cl_log (ws_client_disconnect c) = cl_log c
     @ (if 0 \<le> cl_fd c then [ShutdownFd (cl_fd c)] else [])
     @ (if cl_recv_thread c then [ThreadJoin] else [])
     @ (if cl_ssl c then [SslShutdown, SslFree] else [])
     @ (if 0 \<le> cl_fd c then [CloseFd (cl_fd c)] else [])"
  by (simp add: ws_client_disconnect_def Let_def log_ops_def)

lemma owned_disconnect: "owned c \<Longrightarrow> owned (ws_client_disconnect c)"
  by (auto simp: owned_def disconnect_log surplus_Cons)

lemma connect_addrs_ops:
  "connect_addrs as = (fd, ops) \<Longrightarrow>
     (\<forall>g. surplus (OpenFd g) (CloseFd g) ops = (if g = fd \<and> 0 \<le> fd then 1 else 0))
     \<and> (\<forall>x \<in> set ops. \<exists>g. x = OpenFd g \<or> x = CloseFd g) \<and> -1 \<le> fd"
proof (induction as arbitrary: fd ops rule: connect_addrs.induct)
  case (2 fd0 conn rest)
  then show ?case
    by (cases "fd0 < 0"; cases conn) (auto simp: surplus_Cons split: prod.splits)
qed simp


lemma surplus_other: "a \<notin> set ops \<Longrightarrow> b \<notin> set ops \<Longrightarrow> surplus a b ops = 0"
  by (simp add: surplus_def count_list_0_iff)

text \<open>A client that owns a descriptor and perhaps a TLS session, before its thread starts.\<close>

definition staged :: "ws_client \<Rightarrow> bool" where
  "staged c \<longleftrightarrow> owned c \<and> 0 \<le> cl_fd c \<and> \<not> cl_recv_thread c"

lemma staged_connected: "staged c \<Longrightarrow> \<not> cl_connected c"
  by (auto simp: staged_def owned_def)

lemma owned_release: "staged c \<Longrightarrow> owned (release_conn c) \<and> cl_fd (release_conn c) = -1"
  by (auto simp: staged_def owned_def release_conn_def Let_def surplus_Cons log_ops_def)

lemma release_fields [simp]:
  "cl_v2 (release_conn c) = cl_v2 c" "cl_connected (release_conn c) = cl_connected c"
  "\<not> cl_ssl_ctx (release_conn c)" "cl_recv_thread (release_conn c) = cl_recv_thread c"
  "cl_protocol (release_conn c) = cl_protocol c"
  "cl_should_stop (release_conn c) = cl_should_stop c" "cl_frag (release_conn c) = cl_frag c"
  by (simp_all add: release_conn_def Let_def log_ops_def)

text \<open>What TLS set-up adds to the log on success and on failure.\<close>

lemma tls_setup_log:
  assumes "tls_setup env host c = (ok, c')"
  obtains ops where "cl_log c' = cl_log c @ ops" "surplus SslNew SslFree ops = (if ok then 1 else 0)"
    "\<And>fd. surplus (OpenFd fd) (CloseFd fd) ops = (if \<not> ok \<and> fd = cl_fd c then -1 else 0)"
    "surplus ThreadStart ThreadJoin ops = 0"
    "surplus CtxNew CtxFree ops = (if ok then 1 else 0)"
    "ok \<Longrightarrow> ops = [CtxNew, if cfg_ignore_cert (cl_config c) then VerifyNone else VerifyPeer, SslNew]
             @ (if cfg_ignore_cert (cl_config c) then [] else [CheckHost host])"
proof (cases "ctx_ok env")
  case False
  with assms show ?thesis
    by (intro that [of "[CloseFd (cl_fd c)]"]) (auto simp: tls_setup_def surplus_Cons)
next
  case ctx: True
  let ?v = "if cfg_ignore_cert (cl_config c) then VerifyNone else VerifyPeer"
  let ?h = "if cfg_ignore_cert (cl_config c) then [] else [CheckHost host]"
  show ?thesis
  proof (cases "ssl_new_ok env")
    case False
    with assms ctx show ?thesis
      by (intro that [of "[CtxNew, ?v, CtxFree, CloseFd (cl_fd c)]"]) (auto simp: tls_setup_def Let_def surplus_Cons)
  next
    case new: True
    show ?thesis
    proof (cases "ssl_connect_ok env")
      case False
      with assms ctx new show ?thesis
        by (intro that [of "[CtxNew, ?v, SslNew] @ ?h @ [SslFree, CtxFree, CloseFd (cl_fd c)]"])
           (auto simp: tls_setup_def Let_def surplus_Cons)
    next
      case True
      with assms ctx new show ?thesis
        by (intro that [of "[CtxNew, ?v, SslNew] @ ?h"]) (auto simp: tls_setup_def Let_def surplus_Cons)
    qed
  qed
qed

lemma tls_setup_fields:
  assumes "tls_setup env host c = (ok, c')" "\<not> cl_ssl c"
  shows "cl_ssl c' = ok" "cl_fd c' = (if ok then cl_fd c else -1)" "cl_ssl_ctx c' = ok"
    "cl_recv_thread c' = cl_recv_thread c" "cl_connected c' = cl_connected c"
    "cl_should_stop c' = cl_should_stop c" "cl_v2 c' = cl_v2 c" "cl_protocol c' = cl_protocol c"
    "cl_config c' = cl_config c" "cl_frag c' = cl_frag c" "cl_use_tls c' = cl_use_tls c" "cl_rx c' = cl_rx c"
  using assms by (auto simp: tls_setup_def Let_def log_ops_def split: if_splits)

lemma tls_setup_owned:
  assumes "staged c" "\<not> cl_ssl c" "tls_setup env host c = (ok, c')"
  shows "owned c'" "ok \<Longrightarrow> staged c'"
proof -
  note f = tls_setup_fields [OF assms(3,2)]
  show own: "owned c'"
    by (rule tls_setup_log [OF assms(3)])
       (use assms(1,2) staged_connected [OF assms(1)] in \<open>auto simp: staged_def owned_def f\<close>)
  show "staged c'" if ok using own assms(1) that by (simp add: staged_def f)
qed

lemma owned_connected_False: "owned c \<Longrightarrow> owned (c\<lparr>cl_connected := False\<rparr>)"
  by (simp add: owned_def)

lemma connect_upgrade_owned:
  assumes "staged c" "connect_upgrade env host path c = (ok, out, c')"
  shows "owned c'"
proof -
  obtain hok ho ts rx where h: "ws_handshake (hs_sha1 env) (hs_random env) host path (cfg_token (cl_config c))
             (cfg_extra_query (cl_config c)) (hs_tx env) ((cl_rx c)\<lparr>rx_script := net_rx env\<rparr>) = (hok, ho, ts, rx)"
    by (metis prod_cases4)
  define c1 where "c1 = c\<lparr>cl_rx := rx, cl_should_stop := cl_should_stop c \<or> stopped_meanwhile env\<rparr>"
  have c1: "staged c1" using assms(1) by (auto simp: c1_def staged_def owned_def)
  have r2: "owned ((release_conn (c1\<lparr>cl_connected := True\<rparr>))\<lparr>cl_connected := False\<rparr>)"
  proof -
    have "(release_conn (c1\<lparr>cl_connected := True\<rparr>))\<lparr>cl_connected := False\<rparr> = (release_conn c1)\<lparr>cl_connected := False\<rparr>"
      by (simp add: release_conn_def Let_def log_ops_def)
    then show ?thesis using owned_release [OF c1] owned_connected_False by simp
  qed
  have s2: "owned (log_ops [ThreadStart] (c1\<lparr>cl_connected := True, cl_recv_thread := True\<rparr>))"
    using c1 by (auto simp: staged_def owned_def surplus_Cons)
  have "(ok, out, c') = (if \<not> hok then (False, ho, ws_client_note_protocol_result False (release_conn c1))
      else if cl_should_stop c1 then (False, ho, release_conn c1)
      else if \<not> thread_ok env then (False, ho, ws_client_note_protocol_result False
              ((release_conn (c1\<lparr>cl_connected := True\<rparr>))\<lparr>cl_connected := False\<rparr>))
      else (True, ho, ws_client_note_protocol_result True
              (log_ops [ThreadStart] (c1\<lparr>cl_connected := True, cl_recv_thread := True\<rparr>))))"
    using assms(2) [symmetric] unfolding connect_upgrade_def h prod.case Let_def c1_def [symmetric] .
  then show ?thesis
    using owned_release [OF c1] r2 s2 by (simp split: if_splits)
qed

lemma owned_ready: "owned c \<Longrightarrow> \<not> 0 \<le> cl_fd c \<Longrightarrow> \<not> cl_ssl c \<and> \<not> cl_recv_thread c \<and> \<not> cl_connected c"
  by (auto simp: owned_def)

lemma owned_fields: "owned (c\<lparr>cl_should_stop := b\<rparr>) = owned c" "owned (c\<lparr>cl_use_tls := b\<rparr>) = owned c"
  by (simp_all add: owned_def)

lemma connect_base_ok:
  assumes "owned c"
  shows "owned (connect_base c)" "cl_fd (connect_base c) < 0" "\<not> cl_ssl (connect_base c)"
    "\<not> cl_recv_thread (connect_base c)" "\<not> cl_connected (connect_base c)"
    "cl_should_stop (connect_base c) \<longleftrightarrow> 0 \<le> cl_fd c"
    "cl_v2 (connect_base c) = cl_v2 c" "cl_protocol (connect_base c) = cl_protocol c"
    "cl_config (connect_base c) = cl_config c" "cl_ssl_ctx (connect_base c) = cl_ssl_ctx c"
    "cl_frag (connect_base c) = cl_frag c"
  using assms owned_disconnect [of "c\<lparr>cl_should_stop := False\<rparr>"] owned_ready [OF assms]
  by (auto simp: connect_base_def Let_def owned_fields)

text \<open>An attempt fails early with the base state and one failure noted, or reaches an open
  descriptor.\<close>

lemma ws_client_connect_cases:
  assumes "ws_client_connect env c = (ok, out, c')" "owned c"
  obtains (noend) "cfg_endpoint (cl_config c) = None" "\<not> ok" "out = []" "c' = c"
  | (early) d where "\<not> ok" "out = []" "owned d" "c' = ws_client_note_protocol_result False d"
      "cl_v2 d = cl_v2 c" "cl_protocol d = cl_protocol c" "cl_frag d = cl_frag c"
  | (opened) endpoint u path d where "cfg_endpoint (cl_config c) = Some endpoint" "parse_url endpoint = Some u"
      "connect_path (connect_base c) = Some path" "staged d" "\<not> cl_ssl d"
      "cl_should_stop d \<longleftrightarrow> 0 \<le> cl_fd c" "cl_use_tls d \<longleftrightarrow> url_scheme u = ''wss''"
      "cl_v2 d = cl_v2 c" "cl_protocol d = cl_protocol c" "cl_config d = cl_config c" "cl_frag d = cl_frag c"
      "cl_ssl_ctx d = cl_ssl_ctx c"
      "\<exists>ops. cl_log d = cl_log (connect_base c) @ ops \<and> (\<forall>x \<in> set ops. \<exists>g. x = OpenFd g \<or> x = CloseFd g)"
      "(ok, out, c') = (case (if cl_use_tls d then tls_setup env (url_host u) d else (True, d)) of
          (False, e) \<Rightarrow> (False, [], ws_client_note_protocol_result False e)
        | (True, e) \<Rightarrow> connect_upgrade env (url_host u) path e)"
proof (cases "cfg_endpoint (cl_config c)")
  case None
  show ?thesis by (rule noend) (use assms None in \<open>simp_all add: ws_client_connect_def\<close>)
next
  case (Some endpoint)
  let ?b = "connect_base c"
  note base = connect_base_ok [OF assms(2)]
  have eq: "(ok, out, c') = (case parse_url endpoint of None \<Rightarrow> (False, [], ws_client_note_protocol_result False ?b)
         | Some u \<Rightarrow>
           (case connect_path ?b of None \<Rightarrow> (False, [], ws_client_note_protocol_result False ?b)
            | Some path \<Rightarrow>
              case snprintf_chk 16 (show_int (url_port u)) of
                   None \<Rightarrow> (False, [], ws_client_note_protocol_result False (?b\<lparr>cl_use_tls := (url_scheme u = ''wss'')\<rparr>))
                 | Some _ \<Rightarrow> connect_open env u path (?b\<lparr>cl_use_tls := (url_scheme u = ''wss'')\<rparr>)))"
    using assms(1) [symmetric] unfolding ws_client_connect_def Some option.case Let_def .
  let ?c3 = "\<lambda>u. ?b\<lparr>cl_use_tls := (url_scheme u = ''wss'')\<rparr>"
  have own3: "owned (?c3 u)" for u using base(1) by (simp add: owned_fields)
  consider "parse_url endpoint = None"
    | u where "parse_url endpoint = Some u" "connect_path ?b = None"
    | u path where "parse_url endpoint = Some u" "connect_path ?b = Some path"
        "snprintf_chk 16 (show_int (url_port u)) = None \<or> gai env = None"
    | u path t addrs where "parse_url endpoint = Some u" "connect_path ?b = Some path"
        "snprintf_chk 16 (show_int (url_port u)) = Some t" "gai env = Some addrs"
    by fastforce
  then show ?thesis
  proof cases
    case 1
    then show ?thesis using eq base by (intro early [of ?b]) simp_all
  next
    case 2
    then show ?thesis using eq base by (intro early [of ?b]) simp_all
  next
    case (3 u path)
    then have "(ok, out, c') = (False, [], ws_client_note_protocol_result False (?c3 u))"
      using eq by (cases "snprintf_chk 16 (show_int (url_port u))") (simp_all add: connect_open_def)
    then show ?thesis using base own3 [of u] by (intro early [of "?c3 u"]) simp_all
  next
    case (4 u path t addrs)
    obtain fd ops where a: "connect_addrs addrs = (fd, ops)" by fastforce
    note ops = connect_addrs_ops [OF a]
    let ?d = "log_ops ops ((?c3 u)\<lparr>cl_fd := fd\<rparr>)"
    have "SslNew \<notin> set ops" "SslFree \<notin> set ops" "ThreadStart \<notin> set ops" "ThreadJoin \<notin> set ops"
      using ops by auto
    then have own: "owned ?d"
      using base(1-5) ops by (auto simp: owned_def surplus_other)
    show ?thesis
    proof (cases "fd < 0")
      case True
      then have "(ok, out, c') = (False, [], ws_client_note_protocol_result False ?d)"
        using eq 4 a by (simp add: connect_open_def Let_def)
      with own base show ?thesis by (intro early [of ?d]) simp_all
    next
      case False
      have l: "\<exists>ops'. cl_log ?d = cl_log ?b @ ops' \<and> (\<forall>x \<in> set ops'. \<exists>g. x = OpenFd g \<or> x = CloseFd g)"
        using ops by (intro exI [of _ ops]) simp
      have st: "staged ?d" using own False base(4) by (simp add: staged_def)
      have res: "(ok, out, c') = (case (if cl_use_tls ?d then tls_setup env (url_host u) ?d else (True, ?d)) of
          (False, e) \<Rightarrow> (False, [], ws_client_note_protocol_result False e)
        | (True, e) \<Rightarrow> connect_upgrade env (url_host u) path e)"
        using eq 4 a False by (simp add: connect_open_def Let_def)
      show ?thesis
        by (rule opened [OF Some 4(1,2) st _ _ _ _ _ _ _ _ l res]) (simp_all add: base)
    qed
  qed
qed

end
