(* ===== verification/WsLife.thy ===== *)
theory WsLife
  imports WsClientInv
begin

text \<open>
  Runs of the client: any sequence of connections, disconnections, sends, configuration calls,
  stop requests and turns of the receive thread, and what they can and cannot do to its
  resources, its protocol version and the security of its connections.
\<close>

section \<open>Runs\<close>

definition client_inv :: "ws_client \<Rightarrow> bool" where
  "client_inv c \<longleftrightarrow> recv_inv c \<and> owned c"

lemma recv_inv_fields:
  "cl_v2 d = cl_v2 c \<Longrightarrow> cl_protocol d = cl_protocol c \<Longrightarrow> cl_frag d = cl_frag c \<Longrightarrow> recv_inv d = recv_inv c"
  by (simp add: recv_inv_def)

lemma disconnect_inv: "client_inv c \<Longrightarrow> client_inv (ws_client_disconnect c)"
  using owned_disconnect by (auto simp: client_inv_def cong: recv_inv_fields)

lemma connect_upgrade_keeps:
  assumes "connect_upgrade env host path c = (ok, out, c')" "recv_inv c"
  shows "recv_inv c'"
proof -
  obtain hok ho ts rx where h: "ws_handshake (hs_sha1 env) (hs_random env) host path (cfg_token (cl_config c))
             (cfg_extra_query (cl_config c)) (hs_tx env) ((cl_rx c)\<lparr>rx_script := net_rx env\<rparr>) = (hok, ho, ts, rx)"
    by (metis prod_cases4)
  have a: "recv_inv d" if "cl_v2 d = cl_v2 c" "cl_protocol d = cl_protocol c" "cl_frag d = cl_frag c" for d
    using recv_inv_fields [OF that] assms(2) by simp
  show ?thesis
    using assms(1) by (auto simp: connect_upgrade_def h Let_def a note_inv split: if_splits)
qed

lemma connect_inv:
  assumes "ws_client_connect env c = (ok, out, c')" "client_inv c"
  shows "client_inv c'"
proof -
  have own: "owned c" and ri: "recv_inv c" using assms(2) by (simp_all add: client_inv_def)
  from assms(1) own show ?thesis
  proof (cases rule: ws_client_connect_cases)
    case noend
    with assms(2) show ?thesis by simp
  next
    case (early d)
    have "recv_inv d" using early ri recv_inv_fields [of d c] by simp
    with early show ?thesis by (simp add: client_inv_def note_inv)
  next
    case (opened endpoint u path d)
    have rd: "recv_inv d" using opened ri recv_inv_fields [of d c] by simp
    obtain t e where t: "(if cl_use_tls d then tls_setup env (url_host u) d else (True, d)) = (t, e)" by fastforce
    have e: "owned e \<and> (t \<longrightarrow> staged e) \<and> recv_inv e"
    proof (cases "cl_use_tls d")
      case True
      then have ts: "tls_setup env (url_host u) d = (t, e)" using t by simp
      have "recv_inv e" using rd tls_setup_fields [OF ts opened(5)] recv_inv_fields [of e d] by simp
      with tls_setup_owned [OF opened(4,5) ts] show ?thesis by blast
    next
      case False
      with t opened(4) rd show ?thesis by (auto simp: staged_def)
    qed
    show ?thesis
    proof (cases t)
      case True
      then have u: "connect_upgrade env (url_host u) path e = (ok, out, c')" using opened(14) t by simp
      with connect_upgrade_owned [OF _ u] connect_upgrade_keeps [OF u] e True show ?thesis
        by (simp add: client_inv_def)
    next
      case False
      with opened(14) t e show ?thesis by (simp add: client_inv_def note_inv)
    qed
  qed
qed

lemma owned_thread: "owned c \<Longrightarrow> thread_frame c c' \<Longrightarrow> owned c'"
  by (auto simp: owned_def thread_frame_def)

lemma recv_turn_inv:
  assumes "recv_turn te c = Some (go, outs, c')" "client_inv c"
  shows "client_inv c'"
  using recv_turn_ok [of c te] assms owned_thread [of c c'] by (auto simp: turn_ok_def client_inv_def)

lemma send_text_inv:
  "ws_client_send_text ts msk data c = (ok, out, ts', c') \<Longrightarrow> client_inv c \<Longrightarrow> client_inv c'"
  by (auto simp: ws_client_send_text_def client_inv_def note_inv split: if_splits prod.splits bool.splits)

inductive client_step :: "ws_client \<Rightarrow> ws_client \<Rightarrow> bool" where
  connect: "ws_client_connect env c = (ok, out, c') \<Longrightarrow> client_step c c'"
| disconnect: "client_step c (ws_client_disconnect c)"
| send: "ws_client_send_text ts msk data c = (ok, out, ts', c') \<Longrightarrow> client_step c c'"
| turn: "cl_recv_thread c \<Longrightarrow> recv_turn te c = Some (go, outs, c') \<Longrightarrow> client_step c c'"
| stop: "client_step c (ws_client_stop c)"
| handler: "client_step c (ws_client_set_handler h c)"
| raw_handler: "client_step c (ws_client_set_raw_handler h c)"
| user_data: "client_step c (ws_client_set_user_data u c)"

inductive client_reachable :: "ws_client \<Rightarrow> bool" where
  create: "ws_client_create cfg v2_ok m1 m2 = Some c \<Longrightarrow> client_reachable c"
| step: "client_reachable c \<Longrightarrow> client_step c c' \<Longrightarrow> client_reachable c'"

lemma create_inv: "ws_client_create cfg v2_ok m1 m2 = Some c \<Longrightarrow> client_inv c"
  using v2_inv_init frag_inv_init
  by (auto simp: ws_client_create_def client_inv_def recv_inv_def owned_def v2_should_fallback_to_v1_def
      v2_state_init_def split: if_splits)

lemma setter_inv:
  "client_inv c \<Longrightarrow> client_inv (ws_client_stop c) \<and> client_inv (ws_client_set_handler h c)
     \<and> client_inv (ws_client_set_raw_handler h c) \<and> client_inv (ws_client_set_user_data u c)"
  by (simp add: client_inv_def recv_inv_def owned_def ws_client_stop_def ws_client_set_handler_def
      ws_client_set_raw_handler_def ws_client_set_user_data_def)

lemma client_step_inv: "client_step c c' \<Longrightarrow> client_inv c \<Longrightarrow> client_inv c'"
  by (induction rule: client_step.induct)
     (auto intro: connect_inv disconnect_inv send_text_inv recv_turn_inv dest: setter_inv)

lemma client_reachable_inv: "client_reachable c \<Longrightarrow> client_inv c"
  by (induction rule: client_reachable.induct) (auto intro: create_inv client_step_inv)

text \<open>C1. Ownership: in every state of every run, each descriptor is closed at most once and the
  only one open is the client's, the TLS session and the receive thread are released exactly
  once and never outlive the descriptor, and destroying the client leaves no descriptor, no
  session and no thread behind.  This holds for every outcome of every system and OpenSSL
  call, on all the failure paths of \<open>ws_client_connect\<close>.\<close>

theorem client_resources:
  assumes "client_reachable c"
  shows "owned c \<and> (\<forall>fd. surplus (OpenFd fd) (CloseFd fd) (cl_log (ws_client_destroy c)) = 0)
    \<and> surplus SslNew SslFree (cl_log (ws_client_destroy c)) = 0
    \<and> surplus ThreadStart ThreadJoin (cl_log (ws_client_destroy c)) = 0"
proof -
  have own: "owned c" using client_reachable_inv [OF assms] by (simp add: client_inv_def)
  have "owned (ws_client_disconnect c)" using own by (rule owned_disconnect)
  then have d: "\<forall>fd. surplus (OpenFd fd) (CloseFd fd) (cl_log (ws_client_disconnect c)) = 0"
    "surplus SslNew SslFree (cl_log (ws_client_disconnect c)) = 0"
    "surplus ThreadStart ThreadJoin (cl_log (ws_client_disconnect c)) = 0"
    by (auto simp: owned_def)
  have "cl_log (ws_client_destroy c) = cl_log (ws_client_disconnect c) @ (if cl_ssl_ctx c then [CtxFree] else [])"
    by (simp add: ws_client_destroy_def Let_def)
  with own d show ?thesis by (simp add: surplus_Cons)
qed

text \<open>Protocol choice: in every state of every run the recorded version is v1 exactly when at
  least three failures were noted since the last success, which is exactly when the payloads
  and the endpoint path fall back to v1.\<close>

theorem protocol_version_tracks_failures:
  assumes "client_reachable c"
  shows "(cl_protocol c = PROTOCOL_VERSION_V1 \<longleftrightarrow> fail_count (cl_v2 c) \<ge> 3)
    \<and> (ws_client_should_use_current_protocol c \<longleftrightarrow> cl_protocol c = PROTOCOL_VERSION_V2)
    \<and> connect_path c = Some (if cl_protocol c = PROTOCOL_VERSION_V2 then ''/api/clients/v2/rpc''
                             else ''/api/clients/report'')"
proof -
  have "cl_protocol c = PROTOCOL_VERSION_V1 \<longleftrightarrow> v2_should_fallback_to_v1 (cl_v2 c)"
    using client_reachable_inv [OF assms] by (simp add: client_inv_def recv_inv_def)
  moreover have "cl_protocol c = PROTOCOL_VERSION_V2 \<longleftrightarrow> cl_protocol c \<noteq> PROTOCOL_VERSION_V1"
    by (cases "cl_protocol c") simp_all
  ultimately show ?thesis
    by (auto simp: ws_client_should_use_current_protocol_def v2_should_fallback_to_v1_def connect_path_def
        snprintf_chk_def)
qed


section \<open>Connections\<close>

lemma connect_path_eq:
  "connect_path c = Some (if ws_client_should_use_current_protocol c then ''/api/clients/v2/rpc''
                          else ''/api/clients/report'')"
  by (simp add: connect_path_def snprintf_chk_def)

lemma connect_upgrade_stopped:
  assumes "connect_upgrade env host path c = (ok, out, c')" "cl_should_stop c"
  shows "\<not> ok"
  using assms by (auto simp: connect_upgrade_def Let_def split: prod.splits if_splits)

lemma connect_upgrade_ok:
  assumes "connect_upgrade env host path c = (True, out, c')"
  shows "cl_connected c' \<and> cl_recv_thread c' \<and> fail_count (cl_v2 c') = 0 \<and> cl_log c' = cl_log c @ [ThreadStart]
    \<and> cl_protocol c' = PROTOCOL_VERSION_V2"
  using assms
  by (auto simp: connect_upgrade_def Let_def v2_note_attempt_result_def ws_client_note_protocol_result_def
      split: prod.splits if_splits)

lemma connect_upgrade_ctx:
  assumes "connect_upgrade env host path c = (ok, out, c')" "cl_ssl_ctx c"
  shows "surplus CtxNew CtxFree (cl_log c') - (if cl_ssl_ctx c' then 1 else 0) = surplus CtxNew CtxFree (cl_log c) - 1"
  using assms
  by (auto simp: connect_upgrade_def Let_def release_conn_def surplus_Cons split: prod.splits if_splits)

lemma connect_ok_connected:
  assumes "ws_client_connect env c = (True, out, c')"
  shows "cl_connected c'"
proof -
  have u: "connect_upgrade env h p e = (True, out, c') \<Longrightarrow> cl_connected c'" for h p e
    using connect_upgrade_ok by blast
  show ?thesis using assms
    by (auto simp: ws_client_connect_def connect_open_def Let_def split: option.splits prod.splits if_splits bool.splits
        dest: u)
qed

text \<open>Concrete connections for the witnesses: address 5 answers, OpenSSL works, and the server
  sends the one kind of response the handshake accepts.\<close>

definition sample_conn :: conn_env where
  "sample_conn = \<lparr>gai = Some [(-1, False), (4, False), (5, True)], ctx_ok = True, ssl_new_ok = True,
     ssl_connect_ok = True, hs_sha1 = toy_sha1, hs_random = Some sample_rnd, hs_tx = [TxSent 500],
     net_rx = [RxData (bytes_of_string (sample_head ''::'' @ header_end))], stopped_meanwhile = False,
     thread_ok = True\<rparr>"

definition sample_client :: "string \<Rightarrow> ws_client" where
  "sample_client e = the (ws_client_create (Some \<lparr>cfg_endpoint = Some e, cfg_token = Some ''tok'',
     cfg_extra_query = None, cfg_ignore_cert = False\<rparr>) True True True)"

lemma sample_client_reachable: "client_reachable (sample_client e)"
  by (rule client_reachable.create [of "Some \<lparr>cfg_endpoint = Some e, cfg_token = Some ''tok'',
       cfg_extra_query = None, cfg_ignore_cert = False\<rparr>" True True True])
     (simp add: sample_client_def ws_client_create_def)

lemma sample_response_ok: "ws_response_ok (sample_head ''::'' @ header_end @ []) ''AQID''"
  by code_simp

lemma sample_upgrade:
  assumes "path \<in> {''/api/clients/v2/rpc'', ''/api/clients/report''}" "cfg_token (cl_config c) = Some ''tok''"
    "cfg_extra_query (cl_config c) = None" "\<not> cl_should_stop c"
  shows "\<exists>out c'. connect_upgrade sample_conn ''h'' path c = (True, out, c') \<and> cl_fd c' = cl_fd c
    \<and> cl_ssl_ctx c' = cl_ssl_ctx c \<and> cl_use_tls c' = cl_use_tls c \<and> cl_config c' = cl_config c"
proof -
  let ?bs = "bytes_of_string (sample_head ''::'' @ header_end)"
  have "ws_request ''h'' ''/api/clients/v2/rpc'' (Some ''tok'') None (ws_base64_encode sample_rnd) \<noteq> None"
    "ws_request ''h'' ''/api/clients/report'' (Some ''tok'') None (ws_base64_encode sample_rnd) \<noteq> None"
    by code_simp+
  then obtain req where req: "ws_request ''h'' path (Some ''tok'') None (ws_base64_encode sample_rnd) = Some req"
    using assms(1) by auto
  have "hs_read [RxData ?bs] [] = (?bs, [])"
    by (rule hs_read_one) (simp_all add: sample_head_ok header_end_def bytes_of_string_def crlf_def)
  moreover have "?bs \<noteq> []" by (simp add: header_end_def bytes_of_string_def crlf_def)
  moreover have "c_str ?bs = sample_head ''::'' @ header_end"
    using c_str_head [OF sample_head_ok(4), of "[]"] by (simp add: c_str_def)
  ultimately obtain st where "ws_handshake toy_sha1 (Some sample_rnd) ''h'' path (Some ''tok'') None [TxSent 500]
      ((cl_rx c)\<lparr>rx_script := [RxData ?bs]\<rparr>) = (True, take 500 (bytes_of_string req), [], st)"
    using ws_handshake_eq [OF req sample_request_ok(2), of "[TxSent 500]"] sample_response_ok by simp
  then show ?thesis
    using assms(2-4) by (simp add: connect_upgrade_def sample_conn_def Let_def ws_client_note_protocol_result_def)
qed

lemma sample_connect:
  assumes "cfg_endpoint (cl_config c) = Some e" "parse_url e = Some u" "url_host u = ''h''"
    "length (show_int (url_port u)) < 16" "cfg_token (cl_config c) = Some ''tok''"
    "cfg_extra_query (cl_config c) = None" "cl_fd c < 0"
  shows "\<exists>out c'. ws_client_connect sample_conn c = (True, out, c') \<and> cl_fd c' = 5
    \<and> cl_use_tls c' = (url_scheme u = ''wss'') \<and> (url_scheme u = ''wss'' \<longrightarrow> cl_ssl_ctx c')
    \<and> cl_config c' = cl_config c"
proof -
  define c4 where "c4 = log_ops [OpenFd 4, CloseFd 4, OpenFd 5] (c\<lparr>cl_should_stop := False,
     cl_use_tls := (url_scheme u = ''wss''), cl_fd := 5\<rparr>)"
  define path where "path = (if ws_client_should_use_current_protocol c then ''/api/clients/v2/rpc'' else ''/api/clients/report'')"
  obtain e5 where e5: "(if cl_use_tls c4 then tls_setup sample_conn ''h'' c4 else (True, c4)) = (True, e5)"
      "\<not> cl_should_stop e5" "cl_config e5 = cl_config c" "cl_fd e5 = 5" "cl_use_tls e5 = cl_use_tls c4"
      "cl_use_tls c4 \<longrightarrow> cl_ssl_ctx e5"
    by (cases "cl_use_tls c4") (auto simp: tls_setup_def sample_conn_def Let_def c4_def log_ops_def)
  have "connect_base c = c\<lparr>cl_should_stop := False\<rparr>" using assms(7) by (simp add: connect_base_def)
  moreover have "connect_path (c\<lparr>cl_should_stop := False\<rparr>) = Some path"
    by (simp add: connect_path_eq path_def ws_client_should_use_current_protocol_def)
  moreover have "connect_open sample_conn u path (c\<lparr>cl_should_stop := False, cl_use_tls := (url_scheme u = ''wss'')\<rparr>)
      = connect_upgrade sample_conn ''h'' path e5"
    using e5(1) assms(3) by (simp add: connect_open_def sample_conn_def c4_def log_ops_def Let_def split: if_splits)
  ultimately have "ws_client_connect sample_conn c = connect_upgrade sample_conn ''h'' path e5"
    using assms(1,2,4) by (simp add: ws_client_connect_def Let_def snprintf_chk_def)
  moreover have "path \<in> {''/api/clients/v2/rpc'', ''/api/clients/report''}" by (simp add: path_def)
  ultimately show ?thesis
    using sample_upgrade [of path e5] e5(2-6) assms(5,6) by (auto simp: c4_def)
qed

lemma sample_urls:
  "parse_url ''ws://h/x'' = Some \<lparr>url_scheme = ''ws'', url_host = ''h'', url_port = 80, url_path = ''/x''\<rparr>"
  "parse_url ''wss://h/x'' = Some \<lparr>url_scheme = ''wss'', url_host = ''h'', url_port = 443, url_path = ''/x''\<rparr>"
  "length (show_int 80) = 2" "length (show_int 443) = 3"
  by code_simp+

lemma sample_connected:
  assumes "e = ''ws://h/x'' \<or> e = ''wss://h/x''"
  obtains out c' where "ws_client_connect sample_conn (sample_client e) = (True, out, c')" "cl_fd c' = 5"
    "cl_use_tls c' = (e = ''wss://h/x'')" "e = ''wss://h/x'' \<longrightarrow> cl_ssl_ctx c'" "client_reachable c'"
    "cfg_endpoint (cl_config c') = Some e"
proof -
  obtain out c' where c': "ws_client_connect sample_conn (sample_client e) = (True, out, c')" "cl_fd c' = 5"
    "cl_use_tls c' = (e = ''wss://h/x'')" "e = ''wss://h/x'' \<longrightarrow> cl_ssl_ctx c'" "cl_config c' = cl_config (sample_client e)"
    using assms sample_connect [of "sample_client e" e] sample_urls
    by (auto simp: sample_client_def ws_client_create_def)
  have "client_reachable c'"
    by (rule client_reachable.step [OF sample_client_reachable client_step.connect [OF c'(1)]])
  with c' that show ?thesis by (simp add: sample_client_def ws_client_create_def)
qed

theorem client_resources_witness:
  "\<exists>c. cl_fd c = 5 \<and> cl_connected c \<and> owned c
    \<and> (\<forall>fd. surplus (OpenFd fd) (CloseFd fd) (cl_log (ws_client_destroy c)) = 0)
    \<and> surplus SslNew SslFree (cl_log (ws_client_destroy c)) = 0
    \<and> surplus ThreadStart ThreadJoin (cl_log (ws_client_destroy c)) = 0"
proof -
  obtain out c where c: "ws_client_connect sample_conn (sample_client ''wss://h/x'') = (True, out, c)"
    "cl_fd c = 5" "client_reachable c"
    by (rule sample_connected [of "''wss://h/x''"]) auto
  from c(1) have "cl_connected c" by (rule connect_ok_connected)
  with c client_resources [OF c(3)] show ?thesis by blast
qed

theorem protocol_version_tracks_failures_witness:
  "\<exists>c. cl_fd c = 5 \<and> (cl_protocol c = PROTOCOL_VERSION_V1 \<longleftrightarrow> fail_count (cl_v2 c) \<ge> 3)
    \<and> (ws_client_should_use_current_protocol c \<longleftrightarrow> cl_protocol c = PROTOCOL_VERSION_V2)
    \<and> connect_path c = Some (if cl_protocol c = PROTOCOL_VERSION_V2 then ''/api/clients/v2/rpc''
                             else ''/api/clients/report'')"
proof -
  obtain out c where c: "ws_client_connect sample_conn (sample_client ''ws://h/x'') = (True, out, c)"
    "cl_fd c = 5" "client_reachable c"
    by (rule sample_connected [of "''ws://h/x''"]) auto
  then show ?thesis using protocol_version_tracks_failures [OF c(3)] by blast
qed

lemma reconnect_fails:
  assumes "client_reachable c" "0 \<le> cl_fd c"
  shows "\<not> fst (ws_client_connect env c)"
proof -
  obtain ok out c' where k: "ws_client_connect env c = (ok, out, c')" by (metis prod_cases3)
  have own: "owned c" using client_reachable_inv [OF assms(1)] by (simp add: client_inv_def)
  from k own have "\<not> ok"
  proof (cases rule: ws_client_connect_cases)
    case (opened endpoint u path d)
    obtain t e where t: "(if cl_use_tls d then tls_setup env (url_host u) d else (True, d)) = (t, e)" by fastforce
    have "cl_should_stop e"
      using t opened(5,6) assms(2) tls_setup_fields(6) [of env "url_host u" d t e] by (auto split: if_splits)
    then show ?thesis
      using opened(14) t connect_upgrade_stopped [of env "url_host u" path e ok out c'] by (cases t) auto
  qed simp_all
  with k show ?thesis by simp
qed

text \<open>C39. Defect: when the client still has the descriptor of a lost connection,
  \<open>ws_client_connect\<close> first clears \<open>should_stop\<close> and then calls \<open>ws_client_disconnect\<close>, which
  sets it again; the check after the handshake takes it for a request to stop.  So the first
  attempt to reconnect fails whatever the network, the peer and OpenSSL do.\<close>

theorem reconnect_always_fails:
  assumes "client_reachable c" "0 \<le> cl_fd c"
  shows "\<not> fst (ws_client_connect env c)"
  using assms by (rule reconnect_fails)

theorem reconnect_always_fails_witness:
  "\<exists>c. client_reachable c \<and> cl_connected c \<and> \<not> fst (ws_client_connect sample_conn c)"
proof -
  obtain out c where c: "ws_client_connect sample_conn (sample_client ''ws://h/x'') = (True, out, c)"
    "cl_fd c = 5" "client_reachable c"
    by (rule sample_connected [of "''ws://h/x''"]) auto
  then have "\<not> fst (ws_client_connect sample_conn c)"
    by (intro reconnect_always_fails) simp_all
  with c connect_ok_connected [OF c(1)] show ?thesis by blast
qed

text \<open>Defect: a TLS context is leaked per reconnection.  \<open>ws_client_disconnect\<close> frees the
  session but not the context, and the next attempt that reaches \<open>SSL_CTX_new\<close> overwrites the
  pointer: the number of contexts allocated and neither freed nor referred to by the client
  grows by one.\<close>

theorem reconnect_leaks_tls_context:
  assumes "client_reachable c" "cl_ssl_ctx c"
    "cfg_endpoint (cl_config c) = Some endpoint" "parse_url endpoint = Some u" "url_scheme u = ''wss''"
    "snprintf_chk 16 (show_int (url_port u)) \<noteq> None"
    "gai env = Some addrs" "0 \<le> fst (connect_addrs addrs)" "ctx_ok env"
    "ws_client_connect env c = (ok, out, c')"
  shows "surplus CtxNew CtxFree (cl_log c') - (if cl_ssl_ctx c' then 1 else 0)
       = surplus CtxNew CtxFree (cl_log c) - (if cl_ssl_ctx c then 1 else 0) + 1"
proof -
  have own: "owned c" using client_reachable_inv [OF assms(1)] by (simp add: client_inv_def)
  obtain path where p: "connect_path (connect_base c) = Some path"
    using connect_path_eq by blast
  obtain fd ops where a: "connect_addrs addrs = (fd, ops)" by fastforce
  define d where "d = log_ops ops ((connect_base c)\<lparr>cl_use_tls := True, cl_fd := fd\<rparr>)"
  obtain t e where t: "tls_setup env (url_host u) d = (t, e)" by fastforce
  have ops: "CtxNew \<notin> set ops" "CtxFree \<notin> set ops" using connect_addrs_ops [OF a] by auto
  have ld: "surplus CtxNew CtxFree (cl_log d) = surplus CtxNew CtxFree (cl_log c)"
    using ops by (simp add: d_def surplus_other connect_base_def Let_def disconnect_log surplus_Cons)
  have ssl: "\<not> cl_ssl d" using connect_base_ok(3) [OF own] by (simp add: d_def)
  have le: "surplus CtxNew CtxFree (cl_log e) = surplus CtxNew CtxFree (cl_log c) + (if t then 1 else 0)"
    by (rule tls_setup_log [OF t]) (simp add: ld)
  have ctx: "cl_ssl_ctx e = t" using tls_setup_fields(3) [OF t ssl] .
  have eq: "(ok, out, c') = (if t then connect_upgrade env (url_host u) path e
                             else (False, [], ws_client_note_protocol_result False e))"
    using assms p a t by (auto simp: ws_client_connect_def Let_def connect_open_def d_def split: bool.splits)
  show ?thesis
  proof (cases t)
    case True
    then have u: "connect_upgrade env (url_host u) path e = (ok, out, c')" using eq by simp
    from connect_upgrade_ctx [OF this] True ctx le assms(2) show ?thesis by simp
  next
    case False
    with eq le ctx assms(2) show ?thesis by simp
  qed
qed


theorem reconnect_leaks_tls_context_witness:
  "\<exists>c ok out c'. client_reachable c \<and> ws_client_connect sample_conn c = (ok, out, c')
    \<and> surplus CtxNew CtxFree (cl_log c') - (if cl_ssl_ctx c' then 1 else 0)
       = surplus CtxNew CtxFree (cl_log c) - (if cl_ssl_ctx c then 1 else 0) + 1"
proof -
  obtain out c where c: "cl_ssl_ctx c" "client_reachable c" "cfg_endpoint (cl_config c) = Some ''wss://h/x''"
    by (rule sample_connected [of "''wss://h/x''"]) auto
  obtain ok out c' where k: "ws_client_connect sample_conn c = (ok, out, c')" by (metis prod_cases3)
  have "surplus CtxNew CtxFree (cl_log c') - (if cl_ssl_ctx c' then 1 else 0)
       = surplus CtxNew CtxFree (cl_log c) - (if cl_ssl_ctx c then 1 else 0) + 1"
    by (rule reconnect_leaks_tls_context [OF c(2,1,3) sample_urls(2) _ _ _ _ _ k,
          where addrs = "[(-1, False), (4, False), (5, True)]"])
       (simp_all add: snprintf_chk_def sample_urls sample_conn_def)
  with c k show ?thesis by blast
qed

lemma handshake_out_prefix:
  assumes "ws_handshake sha1 random host path token extra ts st = (ok, out, ts', st')"
  shows "\<exists>rest. prefix out (bytes_of_string (''GET '' @ path @ ''?token='' @ rest))"
proof (cases "out = []")
  case False
  then obtain key req where req: "ws_request host path token extra key = Some req"
      "out = fst (snd (send_once ts (bytes_of_string req)))"
    using assms
    by (auto simp: ws_handshake_def Let_def split: option.splits prod.splits bool.splits if_splits)
  have pre: "prefix out (bytes_of_string req)"
    unfolding req(2) by (cases "(ts, bytes_of_string req)" rule: send_once.cases) (auto simp: take_is_prefix)
  obtain t where "token = Some t" using req(1) by (cases token) (auto simp: ws_request_def)
  with req(1) obtain enc where "req = ws_request_text path (''?token='' @ enc @ (case extra of None \<Rightarrow> [] | Some e \<Rightarrow> e)) host key"
    by (auto elim: ws_request_Some)
  then have "\<exists>rest. req = ''GET '' @ path @ ''?token='' @ rest"
    by (simp add: ws_request_text_def)
  with pre show ?thesis by auto
qed simp

text \<open>Defect: the path of the configured endpoint is never used.  Whatever path the URL
  names, the request line asks for the v2 endpoint or, after three failures, for the v1 report
  endpoint; in particular a terminal session, whose URL ends in \<open>/api/clients/terminal\<close>, is
  opened on the report endpoint.\<close>

theorem connect_ignores_url_path:
  assumes "client_reachable c" "ws_client_connect env c = (ok, out, c')"
  shows "\<exists>rest. prefix out (bytes_of_string (''GET '' @
      (if fail_count (cl_v2 c) < 3 then ''/api/clients/v2/rpc'' else ''/api/clients/report'') @ ''?token='' @ rest))"
proof -
  have own: "owned c" using client_reachable_inv [OF assms(1)] by (simp add: client_inv_def)
  from assms(2) own show ?thesis
  proof (cases rule: ws_client_connect_cases)
    case (opened endpoint u path d)
    have path: "path = (if fail_count (cl_v2 c) < 3 then ''/api/clients/v2/rpc'' else ''/api/clients/report'')"
      using opened(3) connect_path_eq [of "connect_base c"] connect_base_ok(7) [OF own]
      by (auto simp: ws_client_should_use_current_protocol_def v2_should_fallback_to_v1_def split: if_splits)
    obtain t e where t: "(if cl_use_tls d then tls_setup env (url_host u) d else (True, d)) = (t, e)" by fastforce
    show ?thesis
    proof (cases t)
      case True
      then have "connect_upgrade env (url_host u) path e = (ok, out, c')" using opened(14) t by simp
      then obtain hok ts rx where
        "ws_handshake (hs_sha1 env) (hs_random env) (url_host u) path (cfg_token (cl_config e))
             (cfg_extra_query (cl_config e)) (hs_tx env) ((cl_rx e)\<lparr>rx_script := net_rx env\<rparr>) = (hok, out, ts, rx)"
        by (auto simp: connect_upgrade_def Let_def split: prod.splits if_splits)
      from handshake_out_prefix [OF this] show ?thesis unfolding path .
    next
      case False
      with opened(14) t show ?thesis by simp
    qed
  qed simp_all
qed

theorem connect_ignores_url_path_witness:
  "\<exists>out c' rest. ws_client_connect sample_conn (sample_client ''ws://h/x'') = (True, out, c')
    \<and> prefix out (bytes_of_string (''GET '' @
      (if fail_count (cl_v2 (sample_client ''ws://h/x'')) < 3 then ''/api/clients/v2/rpc''
       else ''/api/clients/report'') @ ''?token='' @ rest))"
proof -
  obtain out c where c: "ws_client_connect sample_conn (sample_client ''ws://h/x'') = (True, out, c)"
    by (rule sample_connected [of "''ws://h/x''"]) auto
  with connect_ignores_url_path [OF sample_client_reachable c] show ?thesis by blast
qed

text \<open>TLS is authenticated: a connection that succeeds on a \<open>wss\<close> endpoint, unless the
  configuration says to ignore certificates, has asked OpenSSL to verify the peer's chain and
  to check its name against the host of the endpoint, and has never turned verification off.\<close>

theorem tls_peer_verified:
  assumes "client_reachable c" "ws_client_connect env c = (True, out, c')"
    "cl_use_tls c'" "\<not> cfg_ignore_cert (cl_config c)"
  shows "\<exists>endpoint u ops. cfg_endpoint (cl_config c) = Some endpoint \<and> parse_url endpoint = Some u
    \<and> url_scheme u = ''wss'' \<and> cl_log c' = cl_log c @ ops
    \<and> VerifyPeer \<in> set ops \<and> CheckHost (url_host u) \<in> set ops \<and> VerifyNone \<notin> set ops"
proof -
  have own: "owned c" using client_reachable_inv [OF assms(1)] by (simp add: client_inv_def)
  from assms(2) own show ?thesis
  proof (cases rule: ws_client_connect_cases)
    case (opened endpoint u path d)
    obtain t e where t: "(if cl_use_tls d then tls_setup env (url_host u) d else (True, d)) = (t, e)" by fastforce
    with opened(14) have t': t by (cases t) simp_all
    with opened(14) t have up: "connect_upgrade env (url_host u) path e = (True, out, c')" by simp
    have "cl_use_tls c' = cl_use_tls e"
      using up by (auto simp: connect_upgrade_def Let_def split: prod.splits if_splits)
    moreover have "cl_use_tls e = cl_use_tls d"
      using t tls_setup_fields(11) [of env "url_host u" d t e] opened(5) by (auto split: if_splits)
    ultimately have tls: "cl_use_tls d" using assms(3) by simp
    then have ts: "tls_setup env (url_host u) d = (True, e)" using t t' by simp
    obtain ops0 where o0: "cl_log d = cl_log (connect_base c) @ ops0"
        "\<forall>x \<in> set ops0. \<exists>g. x = OpenFd g \<or> x = CloseFd g"
      using opened(13) by blast
    obtain ops1 where o1: "cl_log e = cl_log d @ ops1"
        "ops1 = [CtxNew, VerifyPeer, SslNew, CheckHost (url_host u)]"
      by (rule tls_setup_log [OF ts]) (use assms(4) opened(10) in auto)
    obtain opsb where ob: "cl_log (connect_base c) = cl_log c @ opsb" "VerifyNone \<notin> set opsb"
      by (cases "0 \<le> cl_fd c") (auto simp: connect_base_def disconnect_log)
    have "VerifyNone \<notin> set ops0" using o0(2) by auto
    with connect_upgrade_ok [OF up] o0(1) o1 ob opened(1,2,7) tls show ?thesis
      by (intro exI [of _ endpoint] exI [of _ u] exI [of _ "opsb @ ops0 @ ops1 @ [ThreadStart]"]) simp
  qed simp_all
qed

theorem tls_peer_verified_witness:
  "\<exists>c' :: ws_client. cl_connected c' \<and> (\<exists>endpoint u ops. cfg_endpoint (cl_config (sample_client ''wss://h/x'')) = Some endpoint
    \<and> parse_url endpoint = Some u \<and> url_scheme u = ''wss''
    \<and> cl_log c' = cl_log (sample_client ''wss://h/x'') @ ops
    \<and> VerifyPeer \<in> set ops \<and> CheckHost (url_host u) \<in> set ops \<and> VerifyNone \<notin> set ops)"
proof -
  obtain out c where c: "ws_client_connect sample_conn (sample_client ''wss://h/x'') = (True, out, c)" "cl_use_tls c"
    by (rule sample_connected [of "''wss://h/x''"]) auto
  have "\<not> cfg_ignore_cert (cl_config (sample_client ''wss://h/x''))"
    by (simp add: sample_client_def ws_client_create_def)
  from connect_ok_connected [OF c(1)] tls_peer_verified [OF sample_client_reachable c this]
  show ?thesis by (intro exI [of _ c] conjI)
qed

text \<open>Defect: a fallback to v1 does not survive the connection it was made for.  When the
  handshake on the v1 endpoint succeeds, the failure counter is reset and the version set to
  v2 at once, so the payloads sent over this v1 connection are chosen for v2.\<close>

theorem v1_connection_reports_v2:
  assumes "client_reachable c" "\<not> ws_client_should_use_current_protocol c"
    "ws_client_connect env c = (True, out, c')"
  shows "connect_path c = Some ''/api/clients/report''
    \<and> ws_client_should_use_current_protocol c' \<and> cl_protocol c' = PROTOCOL_VERSION_V2"
proof -
  have own: "owned c" using client_reachable_inv [OF assms(1)] by (simp add: client_inv_def)
  have "fail_count (cl_v2 c') = 0 \<and> cl_protocol c' = PROTOCOL_VERSION_V2"
    using assms(3) own
  proof (cases rule: ws_client_connect_cases)
    case (opened endpoint u path d)
    obtain t e where t: "(if cl_use_tls d then tls_setup env (url_host u) d else (True, d)) = (t, e)" by fastforce
    with opened(14) have "connect_upgrade env (url_host u) path e = (True, out, c')"
      by (cases t) simp_all
    from connect_upgrade_ok [OF this] show ?thesis by simp
  qed simp_all
  then show ?thesis using assms(2) connect_path_eq [of c]
    by (simp add: ws_client_should_use_current_protocol_def v2_should_fallback_to_v1_def)
qed


text \<open>Three failed name resolutions bring a client to v1.\<close>

definition offline :: conn_env where "offline = sample_conn\<lparr>gai := None\<rparr>"

definition after_failure :: "ws_client \<Rightarrow> ws_client" where
  "after_failure c = snd (snd (ws_client_connect offline c))"

lemma after_failure_ok:
  assumes "client_reachable c" "cfg_endpoint (cl_config c) = Some ''ws://h/x''" "cl_fd c < 0"
  shows "client_reachable (after_failure c)" "cl_config (after_failure c) = cl_config c"
    "cl_fd (after_failure c) < 0" "fail_count (cl_v2 (after_failure c)) = fail_count (cl_v2 c) + 1"
proof -
  obtain path where p: "connect_path (connect_base c) = Some path" using connect_path_eq by blast
  have f: "after_failure c = ws_client_note_protocol_result False ((connect_base c)\<lparr>cl_use_tls := False\<rparr>)"
    using assms(2) sample_urls(1,3) p
    by (simp add: after_failure_def ws_client_connect_def Let_def snprintf_chk_def connect_open_def offline_def)
  obtain ok out c' where k: "ws_client_connect offline c = (ok, out, c')" by (metis prod_cases3)
  then have "client_step c (after_failure c)"
    by (auto simp: after_failure_def intro: client_step.connect)
  then show "client_reachable (after_failure c)" by (rule client_reachable.step [OF assms(1)])
  show "cl_config (after_failure c) = cl_config c" "cl_fd (after_failure c) < 0"
    "fail_count (cl_v2 (after_failure c)) = fail_count (cl_v2 c) + 1"
    using assms(3) by (simp_all add: f connect_base_def Let_def v2_note_attempt_result_def)
qed

theorem v1_connection_reports_v2_witness:
  "\<exists>(c :: ws_client) c'. cl_connected c' \<and> connect_path c = Some ''/api/clients/report''
    \<and> ws_client_should_use_current_protocol c' \<and> cl_protocol c' = PROTOCOL_VERSION_V2"
proof -
  let ?c0 = "sample_client ''ws://h/x''"
  let ?c3 = "after_failure (after_failure (after_failure ?c0))"
  have c0: "client_reachable ?c0" "cfg_endpoint (cl_config ?c0) = Some ''ws://h/x''" "cl_fd ?c0 < 0"
    "cfg_token (cl_config ?c0) = Some ''tok''" "cfg_extra_query (cl_config ?c0) = None" "fail_count (cl_v2 ?c0) = 0"
    using sample_client_reachable by (simp_all add: sample_client_def ws_client_create_def v2_state_init_def)
  note c1 = after_failure_ok [OF c0(1-3)]
  note c2 = after_failure_ok [OF c1(1) _ c1(3)]
  note c3 = after_failure_ok [OF c2(1) _ c2(3)]
  have r: "client_reachable ?c3" "\<not> ws_client_should_use_current_protocol ?c3"
    using c0 c1 c2 c3 by (simp_all add: ws_client_should_use_current_protocol_def v2_should_fallback_to_v1_def)
  obtain out c' where k: "ws_client_connect sample_conn ?c3 = (True, out, c')"
    using sample_connect [of ?c3 "''ws://h/x''", OF _ sample_urls(1)] c0 c1 c2 c3 sample_urls(3) by auto
  from v1_connection_reports_v2 [OF r k] connect_ok_connected [OF k] show ?thesis by blast
qed

end
