(* ===== verification/Config.thy ===== *)
theory Config
  imports Utils Cjson WsCodec
begin

text \<open>
  The configuration of \<open>src/config/config.c\<close> and the way \<open>main\<close> assembles it: defaults, JSON file,
  UCI, environment, command line, then validation.  The environment, the file and the output of
  \<open>uci show\<close> are inputs; \<open>cJSON_Parse\<close> is a parameter.  A \<open>double\<close> is its exact value, an infinity
  or NaN: rounding is not modelled.
\<close>

section \<open>Numbers\<close>

datatype c_double = Fin rat | PInf | NInf | NaN

fun cd_positive :: "c_double \<Rightarrow> bool" where
  "cd_positive (Fin x) = (0 < x)" | "cd_positive PInf = True" | "cd_positive _ = False"

text \<open>The C comparison \<open>x <= 0\<close>, false for NaN.\<close>

fun cd_le_zero :: "c_double \<Rightarrow> bool" where
  "cd_le_zero (Fin x) = (x \<le> 0)" | "cd_le_zero NInf = True" | "cd_le_zero _ = False"

fun cd_neg :: "c_double \<Rightarrow> c_double" where
  "cd_neg (Fin x) = Fin (- x)" | "cd_neg PInf = NInf" | "cd_neg NInf = PInf" | "cd_neg NaN = NaN"

definition rat_pow :: "rat \<Rightarrow> int \<Rightarrow> rat" where
  "rat_pow b e = (if 0 \<le> e then b ^ nat e else 1 / b ^ nat (- e))"

text \<open>Digits, fraction and exponent of \<open>strtod\<close>; the exponent counts only with a digit.\<close>

definition strtod_exp :: "char \<Rightarrow> string \<Rightarrow> int" where
  "strtod_exp ec s =
     (case s of [] \<Rightarrow> 0
      | c # r \<Rightarrow> if c_tolower c \<noteq> ec then 0
          else let neg = (r \<noteq> [] \<and> hd r = CHR ''-'');
                   r' = (if r \<noteq> [] \<and> (hd r = CHR ''-'' \<or> hd r = CHR ''+'') then tl r else r);
                   v = int (digits_val (takeWhile c_isdigit r'))
               in if neg then - v else v)"

definition strtod_num :: "nat \<Rightarrow> (char \<Rightarrow> bool) \<Rightarrow> (string \<Rightarrow> nat) \<Rightarrow> char \<Rightarrow> rat \<Rightarrow> string \<Rightarrow> rat" where
  "strtod_num base isdig val ec ebase s =
     (let ip = takeWhile isdig s; r = dropWhile isdig s;
          fp = (if r \<noteq> [] \<and> hd r = CHR ''.'' then takeWhile isdig (tl r) else []);
          r' = (if r \<noteq> [] \<and> hd r = CHR ''.'' then dropWhile isdig (tl r) else r)
      in if ip = [] \<and> fp = [] then 0
         else of_nat (val (ip @ fp)) / of_nat (base ^ length fp) * rat_pow ebase (strtod_exp ec r'))"

definition hex_prefix :: "string \<Rightarrow> bool" where
  "hex_prefix s \<longleftrightarrow> (case s of z # x # d # r \<Rightarrow> z = CHR ''0'' \<and> c_tolower x = CHR ''x''
       \<and> (c_isxdigit d \<or> d = CHR ''.'' \<and> r \<noteq> [] \<and> c_isxdigit (hd r)) | _ \<Rightarrow> False)"

definition atof :: "string \<Rightarrow> c_double" where
  "atof s0 =
     (let s1 = dropWhile c_isspace s0;
          neg = (s1 \<noteq> [] \<and> hd s1 = CHR ''-'');
          s = (if s1 \<noteq> [] \<and> (hd s1 = CHR ''-'' \<or> hd s1 = CHR ''+'') then tl s1 else s1);
          low = map c_tolower s;
          v = (if starts_with ''inf'' low then PInf
               else if starts_with ''nan'' low then NaN
               else if hex_prefix s then Fin (strtod_num 16 c_isxdigit hex_run CHR ''p'' 2 (drop 2 s))
               else Fin (strtod_num 10 c_isdigit digits_val CHR ''e'' 10 s))
      in if neg then cd_neg v else v)"

section \<open>The record\<close>

record agent_config =
  ag_token :: string
  ag_endpoint :: string
  ag_custom_dns :: string
  ag_include_nics :: string
  ag_exclude_nics :: string
  ag_include_mountpoints :: string
  ag_cf_access_client_id :: string
  ag_cf_access_client_secret :: string
  ag_custom_ipv4 :: string
  ag_custom_ipv6 :: string
  ag_auto_discovery_key :: string
  ag_config_file :: string
  ag_interval :: c_double
  ag_max_retries :: int
  ag_reconnect_interval :: int
  ag_info_report_interval :: int
  ag_month_rotate :: int
  ag_protocol_version :: int
  ag_disable_auto_update :: bool
  ag_disable_web_ssh :: bool
  ag_ignore_unsafe_cert :: bool
  ag_memory_include_cache :: bool
  ag_enable_gpu :: bool
  ag_get_ip_addr_from_nic :: bool
  ag_show_warning :: bool
  ag_disable_compression :: bool

definition config_init :: agent_config where
  "config_init = \<lparr>ag_token = [], ag_endpoint = [], ag_custom_dns = [], ag_include_nics = [],
     ag_exclude_nics = [], ag_include_mountpoints = [], ag_cf_access_client_id = [],
     ag_cf_access_client_secret = [], ag_custom_ipv4 = [], ag_custom_ipv6 = [],
     ag_auto_discovery_key = [], ag_config_file = [], ag_interval = Fin 1, ag_max_retries = 5,
     ag_reconnect_interval = 5, ag_info_report_interval = 30, ag_month_rotate = 0,
     ag_protocol_version = 2, ag_disable_auto_update = False, ag_disable_web_ssh = False,
     ag_ignore_unsafe_cert = False, ag_memory_include_cache = False, ag_enable_gpu = False,
     ag_get_ip_addr_from_nic = False, ag_show_warning = False, ag_disable_compression = False\<rparr>"

section \<open>Environment\<close>

type_synonym getenv = "string \<Rightarrow> string option"

definition get_env_or_empty :: "getenv \<Rightarrow> string \<Rightarrow> nat \<Rightarrow> string \<Rightarrow> string" where
  "get_env_or_empty env name buf_len buf =
     (case env name of Some val \<Rightarrow> utils_set_string buf_len val | None \<Rightarrow> buf)"

definition get_env_bool :: "getenv \<Rightarrow> string \<Rightarrow> bool \<Rightarrow> bool" where
  "get_env_bool env name default_val =
     (case env name of None \<Rightarrow> default_val
      | Some val \<Rightarrow>
          if strcaseeq val ''true'' \<or> strcaseeq val ''1'' \<or> strcaseeq val ''yes'' \<or> strcaseeq val ''on'' then True
          else if strcaseeq val ''false'' \<or> strcaseeq val ''0'' \<or> strcaseeq val ''no'' \<or> strcaseeq val ''off'' then False
          else default_val)"

definition get_env_double :: "getenv \<Rightarrow> string \<Rightarrow> c_double \<Rightarrow> c_double" where
  "get_env_double env name default_val = (case env name of None \<Rightarrow> default_val | Some val \<Rightarrow> atof val)"

definition get_env_int :: "getenv \<Rightarrow> string \<Rightarrow> int \<Rightarrow> int" where
  "get_env_int env name default_val = (case env name of None \<Rightarrow> default_val | Some val \<Rightarrow> atoi val)"

definition config_load_from_env :: "getenv \<Rightarrow> agent_config \<Rightarrow> agent_config" where
  "config_load_from_env env c =
     c\<lparr>ag_token := get_env_or_empty env ''AGENT_TOKEN'' 256 (ag_token c),
       ag_endpoint := get_env_or_empty env ''AGENT_ENDPOINT'' 512 (ag_endpoint c),
       ag_custom_dns := get_env_or_empty env ''AGENT_CUSTOM_DNS'' 128 (ag_custom_dns c),
       ag_include_nics := get_env_or_empty env ''AGENT_INCLUDE_NICS'' 512 (ag_include_nics c),
       ag_exclude_nics := get_env_or_empty env ''AGENT_EXCLUDE_NICS'' 512 (ag_exclude_nics c),
       ag_include_mountpoints := get_env_or_empty env ''AGENT_INCLUDE_MOUNTPOINTS'' 512 (ag_include_mountpoints c),
       ag_cf_access_client_id := get_env_or_empty env ''AGENT_CF_ACCESS_CLIENT_ID'' 128 (ag_cf_access_client_id c),
       ag_cf_access_client_secret :=
         get_env_or_empty env ''AGENT_CF_ACCESS_CLIENT_SECRET'' 256 (ag_cf_access_client_secret c),
       ag_custom_ipv4 := get_env_or_empty env ''AGENT_CUSTOM_IPV4'' 64 (ag_custom_ipv4 c),
       ag_custom_ipv6 := get_env_or_empty env ''AGENT_CUSTOM_IPV6'' 128 (ag_custom_ipv6 c),
       ag_auto_discovery_key := get_env_or_empty env ''AGENT_AUTO_DISCOVERY_KEY'' 256 (ag_auto_discovery_key c),
       ag_config_file := get_env_or_empty env ''AGENT_CONFIG_FILE'' 512 (ag_config_file c),
       ag_interval := get_env_double env ''AGENT_INTERVAL'' (ag_interval c),
       ag_max_retries := get_env_int env ''AGENT_MAX_RETRIES'' (ag_max_retries c),
       ag_reconnect_interval := get_env_int env ''AGENT_RECONNECT_INTERVAL'' (ag_reconnect_interval c),
       ag_info_report_interval := get_env_int env ''AGENT_INFO_REPORT_INTERVAL'' (ag_info_report_interval c),
       ag_month_rotate := get_env_int env ''AGENT_MONTH_ROTATE'' (ag_month_rotate c),
       ag_protocol_version := get_env_int env ''AGENT_PROTOCOL_VERSION'' (ag_protocol_version c),
       ag_disable_auto_update := get_env_bool env ''AGENT_DISABLE_AUTO_UPDATE'' (ag_disable_auto_update c),
       ag_disable_web_ssh := get_env_bool env ''AGENT_DISABLE_WEB_SSH'' (ag_disable_web_ssh c),
       ag_ignore_unsafe_cert := get_env_bool env ''AGENT_IGNORE_UNSAFE_CERT'' (ag_ignore_unsafe_cert c),
       ag_memory_include_cache := get_env_bool env ''AGENT_MEMORY_INCLUDE_CACHE'' (ag_memory_include_cache c),
       ag_enable_gpu := get_env_bool env ''AGENT_ENABLE_GPU'' (ag_enable_gpu c),
       ag_get_ip_addr_from_nic := get_env_bool env ''AGENT_GET_IP_ADDR_FROM_NIC'' (ag_get_ip_addr_from_nic c),
       ag_show_warning := get_env_bool env ''AGENT_SHOW_WARNING'' (ag_show_warning c),
       ag_disable_compression := get_env_bool env ''AGENT_DISABLE_COMPRESSION'' (ag_disable_compression c)\<rparr>"

section \<open>JSON file\<close>

datatype komari_errno =
    KOMARI_OK | KOMARI_ERR_GENERIC | KOMARI_ERR_INVALID_ARG | KOMARI_ERR_NOT_FOUND
  | KOMARI_ERR_BUFFER_TOO_SMALL | KOMARI_ERR_PARSE | KOMARI_ERR_NETWORK | KOMARI_ERR_NOMEM
  | KOMARI_ERR_UNSUPPORTED

text \<open>What the file system answers: the mode \<open>fstat\<close> reports (None when it fails), the size \<open>ftell\<close>
  reports, whether \<open>malloc\<close> succeeds, and the bytes \<open>fread\<close> delivers of that size.\<close>

record config_file =
  cf_mode :: "nat option"
  cf_size :: int
  cf_malloc_ok :: bool
  cf_bytes :: "byte list"

definition json_string :: "cjson \<Rightarrow> string \<Rightarrow> nat \<Rightarrow> string \<Rightarrow> string" where
  "json_string rt name n old =
     (case get_string rt name of Some s \<Rightarrow> utils_set_string n s | None \<Rightarrow> old)"

definition json_pos_int :: "cjson \<Rightarrow> string \<Rightarrow> int \<Rightarrow> int" where
  "json_pos_int rt name old =
     (case cJSON_GetObjectItem rt name of Some i \<Rightarrow> if valueint i > 0 then valueint i else old | None \<Rightarrow> old)"

definition json_bool :: "cjson \<Rightarrow> string \<Rightarrow> bool \<Rightarrow> bool" where
  "json_bool rt name old =
     (case cJSON_GetObjectItem rt name of None \<Rightarrow> old
      | Some i \<Rightarrow> if cJSON_IsBool i then cJSON_IsTrue i
                 else (case i of CString s \<Rightarrow> strcaseeq s ''true'' | _ \<Rightarrow> old))"

definition config_apply_json :: "cjson \<Rightarrow> agent_config \<Rightarrow> agent_config" where
  "config_apply_json rt c =
     c\<lparr>ag_token := json_string rt ''token'' 256 (ag_token c),
       ag_endpoint := json_string rt ''endpoint'' 512 (ag_endpoint c),
       ag_custom_dns := json_string rt ''custom_dns'' 128 (ag_custom_dns c),
       ag_include_nics := json_string rt ''include_nics'' 512 (ag_include_nics c),
       ag_exclude_nics := json_string rt ''exclude_nics'' 512 (ag_exclude_nics c),
       ag_include_mountpoints := json_string rt ''include_mountpoints'' 512 (ag_include_mountpoints c),
       ag_cf_access_client_id := json_string rt ''cf_access_client_id'' 128 (ag_cf_access_client_id c),
       ag_cf_access_client_secret := json_string rt ''cf_access_client_secret'' 256 (ag_cf_access_client_secret c),
       ag_custom_ipv4 := json_string rt ''custom_ipv4'' 64 (ag_custom_ipv4 c),
       ag_custom_ipv6 := json_string rt ''custom_ipv6'' 128 (ag_custom_ipv6 c),
       ag_auto_discovery_key := json_string rt ''auto_discovery_key'' 256 (ag_auto_discovery_key c),
       ag_interval := (case cJSON_GetObjectItem rt ''interval'' of
           Some i \<Rightarrow> if valuedouble i > 0 then Fin (valuedouble i) else ag_interval c | None \<Rightarrow> ag_interval c),
       ag_max_retries := json_pos_int rt ''max_retries'' (ag_max_retries c),
       ag_reconnect_interval := json_pos_int rt ''reconnect_interval'' (ag_reconnect_interval c),
       ag_info_report_interval := json_pos_int rt ''info_report_interval'' (ag_info_report_interval c),
       ag_month_rotate := (case cJSON_GetObjectItem rt ''month_rotate'' of
           Some i \<Rightarrow> valueint i | None \<Rightarrow> ag_month_rotate c),
       ag_protocol_version := json_pos_int rt ''protocol_version'' (ag_protocol_version c),
       ag_disable_auto_update := json_bool rt ''disable_auto_update'' (ag_disable_auto_update c),
       ag_disable_web_ssh := json_bool rt ''disable_web_ssh'' (ag_disable_web_ssh c),
       ag_ignore_unsafe_cert := json_bool rt ''ignore_unsafe_cert'' (ag_ignore_unsafe_cert c),
       ag_memory_include_cache := json_bool rt ''memory_include_cache'' (ag_memory_include_cache c),
       ag_enable_gpu := json_bool rt ''enable_gpu'' (ag_enable_gpu c),
       ag_get_ip_addr_from_nic := json_bool rt ''get_ip_addr_from_nic'' (ag_get_ip_addr_from_nic c),
       ag_disable_compression := json_bool rt ''disable_compression'' (ag_disable_compression c)\<rparr>"

definition config_load_from_file ::
    "(string \<Rightarrow> cjson option) \<Rightarrow> config_file option \<Rightarrow> agent_config \<Rightarrow> komari_errno \<times> agent_config" where
  "config_load_from_file parse file c =
     (case file of None \<Rightarrow> (KOMARI_ERR_NOT_FOUND, c)
      | Some f \<Rightarrow>
          if (case cf_mode f of Some m \<Rightarrow> m mod 64 \<noteq> 0 | None \<Rightarrow> False) then (KOMARI_ERR_INVALID_ARG, c)
          else if cf_size f < 0 then (KOMARI_ERR_GENERIC, c)
          else if \<not> cf_malloc_ok f then (KOMARI_ERR_NOMEM, c)
          else if int (length (cf_bytes f)) \<noteq> cf_size f then (KOMARI_ERR_GENERIC, c)
          else (case parse (c_str (cf_bytes f)) of
                  None \<Rightarrow> (KOMARI_ERR_PARSE, c)
                | Some rt \<Rightarrow> (KOMARI_OK, config_apply_json rt c)))"


section \<open>UCI\<close>

definition uci_true :: "string \<Rightarrow> bool" where
  "uci_true v \<longleftrightarrow> v = ''1'' \<or> v = ''true''"

definition uci_apply :: "string \<Rightarrow> string \<Rightarrow> agent_config \<Rightarrow> agent_config" where
  "uci_apply key v c =
     (if key = ''token'' then c\<lparr>ag_token := utils_set_string 256 v\<rparr>
      else if key = ''endpoint'' then c\<lparr>ag_endpoint := utils_set_string 512 v\<rparr>
      else if key = ''interval'' then c\<lparr>ag_interval := atof v\<rparr>
      else if key = ''disable_web_ssh'' then c\<lparr>ag_disable_web_ssh := uci_true v\<rparr>
      else if key = ''ignore_unsafe_cert'' then c\<lparr>ag_ignore_unsafe_cert := uci_true v\<rparr>
      else if key = ''custom_dns'' then c\<lparr>ag_custom_dns := utils_set_string 128 v\<rparr>
      else if key = ''max_retries'' then c\<lparr>ag_max_retries := atoi v\<rparr>
      else if key = ''reconnect_interval'' then c\<lparr>ag_reconnect_interval := atoi v\<rparr>
      else if key = ''info_report_interval'' then c\<lparr>ag_info_report_interval := atoi v\<rparr>
      else if key = ''month_rotate'' then c\<lparr>ag_month_rotate := atoi v\<rparr>
      else if key = ''protocol_version'' then c\<lparr>ag_protocol_version := atoi v\<rparr>
      else if key = ''enable_gpu'' then c\<lparr>ag_enable_gpu := uci_true v\<rparr>
      else if key = ''disable_compression'' then c\<lparr>ag_disable_compression := uci_true v\<rparr>
      else if key = ''disable_auto_update'' then c\<lparr>ag_disable_auto_update := uci_true v\<rparr>
      else if key = ''auto_discovery_key'' then c\<lparr>ag_auto_discovery_key := utils_set_string 256 v\<rparr>
      else c)"

definition squote :: char where "squote = CHR 0x27"

text \<open>The key after the last dot before the first \<open>=\<close>, the value without blanks and quotes around
  it.  None is the return value -1.\<close>

definition uci_key_value :: "string \<Rightarrow> (string \<times> string) option" where
  "uci_key_value raw_line =
     (let line = utils_set_string 512 raw_line
      in case strchr CHR ''='' line of None \<Rightarrow> None
       | Some eq \<Rightarrow>
          (case strrchr CHR ''.'' (upto_ptr line eq) of None \<Rightarrow> None
           | Some dot \<Rightarrow>
               let key = utils_set_string 64 (tl dot);
                   val = dropWhile (\<lambda>c. c = CHR '' '' \<or> c = squote) (tl eq);
                   value = utils_set_string 256 val
               in Some (key, rev (dropWhile (\<lambda>c. c = lf \<or> c = squote \<or> c = CHR '' '') (rev value)))))"

definition config_parse_uci_line :: "agent_config \<Rightarrow> string \<Rightarrow> agent_config option" where
  "config_parse_uci_line c raw_line =
     (case uci_key_value raw_line of None \<Rightarrow> None | Some (key, v) \<Rightarrow> Some (uci_apply key v c))"

text \<open>The loop over \<open>fgets\<close>; a malformed line is skipped.\<close>

function uci_lines :: "string \<Rightarrow> agent_config \<Rightarrow> agent_config" where
  "uci_lines out c =
     (case fgets 512 out of None \<Rightarrow> c
      | Some (line, rest) \<Rightarrow>
          uci_lines rest (case config_parse_uci_line c line of None \<Rightarrow> c | Some c' \<Rightarrow> c'))"
  by pat_completeness auto
termination
  by (relation "measure (\<lambda>(out, c). length out)") (auto dest: fgets_decreases)

declare uci_lines.simps [simp del]

text \<open>None for the output is a failing \<open>popen\<close>.\<close>

definition config_load_from_uci :: "string option \<Rightarrow> agent_config \<Rightarrow> agent_config" where
  "config_load_from_uci uci c = (case uci of None \<Rightarrow> c | Some out \<Rightarrow> uci_lines out c)"

section \<open>Validation\<close>

definition looks_like_uuid :: "string \<Rightarrow> bool" where
  "looks_like_uuid s \<longleftrightarrow> length s = 36
     \<and> list_all (\<lambda>i. if i \<in> {8, 13, 18, 23} then s ! i = CHR ''-'' else c_isxdigit (s ! i)) [0..<36]"

fun endpoint_port_start :: "string \<Rightarrow> string option \<Rightarrow> string option" where
  "endpoint_port_start [] ps = ps"
| "endpoint_port_start (c # cs) ps =
     (if c = CHR ''/'' \<or> c = CHR ''?'' then ps
      else if c = CHR ''@'' then endpoint_port_start cs None
      else if c = CHR '':'' then endpoint_port_start cs (Some cs)
      else endpoint_port_start cs ps)"

fun port_digits :: "string \<Rightarrow> int \<Rightarrow> nat \<Rightarrow> int" where
  "port_digits [] port digits = (if digits = 0 then -1 else port)"
| "port_digits (c # cs) port digits =
     (if c = CHR ''/'' \<or> c = CHR ''?'' then (if digits = 0 then -1 else port)
      else if \<not> c_isdigit c then -1
      else let port' = port * 10 + int (digit_val c)
           in if port' > 65535 then -1 else port_digits cs port' (Suc digits))"

definition parse_endpoint_port :: "string \<Rightarrow> int" where
  "parse_endpoint_port url =
     (let rest = (if starts_with ''http://'' url then Some (drop 7 url)
                  else if starts_with ''https://'' url then Some (drop 8 url) else None)
      in case rest of None \<Rightarrow> -1
       | Some p \<Rightarrow> (case endpoint_port_start p None of None \<Rightarrow> -1 | Some s \<Rightarrow> port_digits s 0 0))"

text \<open>The repairs, in order; the checks of the token only log.\<close>

definition validate_endpoint :: "string \<Rightarrow> string" where
  "validate_endpoint e0 =
     (let e1 = (if contains_crlf e0 then [] else e0);
          e2 = (if e1 = [] then e1
                else if \<not> starts_with ''http://'' e1 \<and> \<not> starts_with ''https://'' e1 then [] else e1)
      in if e2 \<noteq> [] \<and> parse_endpoint_port e2 \<noteq> -1
            \<and> (parse_endpoint_port e2 < 1 \<or> parse_endpoint_port e2 > 65535) then [] else e2)"

definition config_validate :: "agent_config \<Rightarrow> agent_config" where
  "config_validate c =
     c\<lparr>ag_config_file := (if ag_config_file c \<noteq> [] \<and> length (ag_config_file c) \<ge> 512 then [] else ag_config_file c),
       ag_endpoint := validate_endpoint (ag_endpoint c),
       ag_interval := (if cd_le_zero (ag_interval c) then Fin 1 else ag_interval c),
       ag_max_retries := (if ag_max_retries c \<le> 0 then 5 else ag_max_retries c),
       ag_reconnect_interval := (if ag_reconnect_interval c \<le> 0 then 5 else ag_reconnect_interval c),
       ag_info_report_interval := (if ag_info_report_interval c \<le> 0 then 30 else ag_info_report_interval c),
       ag_protocol_version :=
         (if ag_protocol_version c \<noteq> 1 \<and> ag_protocol_version c \<noteq> 2 then 2 else ag_protocol_version c)\<rparr>"

section \<open>Assembly in main\<close>

text \<open>The options \<open>getopt_long\<close> reports, in order.\<close>

datatype cli_opt =
    OptToken string | OptEndpoint string | OptInterval string | OptDns string | OptConfig string
  | OptInsecure | OptDisableSsh | OptVerbose | OptHelp | OptBad

record cli =
  cli_token :: "string option"
  cli_endpoint :: "string option"
  cli_interval :: "c_double option"
  cli_custom_dns :: "string option"
  cli_config_file :: "string option"
  cli_insecure :: bool
  cli_disable_ssh :: bool

definition cli_none :: cli where
  "cli_none = \<lparr>cli_token = None, cli_endpoint = None, cli_interval = None, cli_custom_dns = None,
     cli_config_file = None, cli_insecure = False, cli_disable_ssh = False\<rparr>"

text \<open>The loop over the options: the exit status if \<open>main\<close> returns from it.\<close>

fun parse_cli :: "cli_opt list \<Rightarrow> cli \<Rightarrow> int + cli" where
  "parse_cli [] o1 = Inr o1"
| "parse_cli (opt # opts) o1 =
     (case opt of
        OptToken a \<Rightarrow> parse_cli opts (o1\<lparr>cli_token := Some (utils_set_string 256 a)\<rparr>)
      | OptEndpoint a \<Rightarrow> parse_cli opts (o1\<lparr>cli_endpoint := Some (utils_set_string 512 a)\<rparr>)
      | OptInterval a \<Rightarrow> parse_cli opts (o1\<lparr>cli_interval := Some (atof a)\<rparr>)
      | OptDns a \<Rightarrow> parse_cli opts (o1\<lparr>cli_custom_dns := Some (utils_set_string 128 a)\<rparr>)
      | OptConfig a \<Rightarrow> parse_cli opts (o1\<lparr>cli_config_file := Some (utils_set_string 512 a)\<rparr>)
      | OptInsecure \<Rightarrow> parse_cli opts (o1\<lparr>cli_insecure := True\<rparr>)
      | OptDisableSsh \<Rightarrow> parse_cli opts (o1\<lparr>cli_disable_ssh := True\<rparr>)
      | OptVerbose \<Rightarrow> parse_cli opts o1
      | OptHelp \<Rightarrow> Inl 0
      | OptBad \<Rightarrow> Inl 1)"

definition initial_config_file :: "getenv \<Rightarrow> cli \<Rightarrow> agent_config \<Rightarrow> agent_config" where
  "initial_config_file env o1 c =
     (case cli_config_file o1 of
        Some f \<Rightarrow> c\<lparr>ag_config_file := utils_set_string 512 f\<rparr>
      | None \<Rightarrow> (case env ''AGENT_CONFIG_FILE'' of
           Some (x # xs) \<Rightarrow> c\<lparr>ag_config_file := utils_set_string 512 (x # xs)\<rparr> | _ \<Rightarrow> c))"

definition apply_cli :: "cli \<Rightarrow> agent_config \<Rightarrow> agent_config" where
  "apply_cli o1 c =
     c\<lparr>ag_token := (case cli_token o1 of Some t \<Rightarrow> utils_set_string 256 t | None \<Rightarrow> ag_token c),
       ag_endpoint := (case cli_endpoint o1 of Some e \<Rightarrow> utils_set_string 512 e | None \<Rightarrow> ag_endpoint c),
       ag_interval := (case cli_interval o1 of Some i \<Rightarrow> i | None \<Rightarrow> ag_interval c),
       ag_custom_dns := (case cli_custom_dns o1 of Some d \<Rightarrow> utils_set_string 128 d | None \<Rightarrow> ag_custom_dns c),
       ag_ignore_unsafe_cert := (cli_insecure o1 \<or> ag_ignore_unsafe_cert c),
       ag_disable_web_ssh := (cli_disable_ssh o1 \<or> ag_disable_web_ssh c),
       ag_config_file := (case cli_config_file o1 of Some f \<Rightarrow> utils_set_string 512 f | None \<Rightarrow> ag_config_file c)\<rparr>"

text \<open>The whole assembly; \<open>files\<close> opens a path.\<close>

definition main_config ::
    "(string \<Rightarrow> cjson option) \<Rightarrow> getenv \<Rightarrow> (string \<Rightarrow> config_file option) \<Rightarrow> string option \<Rightarrow> cli \<Rightarrow> agent_config" where
  "main_config parse env files uci o1 =
     (let c1 = initial_config_file env o1 config_init;
          c2 = (if ag_config_file c1 \<noteq> []
                then snd (config_load_from_file parse (files (ag_config_file c1)) c1) else c1)
      in config_validate (apply_cli o1 (config_load_from_env env (config_load_from_uci uci c2))))"

end
