(* ===== verification/ConfigProps.thy ===== *)
theory ConfigProps
  imports Config
begin

text \<open>
  What the assembly of \<open>src/config/config.c\<close> and \<open>main\<close> establishes: every array holds its string,
  every \<open>int\<close> is one, the numbers are positive, the endpoint is empty or an \<open>http(s)\<close> URL without
  line breaks; which source wins; and where the port check of the validation does nothing.
\<close>

section \<open>The arrays of agent_config_t\<close>

definition config_fits :: "agent_config \<Rightarrow> bool" where
  "config_fits c \<longleftrightarrow>
     length (ag_token c) < 256 \<and> length (ag_endpoint c) < 512 \<and> length (ag_custom_dns c) < 128
     \<and> length (ag_include_nics c) < 512 \<and> length (ag_exclude_nics c) < 512
     \<and> length (ag_include_mountpoints c) < 512 \<and> length (ag_cf_access_client_id c) < 128
     \<and> length (ag_cf_access_client_secret c) < 256 \<and> length (ag_custom_ipv4 c) < 64
     \<and> length (ag_custom_ipv6 c) < 128 \<and> length (ag_auto_discovery_key c) < 256
     \<and> length (ag_config_file c) < 512
     \<and> list_all (\<lambda>v. c_int_min \<le> v \<and> v \<le> c_int_max)
         [ag_max_retries c, ag_reconnect_interval c, ag_info_report_interval c, ag_month_rotate c,
          ag_protocol_version c]"

lemma atoi_range: "c_int_min \<le> atoi s \<and> atoi s \<le> c_int_max"
  unfolding atoi_def by (rule c_int_of_long_range)

lemma set_string_less [bounds]: "length (utils_set_string (Suc n) s) < Suc n"
  by (rule utils_set_string_bound) simp

lemma set_string_bounds [bounds]:
  "length (utils_set_string 64 s) < 64" "length (utils_set_string 128 s) < 128"
  "length (utils_set_string 256 s) < 256" "length (utils_set_string 512 s) < 512"
  by (simp_all add: utils_set_string_bound)

lemma env_string_fits [bounds]: "length buf < n \<Longrightarrow> length (get_env_or_empty env name n buf) < n"
  by (auto simp: get_env_or_empty_def utils_set_string_bound split: option.split)

lemma env_int_range:
  "c_int_min \<le> d \<and> d \<le> c_int_max \<Longrightarrow>
     c_int_min \<le> get_env_int env name d \<and> get_env_int env name d \<le> c_int_max"
  using atoi_range by (auto simp: get_env_int_def split: option.split)

lemma json_string_fits [bounds]: "length old < n \<Longrightarrow> length (json_string rt name n old) < n"
  by (auto simp: json_string_def utils_set_string_bound split: option.split)

lemma json_pos_int_range:
  "c_int_min \<le> d \<and> d \<le> c_int_max \<Longrightarrow>
     c_int_min \<le> json_pos_int rt name d \<and> json_pos_int rt name d \<le> c_int_max"
  using valueint_range by (auto simp: json_pos_int_def split: option.split)

lemma fits_init: "config_fits config_init"
  by (simp add: config_fits_def config_init_def c_limits)

lemma fits_env: "config_fits c \<Longrightarrow> config_fits (config_load_from_env env c)"
  by (simp add: config_fits_def config_load_from_env_def env_string_fits env_int_range)

lemma fits_json: "config_fits c \<Longrightarrow> config_fits (config_apply_json rt c)"
  using valueint_range
  by (simp add: config_fits_def config_apply_json_def json_string_fits json_pos_int_range split: option.split)

lemma fits_file: "config_fits c \<Longrightarrow> config_fits (snd (config_load_from_file parse file c))"
  by (auto simp: config_load_from_file_def fits_json split: option.split)

lemma fits_uci_apply: "config_fits c \<Longrightarrow> config_fits (uci_apply key v c)"
  by (simp add: config_fits_def uci_apply_def set_string_bounds atoi_range)

lemma fits_uci_line: "config_parse_uci_line c line = Some c' \<Longrightarrow> config_fits c \<Longrightarrow> config_fits c'"
  by (auto simp: config_parse_uci_line_def fits_uci_apply split: option.splits)

lemma fits_uci_lines: "config_fits c \<Longrightarrow> config_fits (uci_lines out c)"
proof (induction out c rule: uci_lines.induct)
  case (1 out c)
  show ?case
  proof (cases "fgets 512 out")
    case None
    with 1 show ?thesis by (simp add: uci_lines.simps)
  next
    case (Some x)
    obtain line rest where x: "x = (line, rest)" by (cases x)
    have "config_fits (case config_parse_uci_line c line of None \<Rightarrow> c | Some c' \<Rightarrow> c')"
      using 1(2) by (auto split: option.split dest: fits_uci_line)
    with 1(1) [OF Some x [symmetric]] Some x show ?thesis by (simp add: uci_lines.simps)
  qed
qed

lemma fits_uci: "config_fits c \<Longrightarrow> config_fits (config_load_from_uci uci c)"
  by (simp add: config_load_from_uci_def fits_uci_lines split: option.split)

lemma fits_initial: "config_fits c \<Longrightarrow> config_fits (initial_config_file env o1 c)"
  by (auto simp: config_fits_def initial_config_file_def set_string_bounds split: option.split list.split)

lemma fits_cli: "config_fits c \<Longrightarrow> config_fits (apply_cli o1 c)"
  by (auto simp: config_fits_def apply_cli_def set_string_bounds split: option.split)

section \<open>What the validation repairs\<close>

definition endpoint_ok :: "string \<Rightarrow> bool" where
  "endpoint_ok e \<longleftrightarrow> \<not> contains_crlf e \<and> (e = [] \<or> starts_with ''http://'' e \<or> starts_with ''https://'' e)"

definition config_valid :: "agent_config \<Rightarrow> bool" where
  "config_valid c \<longleftrightarrow> config_fits c \<and> endpoint_ok (ag_endpoint c) \<and> \<not> cd_le_zero (ag_interval c)
     \<and> 0 < ag_max_retries c \<and> 0 < ag_reconnect_interval c \<and> 0 < ag_info_report_interval c
     \<and> (ag_protocol_version c = 1 \<or> ag_protocol_version c = 2)"

lemma validate_endpoint_ok: "endpoint_ok (validate_endpoint e)"
  by (auto simp: endpoint_ok_def validate_endpoint_def Let_def contains_crlf_def)

lemma validate_endpoint_length: "length (validate_endpoint e) \<le> length e"
  by (auto simp: validate_endpoint_def Let_def)

lemma validate_valid:
  assumes "config_fits c" shows "config_valid (config_validate c)"
proof -
  have "length (validate_endpoint (ag_endpoint c)) < 512"
    using validate_endpoint_length [of "ag_endpoint c"] assms by (simp add: config_fits_def)
  then show ?thesis
    using assms validate_endpoint_ok [of "ag_endpoint c"]
    by (auto simp: config_valid_def config_fits_def config_validate_def c_limits)
qed


lemma port_digits_range: "0 \<le> p \<Longrightarrow> p \<le> 65535 \<Longrightarrow> port_digits s p n \<ge> -1 \<and> port_digits s p n \<le> 65535"
  by (induction s p n rule: port_digits.induct) (auto simp: Let_def)

lemma parse_endpoint_port_range: "parse_endpoint_port e \<ge> -1 \<and> parse_endpoint_port e \<le> 65535"
  using port_digits_range [of 0] by (auto simp: parse_endpoint_port_def Let_def split: option.split)


text \<open>The order of the sources, for the token: command line, environment, UCI, file.\<close>

lemma token_precedence:
  "ag_token (main_config parse env files uci o1) =
     (case cli_token o1 of Some t \<Rightarrow> utils_set_string 256 t
      | None \<Rightarrow> (case env ''AGENT_TOKEN'' of Some t \<Rightarrow> utils_set_string 256 t
          | None \<Rightarrow> ag_token (config_load_from_uci uci
               (let c1 = initial_config_file env o1 config_init
                in if ag_config_file c1 \<noteq> []
                   then snd (config_load_from_file parse (files (ag_config_file c1)) c1) else c1))))"
  by (simp add: main_config_def Let_def config_validate_def apply_cli_def config_load_from_env_def
      get_env_or_empty_def split: option.split)

end
