(* ===== verification/Endpoint.thy ===== *)
theory Endpoint
  imports IdnProps WsLife ConfigProps
begin

text \<open>
  From the configured endpoint to the one the client connects to: the conversions of \<open>main\<close> and of
  \<open>establish_terminal_connection\<close> in \<open>src/core/main.c\<close>, with \<open>idn_convert_url_to_ascii\<close> and
  \<open>parse_url\<close> behind them.
\<close>

section \<open>The conversions\<close>

text \<open>\<open>snprintf\<close> cuts the text to the buffer; its result is not checked here.\<close>

definition ws_scheme_text :: "string \<Rightarrow> string" where
  "ws_scheme_text ep =
     (if starts_with ''http://'' ep then ''ws://'' @ drop 7 ep
      else if starts_with ''https://'' ep then ''wss://'' @ drop 8 ep
      else ''ws://'' @ ep)"

definition idn_or_same :: "(string \<Rightarrow> bool) \<Rightarrow> (string \<Rightarrow> bool) \<Rightarrow> string \<Rightarrow> string" where
  "idn_or_same pton4 pton6 w =
     (case idn_convert_url_to_ascii pton4 pton6 w 512 of Inr a \<Rightarrow> utils_set_string 512 a | Inl e \<Rightarrow> w)"

definition main_ws_endpoint :: "(string \<Rightarrow> bool) \<Rightarrow> (string \<Rightarrow> bool) \<Rightarrow> string \<Rightarrow> string" where
  "main_ws_endpoint pton4 pton6 ep = idn_or_same pton4 pton6 (take 511 (ws_scheme_text ep))"

definition terminal_ws_endpoint :: "(string \<Rightarrow> bool) \<Rightarrow> (string \<Rightarrow> bool) \<Rightarrow> string \<Rightarrow> string" where
  "terminal_ws_endpoint pton4 pton6 endpoint =
     (let w = ws_scheme_text endpoint;
          n = (if starts_with ''wss://'' w then 6 else 5);
          ep = drop n w;
          host = (case strchr CHR ''/'' ep of Some path_start \<Rightarrow> upto_ptr ep path_start | None \<Rightarrow> ep)
      in idn_or_same pton4 pton6 (take 511 (take n w @ host @ ''/api/clients/terminal'')))"

section \<open>ASCII URLs pass unchanged\<close>

lemma encode_label_ascii:
  "\<not> list_ex non_ascii l \<Longrightarrow> length l < n \<Longrightarrow> punycode_encode_label l n = Inr l"
  by (auto simp: punycode_encode_label_def)

lemma idn_labels_ascii:
  "\<not> list_ex non_ascii p \<Longrightarrow> length p < 2048 \<Longrightarrow> length out + length p < n \<Longrightarrow> idn_labels n p out = Inr (out @ p)"
proof (induction n p out rule: idn_labels.induct)
  case (1 n p out)
  show ?case
  proof (cases "strchr CHR ''.'' p")
    case None
    with 1 show ?thesis by (subst idn_labels.simps) (simp add: encode_label_ascii)
  next
    case (Some d)
    then obtain a u where p: "p = a @ d" "d = CHR ''.'' # u" by (auto dest: strchr_Some)
    have a: "punycode_encode_label a 2048 = Inr a"
      using 1(2,3) by (intro encode_label_ascii) (auto simp: p)
    have "idn_labels n (tl d) (out @ a @ ''.'') = Inr ((out @ a @ ''.'') @ tl d)"
      by (rule 1(1) [OF refl refl]) (use 1(2-4) Some a in \<open>auto simp: p upto_ptr_append\<close>)
    then show ?thesis using 1(4) Some a
      by (subst idn_labels.simps) (simp add: p upto_ptr_append)
  qed
qed

definition plain_host :: "string \<Rightarrow> bool" where
  "plain_host host \<longleftrightarrow> \<not> list_ex non_ascii host \<and> CHR ''['' \<notin> set host
     \<and> CHR ''/'' \<notin> set host \<and> CHR ''?'' \<notin> set host \<and> CHR ''#'' \<notin> set host"

lemma host_ascii:
  assumes "plain_host host" "length host < 1024"
  shows "idn_convert_host_to_ascii pton4 pton6 host 2048 = Inr host"
proof -
  have to_ascii: "idn_to_ascii h 2048 = Inr h" if "\<not> list_ex non_ascii h" "length h < 2048" for h
    using that idn_labels_ascii [of h "[]" 2048] by (simp add: idn_to_ascii_def)
  have colon: "upto_ptr host t @ t = host \<and> \<not> list_ex non_ascii (upto_ptr host t)"
    if t: "strrchr CHR '':'' host = Some t" for t
  proof -
    from t obtain a where a: "host = a @ t" by (auto dest: strrchr_Some)
    show ?thesis using assms(1) by (simp add: a upto_ptr_append plain_host_def)
  qed
  have cpy: "strncpy_term 2048 host = host" using assms(2) by (simp add: strncpy_term_id)
  have nb: "\<not> (host \<noteq> [] \<and> hd host = CHR ''['')" using assms(1) by (cases host) (auto simp: plain_host_def)
  have plain: "\<not> list_ex non_ascii host" using assms(1) by (simp add: plain_host_def)
  show ?thesis
  proof (cases "strrchr CHR '':'' host")
    case None
    then show ?thesis using assms(2) nb plain
      by (auto simp: idn_convert_host_to_ascii_def cpy to_ascii reassemble_host_def snprintf_chk_def Let_def)
  next
    case (Some t)
    have "length (upto_ptr host t) + length t < 2048"
      using assms(2) arg_cong [OF conjunct1 [OF colon [OF Some]], of length] by simp
    with Some colon [OF Some] show ?thesis using assms(2) nb
      by (auto simp: idn_convert_host_to_ascii_def cpy to_ascii reassemble_host_def snprintf_chk_def Let_def)
  qed
qed

lemma host_end_plain:
  assumes "plain_host host" "rest = [] \<or> hd rest \<in> {CHR ''/'', CHR ''?'', CHR ''#''}"
  shows "host_end (host @ rest) = rest"
proof -
  have skip: "strchr CHR ''/'' (host @ rest) = strchr CHR ''/'' rest"
    "strchr CHR ''?'' (host @ rest) = strchr CHR ''?'' rest"
    "strchr CHR ''#'' (host @ rest) = strchr CHR ''#'' rest"
    using assms(1) by (simp_all add: plain_host_def strchr_skip_prefix)
  have shorter: "strchr c rest = Some t \<Longrightarrow> length t \<le> length rest" for c t
    by (auto dest: strchr_Some)
  show ?thesis
  proof (cases rest)
    case Nil
    with skip show ?thesis by (simp add: host_end_def)
  next
    case (Cons c r)
    have inner: "strchr a r = Some t \<Longrightarrow> length t \<le> length r" for a t by (auto dest: strchr_Some)
    show ?thesis unfolding host_end_def skip
      using assms(2) inner by (fastforce simp: Cons Let_def split: option.split dest: inner)
  qed
qed

lemma strstr_scheme:
  assumes "scheme = ''ws'' \<or> scheme = ''wss''"
  shows "strstr ''://'' (scheme @ ''://'' @ t) = Some (''://'' @ t)"
  using assms by (auto simp: starts_with_def)

lemma url_ascii:
  assumes "scheme = ''ws'' \<or> scheme = ''wss''" "plain_host host" "length host < 1024"
    "rest = [] \<or> hd rest \<in> {CHR ''/'', CHR ''?'', CHR ''#''}" "length (scheme @ ''://'' @ host @ rest) < 512"
  shows "idn_or_same pton4 pton6 (scheme @ ''://'' @ host @ rest) = scheme @ ''://'' @ host @ rest"
proof -
  define url where "url = scheme @ ''://'' @ host @ rest"
  have u: "upto_ptr url (host @ rest) = scheme @ ''://''"
    using upto_ptr_append [of "scheme @ ''://''" "host @ rest"] by (simp add: url_def)
  have st: "strstr ''://'' url = Some (''://'' @ host @ rest)"
    unfolding url_def by (rule strstr_scheme [OF assms(1)])
  have len: "length url < 512" "(scheme @ ''://'') @ host @ rest = url" using assms(5) by (simp_all add: url_def)
  have "idn_convert_url_to_ascii pton4 pton6 url 512 = Inr url"
    using assms(3) len
    by (simp add: idn_convert_url_to_ascii_def st u host_end_plain [OF assms(2,4)]
        host_ascii [OF assms(2,3)] upto_ptr_append Let_def snprintf_chk_def)
  then show ?thesis using len(1) unfolding idn_or_same_def url_def [symmetric] by (simp add: utils_set_string_id)
qed

section \<open>The chain from the configuration to the client\<close>

definition http_text :: "string \<Rightarrow> string \<Rightarrow> nat option \<Rightarrow> string \<Rightarrow> string" where
  "http_text scheme host port path =
     scheme @ ''://'' @ host @ (case port of None \<Rightarrow> [] | Some p \<Rightarrow> CHR '':'' # show_nat p) @ path"

lemma host_port_plain:
  assumes "plain_host host"
  shows "plain_host (host @ (case port of None \<Rightarrow> [] | Some p \<Rightarrow> CHR '':'' # show_nat p))"
proof -
  have d: "c_isdigit c \<Longrightarrow> \<not> non_ascii c \<and> c \<notin> {CHR ''['', CHR ''/'', CHR ''?'', CHR ''#''}" for c
    by (auto simp: c_isdigit_def non_ascii_def)
  have "c \<in> set (show_nat p) \<Longrightarrow> \<not> non_ascii c \<and> c \<notin> {CHR ''['', CHR ''/'', CHR ''?'', CHR ''#''}" for c p
    using show_nat_digits [of p] d by blast
  then show ?thesis
    using assms by (cases port) (auto simp: plain_host_def list_ex_iff non_ascii_def)
qed

lemma endpoint_to_client:
  assumes "scheme = ''http'' \<or> scheme = ''https''" "plain_host host" "CHR '':'' \<notin> set host" "length host < 256"
    "path = [] \<or> hd path = CHR ''/''" "\<forall>p. port = Some p \<longrightarrow> 1 \<le> p \<and> p \<le> 65535"
    "length (http_text scheme host port path) < 512"
  shows "parse_url (main_ws_endpoint pton4 pton6 (http_text scheme host port path)) =
     Some \<lparr>url_scheme = (if scheme = ''https'' then ''wss'' else ''ws''), url_host = host,
           url_port = (case port of None \<Rightarrow> (if scheme = ''https'' then 443 else 80) | Some p \<Rightarrow> int p),
           url_path = (if path = [] then ''/'' else path)\<rparr>"
proof -
  let ?ws = "if scheme = ''https'' then ''wss'' else ''ws''"
  let ?hp = "host @ (case port of None \<Rightarrow> [] | Some p \<Rightarrow> CHR '':'' # show_nat p)"
  have ws: "?ws = ''ws'' \<or> ?ws = ''wss''" by simp
  have tx: "ws_scheme_text (http_text scheme host port path) = ?ws @ ''://'' @ ?hp @ path"
    using assms(1) by (auto simp: ws_scheme_text_def http_text_def starts_with_def)
  have len: "length (?ws @ ''://'' @ ?hp @ path) < 512"
    using assms(1,7) by (auto simp: http_text_def)
  then have "main_ws_endpoint pton4 pton6 (http_text scheme host port path)
      = idn_or_same pton4 pton6 (?ws @ ''://'' @ ?hp @ path)"
    unfolding main_ws_endpoint_def tx by simp
  also have "\<dots> = ?ws @ ''://'' @ ?hp @ path"
    using len assms(5) by (intro url_ascii [OF ws host_port_plain [OF assms(2)]]) auto
  also have "\<dots> = url_text ?ws host port path" by (simp add: url_text_def)
  finally show ?thesis
    using parse_url_text_port [OF ws _ assms(3,4,5)] parse_url_text_noport [OF ws _ assms(3,4,5)] assms len
    by (cases port) (auto simp: plain_host_def url_dflt_port_def)
qed

section \<open>The validation lets it through\<close>

lemma port_start_skip:
  "CHR ''/'' \<notin> set h \<Longrightarrow> CHR ''?'' \<notin> set h \<Longrightarrow> CHR '':'' \<notin> set h \<Longrightarrow>
     endpoint_port_start (h @ t) None = endpoint_port_start t None"
  by (induction h) auto

lemma port_start_digits:
  "\<forall>c \<in> set ds. c_isdigit c \<Longrightarrow> path = [] \<or> hd path = CHR ''/'' \<Longrightarrow> endpoint_port_start (ds @ path) ps = ps"
  by (induction ds) (cases path, auto simp: c_isdigit_def)

lemma port_digits_run:
  "\<forall>c \<in> set ds. c_isdigit c \<Longrightarrow> path = [] \<or> hd path = CHR ''/'' \<Longrightarrow> 0 < length ds + k \<Longrightarrow>
     foldl (\<lambda>n c. 10 * n + digit_val c) acc ds \<le> 65535 \<Longrightarrow>
     port_digits (ds @ path) (int acc) k = int (foldl (\<lambda>n c. 10 * n + digit_val c) acc ds)"
proof (induction ds arbitrary: acc k)
  case Nil
  then show ?case by (cases path) auto
next
  case (Cons c ds)
  have mono: "a \<le> foldl (\<lambda>n c. 10 * n + digit_val c) a xs" for a xs
  proof (induction xs arbitrary: a)
    case (Cons x xs)
    have "a \<le> 10 * a + digit_val x" by simp
    also have "\<dots> \<le> foldl (\<lambda>n c. 10 * n + digit_val c) (10 * a + digit_val x) xs" by (rule Cons)
    finally show ?case by simp
  qed simp
  have small: "10 * acc + digit_val c \<le> 65535"
    using Cons.prems(4) mono [of "10 * acc + digit_val c" ds] by simp
  have "port_digits (ds @ path) (int (10 * acc + digit_val c)) (Suc k)
      = int (foldl (\<lambda>n c. 10 * n + digit_val c) (10 * acc + digit_val c) ds)"
    using Cons.prems by (intro Cons.IH) auto
  moreover have "c \<noteq> CHR ''/''" "c \<noteq> CHR ''?''" using Cons.prems(1) by (auto simp: c_isdigit_def)
  moreover have eq: "int acc * 10 + int (digit_val c) = int (10 * acc + digit_val c)" by simp
  ultimately show ?case using Cons.prems(1) small by (simp add: Let_def eq del: of_nat_add of_nat_mult)
qed

lemma http_text_validates:
  assumes "scheme = ''http'' \<or> scheme = ''https''" "plain_host host" "CHR '':'' \<notin> set host"
    "path = [] \<or> hd path = CHR ''/''" "\<forall>p. port = Some p \<longrightarrow> 1 \<le> p \<and> p \<le> 65535"
    "\<not> contains_crlf (host @ path)"
  shows "validate_endpoint (http_text scheme host port path) = http_text scheme host port path"
proof -
  let ?pt = "case port of None \<Rightarrow> [] | Some p \<Rightarrow> CHR '':'' # show_nat p"
  have sc: "starts_with ''http://'' (http_text scheme host port path) \<or> starts_with ''https://'' (http_text scheme host port path)"
    using assms(1) by (auto simp: http_text_def starts_with_def)
  have crlf_free: "\<not> contains_crlf (http_text scheme host port path)"
  proof -
    have "cr \<notin> set (show_nat p) \<and> lf \<notin> set (show_nat p)" for p
      using show_nat_digits [of p] by (auto simp: c_isdigit_def cr_def lf_def)
    then show ?thesis
      using assms(1,6) by (auto simp: contains_crlf_iff http_text_def cr_def lf_def split: option.splits)
  qed
  have "parse_endpoint_port (http_text scheme host port path) =
      (case endpoint_port_start (host @ ?pt @ path) None of None \<Rightarrow> -1 | Some s \<Rightarrow> port_digits s 0 0)"
    using assms(1) by (auto simp: parse_endpoint_port_def http_text_def starts_with_def)
  also have "endpoint_port_start (host @ ?pt @ path) None = endpoint_port_start (?pt @ path) None"
    using assms(2,3) by (intro port_start_skip) (auto simp: plain_host_def)
  finally have port: "parse_endpoint_port (http_text scheme host port path) =
      (case endpoint_port_start (?pt @ path) None of None \<Rightarrow> -1 | Some s \<Rightarrow> port_digits s 0 0)" .
  have "parse_endpoint_port (http_text scheme host port path) = (case port of None \<Rightarrow> -1 | Some p \<Rightarrow> int p)"
  proof (cases port)
    case None
    then show ?thesis using port assms(4) by (cases path) auto
  next
    case (Some p)
    have val: "foldl (\<lambda>n c. 10 * n + digit_val c) 0 (show_nat p) = p"
      using digits_val_show_nat [of p] by (simp only: digits_val_def)
    have "port_digits (show_nat p @ path) (int 0) 0 = int p"
      using port_digits_run [of "show_nat p" path 0 0] show_nat_digits [of p] assms(4,5) Some
      by (simp only: val) (simp add: val)
    then show ?thesis
      using port Some port_start_digits [OF show_nat_digits assms(4)] by simp
  qed
  then have "parse_endpoint_port (http_text scheme host port path) = -1
      \<or> 1 \<le> parse_endpoint_port (http_text scheme host port path)
        \<and> parse_endpoint_port (http_text scheme host port path) \<le> 65535"
    using assms(5) by (cases port) auto
  then show ?thesis using sc crlf_free by (auto simp: validate_endpoint_def Let_def)
qed



section \<open>Overlong UTF-8\<close>

text \<open>The label \<open>a\<close>, CR and LF as two-byte sequences, \<open>b\<close>.\<close>

definition smuggling_host :: string where
  "smuggling_host = [CHR ''a'', CHR 0xC0, CHR 0x8D, CHR 0xC0, CHR 0x8A, CHR ''b'']"

definition smuggled_host :: string where
  "smuggled_host = ''xn--a'' @ [cr, lf] @ ''b''"

lemma smuggling_utf8: "utf8_decode smuggling_host [] = Some [97, 13, 10, 98]"
  by (simp add: smuggling_host_def utf8_decode.simps push_bit_eq_mult)

lemma smuggling_label: "idn_punycode_encode smuggling_host 2048 = Inr [CHR ''a'', cr, lf, CHR ''b'']"
  by (simp add: idn_punycode_encode_def smuggling_utf8 idn_put_def char_of_def bit_Suc_0_iff cr_def lf_def)

lemma smuggling_labels: "idn_to_ascii smuggling_host 2048 = Inr smuggled_host"
proof -
  have na: "list_ex non_ascii smuggling_host" by (simp add: smuggling_host_def non_ascii_def)
  have ne: "smuggling_host \<noteq> []" "strchr CHR ''.'' smuggling_host = None" by (simp_all add: smuggling_host_def)
  have "punycode_encode_label smuggling_host 2048 = Inr smuggled_host"
    by (simp add: punycode_encode_label_def smuggling_label na ne smuggled_host_def nul_def cr_def lf_def)
  then show ?thesis
    by (simp add: idn_to_ascii_def ne idn_labels.simps) (simp add: smuggled_host_def)
qed

lemma smuggling_url:
  assumes "\<not> pton4 smuggling_host" "\<not> pton6 smuggling_host"
  shows "main_ws_endpoint pton4 pton6 (''http://'' @ smuggling_host) = ''ws://'' @ smuggled_host"
proof -
  have host: "idn_convert_host_to_ascii pton4 pton6 smuggling_host 2048 = Inr smuggled_host"
    using assms smuggling_labels
    by (simp add: idn_convert_host_to_ascii_def Let_def)
      (simp add: smuggling_host_def smuggled_host_def snprintf_chk_def reassemble_host_def)
  have he: "host_end smuggling_host = []" by (simp add: host_end_def smuggling_host_def)
  define u where "u = smuggling_host"
  have "strstr ''://'' (''ws://'' @ u) = Some (''://'' @ u)" by (simp add: starts_with_def)
  moreover have "upto_ptr (''ws://'' @ u) u = ''ws://''" using upto_ptr_append [of "''ws://''" u] by simp
  moreover have "length u < 1024" "length smuggled_host < 100"
    by (simp_all add: u_def smuggling_host_def smuggled_host_def)
  ultimately have "idn_convert_url_to_ascii pton4 pton6 (''ws://'' @ u) 512 = Inr (''ws://'' @ smuggled_host)"
    using host he by (simp add: idn_convert_url_to_ascii_def Let_def u_def [symmetric] snprintf_chk_def upto_ptr_def)
  moreover have "take 511 (ws_scheme_text (''http://'' @ u)) = ''ws://'' @ u"
    by (simp add: ws_scheme_text_def starts_with_def u_def smuggling_host_def)
  moreover have "utils_set_string 512 (''ws://'' @ smuggled_host) = ''ws://'' @ smuggled_host"
    by (rule utils_set_string_id) (simp add: smuggled_host_def)
  ultimately show ?thesis by (simp add: main_ws_endpoint_def idn_or_same_def u_def)
qed

text \<open>Defect: the CR/LF check runs before the IDN conversion, and \<open>utf8_decode\<close> accepts overlong
  sequences.  An endpoint with \<open>C0 8D C0 8A\<close> in its host passes the validation, but the host the client
  connects with contains a line break, which is written into the upgrade request.\<close>

theorem overlong_utf8_smuggles_crlf:
  assumes "\<forall>s. list_ex non_ascii s \<longrightarrow> \<not> pton4 s \<and> \<not> pton6 s"
  shows "\<exists>e r. validate_endpoint e = e \<and> e \<noteq> [] \<and> \<not> contains_crlf e
      \<and> parse_url (main_ws_endpoint pton4 pton6 e) = Some r
      \<and> contains_crlf (url_host r)
      \<and> (\<exists>req. ws_request (url_host r) ''/api/clients/v2/rpc'' (Some ''t'') None ''k'' = Some req
             \<and> sublist (''Host: xn--a'' @ crlf @ ''b'' @ crlf) req)"
proof -
  let ?e = "''http://'' @ smuggling_host"
  let ?r = "\<lparr>url_scheme = ''ws'', url_host = smuggled_host, url_port = 80, url_path = ''/''\<rparr>"
  have "list_ex non_ascii smuggling_host" by (simp add: smuggling_host_def non_ascii_def)
  then have ep: "main_ws_endpoint pton4 pton6 ?e = ''ws://'' @ smuggled_host"
    using assms by (intro smuggling_url) auto
  have "parse_url (main_ws_endpoint pton4 pton6 ?e) = Some ?r"
    unfolding ep by (simp add: smuggled_host_def cr_def lf_def parse_url_def url_split_scheme_def
        starts_with_def colon_first_def)
  moreover have "validate_endpoint ?e = ?e" "\<not> contains_crlf ?e"
    by (simp_all add: smuggling_host_def validate_endpoint_def contains_crlf_def cr_def lf_def starts_with_def
        parse_endpoint_port_def)
  moreover have "contains_crlf (url_host ?r)" by (simp add: smuggled_host_def contains_crlf_def)
  moreover have "ws_request smuggled_host ''/api/clients/v2/rpc'' (Some ''t'') None ''k''
      = Some (ws_request_text ''/api/clients/v2/rpc'' ''?token=t'' smuggled_host ''k'')"
    by code_simp
  moreover have "sublist (''Host: xn--a'' @ crlf @ ''b'' @ crlf)
      (ws_request_text ''/api/clients/v2/rpc'' ''?token=t'' smuggled_host ''k'')"
    by code_simp
  ultimately show ?thesis by auto
qed

theorem overlong_utf8_smuggles_crlf_witness:
  "\<exists>e r. validate_endpoint e = e \<and> e \<noteq> [] \<and> \<not> contains_crlf e
      \<and> parse_url (main_ws_endpoint (\<lambda>s. s = ''127.0.0.1'') (\<lambda>s. s = ''::1'') e) = Some r
      \<and> contains_crlf (url_host r)
      \<and> (\<exists>req. ws_request (url_host r) ''/api/clients/v2/rpc'' (Some ''t'') None ''k'' = Some req
             \<and> sublist (''Host: xn--a'' @ crlf @ ''b'' @ crlf) req)"
  by (rule overlong_utf8_smuggles_crlf) (auto simp: non_ascii_def)

end
