(* ===== verification/Update.thy ===== *)
theory Update
  imports Utils "HOL-Library.List_Lexorder"
begin

text \<open>
  The update check of \<open>src/update/update.c\<close>: reading a version out of the package manager's output,
  comparing versions, the periodic worker.  The package manager is an argument: what a command line
  prints and its exit status, None when it cannot be run.
\<close>

section \<open>Reading a version\<close>

definition KOMARI_PACKAGE_NAME :: string where "KOMARI_PACKAGE_NAME = ''komari-agent-c''"

definition version_sep :: "char \<Rightarrow> bool" where
  "version_sep c \<longleftrightarrow> c = CHR '' '' \<or> c = CHR ''-'' \<or> c = CHR ''='' \<or> c = CHR '':''"

definition parse_version_from_line :: "string \<Rightarrow> nat \<Rightarrow> string option" where
  "parse_version_from_line line len =
     (if len = 0 then None
      else let p = dropWhile c_isspace line
           in if p = [] then None
              else let p1 = (if starts_with KOMARI_PACKAGE_NAME p
                             then dropWhile version_sep (drop (length KOMARI_PACKAGE_NAME) p) else p)
                   in if p1 = [] then None
                      else let version = take (len - 1) (takeWhile (\<lambda>c. \<not> c_isspace c) p1)
                           in if version \<noteq> [] then Some version else None)"

record package_version =
  pv_name :: string
  pv_version :: string

type_synonym exec = "string \<Rightarrow> (string \<times> int) option"

definition package_found :: "string \<Rightarrow> package_version" where
  "package_found version =
     \<lparr>pv_name = strncpy_term 64 KOMARI_PACKAGE_NAME, pv_version = strncpy_term 32 version\<rparr>"

definition first_line :: "string \<Rightarrow> string" where
  "first_line s = takeWhile (\<lambda>c. c \<noteq> lf) s"

definition update_check_opkg :: "exec \<Rightarrow> package_version option" where
  "update_check_opkg exec =
     (case exec (''opkg list-installed '' @ KOMARI_PACKAGE_NAME) of
        None \<Rightarrow> None
      | Some (out, code) \<Rightarrow>
          if code \<noteq> 0 then None
          else map_option package_found (parse_version_from_line (first_line out) 32))"

text \<open>The lines of \<open>apk info\<close>: the first that names the package and has a version.\<close>

function apk_scan :: "string \<Rightarrow> string" where
  "apk_scan s =
     (if s = [] then []
      else let ln = first_line s; nl = dropWhile (\<lambda>c. c \<noteq> lf) s
           in case (if strstr KOMARI_PACKAGE_NAME ln \<noteq> None then parse_version_from_line ln 32 else None) of
                Some v \<Rightarrow> v
              | None \<Rightarrow> if nl \<noteq> [] then apk_scan (tl nl) else [])"
  by pat_completeness auto
termination
proof (relation "measure length", simp)
  fix s :: string and ln nl
  assume "s \<noteq> []" "nl = dropWhile (\<lambda>c. c \<noteq> lf) s" "nl \<noteq> []"
  then show "(tl nl, s) \<in> measure length"
    using length_dropWhile_le [of "\<lambda>c. c \<noteq> lf" s] by (cases s; cases nl) (auto split: if_splits)
qed

declare apk_scan.simps [simp del]

definition update_check_apk :: "exec \<Rightarrow> package_version option" where
  "update_check_apk exec =
     (case exec (''apk info '' @ KOMARI_PACKAGE_NAME) of
        None \<Rightarrow> None
      | Some (out, code) \<Rightarrow>
          if code \<noteq> 0 then None
          else let version = apk_scan out in if version = [] then None else Some (package_found version))"

definition update_check_package :: "(string \<Rightarrow> bool) \<Rightarrow> exec \<Rightarrow> package_version option" where
  "update_check_package dir_exists exec =
     (if dir_exists ''/usr/lib/apk'' then update_check_apk exec
      else if dir_exists ''/usr/lib/opkg'' then update_check_opkg exec else None)"

definition update_get_current_version :: "(string \<Rightarrow> bool) \<Rightarrow> exec \<Rightarrow> package_version option" where
  "update_get_current_version = update_check_package"

section \<open>Comparing versions\<close>

text \<open>The value of a \<open>char\<close>: whether plain \<open>char\<close> is signed depends on the platform.\<close>

definition char_val :: "bool \<Rightarrow> char \<Rightarrow> int" where
  "char_val sg c = (if sg \<and> char_code c \<ge> 128 then int (char_code c) - 256 else int (char_code c))"

lemma strtol_consumes:
  assumes "c_isdigit c" shows "length (fst (snd (strtol10 (c # cs)))) < length (c # cs)"
  using assms length_dropWhile_le [of c_isdigit cs] digit_not_space [OF assms]
  by (auto simp: strtol10_def Let_def c_isdigit_def)

text \<open>The loop; after it, the longer one is greater (both branches of the code agree).\<close>

function compare_loop :: "bool \<Rightarrow> string \<Rightarrow> string \<Rightarrow> int" where
  "compare_loop sg [] [] = 0"
| "compare_loop sg (c # cs) [] = 1"
| "compare_loop sg [] (d # ds) = -1"
| "compare_loop sg (c # cs) (d # ds) =
     (if c_isdigit c \<and> c_isdigit d then
        (let (n1, endp1, _) = strtol10 (c # cs); (n2, endp2, _) = strtol10 (d # ds)
         in if n1 < n2 then -1 else if n1 > n2 then 1 else compare_loop sg endp1 endp2)
      else if char_val sg c < char_val sg d then -1
      else if char_val sg c > char_val sg d then 1
      else compare_loop sg cs ds)"
  by pat_completeness auto
termination
proof (relation "measure (\<lambda>(sg, v1, v2). length v1)", simp_all)
  fix c cs d ds x y xa ya xb yb xc yc
  assume "c_isdigit c \<and> c_isdigit d" "(x, y) = strtol10 (c # cs)" "(xa, ya) = y"
  then show "length xa < Suc (length cs)" using strtol_consumes [of c cs] by (metis fst_conv snd_conv length_Cons)
qed

definition skip_v :: "string \<Rightarrow> string" where
  "skip_v v = (case v of c # cs \<Rightarrow> if c = CHR ''v'' then cs else v | [] \<Rightarrow> [])"

definition update_compare_versions :: "bool \<Rightarrow> string option \<Rightarrow> string option \<Rightarrow> int" where
  "update_compare_versions sg v1 v2 =
     (case (v1, v2) of (Some a, Some b) \<Rightarrow> compare_loop sg (skip_v a) (skip_v b) | _ \<Rightarrow> 0)"

section \<open>The order of versions\<close>

text \<open>A version as a list of tokens: numbers and other characters.  A number is ordered among the
  characters like a digit, numbers among themselves by value.\<close>

datatype version_token = VChar int | VNum int

fun token_key :: "version_token \<Rightarrow> int \<times> int \<times> int" where
  "token_key (VChar c) = (c, 0, 0)"
| "token_key (VNum n) = (48, 1, n)"

lemma token_key_inj: "token_key a = token_key b \<Longrightarrow> a = b"
  by (cases a; cases b) auto

definition lex3 :: "int \<times> int \<times> int \<Rightarrow> int \<times> int \<times> int \<Rightarrow> bool" where
  "lex3 a b \<longleftrightarrow> (case (a, b) of ((a1, a2, a3), (b1, b2, b3)) \<Rightarrow>
     a1 < b1 \<or> a1 = b1 \<and> (a2 < b2 \<or> a2 = b2 \<and> a3 \<le> b3))"

instantiation version_token :: linorder
begin

definition less_eq_version_token :: "version_token \<Rightarrow> version_token \<Rightarrow> bool" where
  "less_eq_version_token a b = lex3 (token_key a) (token_key b)"

definition less_version_token :: "version_token \<Rightarrow> version_token \<Rightarrow> bool" where
  "less_version_token a b \<longleftrightarrow> a \<le> b \<and> \<not> b \<le> (a :: version_token)"

instance
proof
  fix x y z :: version_token
  show "x < y \<longleftrightarrow> x \<le> y \<and> \<not> y \<le> x" by (rule less_version_token_def)
  show "x \<le> x" by (simp add: less_eq_version_token_def lex3_def split: prod.splits)
  show "x \<le> y \<Longrightarrow> y \<le> z \<Longrightarrow> x \<le> z" by (auto simp: less_eq_version_token_def lex3_def split: prod.splits)
  show "x \<le> y \<Longrightarrow> y \<le> x \<Longrightarrow> x = y"
    by (rule token_key_inj) (auto simp: less_eq_version_token_def lex3_def split: prod.splits)
  show "x \<le> y \<or> y \<le> x" by (auto simp: less_eq_version_token_def lex3_def split: prod.splits)
qed

end

function version_tokens :: "bool \<Rightarrow> string \<Rightarrow> version_token list" where
  "version_tokens sg [] = []"
| "version_tokens sg (c # cs) =
     (if c_isdigit c then VNum (fst (strtol10 (c # cs))) # version_tokens sg (fst (snd (strtol10 (c # cs))))
      else VChar (char_val sg c) # version_tokens sg cs)"
  by pat_completeness auto
termination
  by (relation "measure (\<lambda>(sg, v). length v)") (use strtol_consumes in auto)

definition three_way :: "'a :: linorder \<Rightarrow> 'a \<Rightarrow> int" where
  "three_way a b = (if a < b then -1 else if a = b then 0 else 1)"

lemma three_way_Cons [simp]:
  "three_way (x # xs) (y # ys) = (if x < y then -1 else if y < x then 1 else three_way xs ys)"
  by (auto simp: three_way_def)

lemma three_way_Nil [simp]:
  "three_way [] [] = 0" "three_way [] (y # ys) = -1" "three_way (x # xs) [] = 1"
  by (auto simp: three_way_def)

lemma token_less [simp]:
  "VNum m < VNum n \<longleftrightarrow> m < n"
  "VChar m < VChar n \<longleftrightarrow> m < n"
  "VNum m < VChar n \<longleftrightarrow> 48 < n"
  "VChar m < VNum n \<longleftrightarrow> m \<le> 48"
  by (auto simp: less_version_token_def less_eq_version_token_def lex3_def)

lemma digit_val_char: "c_isdigit c \<Longrightarrow> \<not> c_isdigit d \<Longrightarrow>
    (char_val sg c < char_val sg d \<longleftrightarrow> 48 < char_val sg d) \<and> (char_val sg d < char_val sg c \<longleftrightarrow> char_val sg d \<le> 48)"
proof -
  obtain v where v: "char_code d = v" "v < 256" by simp
  assume "c_isdigit c" "\<not> c_isdigit d"
  then show ?thesis using v(2) by (auto simp: char_val_def c_isdigit_def v(1))
qed

lemma compare_loop_lex: "compare_loop sg a b = three_way (version_tokens sg a) (version_tokens sg b)"
proof (induction sg a b rule: compare_loop.induct)
  case (4 sg c cs d ds)
  consider "c_isdigit c" "c_isdigit d" | "c_isdigit c" "\<not> c_isdigit d"
    | "\<not> c_isdigit c" "c_isdigit d" | "\<not> c_isdigit c" "\<not> c_isdigit d" by blast
  then show ?case
  proof cases
    case 1
    then show ?thesis using "4.IH"(1) by (auto split: prod.splits)
  next
    case 2
    then show ?thesis using digit_val_char [OF 2, of sg] by auto
  next
    case 3
    then show ?thesis using digit_val_char [OF 3(2,1), of sg] by auto
  next
    case 4
    then show ?thesis using "4.IH"(2) by auto
  qed
qed simp_all

text \<open>Dotted versions.\<close>

fun dotted :: "nat list \<Rightarrow> string" where
  "dotted [] = []"
| "dotted [n] = show_nat n"
| "dotted (n # m # ns) = show_nat n @ CHR ''.'' # dotted (m # ns)"

lemma version_tokens_number:
  assumes "t = [] \<or> \<not> c_isdigit (hd t)" "int n \<le> c_long_max"
  shows "version_tokens sg (show_nat n @ t) = VNum (int n) # version_tokens sg t"
proof -
  obtain c r where "show_nat n = c # r" "c_isdigit c" using show_nat_head by metis
  then show ?thesis using strtol10_show_nat [OF assms] by (cases "show_nat n") auto
qed

lemma version_tokens_dotted:
  "list_all (\<lambda>n. int n \<le> c_long_max) (n # ns) \<Longrightarrow>
     version_tokens sg (dotted (n # ns)) = VNum (int n) # concat (map (\<lambda>m. [VChar 46, VNum (int m)]) ns)"
proof (induction ns arbitrary: n)
  case Nil
  then show ?case using version_tokens_number [of "[]" n sg] by simp
next
  case (Cons m ns)
  have "\<not> c_isdigit CHR ''.''" "char_val sg CHR ''.'' = 46" by (simp_all add: c_isdigit_def char_val_def)
  then show ?case using Cons version_tokens_number [of "CHR ''.'' # dotted (m # ns)" n sg] by simp
qed

lemma three_way_dots:
  "three_way (concat (map (\<lambda>m. [VChar 46, VNum (int m)]) ns)) (concat (map (\<lambda>m. [VChar 46, VNum (int m)]) ms))
     = three_way ns ms"
proof (induction ns arbitrary: ms)
  case Nil
  then show ?case by (cases ms) auto
next
  case (Cons n ns)
  then show ?case by (cases ms) auto
qed

lemma skip_v_dotted: "skip_v (dotted (n # ns)) = dotted (n # ns)"
proof -
  obtain c r where h: "show_nat n = c # r" "c_isdigit c" using show_nat_head by metis
  then have "c \<noteq> CHR ''v''" by (auto simp: c_isdigit_def)
  then show ?thesis by (cases ns) (auto simp: h skip_v_def)
qed

lemma skip_v_v: "skip_v (CHR ''v'' # cs) = cs"
  by (simp add: skip_v_def)

text \<open>\<open>update_compare_versions\<close> is the lexicographic order of token lists, a linear order, whichever
  sign plain \<open>char\<close> has; for dotted versions, with or without the leading \<open>v\<close>, it is the numeric
  comparison component by component, in which a prefix is older.\<close>

theorem version_compare_equiv:
  "update_compare_versions sg (Some a) (Some b)
       = three_way (version_tokens sg (skip_v a)) (version_tokens sg (skip_v b))
   \<and> (list_all (\<lambda>k. int k \<le> c_long_max) (n # ns @ m # ms) \<and> p \<in> {[], ''v''} \<and> q \<in> {[], ''v''} \<longrightarrow>
       update_compare_versions sg (Some (p @ dotted (n # ns))) (Some (q @ dotted (m # ms)))
         = three_way (n # ns) (m # ms))"
proof (intro conjI impI)
  show "update_compare_versions sg (Some a) (Some b)
       = three_way (version_tokens sg (skip_v a)) (version_tokens sg (skip_v b))"
    by (simp add: update_compare_versions_def compare_loop_lex)
next
  assume *: "list_all (\<lambda>k. int k \<le> c_long_max) (n # ns @ m # ms) \<and> p \<in> {[], ''v''} \<and> q \<in> {[], ''v''}"
  then have "skip_v (p @ dotted (n # ns)) = dotted (n # ns)" "skip_v (q @ dotted (m # ms)) = dotted (m # ms)"
    using skip_v_dotted by (auto simp: skip_v_v)
  with * show "update_compare_versions sg (Some (p @ dotted (n # ns))) (Some (q @ dotted (m # ms)))
         = three_way (n # ns) (m # ms)"
    by (simp add: update_compare_versions_def compare_loop_lex version_tokens_dotted three_way_dots)
qed

theorem version_compare_equiv_witness:
  "update_compare_versions True (Some (''v'' @ dotted (1 # [10, 0]))) (Some ([] @ dotted (1 # [9]))) = 1"
proof -
  have "update_compare_versions True (Some (''v'' @ dotted (1 # [10, 0]))) (Some ([] @ dotted (1 # [9])))
      = three_way (1 # [10, 0]) (1 # [9::nat])"
    using version_compare_equiv [of True "[]" "[]" 1 "[10, 0]" 1 "[9]" "''v''" "[]"] by (simp add: c_limits)
  then show ?thesis by simp
qed

text \<open>The shape of the package manager's lines: the version is found behind the name.\<close>

lemma parse_version_found:
  assumes "list_all c_isspace sp" "list_all version_sep seps" "seps \<noteq> []"
    "v \<noteq> []" "\<not> version_sep (hd v)" "list_all (\<lambda>c. \<not> c_isspace c) v" "length v < len"
    "rest = [] \<or> c_isspace (hd rest)"
  shows "parse_version_from_line (sp @ KOMARI_PACKAGE_NAME @ seps @ v @ rest) len = Some v"
proof -
  have "dropWhile c_isspace (sp @ KOMARI_PACKAGE_NAME @ seps @ v @ rest) = KOMARI_PACKAGE_NAME @ seps @ v @ rest"
    using assms(1) by (subst dropWhile_append2) (auto simp: KOMARI_PACKAGE_NAME_def c_isspace_def list_all_iff)
  moreover have "dropWhile version_sep (seps @ v @ rest) = v @ rest"
    using assms(2,4,5) by (cases v) (simp_all add: dropWhile_append2 list_all_iff)
  moreover have "takeWhile (\<lambda>c. \<not> c_isspace c) (v @ rest) = v"
    using assms(6,8) by (cases rest) (auto simp: takeWhile_append2 list_all_iff)
  moreover have "KOMARI_PACKAGE_NAME \<noteq> []" by (simp add: KOMARI_PACKAGE_NAME_def)
  moreover have "starts_with KOMARI_PACKAGE_NAME (KOMARI_PACKAGE_NAME @ seps @ v @ rest)" by (simp add: starts_with_def)
  moreover have "len \<noteq> 0" "min (length v) (len - 1) = length v" "take (len - 1) v = v" using assms(7) by auto
  ultimately show ?thesis using assms(4) by (simp add: parse_version_from_line_def)
qed

section \<open>Checking for an upgrade\<close>

definition check_opkg_upgradable :: "exec \<Rightarrow> int" where
  "check_opkg_upgradable exec =
     (case exec ''opkg list-upgradable'' of None \<Rightarrow> -1
      | Some (out, code) \<Rightarrow>
          if code \<noteq> 0 then -1 else if strstr KOMARI_PACKAGE_NAME out \<noteq> None then 1 else 0)"

definition check_apk_upgradable :: "exec \<Rightarrow> int" where
  "check_apk_upgradable exec =
     (case exec ''apk list --upgradable'' of None \<Rightarrow> -1
      | Some (out, code) \<Rightarrow> if strstr KOMARI_PACKAGE_NAME out \<noteq> None then 1 else 0)"

definition update_check_available :: "(string \<Rightarrow> bool) \<Rightarrow> exec \<Rightarrow> int" where
  "update_check_available dir_exists exec =
     (if dir_exists ''/usr/lib/apk'' then check_apk_upgradable exec
      else if dir_exists ''/usr/lib/opkg'' then check_opkg_upgradable exec else -1)"

section \<open>The worker\<close>

text \<open>The worker reads \<open>g_update_running\<close> before each check and each second of the wait; \<open>flags\<close> are the
  values it reads, and after the last one it is stopped.  The result counts the checks.\<close>

definition UPDATE_CHECK_INTERVAL_SECONDS :: nat where "UPDATE_CHECK_INTERVAL_SECONDS = 21600"

fun update_wait :: "nat \<Rightarrow> bool list \<Rightarrow> bool list" where
  "update_wait 0 flags = flags"
| "update_wait (Suc i) [] = []"
| "update_wait (Suc i) (running # flags) = (if running then update_wait i flags else flags)"

lemma update_wait_length: "length (update_wait n flags) \<le> length flags"
  by (induction n flags rule: update_wait.induct) auto

function update_do_check_works :: "bool list \<Rightarrow> nat" where
  "update_do_check_works flags =
     (case flags of [] \<Rightarrow> 0
      | running # rest \<Rightarrow>
          if running then Suc (update_do_check_works (update_wait UPDATE_CHECK_INTERVAL_SECONDS rest)) else 0)"
  by pat_completeness auto
termination
  by (relation "measure length") (simp_all add: le_imp_less_Suc update_wait_length)

declare update_do_check_works.simps [simp del]

lemma update_wait_running: "update_wait n (replicate k True @ False # fs) =
    (if n \<le> k then replicate (k - n) True @ False # fs else fs)"
proof (induction n arbitrary: k)
  case (Suc n)
  then show ?case by (cases k) auto
qed simp

lemma update_stops_at_once:
  "list_all (\<lambda>f. \<not> f) fs \<Longrightarrow>
     update_do_check_works (replicate k True @ False # fs) = (k + UPDATE_CHECK_INTERVAL_SECONDS) div (UPDATE_CHECK_INTERVAL_SECONDS + 1)"
proof (induction k rule: less_induct)
  case (less k)
  have off: "update_do_check_works fs = 0"
    using less.prems by (cases fs) (simp_all add: update_do_check_works.simps)
  let ?N = UPDATE_CHECK_INTERVAL_SECONDS
  show ?case
  proof (cases k)
    case 0
    then show ?thesis by (simp add: update_do_check_works.simps [of "False # fs"])
  next
    case (Suc j)
    have *: "update_do_check_works (replicate k True @ False # fs)
        = Suc (update_do_check_works (update_wait ?N (replicate j True @ False # fs)))"
      by (subst update_do_check_works.simps) (simp add: Suc)
    show ?thesis
    proof (cases "?N \<le> j")
      case True
      then have "update_do_check_works (replicate (j - ?N) True @ False # fs) = (j - ?N + ?N) div (?N + 1)"
        using less Suc by simp
      moreover have "(k + ?N) div (?N + 1) = Suc ((j - ?N + ?N) div (?N + 1))"
        using True Suc div_add_self2 [of "?N + 1" j] by (simp add: UPDATE_CHECK_INTERVAL_SECONDS_def)
      ultimately show ?thesis using True by (simp add: * update_wait_running)
    next
      case False
      then have "(k + ?N) div (?N + 1) = 1" using Suc by (simp add: div_nat_eqI)
      then show ?thesis using False by (simp add: * update_wait_running off)
    qed
  qed
qed

end
