(* ===== verification/Report.thy ===== *)
theory Report
  imports WsClientInv Config
begin

text \<open>
  The reports of \<open>src/report/report.c\<close>: their JSON text, and the HTTP requests that upload task and
  ping results.  What the monitoring measured is an argument.
\<close>

section \<open>Text\<close>

text \<open>The format \<open>%.2f\<close>: two decimals, exact halves to the even neighbour.\<close>

definition round_half_even :: "rat \<Rightarrow> nat" where
  "round_half_even x =
     (let n = nat \<lfloor>x\<rfloor>; r = x - of_int \<lfloor>x\<rfloor>
      in if r < 1 / 2 then n else if r > 1 / 2 then n + 1 else if even n then n else n + 1)"

fun fmt_2f :: "c_double \<Rightarrow> string" where
  "fmt_2f (Fin x) =
     (let n = round_half_even (\<bar>x\<bar> * 100)
      in (if x < 0 then ''-'' else []) @ show_nat (n div 100) @ ''.'' @
         [digit_char (n div 10 mod 10), digit_char (n mod 10)])"
| "fmt_2f PInf = ''inf''"
| "fmt_2f NInf = ''-inf''"
| "fmt_2f NaN = ''nan''"

definition fmt_u64 :: "u64 \<Rightarrow> string" where "fmt_u64 x = show_nat (unat x)"

definition jq :: "string \<Rightarrow> string" where "jq s = dquote # s @ [dquote]"

text \<open>One turn of the loop of \<open>escape_json_string\<close>: a character whose escape does not fit is left out,
  the loop goes on.\<close>

definition hex_digits :: "nat \<Rightarrow> string" where "hex_digits n = [hex_upper (n div 16 mod 16), hex_upper (n mod 16)]"

definition put_two :: "nat \<Rightarrow> string \<Rightarrow> char \<Rightarrow> string" where
  "put_two dst_len dst x = (if length dst < dst_len - 2 then dst @ [bslash, x] else dst)"

definition escape_put :: "nat \<Rightarrow> char \<Rightarrow> string \<Rightarrow> string" where
  "escape_put dst_len c dst =
     (if c = dquote \<or> c = bslash then put_two dst_len dst c
      else if c = lf then put_two dst_len dst CHR ''n''
      else if c = cr then put_two dst_len dst CHR ''r''
      else if c = tab then put_two dst_len dst CHR ''t''
      else if c = bspace then put_two dst_len dst CHR ''b''
      else if c = ffeed then put_two dst_len dst CHR ''f''
      else if char_code c < 0x20 then
        (if length dst < dst_len - 6 then dst @ [bslash] @ ''u00'' @ hex_digits (char_code c) else dst)
      else dst @ [c])"

fun escape_json_loop :: "nat \<Rightarrow> string \<Rightarrow> string \<Rightarrow> string" where
  "escape_json_loop n [] dst = dst"
| "escape_json_loop n (c # src) dst =
     (if length dst < n - 1 then escape_json_loop n src (escape_put n c dst) else dst)"

definition escape_json_string :: "string \<Rightarrow> nat \<Rightarrow> string" where
  "escape_json_string src dst_len = (if dst_len < 7 then [] else escape_json_loop dst_len src [])"

definition special_char :: "char \<Rightarrow> bool" where
  "special_char c \<longleftrightarrow> c = dquote \<or> c = bslash \<or> c = bspace \<or> c = ffeed \<or> c = lf \<or> c = cr \<or> c = tab"

lemma escape_put_special:
  "special_char c \<Longrightarrow> length dst < n - 2 \<Longrightarrow> escape_put n c dst = dst @ escape_put 10 c []"
  unfolding special_char_def by (elim disjE) (simp_all add: escape_put_def put_two_def)

lemma esc_special: "special_char c \<Longrightarrow> escape_put 10 c [] = esc c \<and> length (esc c) = 2"
proof -
  have "list_all (\<lambda>c. escape_put 10 c [] = esc c \<and> length (esc c) = 2) [dquote, bslash, bspace, ffeed, lf, cr, tab]"
    by code_simp
  then show "special_char c \<Longrightarrow> ?thesis" unfolding special_char_def by (elim disjE) simp_all
qed

lemma escape_put_esc:
  assumes "length dst + length (esc c) < n" shows "escape_put n c dst = dst @ esc c"
proof (cases "special_char c")
  case True
  with esc_special [OF True] escape_put_special [OF True, of dst n] assms show ?thesis by simp
next
  case False
  then have nc: "c \<notin> {dquote, bslash, bspace, ffeed, lf, cr, tab}" by (simp add: special_char_def)
  show ?thesis
  proof (cases "char_code c < 32")
    case True
    have h: "hex4 (char_code c) = ''00'' @ hex_digits (char_code c)"
      using True by (simp add: hex4_def hex_digits_def hex_upper_def)
    have "length dst < n - 6" using assms by (simp add: esc_control [OF nc True] h hex_digits_def)
    with True nc show ?thesis by (simp add: esc_control [OF nc True] h escape_put_def)
  next
    case big: False
    with nc have "esc c = [c]" by (simp add: esc_def escape_char_def)
    with big nc show ?thesis by (simp add: escape_put_def)
  qed
qed

lemma escape_put_bound:
  assumes "7 \<le> n" "length dst < n - 1" shows "length (escape_put n c dst) < n"
proof -
  have "length (put_two n dst x) < n" for x using assms by (auto simp: put_two_def)
  moreover have "length dst < n - 6 \<Longrightarrow> Suc (Suc (Suc (Suc (Suc (Suc (length dst)))))) < n" by simp
  moreover have "Suc (length dst) < n" "length dst < n" using assms by auto
  ultimately show ?thesis by (simp add: escape_put_def hex_digits_def)
qed

lemma escape_loop_bound: "7 \<le> n \<Longrightarrow> length dst < n \<Longrightarrow> length (escape_json_loop n src dst) < n"
  by (induction src arbitrary: dst) (auto simp: escape_put_bound)

lemma esc_nonempty: "esc c \<noteq> []"
  by (auto simp: esc_def escape_char_def snprintf_chk_def hex4_def)

lemma escape_loop_esc:
  "length dst + length (concat (map esc src)) < n \<Longrightarrow> escape_json_loop n src dst = dst @ concat (map esc src)"
proof (induction src arbitrary: dst)
  case (Cons c src)
  have "length dst < n - 1" using Cons.prems esc_nonempty [of c] by (cases "esc c") auto
  moreover have "escape_put n c dst = dst @ esc c" using Cons.prems by (intro escape_put_esc) simp
  ultimately show ?case using Cons by simp
qed simp

text \<open>The two escaping routines of the program agree where there is room.\<close>

lemma escape_json_agrees:
  assumes "length (concat (map esc src)) < n" "7 \<le> n"
  shows "Some (escape_json_string src n) = utils_json_escape src"
  using assms escape_loop_esc [of "[]" src n] by (simp add: escape_json_string_def json_escape_eq)

section \<open>The reports\<close>

record metrics =
  m_cpu_usage :: c_double
  m_mem_total :: u64   m_mem_used :: u64
  m_swap_total :: u64  m_swap_used :: u64
  m_load1 :: c_double  m_load5 :: c_double  m_load15 :: c_double
  m_disk_total :: u64  m_disk_used :: u64
  m_tx_speed :: u64    m_rx_speed :: u64
  m_tx_bytes :: u64    m_rx_bytes :: u64
  m_tcp_count :: int   m_udp_count :: int
  m_uptime :: u64
  m_process_count :: int

definition report_text :: "metrics \<Rightarrow> string" where
  "report_text m =
     ''{''
     @ jq ''cpu'' @ '':{'' @ jq ''usage'' @ '':'' @ fmt_2f (m_cpu_usage m) @ ''},''
     @ jq ''ram'' @ '':{'' @ jq ''total'' @ '':'' @ fmt_u64 (m_mem_total m) @ '','' @ jq ''used'' @ '':'' @ fmt_u64 (m_mem_used m) @ ''},''
     @ jq ''swap'' @ '':{'' @ jq ''total'' @ '':'' @ fmt_u64 (m_swap_total m) @ '','' @ jq ''used'' @ '':'' @ fmt_u64 (m_swap_used m) @ ''},''
     @ jq ''load'' @ '':{'' @ jq ''load1'' @ '':'' @ fmt_2f (m_load1 m) @ '','' @ jq ''load5'' @ '':'' @ fmt_2f (m_load5 m)
       @ '','' @ jq ''load15'' @ '':'' @ fmt_2f (m_load15 m) @ ''},''
     @ jq ''disk'' @ '':{'' @ jq ''total'' @ '':'' @ fmt_u64 (m_disk_total m) @ '','' @ jq ''used'' @ '':'' @ fmt_u64 (m_disk_used m) @ ''},''
     @ jq ''network'' @ '':{'' @ jq ''up'' @ '':'' @ fmt_u64 (m_tx_speed m) @ '','' @ jq ''down'' @ '':'' @ fmt_u64 (m_rx_speed m)
       @ '','' @ jq ''totalUp'' @ '':'' @ fmt_u64 (m_tx_bytes m) @ '','' @ jq ''totalDown'' @ '':'' @ fmt_u64 (m_rx_bytes m) @ ''},''
     @ jq ''connections'' @ '':{'' @ jq ''tcp'' @ '':'' @ show_int (m_tcp_count m) @ '','' @ jq ''udp'' @ '':'' @ show_int (m_udp_count m) @ ''},''
     @ jq ''uptime'' @ '':'' @ fmt_u64 (m_uptime m) @ '',''
     @ jq ''process'' @ '':'' @ show_int (m_process_count m) @ '',''
     @ jq ''message'' @ '':'' @ jq [] @ ''}''"

text \<open>None is the result -1; a text that does not fit is refused.\<close>

definition report_generate :: "metrics \<Rightarrow> nat \<Rightarrow> string option" where
  "report_generate m buf_len = (if buf_len = 0 then None else snprintf_chk buf_len (report_text m))"

text \<open>Appending at \<open>offset\<close>, with \<open>snprintf\<close> or after the test before \<open>memcpy\<close>.\<close>

definition append_chk :: "nat \<Rightarrow> string \<Rightarrow> string \<Rightarrow> string option" where
  "append_chk n t b = (if length t < n - length b then Some (b @ t) else None)"

definition report_generate_v2 :: "metrics \<Rightarrow> nat \<Rightarrow> string option" where
  "report_generate_v2 m buf_len =
     (if buf_len = 0 then None
      else case report_generate m 4096 of None \<Rightarrow> None
      | Some v1 \<Rightarrow>
          Option.bind (append_chk buf_len
            (''{'' @ jq ''jsonrpc'' @ '':'' @ jq ''2.0'' @ '','' @ jq ''method'' @ '':'' @ jq AGENT_REPORT @ '',''
             @ jq ''params'' @ '':{'' @ jq ''report'' @ '':'') []) (\<lambda>b1.
          Option.bind (append_chk buf_len v1 b1) (append_chk buf_len ''}}'')))"

fun append_acks :: "nat \<Rightarrow> int list \<Rightarrow> bool \<Rightarrow> string \<Rightarrow> string option" where
  "append_acks n [] first b = Some b"
| "append_acks n (i # ids) first b =
     Option.bind (append_chk n ((if first then [] else '','') @ show_int i) b) (append_acks n ids False)"

definition report_generate_v2_with_acks ::
    "metrics \<Rightarrow> int \<Rightarrow> nat \<Rightarrow> int list option \<Rightarrow> int \<Rightarrow> string option" where
  "report_generate_v2_with_acks m now buf_len ids ack_count =
     (if buf_len = 0 then None
      else case report_generate m 4096 of None \<Rightarrow> None
      | Some v1 \<Rightarrow>
          Option.bind (append_chk buf_len
            (''{'' @ jq ''jsonrpc'' @ '':'' @ jq ''2.0'' @ '','' @ jq ''method'' @ '':'' @ jq AGENT_REPORT @ '',''
             @ jq ''id'' @ '':'' @ show_int (c_int_of_long now) @ '','' @ jq ''params'' @ '':{'' @ jq ''report'' @ '':'') []) (\<lambda>b1.
          Option.bind (append_chk buf_len v1 b1) (\<lambda>b2.
          Option.bind (append_chk buf_len ('','' @ jq ''ack_event_ids'' @ '':['') b2) (\<lambda>b3.
          Option.bind (append_acks buf_len (case ids of Some xs \<Rightarrow> take (nat ack_count) xs | None \<Rightarrow> []) True b3)
            (append_chk buf_len '']}}'')))))"

record host_info =
  h_cpu_name :: string
  h_cpu_cores :: int
  h_cpu_arch :: string
  h_os_name :: string
  h_kernel_version :: string
  h_ipv4 :: string
  h_ipv6 :: string
  h_mem_total :: u64
  h_swap_total :: u64
  h_disk_total :: u64
  h_gpu_name :: "string option"
  h_virt_type :: string

definition basic_info_text :: "agent_config \<Rightarrow> host_info \<Rightarrow> string" where
  "basic_info_text cfg h =
     ''{''
     @ jq ''cpu_name'' @ '':'' @ jq (escape_json_string (h_cpu_name h) 256) @ '',''
     @ jq ''cpu_cores'' @ '':'' @ show_int (h_cpu_cores h) @ '',''
     @ jq ''arch'' @ '':'' @ jq (h_cpu_arch h) @ '',''
     @ jq ''os'' @ '':'' @ jq (escape_json_string (h_os_name h) 256) @ '',''
     @ jq ''kernel_version'' @ '':'' @ jq (escape_json_string (h_kernel_version h) 128) @ '',''
     @ jq ''ipv4'' @ '':'' @ jq (if ag_custom_ipv4 cfg \<noteq> [] then ag_custom_ipv4 cfg else h_ipv4 h) @ '',''
     @ jq ''ipv6'' @ '':'' @ jq (if ag_custom_ipv6 cfg \<noteq> [] then ag_custom_ipv6 cfg else h_ipv6 h) @ '',''
     @ jq ''mem_total'' @ '':'' @ fmt_u64 (h_mem_total h) @ '',''
     @ jq ''swap_total'' @ '':'' @ fmt_u64 (h_swap_total h) @ '',''
     @ jq ''disk_total'' @ '':'' @ fmt_u64 (h_disk_total h) @ '',''
     @ jq ''gpu_name'' @ '':'' @ jq (case h_gpu_name h of Some g \<Rightarrow> escape_json_string g 256 | None \<Rightarrow> []) @ '',''
     @ jq ''virtualization'' @ '':'' @ jq (h_virt_type h) @ '',''
     @ jq ''version'' @ '':'' @ jq ''1.0.0'' @ ''}''"

definition report_generate_basic_info :: "agent_config \<Rightarrow> host_info \<Rightarrow> nat \<Rightarrow> string option" where
  "report_generate_basic_info cfg h buf_len =
     (if buf_len = 0 then None else snprintf_chk buf_len (basic_info_text cfg h))"

definition report_generate_basic_info_v2 :: "agent_config \<Rightarrow> host_info \<Rightarrow> nat \<Rightarrow> string option" where
  "report_generate_basic_info_v2 cfg h buf_len =
     (if buf_len = 0 then None
      else case report_generate_basic_info cfg h 4096 of None \<Rightarrow> None
      | Some v1 \<Rightarrow>
          Option.bind (append_chk buf_len
            (''{'' @ jq ''jsonrpc'' @ '':'' @ jq ''2.0'' @ '','' @ jq ''method'' @ '':'' @ jq AGENT_BASIC_INFO @ '',''
             @ jq ''params'' @ '':{'' @ jq ''info'' @ '':'') []) (\<lambda>b1.
          Option.bind (append_chk buf_len v1 b1) (append_chk buf_len ''}}'')))"

section \<open>What the reports say\<close>

text \<open>JSON values in compact form; a raw value is a number or an already printed value.\<close>

datatype jval = JRaw string | JStr string | JList "jval list" | JMap "(string \<times> jval) list"

fun commas :: "string list \<Rightarrow> string" where
  "commas [] = []"
| "commas [x] = x"
| "commas (x # y # zs) = x @ '','' @ commas (y # zs)"

fun jv_print :: "jval \<Rightarrow> string" where
  "jv_print (JRaw t) = t"
| "jv_print (JStr s) = jq s"
| "jv_print (JList xs) = ''['' @ commas (map jv_print xs) @ '']''"
| "jv_print (JMap ms) = ''{'' @ commas (map (\<lambda>(k, v). jq k @ '':'' @ jv_print v) ms) @ ''}''"

definition report_tree :: "metrics \<Rightarrow> jval" where
  "report_tree m =
     (let u = (\<lambda>x. JRaw (fmt_u64 x)); d = (\<lambda>x. JRaw (fmt_2f x)); i = (\<lambda>x. JRaw (show_int x))
      in JMap [(''cpu'', JMap [(''usage'', d (m_cpu_usage m))]),
               (''ram'', JMap [(''total'', u (m_mem_total m)), (''used'', u (m_mem_used m))]),
               (''swap'', JMap [(''total'', u (m_swap_total m)), (''used'', u (m_swap_used m))]),
               (''load'', JMap [(''load1'', d (m_load1 m)), (''load5'', d (m_load5 m)), (''load15'', d (m_load15 m))]),
               (''disk'', JMap [(''total'', u (m_disk_total m)), (''used'', u (m_disk_used m))]),
               (''network'', JMap [(''up'', u (m_tx_speed m)), (''down'', u (m_rx_speed m)),
                                 (''totalUp'', u (m_tx_bytes m)), (''totalDown'', u (m_rx_bytes m))]),
               (''connections'', JMap [(''tcp'', i (m_tcp_count m)), (''udp'', i (m_udp_count m))]),
               (''uptime'', u (m_uptime m)), (''process'', i (m_process_count m)), (''message'', JStr [])])"

definition report_request_tree :: "metrics \<Rightarrow> int \<Rightarrow> int list \<Rightarrow> jval" where
  "report_request_tree m now ids =
     JMap [(''jsonrpc'', JStr ''2.0''), (''method'', JStr AGENT_REPORT), (''id'', JRaw (show_int (c_int_of_long now))),
           (''params'', JMap [(''report'', report_tree m), (''ack_event_ids'', JList (map (\<lambda>i. JRaw (show_int i)) ids))])]"

lemma report_text_tree: "report_text m = jv_print (report_tree m)"
  by (simp add: report_text_def report_tree_def)

lemma append_chk_room: "length (b @ t) < n \<Longrightarrow> append_chk n t b = Some (b @ t)"
  by (simp add: append_chk_def)

lemma append_chk_Some: "append_chk n t b = Some b' \<Longrightarrow> b' = b @ t \<and> length b' < n"
  by (auto simp: append_chk_def split: if_splits)

lemma append_acks_room:
  "length (b @ (if first \<or> ids = [] then [] else '','') @ commas (map show_int ids)) < n \<Longrightarrow>
     append_acks n ids first b = Some (b @ (if first \<or> ids = [] then [] else '','') @ commas (map show_int ids))"
proof (induction ids arbitrary: first b)
  case (Cons i ids)
  let ?b = "b @ (if first then [] else '','') @ show_int i"
  have "append_chk n ((if first then [] else '','') @ show_int i) b = Some ?b"
    using Cons.prems by (intro append_chk_room) (cases ids, auto)
  moreover have "append_acks n ids False ?b = Some (?b @ (if ids = [] then [] else '','') @ commas (map show_int ids))"
    using Cons.prems Cons.IH [of ?b False] by (cases ids) auto
  ultimately show ?case by (cases ids) simp_all
qed simp

lemma append_acks_Some:
  "append_acks n ids first b = Some b' \<Longrightarrow>
     b' = b @ (if first \<or> ids = [] then [] else '','') @ commas (map show_int ids)"
proof (induction ids arbitrary: first b)
  case (Cons i ids)
  then obtain b1 where "append_chk n ((if first then [] else '','') @ show_int i) b = Some b1"
    "append_acks n ids False b1 = Some b'" by (auto simp: bind_eq_Some_conv)
  with Cons.IH [of False b1] show ?case
    by (cases ids) (auto dest!: append_chk_Some)
qed simp

text \<open>The pieces of the request, in the order they are appended.\<close>

definition request_head :: "int \<Rightarrow> string" where
  "request_head now =
     ''{'' @ jq ''jsonrpc'' @ '':'' @ jq ''2.0'' @ '','' @ jq ''method'' @ '':'' @ jq AGENT_REPORT @ '',''
     @ jq ''id'' @ '':'' @ show_int (c_int_of_long now) @ '','' @ jq ''params'' @ '':{'' @ jq ''report'' @ '':''"

lemma request_pieces:
  "jv_print (report_request_tree m now ids) =
     ((([] @ request_head now) @ report_text m) @ '','' @ jq ''ack_event_ids'' @ '':['') @ commas (map show_int ids) @ '']}}''"
  by (simp add: report_request_tree_def request_head_def report_text_tree comp_def)

lemma with_acks_eq:
  "report_generate_v2_with_acks m now n (Some ids) (int (length ids)) =
     (if n = 0 then None
      else case report_generate m 4096 of None \<Rightarrow> None
      | Some v1 \<Rightarrow>
          Option.bind (append_chk n (request_head now) []) (\<lambda>b1.
          Option.bind (append_chk n v1 b1) (\<lambda>b2.
          Option.bind (append_chk n ('','' @ jq ''ack_event_ids'' @ '':['') b2) (\<lambda>b3.
          Option.bind (append_acks n ids True b3) (append_chk n '']}}'')))))"
  by (cases "report_generate m 4096") (simp_all add: report_generate_v2_with_acks_def request_head_def)

lemma with_acks_text:
  "report_generate_v2_with_acks m now n (Some ids) (int (length ids)) =
     (if length (report_text m) < 4096 \<and> length (jv_print (report_request_tree m now ids)) < n
      then Some (jv_print (report_request_tree m now ids)) else None)"
proof (cases "length (report_text m) < 4096 \<and> length (jv_print (report_request_tree m now ids)) < n")
  case True
  then have "report_generate m 4096 = Some (report_text m)" by (simp add: report_generate_def snprintf_chk_def)
  moreover have "append_acks n ids True b = Some (b @ commas (map show_int ids))"
    if "length (b @ commas (map show_int ids)) < n" for b
    using append_acks_room [of b True ids n] that by simp
  ultimately show ?thesis using True
    by (simp add: with_acks_eq request_pieces append_chk_room)
next
  case False
  have "report_generate_v2_with_acks m now n (Some ids) (int (length ids)) \<noteq> Some t" for t
  proof
    assume "report_generate_v2_with_acks m now n (Some ids) (int (length ids)) = Some t"
    then obtain b1 b2 b3 b4 where *: "report_generate m 4096 = Some (report_text m)"
      "append_chk n (request_head now) [] = Some b1" "append_chk n (report_text m) b1 = Some b2"
      "append_chk n ('','' @ jq ''ack_event_ids'' @ '':['') b2 = Some b3"
      "append_acks n ids True b3 = Some b4" "append_chk n '']}}'' b4 = Some t"
      by (auto simp: with_acks_eq report_generate_def snprintf_chk_def bind_eq_Some_conv split: if_splits)
    from *(1) have "length (report_text m) < 4096" by (simp add: report_generate_def snprintf_chk_def split: if_splits)
    moreover have "t = jv_print (report_request_tree m now ids)" "length t < n"
      using append_chk_Some [OF *(2)] append_chk_Some [OF *(3)] append_chk_Some [OF *(4)]
        append_acks_Some [OF *(5)] append_chk_Some [OF *(6)] by (auto simp: request_pieces)
    ultimately show False using False by simp
  qed
  then show ?thesis using False by (metis not_Some_eq)
qed

text \<open>The v2 report is either refused or it is exactly the compact JSON text of one request: version,
  method, id, the report with all its fields, and every pending acknowledgement in order; it is refused
  exactly when the report or the whole text does not fit its buffer, and never cut.\<close>

theorem report_request_text:
  "report_generate_v2_with_acks m now n (Some ids) (int (length ids)) =
     (if length (jv_print (report_tree m)) < 4096 \<and> length (jv_print (report_request_tree m now ids)) < n
      then Some (jv_print (report_request_tree m now ids)) else None)"
  by (simp add: with_acks_text report_text_tree)

end
