(* ===== verification/Upload.thy ===== *)
theory Upload
  imports Report
begin

text \<open>
  Uploads of \<open>src/report/report.c\<close>: the URL, the request, the connection and the two callers.  System
  and OpenSSL calls are outcomes, and a log as for the WebSocket client.
\<close>

section \<open>The URL\<close>

definition http_scheme :: "string \<Rightarrow> string \<times> string" where
  "http_scheme url =
     (case strstr ''://'' url of
        None \<Rightarrow> (''http'', url)
      | Some scheme_end \<Rightarrow> (take 15 (upto_ptr url scheme_end), drop 3 scheme_end))"

definition http_port :: "string \<Rightarrow> int \<Rightarrow> int" where
  "http_port digits port =
     (case strtol10 digits of (v, endptr, some_digit) \<Rightarrow>
        if some_digit \<and> endptr = [] \<and> 1 \<le> v \<and> v \<le> 65535 then v else port)"

text \<open>Host, port and path, cut to their arrays.\<close>

definition http_url_parts :: "string \<Rightarrow> string \<times> string \<times> int \<times> string" where
  "http_url_parts url =
     (case http_scheme url of (scheme, p) \<Rightarrow>
        let port = (if scheme = ''https'' then 443 else 80);
            (host, path) =
              (case strchr CHR ''/'' p of
                 Some path_start \<Rightarrow> (take 255 (upto_ptr p path_start), take 511 path_start)
               | None \<Rightarrow> (take 255 p, ''/''))
        in case strchr CHR '':'' host of
             Some colon \<Rightarrow> (scheme, upto_ptr host colon, http_port (tl colon) port, path)
           | None \<Rightarrow> (scheme, host, port, path))"

definition http_url_encode :: "string \<Rightarrow> nat \<Rightarrow> string option" where
  "http_url_encode src dst_len = (if dst_len = 0 then None else url_encode_loop dst_len src [])"

section \<open>The request\<close>

definition http_request :: "string \<Rightarrow> string \<Rightarrow> string option \<Rightarrow> string \<Rightarrow> string option" where
  "http_request path host extra_headers payload =
     snprintf_chk 16384
       (''POST '' @ path @ '' HTTP/1.1'' @ crlf @ ''Host: '' @ host @ crlf
        @ ''Content-Type: application/json'' @ crlf
        @ ''Content-Length: '' @ show_nat (length payload) @ crlf
        @ ''Connection: close'' @ crlf
        @ (case extra_headers of Some h \<Rightarrow> h | None \<Rightarrow> []) @ crlf @ payload)"

record http_env =
  hp_gai :: "(int \<times> bool) list option"
  hp_ctx_ok :: bool
  hp_ssl_new_ok :: bool
  hp_ssl_connect_ok :: bool
  hp_tx :: "tx list"
  hp_rx :: "rx list"

definition http_response_ok :: "rx list \<Rightarrow> bool" where
  "http_response_ok r =
     (case recv_some 1023 r of
        (IoBytes bs, _) \<Rightarrow>
          starts_with ''HTTP/1.1 200'' (map char_of_byte bs) \<or> starts_with ''HTTP/1.0 200'' (map char_of_byte bs)
      | _ \<Rightarrow> False)"

text \<open>TLS on a connected descriptor: whether it is up, and what was done.\<close>

definition http_tls :: "http_env \<Rightarrow> bool \<Rightarrow> string \<Rightarrow> int \<Rightarrow> bool \<times> sys_op list" where
  "http_tls env ignore_cert host fd =
     (if \<not> hp_ctx_ok env then (False, [CloseFd fd])
      else let v = (if ignore_cert then VerifyNone else VerifyPeer);
               c = (if ignore_cert then [] else [CheckHost host])
           in if \<not> hp_ssl_new_ok env then (False, [CtxNew, v, CtxFree, CloseFd fd])
              else if \<not> hp_ssl_connect_ok env then
                (False, [CtxNew, v, SslNew] @ c @ [SslFree, CtxFree, CloseFd fd])
              else (True, [CtxNew, v, SslNew] @ c))"

text \<open>The result, the operations and the bytes on the wire.\<close>

definition http_post_with_headers ::
    "http_env \<Rightarrow> string \<Rightarrow> string \<Rightarrow> bool \<Rightarrow> string option \<Rightarrow> int \<times> sys_op list \<times> byte list" where
  "http_post_with_headers env url payload ignore_cert extra_headers =
     (case http_url_parts url of (scheme, host, port, path) \<Rightarrow>
        if snprintf_chk 16 (show_int port) = None then (-1, [], [])
        else case hp_gai env of None \<Rightarrow> (-1, [], [])
        | Some addrs \<Rightarrow>
           (case connect_addrs addrs of (fd, ops) \<Rightarrow>
              if fd < 0 then (-1, ops, [])
              else
                let tls = (scheme = ''https'')
                in case (if tls then http_tls env ignore_cert host fd else (True, [])) of
                     (False, tops) \<Rightarrow> (-1, ops @ tops, [])
                   | (True, tops) \<Rightarrow>
                       let release = (if tls then [SslFree, CtxFree] else []) @ [CloseFd fd];
                           extra = (case extra_headers of Some h \<Rightarrow> if h = [] then None else Some h | None \<Rightarrow> None)
                       in case http_request path host extra payload of
                            None \<Rightarrow> (-1, ops @ tops @ release, [])
                          | Some request \<Rightarrow>
                              (case send_full (hp_tx env) (bytes_of_string request) of
                                 (sent, out, _) \<Rightarrow>
                                   if \<not> sent then (-1, ops @ tops @ release, out)
                                   else (if http_response_ok (hp_rx env) then 0 else -1,
                                         ops @ tops @ (if tls then [SslShutdown] else []) @ release, out))))"

definition http_post :: "http_env \<Rightarrow> string \<Rightarrow> string \<Rightarrow> bool \<Rightarrow> int \<times> sys_op list \<times> byte list" where
  "http_post env url payload ignore_cert = http_post_with_headers env url payload ignore_cert None"

section \<open>Results of tasks and pings\<close>

text \<open>The headers of Cloudflare Access; None when they do not fit.\<close>

definition cf_headers :: "agent_config \<Rightarrow> string option" where
  "cf_headers cfg =
     (if ag_cf_access_client_id cfg \<noteq> [] \<and> ag_cf_access_client_secret cfg \<noteq> [] then
        snprintf_chk 512 (''CF-Access-Client-Id: '' @ ag_cf_access_client_id cfg @ crlf
                          @ ''CF-Access-Client-Secret: '' @ ag_cf_access_client_secret cfg @ crlf)
      else Some [])"

definition some_headers :: "string \<Rightarrow> string option" where
  "some_headers h = (if h \<noteq> [] then Some h else None)"

definition upload_url :: "agent_config \<Rightarrow> string \<Rightarrow> string option" where
  "upload_url cfg path =
     (case http_url_encode (ag_token cfg) 769 of None \<Rightarrow> None
      | Some encoded_token \<Rightarrow> snprintf_chk 1345 (ag_endpoint cfg @ path @ ''?token='' @ encoded_token))"

text \<open>What is posted; None is the result -1 before any connection.\<close>

definition task_result_post :: "agent_config \<Rightarrow> string \<Rightarrow> string \<Rightarrow> int \<Rightarrow> u64 \<Rightarrow> (string \<times> string \<times> string) option" where
  "task_result_post cfg task_id result exit_code finished_at =
     (case (utils_json_escape result, utils_json_escape task_id) of
        (Some escaped_result, Some escaped_task_id) \<Rightarrow>
          Option.bind (upload_url cfg ''/api/clients/task/result'') (\<lambda>url.
          Option.bind (snprintf_chk 8192
            (''{'' @ jq ''task_id'' @ '':'' @ jq escaped_task_id @ '','' @ jq ''result'' @ '':'' @ jq escaped_result
             @ '','' @ jq ''exit_code'' @ '':'' @ show_int exit_code @ '','' @ jq ''finished_at'' @ '':''
             @ fmt_u64 finished_at @ ''}'')) (\<lambda>payload.
          Option.bind (cf_headers cfg) (\<lambda>headers. Some (url, payload, headers))))
      | _ \<Rightarrow> None)"

definition report_upload_task_result ::
    "http_env \<Rightarrow> agent_config \<Rightarrow> string \<Rightarrow> string option \<Rightarrow> int \<Rightarrow> u64 \<Rightarrow> int \<times> sys_op list \<times> byte list" where
  "report_upload_task_result env cfg task_id result exit_code finished_at =
     (case task_result_post cfg task_id (case result of Some r \<Rightarrow> r | None \<Rightarrow> []) exit_code finished_at of
        None \<Rightarrow> (-1, [], [])
      | Some (url, payload, headers) \<Rightarrow>
          http_post_with_headers env url payload (ag_ignore_unsafe_cert cfg) (some_headers headers))"

definition ping_result_post :: "agent_config \<Rightarrow> u32 \<Rightarrow> string \<Rightarrow> int \<Rightarrow> u64 \<Rightarrow> (string \<times> string \<times> string) option" where
  "ping_result_post cfg task_id ping_type v finished_at =
     (case utils_json_escape ping_type of None \<Rightarrow> None
      | Some escaped \<Rightarrow>
          Option.bind (upload_url cfg ''/api/clients/ping/result'') (\<lambda>url.
          Option.bind (snprintf_chk 512
            (''{'' @ jq ''type'' @ '':'' @ jq ''ping_result'' @ '','' @ jq ''task_id'' @ '':'' @ show_nat (unat task_id)
             @ '','' @ jq ''ping_type'' @ '':'' @ jq escaped @ '','' @ jq ''value'' @ '':'' @ show_int v
             @ '','' @ jq ''finished_at'' @ '':'' @ fmt_u64 finished_at @ ''}'')) (\<lambda>payload.
          Option.bind (cf_headers cfg) (\<lambda>headers. Some (url, payload, headers)))))"

definition report_upload_ping_result ::
    "http_env \<Rightarrow> agent_config \<Rightarrow> u32 \<Rightarrow> string \<Rightarrow> int \<Rightarrow> u64 \<Rightarrow> int \<times> sys_op list \<times> byte list" where
  "report_upload_ping_result env cfg task_id ping_type v finished_at =
     (case ping_result_post cfg task_id ping_type v finished_at of
        None \<Rightarrow> (-1, [], [])
      | Some (url, payload, headers) \<Rightarrow>
          http_post_with_headers env url payload (ag_ignore_unsafe_cert cfg) (some_headers headers))"

section \<open>Properties\<close>

definition http_released :: "sys_op list \<Rightarrow> bool" where
  "http_released ops \<longleftrightarrow> (\<forall>g. surplus (OpenFd g) (CloseFd g) ops = 0)
     \<and> surplus CtxNew CtxFree ops = 0 \<and> surplus SslNew SslFree ops = 0"

lemma addrs_released:
  assumes "connect_addrs addrs = (fd, ops)"
  shows "surplus (OpenFd g) (CloseFd g) ops = (if g = fd \<and> 0 \<le> fd then 1 else 0)"
    "surplus CtxNew CtxFree ops = 0" "surplus SslNew SslFree ops = 0"
  using connect_addrs_ops [OF assms] by (auto intro!: surplus_other)

lemma tls_released:
  assumes "http_tls env ign host fd = (up, tops)"
  shows "up \<Longrightarrow> surplus (OpenFd g) (CloseFd g) tops = 0 \<and> surplus CtxNew CtxFree tops = 1 \<and> surplus SslNew SslFree tops = 1
      \<and> (\<not> ign \<longrightarrow> VerifyPeer \<in> set tops \<and> CheckHost host \<in> set tops)"
    "\<not> up \<Longrightarrow> surplus (OpenFd g) (CloseFd g) tops = (if g = fd then -1 else 0) \<and> surplus CtxNew CtxFree tops = 0
      \<and> surplus SslNew SslFree tops = 0"
  using assms by (auto simp: http_tls_def Let_def surplus_Cons split: if_splits)

lemma send_full_all: "send_full ts data = (True, out, ts') \<Longrightarrow> out = data"
  using send_full_prefix [of data ts] by auto

definition http_outcome :: "http_env \<Rightarrow> string \<Rightarrow> string \<Rightarrow> bool \<Rightarrow> string option \<Rightarrow> bool" where
  "http_outcome env url payload ign extra \<longleftrightarrow>
     (case (http_url_parts url, http_post_with_headers env url payload ign extra) of
        ((scheme, host, port, path), (rc, ops, out)) \<Rightarrow>
          http_released ops \<and> (rc = 0 \<or> rc = -1)
          \<and> (rc = 0 \<longrightarrow>
              (\<exists>request extra'. http_request path host extra' payload = Some request \<and> out = bytes_of_string request)
              \<and> http_response_ok (hp_rx env)
              \<and> (scheme = ''https'' \<and> \<not> ign \<longrightarrow> VerifyPeer \<in> set ops \<and> CheckHost host \<in> set ops)))"

lemma http_outcome_holds: "http_outcome env url payload ign extra"
proof -
  obtain scheme host port path where u: "http_url_parts url = (scheme, host, port, path)" by (metis prod_cases4)
  show ?thesis
  proof (cases "snprintf_chk 16 (show_int port) = None \<or> hp_gai env = None")
    case True
    then show ?thesis by (auto simp: http_outcome_def http_post_with_headers_def u http_released_def)
  next
    case False
    then obtain addrs where gai: "snprintf_chk 16 (show_int port) \<noteq> None" "hp_gai env = Some addrs" by auto
    obtain fd ops where c: "connect_addrs addrs = (fd, ops)" by force
    note ar = addrs_released [OF c]
    note run = http_outcome_def http_post_with_headers_def u gai c http_released_def
    obtain up tops where t: "(if scheme = ''https'' then http_tls env ign host fd else (True, [])) = (up, tops)" by force
    show ?thesis
    proof (cases "fd < 0 \<or> \<not> up")
      case True
      then show ?thesis using t ar tls_released(2) [of env ign host fd up tops]
        by (auto simp: run split: if_splits prod.splits)
    next
      case False
      let ?extra = "case extra of Some h \<Rightarrow> if h = [] then None else Some h | None \<Rightarrow> None"
      let ?release = "(if scheme = ''https'' then [SslFree, CtxFree] else []) @ [CloseFd fd]"
      have rel: "http_released (ops @ tops @ pre @ ?release)" if "pre = [] \<or> pre = [SslShutdown]" for pre
        using False t ar tls_released(1) [of env ign host fd up tops] that
        by (auto simp: http_released_def surplus_Cons split: if_splits)
      have tls: "scheme = ''https'' \<and> \<not> ign \<longrightarrow> VerifyPeer \<in> set tops \<and> CheckHost host \<in> set tops"
        using False t tls_released(1) [of env ign host fd up tops] by (auto split: if_splits)
      show ?thesis
      proof (cases "http_request path host ?extra payload")
        case None
        then show ?thesis using rel [of "[]"] False t
          by (simp add: http_outcome_def http_post_with_headers_def u gai c Let_def)
      next
        case (Some request)
        obtain sent out ts' where se: "send_full (hp_tx env) (bytes_of_string request) = (sent, out, ts')"
          by (metis prod_cases3)
        show ?thesis using rel [of "[]"] rel [of "[SslShutdown]"] tls False t Some se send_full_all [of "hp_tx env" _ out ts']
          by (cases sent; cases "scheme = ''https''")
            (auto simp: http_outcome_def http_post_with_headers_def u gai c Let_def)
      qed
    qed
  qed
qed


definition sample_http :: http_env where
  "sample_http = \<lparr>hp_gai = Some [(4, False), (5, True)], hp_ctx_ok = True, hp_ssl_new_ok = True, hp_ssl_connect_ok = True,
     hp_tx = [TxSent 1000], hp_rx = [RxData (bytes_of_string ''HTTP/1.1 200 OK'')]\<rparr>"

lemma send_full_once: "data \<noteq> [] \<Longrightarrow> length data \<le> k \<Longrightarrow> send_full (TxSent k # ts) data = (True, data, ts)"
  by (cases data) auto

lemma sample_url: "http_url_parts ''https://panel:8443/r?token=t'' = (''https'', ''panel'', 8443, ''/r?token=t'')"
  by code_simp

definition sample_post :: string where
  "sample_post = the (http_request ''/r?token=t'' ''panel'' None ''{}'')"

lemma sample_request_text:
  "http_request ''/r?token=t'' ''panel'' None ''{}'' = Some sample_post" "sample_post \<noteq> []" "length sample_post \<le> 1000"
  by (simp_all add: sample_post_def http_request_def snprintf_chk_def crlf_def show_nat.simps)

lemma sample_response: "http_response_ok (hp_rx sample_http)"
  by code_simp

lemma sample_http_run: "\<exists>ops out. http_post_with_headers sample_http ''https://panel:8443/r?token=t'' ''{}'' False None = (0, ops, out)"
proof -
  have p: "snprintf_chk 16 (show_int 8443) \<noteq> None" by (simp add: snprintf_chk_def show_int_def show_nat.simps)
  have env: "hp_tx sample_http = [TxSent 1000]" "hp_gai sample_http = Some [(4, False), (5, True)]"
    "hp_ctx_ok sample_http" "hp_ssl_new_ok sample_http" "hp_ssl_connect_ok sample_http"
    unfolding sample_http_def by (simp_all only: http_env.simps)
  have "send_full (hp_tx sample_http) (bytes_of_string sample_post) = (True, bytes_of_string sample_post, [])"
    unfolding env using sample_request_text(2,3) by (intro send_full_once) (simp_all add: bytes_of_string_def)
  with p sample_request_text(1) sample_response show ?thesis
    by (simp add: http_post_with_headers_def sample_url http_tls_def Let_def env)
qed


lemma esc_length: "length s \<le> length (concat (map esc s))"
proof (induction s)
  case (Cons c s)
  then show ?case using esc_nonempty [of c] by (cases "esc c") auto
qed simp

lemma show_int_nonempty: "show_int i \<noteq> []"
  by (simp add: show_int_def)

lemma task_result_too_long:
  assumes "8136 \<le> length (concat (map esc result))"
  shows "task_result_post cfg task_id result exit_code finished_at = None"
proof -
  have "1 \<le> length (show_int exit_code)" "1 \<le> length (fmt_u64 finished_at)"
    using show_int_nonempty [of exit_code] show_nat_not_Nil [of "unat finished_at"]
    by (auto simp: fmt_u64_def Suc_le_eq)
  then show ?thesis using assms
    by (auto simp: task_result_post_def json_escape_eq snprintf_chk_def jq_def bind_eq_None_conv)
qed

text \<open>Defect: the output of a command is captured into 8192 bytes and escaped into a payload of 8192
  bytes; once its escaped text reaches 8136 characters (8136 plain ones, 4068 line feeds), the upload
  is refused before any connection, so the panel never learns that the command has finished.\<close>

theorem long_task_result_lost:
  assumes "8136 \<le> length (concat (map esc result))"
  shows "report_upload_task_result env cfg task_id (Some result) exit_code finished_at = (-1, [], [])"
  using task_result_too_long [OF assms] by (simp add: report_upload_task_result_def)

theorem long_task_result_lost_witness:
  "report_upload_task_result \<lparr>hp_gai = Some [(5, True)], hp_ctx_ok = True, hp_ssl_new_ok = True,
     hp_ssl_connect_ok = True, hp_tx = [TxSent 100000], hp_rx = []\<rparr> config_init ''t1''
     (Some (replicate 8191 CHR ''x'')) 0 1700000000 = (-1, [], [])"
  by (rule long_task_result_lost, rule order_trans [OF _ esc_length]) simp

end
