(* ===== verification/Ping.thy ===== *)
theory Ping
  imports Upload
begin

text \<open>
  Ping tasks (\<open>src/ping/ping.c\<close>): targets, name resolution, the three probes and the retries of a task.
  Address parsing, name servers, the clock and the sockets are arguments; descriptors and TLS
  objects are operations of a log.
\<close>

section \<open>Addresses and names\<close>

datatype ip_addr = V4 "byte list" | V6 "byte list"

record ping_env =
  pe_pton4 :: "string \<Rightarrow> byte list option"      \<comment> \<open>\<open>inet_pton(AF_INET)\<close>\<close>
  pe_pton6 :: "string \<Rightarrow> byte list option"
  pe_dns :: "string \<Rightarrow> string \<Rightarrow> string option"  \<comment> \<open>\<open>dns_resolver_lookup\<close> at a server\<close>
  pe_gai :: "string \<Rightarrow> string option"          \<comment> \<open>\<open>getaddrinfo\<close> and \<open>inet_ntop\<close>\<close>

definition parse_ip_family :: "ping_env \<Rightarrow> string \<Rightarrow> ip_addr option" where
  "parse_ip_family env ip =
     (case pe_pton4 env ip of Some a \<Rightarrow> Some (V4 a) | None \<Rightarrow> map_option V6 (pe_pton6 env ip))"

definition strip_ipv6_brackets :: "nat \<Rightarrow> string \<Rightarrow> string option" where
  "strip_ipv6_brackets host_size host =
     (if host = [] \<or> hd host \<noteq> CHR ''['' then Some host
      else case strchr CHR '']'' host of
             None \<Rightarrow> None
           | Some e \<Rightarrow>
               let inner = length (upto_ptr host e) - 1
               in if inner \<ge> host_size then None else Some (take inner (tl host)))"

definition ping_resolve_ip :: "ping_env \<Rightarrow> string \<Rightarrow> nat \<Rightarrow> string \<Rightarrow> string option" where
  "ping_resolve_ip env target ip_size custom_dns =
     (if pe_pton4 env target \<noteq> None \<or> pe_pton6 env target \<noteq> None then Some (take (ip_size - 1) target)
      else case (if custom_dns \<noteq> [] then pe_dns env custom_dns target else None) of
             Some ip \<Rightarrow> Some ip
           | None \<Rightarrow> map_option (take (ip_size - 1)) (pe_gai env target))"

text \<open>\<open>char ip[INET6_ADDRSTRLEN]\<close>, and what follows it in all three probes.\<close>

definition ping_address :: "ping_env \<Rightarrow> string \<Rightarrow> string \<Rightarrow> ip_addr option" where
  "ping_address env host custom_dns =
     (case ping_resolve_ip env host 46 custom_dns of None \<Rightarrow> None | Some ip \<Rightarrow> parse_ip_family env ip)"

section \<open>The checksum\<close>

text \<open>Two bytes read as a \<open>uint16_t\<close> of the host; \<open>be\<close>: the host is big-endian.\<close>

definition half :: "bool \<Rightarrow> byte \<Rightarrow> byte \<Rightarrow> u64" where
  "half be a b = of_nat (if be then 256 * unat a + unat b else unat a + 256 * unat b)"

fun sum16 :: "bool \<Rightarrow> byte list \<Rightarrow> u64 \<Rightarrow> u64" where
  "sum16 be (a # b # r) s = sum16 be r (s + half be a b)"
| "sum16 be [a] s = s + of_nat (unat a)"
| "sum16 be [] s = s"

lemma low_half: "unat (s AND 0xFFFF :: u64) = unat s mod 65536"
proof -
  have "s AND 0xFFFF = take_bit 16 s" by (simp add: take_bit_eq_mask mask_eq_exp_minus_1)
  then show ?thesis by (simp only: unsigned_take_bit_eq) (simp only: take_bit_eq_mod, simp)
qed

lemma high_half: "unat (drop_bit 16 s :: u64) = unat s div 65536"
  by (simp add: drop_bit_eq_div unat_div_distrib)

lemma fold_step: "unat ((s AND 0xFFFF) + drop_bit 16 s :: u64) = unat s mod 65536 + unat s div 65536"
proof -
  have "unat s < 2 ^ 64" using unsigned_less [of s] by simp
  then have "unat s mod 65536 + unat s div 65536 < 2 ^ 64" by linarith
  then show ?thesis by (simp only: unat_word_ariths(1) low_half high_half) simp
qed

lemma fold_less: "drop_bit 16 s \<noteq> 0 \<Longrightarrow> unat ((s AND 0xFFFF) + drop_bit 16 s :: u64) < unat s"
proof -
  assume "drop_bit 16 s \<noteq> 0"
  then have "0 < unat s div 65536" using high_half [of s] by (metis gr0I unat_eq_0)
  then show ?thesis unfolding fold_step using div_mult_mod_eq [of "unat s" 65536] by linarith
qed

function fold16 :: "u64 \<Rightarrow> u64" where
  "fold16 s = (if drop_bit 16 s = 0 then s else fold16 ((s AND 0xFFFF) + drop_bit 16 s))"
  by pat_completeness auto
termination
  by (relation "measure unat", rule wf_measure, simp only: in_measure, rule fold_less)

declare fold16.simps [simp del]

definition compute_checksum :: "bool \<Rightarrow> byte list \<Rightarrow> 16 word" where
  "compute_checksum be p = NOT (ucast (fold16 (sum16 be p 0)))"

text \<open>A \<open>uint16_t\<close> of the host in memory.\<close>

definition put16 :: "bool \<Rightarrow> 16 word \<Rightarrow> byte list" where
  "put16 be w = (let hi = ucast (drop_bit 8 w); lo = ucast w in if be then [hi, lo] else [lo, hi])"

section \<open>The echo request\<close>

datatype ping_op = PoSys sys_op | PoConnect ip_addr int | PoEcho ip_addr "byte list" | PoSent "byte list"

definition icmp_packet :: "bool \<Rightarrow> 16 word \<Rightarrow> byte list" where
  "icmp_packet be echo_id =
     (let packet = [8, 0, 0, 0] @ put16 be echo_id @ put16 be 1 @ replicate 56 0
      in take 2 packet @ put16 be (compute_checksum be packet) @ drop 4 packet)"

definition icmp6_packet :: "bool \<Rightarrow> 16 word \<Rightarrow> byte list" where
  "icmp6_packet be echo_id = [128, 0, 0, 0] @ put16 be echo_id @ put16 be 1 @ replicate 56 0"

text \<open>What one turn of the receive loop meets; the sender is None when it has another address family.\<close>

datatype icmp_recv = RecvRetry | RecvError | RecvFrom "ip_addr option" "byte list"

record icmp_turn =
  tu_now :: int
  tu_recv :: icmp_recv
  tu_end :: int

definition icmp_reply :: "bool \<Rightarrow> 16 word \<Rightarrow> ip_addr \<Rightarrow> ip_addr option \<Rightarrow> byte list \<Rightarrow> bool" where
  "icmp_reply be echo_id addr src data =
     (src = Some addr \<and>
      (case addr of
         V4 _ \<Rightarrow>
           20 \<le> length data \<and>
           (let ihl = unat (data ! 0 AND 0x0F); ip_hdr_len = ihl * 4
            in 5 \<le> ihl \<and> ip_hdr_len \<le> length data \<and> data ! 9 = 1 \<and> ip_hdr_len + 8 \<le> length data
               \<and> data ! ip_hdr_len = 0 \<and> take 2 (drop (ip_hdr_len + 4) data) = put16 be echo_id)
       | V6 _ \<Rightarrow> 8 \<le> length data \<and> data ! 0 = 129 \<and> take 2 (drop 4 data) = put16 be echo_id))"

text \<open>The loop, from turn \<open>k\<close>; None: it never ends.\<close>

partial_function (option) icmp_wait ::
    "(ip_addr option \<Rightarrow> byte list \<Rightarrow> bool) \<Rightarrow> int \<Rightarrow> int \<Rightarrow> (nat \<Rightarrow> icmp_turn) \<Rightarrow> nat \<Rightarrow> int option" where
  "icmp_wait reply timeout_ms start turns k =
     (if tu_now (turns k) - start \<ge> timeout_ms then Some (-1)
      else case tu_recv (turns k) of
             RecvRetry \<Rightarrow> icmp_wait reply timeout_ms start turns (k + 1)
           | RecvError \<Rightarrow> Some (-1)
           | RecvFrom src data \<Rightarrow>
               if reply src data then Some (c_int_of_long (tu_end (turns k) - start))
               else icmp_wait reply timeout_ms start turns (k + 1))"

record icmp_env =
  ic_be :: bool
  ic_fd :: int
  ic_id :: "16 word"      \<comment> \<open>of the process id\<close>
  ic_send_ok :: bool
  ic_start :: int
  ic_turns :: "nat \<Rightarrow> icmp_turn"

definition ping_task_icmp ::
    "ping_env \<Rightarrow> icmp_env \<Rightarrow> string \<Rightarrow> int \<Rightarrow> string \<Rightarrow> (int \<times> ping_op list) option" where
  "ping_task_icmp env ic target timeout_ms custom_dns =
     (case (if target \<noteq> [] \<and> hd target = CHR ''['' then strip_ipv6_brackets 256 (take 255 target) else Some target) of
        None \<Rightarrow> Some (-1, [])
      | Some host \<Rightarrow>
          (case ping_address env host custom_dns of
             None \<Rightarrow> Some (-1, [])
           | Some addr \<Rightarrow>
               if ic_fd ic < 0 then Some (-1, [])
               else
                 let packet = (case addr of V4 _ \<Rightarrow> icmp_packet (ic_be ic) (ic_id ic) | V6 _ \<Rightarrow> icmp6_packet (ic_be ic) (ic_id ic));
                     opened = [PoSys (OpenFd (ic_fd ic)), PoEcho addr packet]
                 in if \<not> ic_send_ok ic then Some (-1, opened @ [PoSys (CloseFd (ic_fd ic))])
                    else map_option (\<lambda>v. (v, opened @ [PoSys (CloseFd (ic_fd ic))]))
                      (icmp_wait (icmp_reply (ic_be ic) (ic_id ic) addr) timeout_ms (ic_start ic) (ic_turns ic) 0)))"

section \<open>The TCP probe\<close>

text \<open>\<open>connect\<close> on a non-blocking socket: at once, in progress, refused.\<close>

datatype conn_try = ConnNow | ConnWait | ConnFail

record sock_env =
  se_fd :: int
  se_nonblock_ok :: bool
  se_connect :: conn_try
  se_poll :: int
  se_so_error :: int
  se_start :: int
  se_end :: int

definition tcp_target :: "string \<Rightarrow> string \<times> string" where
  "tcp_target target =
     (case strrchr CHR '':'' target of
        Some colon \<Rightarrow> (take 255 (upto_ptr target colon), take 7 (tl colon))
      | None \<Rightarrow> (take 255 target, ''80''))"

definition port_of :: "string \<Rightarrow> int" where
  "port_of digits = (let port = atoi digits in if port \<le> 0 \<or> port > 65535 then 80 else port)"

text \<open>Socket, \<open>O_NONBLOCK\<close>, \<open>connect\<close> and \<open>poll\<close>, shared by both stream probes: False after closing.\<close>

definition open_stream :: "'a sock_env_scheme \<Rightarrow> ip_addr \<Rightarrow> int \<Rightarrow> bool \<times> ping_op list" where
  "open_stream se addr port =
     (let fd = se_fd se; close = [PoSys (CloseFd fd)]; opened = [PoSys (OpenFd fd)]; tried = opened @ [PoConnect addr port]
      in if fd < 0 then (False, [])
         else if \<not> se_nonblock_ok se then (False, opened @ close)
         else case se_connect se of
             ConnFail \<Rightarrow> (False, tried @ close)
           | ConnNow \<Rightarrow> (True, tried)
           | ConnWait \<Rightarrow> if se_poll se \<le> 0 \<or> se_so_error se \<noteq> 0 then (False, tried @ close) else (True, tried))"

definition ping_task_tcp :: "ping_env \<Rightarrow> sock_env \<Rightarrow> string \<Rightarrow> string \<Rightarrow> int \<times> ping_op list" where
  "ping_task_tcp env se target custom_dns =
     (case tcp_target target of (host0, port_str) \<Rightarrow>
        case strip_ipv6_brackets 256 host0 of None \<Rightarrow> (-1, [])
      | Some host \<Rightarrow>
          (case ping_address env host custom_dns of None \<Rightarrow> (-1, [])
           | Some addr \<Rightarrow>
               (case open_stream se addr (port_of port_str) of
                  (False, ops) \<Rightarrow> (-1, ops)
                | (True, ops) \<Rightarrow> (c_int_of_long (se_end se - se_start se), ops @ [PoSys (CloseFd (se_fd se))]))))"

section \<open>The HTTP probe\<close>

definition has_http :: "string \<Rightarrow> bool" where
  "has_http url \<longleftrightarrow> starts_with ''http://'' url \<or> starts_with ''https://'' url"

text \<open>The URL: a bare IPv6 literal gets brackets, a target without a scheme \<open>http://\<close>.\<close>

definition http_ping_url :: "ping_env \<Rightarrow> string \<Rightarrow> string option" where
  "http_ping_url env target =
     (case (if \<not> has_http target \<and> (target = [] \<or> hd target \<noteq> CHR ''['') \<and> strchr CHR '':'' target \<noteq> None
               \<and> pe_pton6 env target \<noteq> None
            then snprintf_chk 384 (''['' @ target @ '']'') else Some target) of
        None \<Rightarrow> None
      | Some t \<Rightarrow> if \<not> has_http t then snprintf_chk 512 (''http://'' @ t) else Some (take 511 t))"

text \<open>Host header, port and whether to use TLS.\<close>

definition http_ping_parts :: "string \<Rightarrow> string \<times> int \<times> bool" where
  "http_ping_parts url =
     (let (use_tls, rest) =
            (case strstr ''://'' url of
               Some s \<Rightarrow> (starts_with ''https'' url, drop 3 s)
             | None \<Rightarrow> (False, url));
          port = (if use_tls then 443 else 80);
          host = take 255 (case strchr CHR ''/'' rest of Some path_start \<Rightarrow> upto_ptr rest path_start | None \<Rightarrow> rest)
      in case strrchr CHR '':'' host of
           None \<Rightarrow> (host, port, use_tls)
         | Some colon \<Rightarrow>
             if (case strchr CHR '']'' host of None \<Rightarrow> True | Some bracket \<Rightarrow> length colon < length bracket)
             then let v = atoi (tl colon) in (upto_ptr host colon, if 0 < v \<and> v \<le> 65535 then v else port, use_tls)
             else (host, port, use_tls))"

definition verify_name :: "string \<Rightarrow> string" where
  "verify_name host =
     (if 2 \<le> length host \<and> hd host = CHR ''['' \<and> last host = CHR '']'' then butlast (tl host) else host)"

definition ping_request :: "string \<Rightarrow> string option" where
  "ping_request host =
     snprintf_chk 1024 (''GET / HTTP/1.1'' @ crlf @ ''Host: '' @ host @ crlf
       @ ''User-Agent: KomariAgent/1.0'' @ crlf @ ''Connection: close'' @ crlf @ crlf)"

text \<open>\<open>sscanf(recv_buf, "HTTP/%*d.%*d %d", &status_code)\<close>.\<close>

definition status_code :: "string \<Rightarrow> int option" where
  "status_code s =
     (if \<not> starts_with ''HTTP/'' s then None
      else case strtol10 (drop 5 s) of (_, e1, True) \<Rightarrow>
             if \<not> starts_with ''.'' e1 then None
             else (case strtol10 (tl e1) of (_, e2, True) \<Rightarrow>
                     (case strtol10 e2 of (v, _, True) \<Rightarrow> Some (c_int_of_long v) | _ \<Rightarrow> None)
                   | _ \<Rightarrow> None)
           | _ \<Rightarrow> None)"

definition ping_status_ok :: "string \<Rightarrow> bool" where
  "ping_status_ok s \<longleftrightarrow>
     strstr ''HTTP/1.'' s \<noteq> None \<and> (case status_code s of Some v \<Rightarrow> 200 \<le> v \<and> v < 400 | None \<Rightarrow> False)"

text \<open>The socket of a probe: a read on it while it is non-blocking only sees \<open>we_rx_now\<close>, what has arrived when
  the request has just been sent; a blocking read waits for \<open>hp_rx\<close>.\<close>

record web_env = sock_env +
  we_http :: http_env
  we_rx_now :: "rx list"

definition ping_read :: "web_env \<Rightarrow> bool \<Rightarrow> string option" where
  "ping_read we blocking =
     (case recv_some 1023 (if blocking then hp_rx (we_http we) else we_rx_now we) of
        (IoBytes bs, _) \<Rightarrow> Some (c_str bs)
      | _ \<Rightarrow> None)"

definition ping_exchange :: "web_env \<Rightarrow> string \<Rightarrow> bool \<Rightarrow> int \<times> ping_op list" where
  "ping_exchange we host use_tls =
     (let release = map PoSys ((if use_tls then [SslFree, CtxFree] else []) @ [CloseFd (se_fd we)])
      in case ping_request host of
           None \<Rightarrow> (-1, release)
         | Some request \<Rightarrow>
             (case send_full (hp_tx (we_http we)) (bytes_of_string request) of
                (sent, out, _) \<Rightarrow>
                  if \<not> sent then (-1, PoSent out # release)
                  else case ping_read we use_tls of
                         None \<Rightarrow> (-1, PoSent out # release)
                       | Some s \<Rightarrow>
                           (if ping_status_ok s then c_int_of_long (se_end we - se_start we) else -1,
                            PoSent out # map PoSys (if use_tls then [SslShutdown] else []) @ release)))"

definition ping_task_http :: "ping_env \<Rightarrow> web_env \<Rightarrow> string \<Rightarrow> string \<Rightarrow> bool \<Rightarrow> int \<times> ping_op list" where
  "ping_task_http env we target custom_dns ignore_cert =
     (case http_ping_url env target of None \<Rightarrow> (-1, [])
      | Some url \<Rightarrow>
          (case http_ping_parts url of (host, port, use_tls) \<Rightarrow>
             case strip_ipv6_brackets 256 host of None \<Rightarrow> (-1, [])
           | Some name \<Rightarrow>
               (case ping_address env name custom_dns of None \<Rightarrow> (-1, [])
                | Some addr \<Rightarrow>
                    (case open_stream we addr port of
                       (False, ops) \<Rightarrow> (-1, ops)
                     | (True, ops) \<Rightarrow>
                         (case (if use_tls then http_tls (we_http we) ignore_cert (verify_name host) (se_fd we) else (True, [])) of
                            (False, tops) \<Rightarrow> (-1, ops @ map PoSys tops)
                          | (True, tops) \<Rightarrow>
                              (case ping_exchange we host use_tls of (v, xops) \<Rightarrow> (v, ops @ map PoSys tops @ xops)))))))"

section \<open>A task\<close>

record ping_task_config =
  pc_timeout_ms :: int
  pc_threshold :: int
  pc_retries :: int
  pc_custom_dns :: string
  pc_ignore_cert :: bool

record ping_task_result =
  pr_task_id :: u32
  pr_type :: string
  pr_target :: string
  pr_latency :: int
  pr_result :: int
  pr_finished_at :: int

definition ping_result_zero :: ping_task_result where
  "ping_result_zero = \<lparr>pr_task_id = 0, pr_type = [], pr_target = [], pr_latency = 0, pr_result = 0, pr_finished_at = 0\<rparr>"

definition ping_rejected :: "string \<Rightarrow> string \<Rightarrow> bool" where
  "ping_rejected target type \<longleftrightarrow> contains_crlf target \<or> type \<notin> {''icmp'', ''tcp'', ''http''}"

text \<open>The sockets of attempt \<open>k\<close>.\<close>

record attempt_env =
  at_icmp :: "nat \<Rightarrow> icmp_env"
  at_tcp :: "nat \<Rightarrow> sock_env"
  at_http :: "nat \<Rightarrow> web_env"

definition ping_attempt ::
    "ping_env \<Rightarrow> attempt_env \<Rightarrow> ping_task_config \<Rightarrow> string \<Rightarrow> string \<Rightarrow> nat \<Rightarrow> (int \<times> ping_op list) option" where
  "ping_attempt env ae cfg target type k =
     (if type = ''icmp'' then ping_task_icmp env (at_icmp ae k) target (pc_timeout_ms cfg) (pc_custom_dns cfg)
      else if type = ''tcp'' then Some (ping_task_tcp env (at_tcp ae k) target (pc_custom_dns cfg))
      else Some (ping_task_http env (at_http ae k) target (pc_custom_dns cfg) (pc_ignore_cert cfg)))"

fun ping_retries :: "(nat \<Rightarrow> int option) \<Rightarrow> int \<Rightarrow> nat \<Rightarrow> nat \<Rightarrow> int \<Rightarrow> int option" where
  "ping_retries probe threshold k 0 latency = Some latency"
| "ping_retries probe threshold k (Suc left) latency =
     (case probe k of
        None \<Rightarrow> None
      | Some retry \<Rightarrow>
          if 0 \<le> retry \<and> retry \<le> threshold then Some retry
          else ping_retries probe threshold (k + 1) left latency)"

definition ping_task_execute ::
    "ping_env \<Rightarrow> attempt_env \<Rightarrow> ping_task_config \<Rightarrow> int \<Rightarrow> string \<Rightarrow> string \<Rightarrow> (int \<times> ping_task_result) option" where
  "ping_task_execute env ae cfg now target type =
     (if ping_rejected target type then Some (-1, ping_result_zero\<lparr>pr_result := -1\<rparr>)
      else
        let probe = (\<lambda>k. map_option fst (ping_attempt env ae cfg target type k))
        in case probe 0 of
             None \<Rightarrow> None
           | Some first \<Rightarrow>
               map_option
                 (\<lambda>latency.
                    (if latency \<ge> 0 then 0 else -1,
                     ping_result_zero\<lparr>pr_type := take 15 type, pr_target := take 255 target,
                       pr_latency := latency, pr_result := latency, pr_finished_at := now\<rparr>))
                 (if first > pc_threshold cfg \<and> pc_retries cfg > 0
                  then ping_retries probe (pc_threshold cfg) 1 (nat (pc_retries cfg)) first
                  else Some first))"

section \<open>The checksum is right\<close>

fun nsum :: "bool \<Rightarrow> byte list \<Rightarrow> nat" where
  "nsum be (a # b # r) = (if be then 256 * unat a + unat b else unat a + 256 * unat b) + nsum be r"
| "nsum be [a] = unat a"
| "nsum be [] = 0"

lemma byte_less: "unat (b :: byte) < 256" "unat (b :: byte) \<le> 255"
proof -
  have "unat b < 2 ^ LENGTH(8)" by (rule unsigned_less)
  then show "unat b < 256" by simp
  then show "unat b \<le> 255" by simp
qed

lemma unat_half: "unat (half be a b) = (if be then 256 * unat a + unat b else unat a + 256 * unat b)"
proof -
  have "unat a < 256" "unat b < 256" by (rule byte_less)+
  then have "(if be then 256 * unat a + unat b else unat a + 256 * unat b) < 2 ^ 64" by simp
  then show ?thesis by (simp add: half_def unat_of_nat)
qed

lemma sum16_nsum: "unat s + nsum be p < 2 ^ 64 \<Longrightarrow> unat (sum16 be p s) = unat s + nsum be p"
proof (induction be p s rule: sum16.induct)
  case (1 be a b r s)
  have "unat (s + half be a b) = unat s + unat (half be a b)"
    using "1.prems" by (intro unat_add_lem [THEN iffD1]) (simp add: unat_half split: if_splits)
  with 1 show ?case by (simp add: unat_half split: if_splits)
next
  case (2 be a s)
  have "unat (of_nat (unat a) :: u64) = unat a" using byte_less(1) [of a] by (simp only: unat_of_nat) simp
  with 2 show ?case using unat_add_lem [of s "of_nat (unat a)"] by simp
qed simp

lemma nsum_bound: "nsum be p \<le> 65535 * length p"
proof (induction be p rule: nsum.induct)
  case (1 be a b r)
  have "unat a \<le> 255" "unat b \<le> 255" by (rule byte_less)+
  with 1 show ?case by (cases be) simp_all
next
  case (2 be a)
  have "unat a \<le> 255" by (rule byte_less)
  then show ?case by simp
qed simp

lemma fold16_facts:
  "unat (fold16 s) < 65536 \<and> unat (fold16 s) mod 65535 = unat s mod 65535 \<and> (unat (fold16 s) = 0 \<longleftrightarrow> unat s = 0)"
proof (induction s rule: fold16.induct)
  case (1 s)
  show ?case
  proof (cases "drop_bit 16 s = 0")
    case True
    then have "unat s div 65536 = 0" using high_half [of s] by simp
    then show ?thesis by (simp add: fold16.simps [of s] True)
  next
    case False
    have d: "unat s = 65536 * (unat s div 65536) + unat s mod 65536" by simp
    have "(unat s mod 65536 + unat s div 65536) mod 65535 = (65535 * (unat s div 65536) + (unat s mod 65536 + unat s div 65536)) mod 65535"
      by (simp only: mod_mult_self4)
    also have "65535 * (unat s div 65536) + (unat s mod 65536 + unat s div 65536) = unat s" using d by linarith
    finally have m: "(unat s mod 65536 + unat s div 65536) mod 65535 = unat s mod 65535" .
    have "unat s mod 65536 + unat s div 65536 = 0 \<longleftrightarrow> unat s = 0" using d by linarith
    with 1 [OF False] m show ?thesis by (simp add: fold16.simps [of s] False fold_step)
  qed
qed

lemma fold16_ones: "unat s mod 65535 = 0 \<Longrightarrow> unat s \<noteq> 0 \<Longrightarrow> unat (fold16 s) = 65535"
proof -
  assume "unat s mod 65535 = 0" "unat s \<noteq> 0"
  then have f: "unat (fold16 s) < 65536" "unat (fold16 s) mod 65535 = 0" "unat (fold16 s) \<noteq> 0"
    using fold16_facts [of s] by simp_all
  then obtain q where "unat (fold16 s) = 65535 * q" by (auto elim: dvdE simp: mod_eq_0_iff_dvd)
  with f show ?thesis by simp
qed

lemma unat_not16: "unat (NOT w :: 16 word) = 65535 - unat w"
proof -
  have "NOT w = -1 - w" by (simp add: not_eq_complement)
  moreover have "unat (- 1 - w) = unat (- 1 :: 16 word) - unat w" by (rule unat_sub) simp
  moreover have "unat (- 1 :: 16 word) = 65535" by (simp add: unsigned_minus_1_eq_mask mask_eq_exp_minus_1)
  ultimately show ?thesis by simp
qed

lemma unat_checksum:
  assumes "length p \<le> 1000"
  shows "unat (compute_checksum be p) = 65535 - unat (fold16 (sum16 be p 0)) \<and> unat (sum16 be p 0) = nsum be p"
proof -
  have "nsum be p < 2 ^ 64" using nsum_bound [of be p] assms by simp
  then have s: "unat (sum16 be p 0) = nsum be p" using sum16_nsum [of 0 be p] by simp
  have "unat (ucast (fold16 (sum16 be p 0)) :: 16 word) = unat (fold16 (sum16 be p 0)) mod 2 ^ 16"
    by (simp add: unsigned_ucast_eq take_bit_eq_mod)
  with fold16_facts [of "sum16 be p 0"] s show ?thesis by (simp add: compute_checksum_def unat_not16)
qed

lemma checksum_zero:
  assumes "length p \<le> 1000" "nsum be p mod 65535 = 0" "nsum be p \<noteq> 0"
  shows "compute_checksum be p = 0"
  using unat_checksum [OF assms(1), of be] fold16_ones [of "sum16 be p 0"] assms(2,3) by (simp add: unat_eq_0)

text \<open>The other byte order multiplies the sum by 256, modulo 65535.\<close>

lemma nsum_swap: "even (length p) \<Longrightarrow> nsum (\<not> be) p mod 65535 = (256 * nsum be p) mod 65535"
proof (induction be p rule: nsum.induct)
  case (1 be a b r)
  have x: "(256 * (256 * x + y)) mod 65535 = (x + 256 * y) mod 65535" for x y :: nat
  proof -
    have "256 * (256 * x + y) = 65535 * x + (x + 256 * y)" by simp
    then show ?thesis by (simp only: mod_mult_self4)
  qed
  let ?h = "\<lambda>be. if be then 256 * unat a + unat b else unat a + 256 * unat b"
  have "?h (\<not> be) mod 65535 = (256 * ?h be) mod 65535"
    using x [of "unat a" "unat b"] x [of "unat b" "unat a"] by (cases be) (simp_all only: if_True if_False simp_thms add.commute)
  moreover have "nsum (\<not> be) r mod 65535 = (256 * nsum be r) mod 65535" using 1 by simp
  ultimately have "(?h (\<not> be) + nsum (\<not> be) r) mod 65535 = (256 * ?h be + 256 * nsum be r) mod 65535"
    by (rule mod_add_cong)
  then show ?case by (simp only: nsum.simps distrib_left)
qed simp_all

lemma nsum_put16: "nsum be (put16 be w @ r) = unat w + nsum be r"
proof -
  have "unat w < 2 ^ LENGTH(16)" by (rule unsigned_less)
  then have h: "unat (ucast (drop_bit 8 w) :: byte) = unat w div 256"
    by (simp add: unsigned_ucast_eq take_bit_eq_mod drop_bit_eq_div unat_div_distrib less_mult_imp_div_less)
  have l: "unat (ucast w :: byte) = unat w mod 256" by (simp add: unsigned_ucast_eq take_bit_eq_mod)
  show ?thesis by (simp add: put16_def Let_def h l)
qed

lemma put16_length [simp]: "length (put16 be w) = 2" by (simp add: put16_def Let_def)

lemma packet_split: "icmp_packet be i =
   [8, 0] @ put16 be (compute_checksum be ([8, 0, 0, 0] @ put16 be i @ put16 be 1 @ replicate 56 0))
     @ put16 be i @ put16 be 1 @ replicate 56 0"
  unfolding icmp_packet_def Let_def by (simp add: numeral_eq_Suc del: replicate.simps)

lemma packet_checksum: "compute_checksum be' (icmp_packet be i) = 0"
proof -
  let ?rest = "put16 be i @ put16 be 1 @ replicate 56 0"
  let ?c = "compute_checksum be ([8, 0, 0, 0] @ ?rest)"
  define S where "S = nsum be ([8, 0, 0, 0] @ ?rest)"
  define f where "f = unat (fold16 (sum16 be ([8, 0, 0, 0] @ ?rest) 0))"
  have c: "unat ?c = 65535 - f" and u: "unat (sum16 be ([8, 0, 0, 0] @ ?rest) 0) = S"
    using unat_checksum [of "[8, 0, 0, 0] @ ?rest" be] by (simp_all add: S_def f_def)
  have f: "f < 65536" "f mod 65535 = S mod 65535"
    using fold16_facts [of "sum16 be ([8, 0, 0, 0] @ ?rest) 0"] unfolding u by (simp_all add: f_def)
  have n: "nsum be (icmp_packet be i) = S + unat ?c"
    unfolding packet_split by (simp add: nsum_put16 S_def)
  have "(S + (65535 - f)) mod 65535 = (f + (65535 - f)) mod 65535" by (intro mod_add_cong) (simp_all add: f)
  with f have "(S + (65535 - f)) mod 65535 = 0" by simp
  then have z: "nsum be (icmp_packet be i) mod 65535 = 0" unfolding n c .
  have len: "length (icmp_packet be i) = 64" by (simp add: packet_split)
  have z': "nsum be' (icmp_packet be i) mod 65535 = 0"
  proof (cases "be' = be")
    case False
    then have "nsum be' (icmp_packet be i) mod 65535 = (256 * nsum be (icmp_packet be i)) mod 65535"
      using nsum_swap [of "icmp_packet be i" be] len by (cases be; cases be') simp_all
    also have "\<dots> = 0" using z mod_mult_right_eq [of 256 "nsum be (icmp_packet be i)" 65535] by simp
    finally show ?thesis .
  qed (simp add: z)
  have "nsum be' (icmp_packet be i) \<noteq> 0" unfolding packet_split by simp
  with z' len show ?thesis by (intro checksum_zero) simp_all
qed

text \<open>The echo request the agent sends has 64 bytes, the type, code, identifier and sequence number it should
  have, and a checksum that a receiver of either byte order accepts (RFC 1071), whatever the byte order
  of the agent.\<close>

theorem icmp_packet_valid:
  "length (icmp_packet be i) = 64 \<and> take 2 (icmp_packet be i) = [8, 0]
     \<and> take 4 (drop 4 (icmp_packet be i)) = put16 be i @ put16 be 1
     \<and> compute_checksum be' (icmp_packet be i) = 0"
  using packet_checksum [of be' be i] by (simp add: packet_split)

section \<open>The ICMP probe ends\<close>

lemma wait_ends:
  assumes "timeout_ms \<le> tu_now (turns j) - start" "k \<le> j"
  shows "\<exists>v. icmp_wait reply timeout_ms start turns k = Some v"
  using assms(2)
proof (induction "j - k" arbitrary: k)
  case 0
  with assms(1) show ?case by (simp add: icmp_wait.simps)
next
  case (Suc n)
  then have "\<exists>v. icmp_wait reply timeout_ms start turns (k + 1) = Some v" by simp
  then show ?case by (subst icmp_wait.simps) (auto split: icmp_recv.splits)
qed

lemma wait_sound:
  assumes "icmp_wait reply timeout_ms start turns k = Some v"
  shows "v = -1 \<or> (\<exists>j src data. tu_recv (turns j) = RecvFrom src data \<and> reply src data
           \<and> tu_now (turns j) - start < timeout_ms \<and> v = c_int_of_long (tu_end (turns j) - start))"
proof (rule icmp_wait.raw_induct [OF _ assms])
  fix wait reply timeout_ms start k v and turns :: "nat \<Rightarrow> icmp_turn"
  assume "\<And>reply timeout_ms start turns k v. wait reply timeout_ms start turns k = Some v \<Longrightarrow>
      v = -1 \<or> (\<exists>j src data. tu_recv (turns j) = RecvFrom src data \<and> reply src data
           \<and> tu_now (turns j) - start < timeout_ms \<and> v = c_int_of_long (tu_end (turns j) - start))"
    "(if tu_now (turns k) - start \<ge> timeout_ms then Some (-1)
      else case tu_recv (turns k) of RecvRetry \<Rightarrow> wait reply timeout_ms start turns (k + 1)
         | RecvError \<Rightarrow> Some (-1)
         | RecvFrom src data \<Rightarrow> if reply src data then Some (c_int_of_long (tu_end (turns k) - start))
             else wait reply timeout_ms start turns (k + 1)) = Some v"
  then show "v = -1 \<or> (\<exists>j src data. tu_recv (turns j) = RecvFrom src data \<and> reply src data
           \<and> tu_now (turns j) - start < timeout_ms \<and> v = c_int_of_long (tu_end (turns j) - start))"
    by (simp split: if_splits icmp_recv.splits) (metis not_le)+
qed

definition sys_part :: "ping_op list \<Rightarrow> sys_op list" where
  "sys_part ops = concat (map (\<lambda>x. case x of PoSys y \<Rightarrow> [y] | _ \<Rightarrow> []) ops)"

lemma sys_part_simps [simp]:
  "sys_part [] = []" "sys_part (PoSys y # ops) = y # sys_part ops" "sys_part (PoConnect a p # ops) = sys_part ops"
  "sys_part (PoEcho a bs # ops) = sys_part ops" "sys_part (PoSent bs # ops) = sys_part ops"
  "sys_part (xs @ ys) = sys_part xs @ sys_part ys" "sys_part (map PoSys zs) = zs"
  by (simp_all add: sys_part_def) (induction zs; simp)

lemma icmp_ends:
  assumes "timeout_ms \<le> tu_now (ic_turns ic j) - ic_start ic"
  shows "\<exists>v ops. ping_task_icmp env ic target timeout_ms custom_dns = Some (v, ops) \<and> http_released (sys_part ops)
     \<and> (v = -1 \<or> (\<exists>addr packet k data. PoEcho addr packet \<in> set ops
          \<and> tu_recv (ic_turns ic k) = RecvFrom (Some addr) data
          \<and> icmp_reply (ic_be ic) (ic_id ic) addr (Some addr) data
          \<and> v = c_int_of_long (tu_end (ic_turns ic k) - ic_start ic)))"
proof -
  define host where "host = (if target \<noteq> [] \<and> hd target = CHR ''['' then strip_ipv6_brackets 256 (take 255 target) else Some target)"
  have none: ?thesis if "ping_task_icmp env ic target timeout_ms custom_dns = Some (-1, [])"
    using that by (simp add: http_released_def)
  show ?thesis
  proof (cases "\<exists>h addr. host = Some h \<and> ping_address env h custom_dns = Some addr \<and> 0 \<le> ic_fd ic")
    case False
    then show ?thesis
      by (intro none) (auto simp: ping_task_icmp_def host_def [symmetric] split: option.splits)
  next
    case True
    then obtain h addr where h: "host = Some h" "ping_address env h custom_dns = Some addr" "0 \<le> ic_fd ic" by blast
    define packet where "packet = (case addr of V4 _ \<Rightarrow> icmp_packet (ic_be ic) (ic_id ic) | V6 _ \<Rightarrow> icmp6_packet (ic_be ic) (ic_id ic))"
    define ops where "ops = [PoSys (OpenFd (ic_fd ic)), PoEcho addr packet, PoSys (CloseFd (ic_fd ic))]"
    let ?reply = "icmp_reply (ic_be ic) (ic_id ic) addr"
    have rel: "http_released (sys_part ops)" by (simp add: ops_def http_released_def surplus_Cons)
    obtain v where v: "icmp_wait ?reply timeout_ms (ic_start ic) (ic_turns ic) 0 = Some v"
      using wait_ends [where turns = "ic_turns ic", OF assms le0] by blast
    have run: "ping_task_icmp env ic target timeout_ms custom_dns = Some (if ic_send_ok ic then v else -1, ops)"
      using h v by (simp add: ping_task_icmp_def host_def [symmetric] packet_def ops_def Let_def)
    have "v = -1 \<or> (\<exists>k data. tu_recv (ic_turns ic k) = RecvFrom (Some addr) data \<and> ?reply (Some addr) data
            \<and> v = c_int_of_long (tu_end (ic_turns ic k) - ic_start ic))"
      using wait_sound [OF v] by (auto simp: icmp_reply_def)
    with run rel show ?thesis by (fastforce simp: ops_def)
  qed
qed


definition sample_names :: ping_env where
  "sample_names = \<lparr>pe_pton4 = (\<lambda>s. if s = ''1.2.3.4'' then Some [1, 2, 3, 4] else None), pe_pton6 = (\<lambda>s. None),
     pe_dns = (\<lambda>d s. None), pe_gai = (\<lambda>s. if s = ''example.org'' then Some ''1.2.3.4'' else None)\<rparr>"

definition sample_icmp :: icmp_env where
  "sample_icmp = \<lparr>ic_be = False, ic_fd = 3, ic_id = 7, ic_send_ok = True, ic_start = 100,
     ic_turns = (\<lambda>k. \<lparr>tu_now = 100 + 1000 * int k,
       tu_recv = (if k = 0 then RecvRetry
         else RecvFrom (Some (V4 [1, 2, 3, 4])) ([0x45, 0, 0, 0, 0, 0, 0, 0, 0, 1, 0, 0, 0, 0, 0, 0, 0, 0, 0, 0, 0, 0, 0, 0, 7, 0, 1, 0])),
       tu_end = 112\<rparr>)\<rparr>"

lemma sample_icmp_run: "\<exists>ops. ping_task_icmp sample_names sample_icmp ''1.2.3.4'' 3000 [] = Some (12, ops)"
proof -
  have r: "icmp_reply False 7 (V4 [1, 2, 3, 4]) (Some (V4 [1, 2, 3, 4])) ([0x45, 0, 0, 0, 0, 0, 0, 0, 0, 1, 0, 0, 0, 0, 0, 0, 0, 0, 0, 0, 0, 0, 0, 0, 7, 0, 1, 0])"
    by code_simp
  have a: "ping_address sample_names ''1.2.3.4'' [] = Some (V4 [1, 2, 3, 4])" by code_simp
  have "icmp_wait (icmp_reply False 7 (V4 [1, 2, 3, 4])) 3000 100 (ic_turns sample_icmp) 0 = Some 12"
    using r by (simp add: icmp_wait.simps [of _ _ _ _ 0] icmp_wait.simps [of _ _ _ _ "Suc 0"] sample_icmp_def c_int_of_long_def c_limits)
  with a show ?thesis by (simp add: ping_task_icmp_def) (simp add: sample_icmp_def)
qed


text \<open>Every request has the sequence number 1 and the reply's is not looked at: the late reply to an
  earlier ping of the same process is taken for the answer.\<close>

lemma stale_reply_counts:
  "icmp_reply be i (V4 a) (Some (V4 a))
     ([0x45, 0, 0, 0, 0, 0, 0, 0, 0, 1, 0, 0, 0, 0, 0, 0, 0, 0, 0, 0, 0, 0, 0, 0] @ put16 be i @ put16 be sequence)"
proof -
  have "unat ((0x45 :: byte) AND 0xF) = 5" by code_simp
  then show ?thesis by (simp add: icmp_reply_def)
qed

section \<open>The stream probes\<close>

lemma open_stream_released:
  assumes "open_stream se addr port = (up, ops)"
  shows "surplus (OpenFd g) (CloseFd g) (sys_part ops) = (if up \<and> g = se_fd se then 1 else 0)
     \<and> surplus CtxNew CtxFree (sys_part ops) = 0 \<and> surplus SslNew SslFree (sys_part ops) = 0"
  using assms by (auto simp: open_stream_def Let_def surplus_Cons split: if_splits conn_try.splits)

lemma open_stream_dest: "open_stream se addr port = (True, ops) \<Longrightarrow> PoConnect addr port \<in> set ops"
  by (auto simp: open_stream_def Let_def split: if_splits conn_try.splits)

lemma port_of_range: "1 \<le> port_of s \<and> port_of s \<le> 65535"
  by (simp add: port_of_def Let_def)

lemma tcp_released:
  assumes "ping_task_tcp env se target custom_dns = (v, ops)"
  shows "http_released (sys_part ops) \<and> (v \<noteq> -1 \<longrightarrow> (\<exists>addr port. PoConnect addr port \<in> set ops \<and> 1 \<le> port \<and> port \<le> 65535))"
proof -
  have none: ?thesis if "(v, ops) = (-1, [])" using that by (simp add: http_released_def)
  obtain host0 port_str where t: "tcp_target target = (host0, port_str)" by force
  show ?thesis
  proof (cases "\<exists>host addr. strip_ipv6_brackets 256 host0 = Some host \<and> ping_address env host custom_dns = Some addr")
    case False
    with assms t show ?thesis by (intro none) (auto simp: ping_task_tcp_def split: option.splits)
  next
    case True
    then obtain host addr where h: "strip_ipv6_brackets 256 host0 = Some host" "ping_address env host custom_dns = Some addr" by blast
    obtain up sops where o: "open_stream se addr (port_of port_str) = (up, sops)" by force
    show ?thesis
    proof (cases up)
      case True
      with o have "PoConnect addr (port_of port_str) \<in> set ops" using open_stream_dest assms t h
        by (auto simp: ping_task_tcp_def)
      with True show ?thesis using assms t h o open_stream_released [OF o] port_of_range [of port_str]
        by (auto simp: ping_task_tcp_def http_released_def surplus_Cons)
    next
      case False
      with assms t h o show ?thesis using open_stream_released [OF o] by (auto simp: ping_task_tcp_def http_released_def)
    qed
  qed
qed

lemma exchange_released:
  assumes "ping_exchange we host use_tls = (v, ops)"
  shows "surplus (OpenFd g) (CloseFd g) (sys_part ops) = (if g = se_fd we then -1 else 0)
     \<and> surplus CtxNew CtxFree (sys_part ops) = (if use_tls then -1 else 0)
     \<and> surplus SslNew SslFree (sys_part ops) = (if use_tls then -1 else 0)
     \<and> (v \<noteq> -1 \<longrightarrow> (\<exists>request answer. ping_request host = Some request \<and> PoSent (bytes_of_string request) \<in> set ops
          \<and> ping_read we use_tls = Some answer \<and> ping_status_ok answer))"
proof (cases "ping_request host")
  case None
  with assms show ?thesis by (cases use_tls) (auto simp: ping_exchange_def surplus_Cons)
next
  case (Some request)
  obtain sent out ts where s: "send_full (hp_tx (we_http we)) (bytes_of_string request) = (sent, out, ts)" by (metis prod_cases3)
  have "sent \<Longrightarrow> out = bytes_of_string request" using s send_full_all [of _ _ out ts] by (cases sent) auto
  with Some s assms show ?thesis
    by (cases use_tls; cases sent; cases "ping_read we use_tls")
      (auto simp: ping_exchange_def surplus_Cons Let_def split: if_splits)
qed

definition http_answered :: "web_env \<Rightarrow> bool \<Rightarrow> ping_op list \<Rightarrow> bool" where
  "http_answered we ign ops \<longleftrightarrow>
     (\<exists>host use_tls request answer. ping_request host = Some request \<and> PoSent (bytes_of_string request) \<in> set ops
        \<and> ping_read we use_tls = Some answer \<and> ping_status_ok answer
        \<and> (use_tls \<and> \<not> ign \<longrightarrow> PoSys VerifyPeer \<in> set ops \<and> PoSys (CheckHost (verify_name host)) \<in> set ops))"

lemma http_ping_cases:
  assumes "ping_task_http env we target custom_dns ign = (v, ops)"
  obtains (refused) "v = -1" "ops = []"
  | (closed) addr port where "open_stream we addr port = (False, ops)" "v = -1"
  | (no_tls) addr port sops tops host where "open_stream we addr port = (True, sops)"
      "http_tls (we_http we) ign (verify_name host) (se_fd we) = (False, tops)" "v = -1" "ops = sops @ map PoSys tops"
  | (asked) addr port sops tops host use_tls xops url where "http_ping_url env target = Some url"
      "http_ping_parts url = (host, port, use_tls)" "open_stream we addr port = (True, sops)"
      "(if use_tls then http_tls (we_http we) ign (verify_name host) (se_fd we) else (True, [])) = (True, tops)"
      "ping_exchange we host use_tls = (v, xops)" "ops = sops @ map PoSys tops @ xops"
  using assms
  by (auto simp: ping_task_http_def split: option.splits prod.splits bool.splits if_splits)

lemma http_ping_released:
  assumes "ping_task_http env we target custom_dns ign = (v, ops)"
  shows "http_released (sys_part ops) \<and> (v \<noteq> -1 \<longrightarrow> http_answered we ign ops)"
  using assms
proof (cases rule: http_ping_cases)
  case refused
  then show ?thesis by (simp add: http_released_def)
next
  case closed
  then show ?thesis using open_stream_released [OF closed(1)] by (simp add: http_released_def)
next
  case no_tls
  then show ?thesis using open_stream_released [OF no_tls(1)] tls_released(2) [OF no_tls(2)] by (auto simp: http_released_def)
next
  case (asked addr port sops tops host use_tls xops url)
  have "http_released (sys_part ops)"
    using asked open_stream_released [OF asked(3)] exchange_released [OF asked(5)]
      tls_released(1) [of "we_http we" ign "verify_name host" "se_fd we" True tops]
    by (cases use_tls) (auto simp: http_released_def)
  moreover have "http_answered we ign ops" if "v \<noteq> -1"
  proof -
    have "use_tls \<and> \<not> ign \<longrightarrow> PoSys VerifyPeer \<in> set ops \<and> PoSys (CheckHost (verify_name host)) \<in> set ops"
      using asked(4,6) tls_released(1) [of "we_http we" ign "verify_name host" "se_fd we" True tops] by auto
    with that exchange_released [OF asked(5)] asked(6) show ?thesis unfolding http_answered_def by fastforce
  qed
  ultimately show ?thesis by blast
qed


lemma plain_url: "http_ping_url env target = Some url \<Longrightarrow> \<not> starts_with ''https://'' target \<Longrightarrow> starts_with ''http://'' url"
proof -
  have cut: "starts_with ''http://'' t \<Longrightarrow> starts_with ''http://'' (take 511 t)" for t by (simp add: starts_with_def)
  assume "http_ping_url env target = Some url" "\<not> starts_with ''https://'' target"
  then show ?thesis
    using cut [of target] cut [of "''['' @ target @ '']''"]
    by (auto simp: http_ping_url_def has_http_def snprintf_chk_def split: if_splits) (auto simp: starts_with_def)
qed

lemma plain_parts:
  assumes "starts_with ''http://'' url" "http_ping_parts url = (host, port, use_tls)"
  shows "\<not> use_tls"
proof -
  have "\<not> starts_with ''https'' url" using assms(1) by (auto simp: starts_with_prefix)
  then show ?thesis using assms(2) by (auto simp: http_ping_parts_def Let_def split: option.splits if_splits)
qed

text \<open>Defect: over plain HTTP the socket is still non-blocking when the answer is read, so a probe fails
  whatever the server answers, unless the answer is already there when the request has been sent.\<close>

theorem plain_http_probe_fails:
  assumes "\<not> starts_with ''https://'' target" "we_rx_now we = []"
  shows "fst (ping_task_http env we target custom_dns ign) = -1"
proof -
  obtain v ops where r: "ping_task_http env we target custom_dns ign = (v, ops)" by force
  then show ?thesis
  proof (cases rule: http_ping_cases)
    case (asked addr port sops tops host use_tls xops url)
    then have "\<not> use_tls" using plain_parts [OF plain_url [OF asked(1) assms(1)]] by blast
    with assms(2) have "ping_read we use_tls = None" by (simp add: ping_read_def)
    with exchange_released [OF asked(5)] r show ?thesis by fastforce
  qed (simp_all add: r)
qed

definition sample_web :: web_env where
  "sample_web = \<lparr>se_fd = 6, se_nonblock_ok = True, se_connect = ConnWait, se_poll = 1, se_so_error = 0, se_start = 1000, se_end = 1042,
     we_http = sample_http, we_rx_now = []\<rparr>"

definition sample_ping_request :: string where
  "sample_ping_request = the (ping_request ''example.org'')"

lemma sample_ping_text:
  "ping_request ''example.org'' = Some sample_ping_request" "sample_ping_request \<noteq> []" "length sample_ping_request \<le> 1000"
  by (simp_all add: sample_ping_request_def ping_request_def snprintf_chk_def crlf_def)

lemma sample_answer: "ping_read sample_web True = Some ''HTTP/1.1 200 OK'' \<and> ping_status_ok ''HTTP/1.1 200 OK''"
  by code_simp

lemma sample_https_run: "\<exists>ops. ping_task_http sample_names sample_web ''https://example.org/'' [] False = (42, ops)"
proof -
  have u: "http_ping_url sample_names ''https://example.org/'' = Some ''https://example.org/''"
    "http_ping_parts ''https://example.org/'' = (''example.org'', 443, True)" by code_simp+
  have a: "strip_ipv6_brackets 256 ''example.org'' = Some ''example.org''"
    "ping_address sample_names ''example.org'' [] = Some (V4 [1, 2, 3, 4])" by code_simp+
  have we: "hp_tx (we_http sample_web) = [TxSent 1000]" "hp_ctx_ok (we_http sample_web)" "hp_ssl_new_ok (we_http sample_web)"
    "hp_ssl_connect_ok (we_http sample_web)" "se_fd sample_web = 6" "se_nonblock_ok sample_web" "se_connect sample_web = ConnWait"
    "se_poll sample_web = 1" "se_so_error sample_web = 0" "se_end sample_web - se_start sample_web = 42"
    by (simp_all add: sample_web_def sample_http_def)
  have "send_full (hp_tx (we_http sample_web)) (bytes_of_string sample_ping_request) = (True, bytes_of_string sample_ping_request, [])"
    unfolding we using sample_ping_text(2,3) by (intro send_full_once) (simp_all add: bytes_of_string_def)
  with sample_ping_text(1) sample_answer u a show ?thesis
    by (simp add: ping_task_http_def open_stream_def http_tls_def ping_exchange_def Let_def we c_int_of_long_def c_limits)
qed


theorem plain_http_probe_fails_witness:
  "fst (ping_task_http sample_names sample_web ''http://example.org/'' [] False) = -1
     \<and> (\<exists>answer. ping_read sample_web True = Some answer \<and> ping_status_ok answer)"
  using plain_http_probe_fails [of "''http://example.org/''" sample_web sample_names "[]" False] sample_answer
  by (simp add: starts_with_def) (simp add: sample_web_def)

section \<open>Retries\<close>

text \<open>The latency a task should report: that of the first probe, unless it is above the threshold and one of
  the retries is not.\<close>

definition task_latency :: "(nat \<Rightarrow> int) \<Rightarrow> int \<Rightarrow> nat \<Rightarrow> int" where
  "task_latency p threshold n =
     (if p 0 > threshold
      then (case find (\<lambda>v. 0 \<le> v \<and> v \<le> threshold) (map p [1..<Suc n]) of Some v \<Rightarrow> v | None \<Rightarrow> p 0)
      else p 0)"

lemma retries_find:
  assumes "\<forall>k. probe k = Some (p k)"
  shows "ping_retries probe threshold k n latency =
     Some (case find (\<lambda>v. 0 \<le> v \<and> v \<le> threshold) (map p [k..<k + n]) of Some v \<Rightarrow> v | None \<Rightarrow> latency)"
proof (induction n arbitrary: k)
  case (Suc n)
  have "[k..<k + Suc n] = k # [Suc k..<Suc k + n]" by (simp add: upt_conv_Cons)
  with Suc [of "Suc k"] assms show ?case by simp
qed simp

lemma execute_latency:
  assumes "\<not> ping_rejected target type" "\<forall>k. map_option fst (ping_attempt env ae cfg target type k) = Some (p k)"
  defines "v \<equiv> task_latency p (pc_threshold cfg) (nat (pc_retries cfg))"
  shows "ping_task_execute env ae cfg now target type =
     Some (if v \<ge> 0 then 0 else -1,
       ping_result_zero\<lparr>pr_type := take 15 type, pr_target := take 255 target, pr_latency := v, pr_result := v, pr_finished_at := now\<rparr>)"
proof -
  let ?probe = "\<lambda>k. map_option fst (ping_attempt env ae cfg target type k)"
  have p0: "?probe 0 = Some (p 0)" using assms(2) by blast
  have "(if p 0 > pc_threshold cfg \<and> pc_retries cfg > 0
      then ping_retries ?probe (pc_threshold cfg) 1 (nat (pc_retries cfg)) (p 0) else Some (p 0)) = Some v"
    unfolding retries_find [OF assms(2)] by (simp add: v_def task_latency_def)
  then show ?thesis by (simp only: ping_task_execute_def Let_def assms(1) if_False p0 option.case option.map)
qed

end
