(* ===== verification/DnsResolver.thy ===== *)
theory DnsResolver
  imports Ping
begin

text \<open>
  The resolver of \<open>src/network/dns_resolver.c\<close>: its state, one query to a name server, and the lookup with
  its retries.  The resolver library (\<open>res_mkquery\<close>, \<open>ns_initparse\<close>, \<open>ns_parserr\<close>), address
  conversion and sockets are arguments.
\<close>

section \<open>State\<close>

record dns_state =
  g_custom_dns :: string
  g_use_custom_dns :: bool

definition dns_resolver_init :: "string \<Rightarrow> dns_state \<Rightarrow> dns_state" where
  "dns_resolver_init custom_dns st =
     (if custom_dns = [] then \<lparr>g_custom_dns = [], g_use_custom_dns = False\<rparr>
      else \<lparr>g_custom_dns = take 63 custom_dns, g_use_custom_dns = True\<rparr>)"

definition dns_resolver_is_custom :: "dns_state \<Rightarrow> bool" where
  "dns_resolver_is_custom st = g_use_custom_dns st"

definition dns_resolver_cleanup :: "dns_state \<Rightarrow> dns_state" where
  "dns_resolver_cleanup st = \<lparr>g_custom_dns = [], g_use_custom_dns = False\<rparr>"

section \<open>One query\<close>

datatype dns_recv = DnsEintr | DnsErr | DnsData ip_addr int "byte list"

record dns_sock =
  ds_fd :: int
  ds_sent :: bool
  ds_recv :: "dns_recv list"

text \<open>\<open>de_parse\<close> yields the answer section, each record with type and data, or None where it cannot be parsed.\<close>

record dns_env =
  de_pton4 :: "string \<Rightarrow> byte list option"
  de_pton6 :: "string \<Rightarrow> byte list option"
  de_ntop :: "ip_addr \<Rightarrow> string"
  de_mkquery :: "string \<Rightarrow> bool \<Rightarrow> byte list option"
  de_parse :: "byte list \<Rightarrow> (nat \<times> byte list) option list option"
  de_sock :: "nat \<Rightarrow> dns_sock"
  de_gai :: "nat \<Rightarrow> ip_addr list option"

fun dns_recv_loop :: "dns_recv list \<Rightarrow> (ip_addr \<times> int \<times> byte list) option" where
  "dns_recv_loop [] = None"
| "dns_recv_loop (DnsEintr # r) = dns_recv_loop r"
| "dns_recv_loop (DnsErr # r) = None"
| "dns_recv_loop (DnsData src port data # r) = Some (src, port, take 1024 data)"

definition dns_server_addr :: "dns_env \<Rightarrow> string \<Rightarrow> ip_addr option" where
  "dns_server_addr env dns_server =
     (if strchr CHR '':'' dns_server \<noteq> None then map_option V6 (de_pton6 env dns_server)
      else map_option V4 (de_pton4 env dns_server))"

definition dns_response_ok :: "byte list \<Rightarrow> byte list \<Rightarrow> bool" where
  "dns_response_ok query resp \<longleftrightarrow>
     12 \<le> length resp \<and> take 2 resp = take 2 query \<and> resp ! 2 AND 0x80 \<noteq> 0 \<and> resp ! 2 AND 0x02 = 0"

text \<open>\<open>inet_ntop\<close> into the caller's buffer.\<close>

definition ntop_fits :: "dns_env \<Rightarrow> nat \<Rightarrow> ip_addr \<Rightarrow> string option" where
  "ntop_fits env ip_size a = (if length (de_ntop env a) < ip_size then Some (de_ntop env a) else None)"

definition record_addr :: "(nat \<times> byte list) option \<Rightarrow> ip_addr option" where
  "record_addr rr =
     (case rr of None \<Rightarrow> None
      | Some (ty, rdata) \<Rightarrow>
          if ty = 1 then if length rdata < 4 then None else Some (V4 (take 4 rdata))
          else if ty = 28 then if length rdata < 16 then None else Some (V6 (take 16 rdata))
          else None)"

fun pick_record :: "dns_env \<Rightarrow> nat \<Rightarrow> (nat \<times> byte list) option list \<Rightarrow> string option" where
  "pick_record env ip_size [] = None"
| "pick_record env ip_size (rr # rrs) =
     (case Option.bind (record_addr rr) (ntop_fits env ip_size) of
        Some ip \<Rightarrow> Some ip
      | None \<Rightarrow> pick_record env ip_size rrs)"

definition dns_query_server :: "dns_env \<Rightarrow> dns_sock \<Rightarrow> string \<Rightarrow> string \<Rightarrow> nat \<Rightarrow> bool \<Rightarrow> string option \<times> sys_op list" where
  "dns_query_server env sk hostname dns_server ip_size prefer_ipv4 =
     (case dns_server_addr env dns_server of None \<Rightarrow> (None, [])
      | Some server \<Rightarrow>
          (case de_mkquery env hostname prefer_ipv4 of None \<Rightarrow> (None, [])
           | Some query \<Rightarrow>
               if ds_fd sk < 0 then (None, [])
               else
                 let ops = [OpenFd (ds_fd sk), CloseFd (ds_fd sk)]
                 in if \<not> ds_sent sk then (None, ops)
                    else case dns_recv_loop (ds_recv sk) of None \<Rightarrow> (None, ops)
                    | Some (src, port, resp) \<Rightarrow>
                        if resp = [] \<or> src \<noteq> server \<or> port \<noteq> 53 \<or> \<not> dns_response_ok query resp then (None, ops)
                        else case de_parse env resp of None \<Rightarrow> (None, ops)
                          | Some rrs \<Rightarrow> (pick_record env ip_size rrs, ops)))"

section \<open>The lookup\<close>

text \<open>Up to three attempts with a pause between them.\<close>

fun dns_attempts :: "(nat \<Rightarrow> string option \<times> sys_op list) \<Rightarrow> nat \<Rightarrow> nat \<Rightarrow> string option \<times> sys_op list" where
  "dns_attempts query k 0 = (None, [])"
| "dns_attempts query k (Suc left) =
     (case query k of
        (Some ip, ops) \<Rightarrow> (Some ip, ops)
      | (None, ops) \<Rightarrow> (case dns_attempts query (k + 1) left of (r, ops') \<Rightarrow> (r, ops @ ops')))"

fun gai_attempts :: "(nat \<Rightarrow> ip_addr list option) \<Rightarrow> nat \<Rightarrow> nat \<Rightarrow> ip_addr list option" where
  "gai_attempts sys k 0 = None"
| "gai_attempts sys k (Suc left) = (case sys k of Some l \<Rightarrow> Some l | None \<Rightarrow> gai_attempts sys (k + 1) left)"

definition is_v4 :: "ip_addr \<Rightarrow> bool" where
  "is_v4 a = (case a of V4 _ \<Rightarrow> True | V6 _ \<Rightarrow> False)"

fun first_addr :: "dns_env \<Rightarrow> nat \<Rightarrow> bool \<Rightarrow> ip_addr list \<Rightarrow> string option" where
  "first_addr env ip_size v4 [] = None"
| "first_addr env ip_size v4 (a # l) =
     (if is_v4 a = v4 then
        (case ntop_fits env ip_size a of Some ip \<Rightarrow> Some ip | None \<Rightarrow> first_addr env ip_size v4 l)
      else first_addr env ip_size v4 l)"

definition dns_resolver_lookup :: "dns_env \<Rightarrow> dns_state \<Rightarrow> string \<Rightarrow> nat \<Rightarrow> bool \<Rightarrow> string option \<times> sys_op list" where
  "dns_resolver_lookup env st hostname ip_size prefer_ipv4 =
     (if ip_size = 0 then (None, [])
      else if de_pton4 env hostname \<noteq> None \<or> de_pton6 env hostname \<noteq> None then (Some (take (ip_size - 1) hostname), [])
      else case (if g_use_custom_dns st
                 then dns_attempts (\<lambda>k. dns_query_server env (de_sock env k) hostname (g_custom_dns st) ip_size prefer_ipv4) 1 3
                 else (None, [])) of
          (Some ip, ops) \<Rightarrow> (Some ip, ops)
        | (None, ops) \<Rightarrow>
            (case gai_attempts (de_gai env) 1 3 of None \<Rightarrow> (None, ops)
             | Some l \<Rightarrow>
                 (case first_addr env ip_size prefer_ipv4 l of
                    Some ip \<Rightarrow> (Some ip, ops)
                  | None \<Rightarrow> (first_addr env ip_size (\<not> prefer_ipv4) l, ops))))"

text \<open>The resolver as the ping tasks use it: \<open>dns_resolver_init\<close> with the configured server, then a lookup that
  prefers IPv4, into \<open>char ip[INET6_ADDRSTRLEN]\<close>.\<close>

definition ping_names :: "dns_env \<Rightarrow> (string \<Rightarrow> string option) \<Rightarrow> dns_state \<Rightarrow> ping_env" where
  "ping_names env sys st =
     \<lparr>pe_pton4 = de_pton4 env, pe_pton6 = de_pton6 env,
       pe_dns = (\<lambda>custom_dns target. fst (dns_resolver_lookup env (dns_resolver_init custom_dns st) target 46 True)),
       pe_gai = sys\<rparr>"

section \<open>Properties\<close>

text \<open>An answer that may be used: from the server asked, to the query sent, complete, and holding the address.\<close>

definition authentic :: "dns_env \<Rightarrow> string \<Rightarrow> string \<Rightarrow> bool \<Rightarrow> nat \<Rightarrow> string \<Rightarrow> bool" where
  "authentic env hostname dns_server prefer_ipv4 k ip \<longleftrightarrow>
     (\<exists>server query src_data rrs rr a.
        dns_server_addr env dns_server = Some server \<and> de_mkquery env hostname prefer_ipv4 = Some query
        \<and> DnsData server 53 src_data \<in> set (ds_recv (de_sock env k)) \<and> dns_response_ok query (take 1024 src_data)
        \<and> de_parse env (take 1024 src_data) = Some rrs \<and> rr \<in> set rrs \<and> record_addr rr = Some a \<and> ip = de_ntop env a)"

lemma recv_loop_in: "dns_recv_loop r = Some (src, port, resp) \<Longrightarrow> \<exists>data. DnsData src port data \<in> set r \<and> resp = take 1024 data"
  by (induction r rule: dns_recv_loop.induct) auto

lemma pick_record_in:
  "pick_record env n rrs = Some ip \<Longrightarrow> (\<exists>rr a. rr \<in> set rrs \<and> record_addr rr = Some a \<and> ip = de_ntop env a) \<and> length ip < n"
  by (induction rrs) (auto simp: ntop_fits_def split: option.splits bind_splits if_splits)

lemma query_authentic:
  assumes "dns_query_server env (de_sock env k) hostname srv n p4 = (Some ip, ops)"
  shows "authentic env hostname srv p4 k ip \<and> length ip < n"
proof -
  from assms obtain server query resp rrs where s: "dns_server_addr env srv = Some server" "de_mkquery env hostname p4 = Some query"
    "dns_recv_loop (ds_recv (de_sock env k)) = Some (server, 53, resp)" "dns_response_ok query resp" "de_parse env resp = Some rrs"
    "pick_record env n rrs = Some ip"
    by (auto simp: dns_query_server_def Let_def split: option.splits if_splits prod.splits)
  from recv_loop_in [OF s(3)] obtain data where "DnsData server 53 data \<in> set (ds_recv (de_sock env k))" "resp = take 1024 data" by blast
  with s pick_record_in [OF s(6)] show ?thesis unfolding authentic_def by blast
qed

lemma query_released: "dns_query_server env sk hostname srv n p4 = (r, ops) \<Longrightarrow> http_released ops"
  by (auto simp: dns_query_server_def http_released_def surplus_Cons Let_def split: option.splits if_splits prod.splits)

lemma attempts_found:
  "dns_attempts query k n = (Some ip, ops) \<Longrightarrow> \<exists>j ops'. k \<le> j \<and> j < k + n \<and> query j = (Some ip, ops')"
proof (induction n arbitrary: k ops)
  case (Suc n)
  obtain r ops1 where q: "query k = (r, ops1)" by force
  show ?case
  proof (cases r)
    case None
    then obtain ops2 where "dns_attempts query (k + 1) n = (Some ip, ops2)" using Suc.prems q by (auto split: prod.splits)
    from Suc.IH [OF this] obtain j ops' where "k + 1 \<le> j" "j < k + 1 + n" "query j = (Some ip, ops')" by blast
    then show ?thesis by (intro exI [of _ j]) auto
  next
    case (Some ip')
    then show ?thesis using Suc.prems q by (intro exI [of _ k]) auto
  qed
qed simp

lemma attempts_released:
  "(\<And>j r ops. query j = (r, ops) \<Longrightarrow> http_released ops) \<Longrightarrow> dns_attempts query k n = (r, ops) \<Longrightarrow> http_released ops"
  by (induction query k n arbitrary: r ops rule: dns_attempts.induct)
    (fastforce simp: http_released_def split: prod.splits option.splits)+

lemma gai_in: "gai_attempts sys k n = Some l \<Longrightarrow> \<exists>j. k \<le> j \<and> j < k + n \<and> sys j = Some l"
proof (induction n arbitrary: k)
  case (Suc n)
  show ?case
  proof (cases "sys k")
    case None
    with Suc.prems Suc.IH [of "k + 1"] obtain j where "k + 1 \<le> j" "j < k + 1 + n" "sys j = Some l" by auto
    then show ?thesis by (intro exI [of _ j]) auto
  next
    case (Some l')
    then show ?thesis using Suc.prems by (intro exI [of _ k]) auto
  qed
qed simp

lemma first_addr_in: "first_addr env n v4 l = Some ip \<Longrightarrow> (\<exists>a \<in> set l. ip = de_ntop env a) \<and> length ip < n"
  by (induction l) (auto simp: ntop_fits_def split: if_splits option.splits)


definition sample_dns :: dns_env where
  "sample_dns = \<lparr>de_pton4 = (\<lambda>s. if s = ''9.9.9.9'' then Some [9, 9, 9, 9] else None), de_pton6 = (\<lambda>s. None),
     de_ntop = (\<lambda>a. if a = V4 [1, 2, 3, 4] then ''1.2.3.4'' else ''::''),
     de_mkquery = (\<lambda>h p. Some [0x12, 0x34, 1, 0, 0, 1, 0, 0, 0, 0, 0, 0]),
     de_parse = (\<lambda>bs. Some [Some (5, []), Some (1, [1, 2, 3, 4])]),
     de_sock = (\<lambda>k. \<lparr>ds_fd = (if k = 1 then -1 else 8), ds_sent = True,
       ds_recv = [DnsEintr, DnsData (V4 [9, 9, 9, 9]) 53 [0x12, 0x34, 0x81, 0x80, 0, 1, 0, 2, 0, 0, 0, 0]]\<rparr>),
     de_gai = (\<lambda>k. None)\<rparr>"

lemma sample_dns_run:
  "dns_resolver_lookup sample_dns \<lparr>g_custom_dns = ''9.9.9.9'', g_use_custom_dns = True\<rparr> ''example.org'' 46 True
     = (Some ''1.2.3.4'', [OpenFd 8, CloseFd 8])"
  by code_simp


end
