(* ===== verification/CjsonText.thy ===== *)
theory CjsonText
  imports Report
begin

text \<open>
  The text side of the vendored JSON library (\<open>src/vendor/cJSON.c\<close>): parsing with its limit on the
  nesting, and compact printing.  Memory is assumed to be there; a string from the parser ends at its
  first NUL, as its users see it; numbers are doubles (overflow to infinity is not represented).
\<close>

section \<open>Doubles\<close>

fun ndigits :: "nat \<Rightarrow> nat \<Rightarrow> nat" where
  "ndigits b n = (if b < 2 \<or> n = 0 then 0 else Suc (ndigits b (n div b)))"

declare ndigits.simps [simp del]

text \<open>The exponent of the leading digit of a positive number.\<close>

definition floor_log :: "nat \<Rightarrow> rat \<Rightarrow> int" where
  "floor_log b x = (if 1 \<le> x then int (ndigits b (nat \<lfloor>x\<rfloor>)) - 1 else - int (ndigits b (nat (\<lceil>1 / x\<rceil> - 1))))"

text \<open>The nearest double, ties to even; below the normal range the exponent stays at its least value.\<close>

definition to_double :: "rat \<Rightarrow> rat" where
  "to_double x =
     (if x = 0 then 0
      else let u = rat_pow 2 (max (floor_log 2 \<bar>x\<bar> - 52) (- 1074)) in sgn x * (of_nat (round_half_even (\<bar>x\<bar> / u)) * u))"

text \<open>\<open>strtod\<close> on the characters a JSON number is made of: the value and what follows the number.\<close>

definition after_exponent :: "string \<Rightarrow> string" where
  "after_exponent s =
     (case s of [] \<Rightarrow> []
      | c # r \<Rightarrow>
          let q = (if r \<noteq> [] \<and> (hd r = CHR ''-'' \<or> hd r = CHR ''+'') then tl r else r)
          in if c_tolower c = CHR ''e'' \<and> takeWhile c_isdigit q \<noteq> [] then dropWhile c_isdigit q else s)"

definition strtod10 :: "string \<Rightarrow> (rat \<times> string) option" where
  "strtod10 s0 =
     (let neg = (s0 \<noteq> [] \<and> hd s0 = CHR ''-'');
          s = (if s0 \<noteq> [] \<and> (hd s0 = CHR ''-'' \<or> hd s0 = CHR ''+'') then tl s0 else s0);
          ip = takeWhile c_isdigit s; r = dropWhile c_isdigit s; dot = (r \<noteq> [] \<and> hd r = CHR ''.'');
          fp = (if dot then takeWhile c_isdigit (tl r) else []); r' = (if dot then dropWhile c_isdigit (tl r) else r);
          v = to_double (strtod_num 10 c_isdigit digits_val CHR ''e'' 10 s)
      in if ip = [] \<and> fp = [] then None else Some (if neg then - v else v, after_exponent r'))"

section \<open>Parsing\<close>

definition CJSON_NESTING_LIMIT :: nat where "CJSON_NESTING_LIMIT = 1000"

text \<open>White space is every character up to the blank.  The end of the text is never passed.\<close>

definition skip_ws :: "string \<Rightarrow> string" where "skip_ws = dropWhile (\<lambda>c. char_code c \<le> 32)"

definition skip_utf8_bom :: "string \<Rightarrow> string" where
  "skip_utf8_bom s = (if 4 \<le> length s \<and> starts_with [CHR 0xEF, CHR 0xBB, CHR 0xBF] s then drop 3 s else s)"

definition number_char :: "char \<Rightarrow> bool" where
  "number_char c \<longleftrightarrow> c_isdigit c \<or> c = CHR ''+'' \<or> c = CHR ''-'' \<or> c = CHR ''e'' \<or> c = CHR ''E'' \<or> c = CHR ''.''"

definition parse_number :: "string \<Rightarrow> (cjson \<times> string) option" where
  "parse_number s =
     (let t = takeWhile number_char s
      in map_option (\<lambda>(v, r). (CNumber v, r @ drop (length t) s)) (strtod10 t))"

text \<open>From behind the opening quote to the closing one: the raw text and the rest.\<close>

fun string_end :: "string \<Rightarrow> (string \<times> string) option" where
  "string_end [] = None"
| "string_end (c # t) =
     (if c = dquote then Some ([], t)
      else if c = bslash then
        (case t of [] \<Rightarrow> None | d # t' \<Rightarrow> map_option (\<lambda>(b, r). (c # d # b, r)) (string_end t'))
      else map_option (\<lambda>(b, r). (c # b, r)) (string_end t))"

text \<open>Four hexadecimal digits, 0 when one of them is none.\<close>

definition parse_hex4 :: "string \<Rightarrow> nat" where
  "parse_hex4 s = (if list_all c_isxdigit (take 4 s) then hex_run (take 4 s) else 0)"

definition utf8_of :: "nat \<Rightarrow> string" where
  "utf8_of cp =
     (if cp < 0x80 then [char_of cp]
      else if cp < 0x800 then [char_of (0xC0 + cp div 64), char_of (0x80 + cp mod 64)]
      else if cp < 0x10000 then [char_of (0xE0 + cp div 4096), char_of (0x80 + cp div 64 mod 64), char_of (0x80 + cp mod 64)]
      else [char_of (0xF0 + cp div 262144), char_of (0x80 + cp div 4096 mod 64), char_of (0x80 + cp div 64 mod 64), char_of (0x80 + cp mod 64)])"

text \<open>The literal at a backslash: its bytes and the length of the sequence.\<close>

definition utf16_literal_to_utf8 :: "string \<Rightarrow> (string \<times> nat) option" where
  "utf16_literal_to_utf8 p =
     (if length p < 6 then None
      else let first_code = parse_hex4 (drop 2 p); q = drop 6 p; second_code = parse_hex4 (drop 2 q)
           in if 0xDC00 \<le> first_code \<and> first_code \<le> 0xDFFF then None
              else if 0xD800 \<le> first_code \<and> first_code \<le> 0xDBFF then
                (if length q < 6 \<or> q ! 0 \<noteq> bslash \<or> q ! 1 \<noteq> CHR ''u'' \<or> second_code < 0xDC00 \<or> second_code > 0xDFFF then None
                 else Some (utf8_of (0x10000 + first_code mod 0x400 * 0x400 + second_code mod 0x400), 12))
              else Some (utf8_of first_code, 6))"

text \<open>A backslash that ends the body escapes the closing quote behind it.\<close>

fun unescape_body :: "string \<Rightarrow> string option" where
  "unescape_body [] = Some []"
| "unescape_body (c # t) =
     (if c \<noteq> bslash then map_option ((#) c) (unescape_body t)
      else case t of [] \<Rightarrow> Some [dquote]
        | d # t' \<Rightarrow>
            if d = CHR ''b'' then map_option ((#) bspace) (unescape_body t')
            else if d = CHR ''f'' then map_option ((#) ffeed) (unescape_body t')
            else if d = CHR ''n'' then map_option ((#) lf) (unescape_body t')
            else if d = CHR ''r'' then map_option ((#) cr) (unescape_body t')
            else if d = CHR ''t'' then map_option ((#) tab) (unescape_body t')
            else if d = dquote \<or> d = bslash \<or> d = CHR ''/'' then map_option ((#) d) (unescape_body t')
            else if d = CHR ''u'' then
              (case utf16_literal_to_utf8 (c # t) of None \<Rightarrow> None
               | Some (bs, n) \<Rightarrow> map_option ((@) bs) (unescape_body (drop (n - 1) t)))
            else None)"

definition parse_string :: "string \<Rightarrow> (string \<times> string) option" where
  "parse_string s =
     (case s of [] \<Rightarrow> None
      | c # t \<Rightarrow> if c \<noteq> dquote then None
          else case string_end t of None \<Rightarrow> None
            | Some (b, r) \<Rightarrow> map_option (\<lambda>out. (takeWhile (\<lambda>c. c \<noteq> nul) out, r)) (unescape_body b))"

lemma string_end_shrinks: "string_end s = Some (b, r) \<Longrightarrow> length r < length s"
  by (induction s arbitrary: b r rule: string_end.induct) (fastforce split: if_splits list.splits)+

lemma parse_string_shrinks: "parse_string s = Some (x, r) \<Longrightarrow> length r < length s"
  by (auto simp: parse_string_def dest: string_end_shrinks split: list.splits if_splits option.splits)

lemma skip_ws_le: "length (skip_ws s) \<le> length s"
  by (simp add: skip_ws_def length_dropWhile_le)

lemma after_exponent_le: "length (after_exponent s) \<le> length s"
  by (cases s) (auto simp: after_exponent_def Let_def intro: order_trans [OF length_dropWhile_le])

lemma length_drop_digits:
  "length (dropWhile P s) = length s - length (takeWhile P s)" "takeWhile P s \<noteq> [] \<Longrightarrow> 0 < length (takeWhile P s)"
  by (induction s) auto

lemma strtod10_shrinks: "strtod10 s = Some (v, r) \<Longrightarrow> length r < length s"
proof -
  assume a: "strtod10 s = Some (v, r)"
  define s1 where "s1 = (if s \<noteq> [] \<and> (hd s = CHR ''-'' \<or> hd s = CHR ''+'') then tl s else s)"
  define q where "q = dropWhile c_isdigit s1"
  define e where "e = (if q \<noteq> [] \<and> hd q = CHR ''.'' then dropWhile c_isdigit (tl q) else q)"
  have r: "r = after_exponent e" and
    some: "takeWhile c_isdigit s1 \<noteq> [] \<or> (q \<noteq> [] \<and> hd q = CHR ''.'' \<and> takeWhile c_isdigit (tl q) \<noteq> [])"
    using a unfolding strtod10_def s1_def [symmetric] Let_def q_def e_def by (auto split: if_splits)
  have len: "length r \<le> length e" using r after_exponent_le by simp
  have s1: "length s1 \<le> length s" by (simp add: s1_def)
  have q: "length s1 = length (takeWhile c_isdigit s1) + length q"
    unfolding q_def by (metis length_append takeWhile_dropWhile_id)
  have e: "length e \<le> length q" using length_dropWhile_le [of c_isdigit "tl q"] by (auto simp: e_def)
  show ?thesis
  proof (cases "takeWhile c_isdigit s1 = []")
    case False
    then have "length q < length s1" using q by (cases "takeWhile c_isdigit s1") auto
    then show ?thesis using len s1 e by linarith
  next
    case True
    with some have "q \<noteq> []" "e = dropWhile c_isdigit (tl q)" by (auto simp: e_def)
    then have "length e < length q" using length_dropWhile_le [of c_isdigit "tl q"] by (cases q) (auto simp: le_imp_less_Suc)
    then show ?thesis using len s1 q by linarith
  qed
qed

lemma parse_number_shrinks: "parse_number s = Some (v, r) \<Longrightarrow> length r < length s"
  using length_takeWhile_le [of number_char s]
  by (auto simp: parse_number_def Let_def dest!: strtod10_shrinks)

lemma skip_ws_Cons_le: "skip_ws r = c # r' \<Longrightarrow> length r' < length r"
  using skip_ws_le [of r] by simp

lemma tl_skip_ws_less: "skip_ws t \<noteq> [] \<Longrightarrow> length (tl (skip_ws t)) < Suc (length t)"
  using skip_ws_le [of t] by (cases "skip_ws t") auto

function parse_value :: "nat \<Rightarrow> string \<Rightarrow> (cjson \<times> string) option"
  and parse_elements :: "nat \<Rightarrow> string \<Rightarrow> (cjson list \<times> string) option"
  and parse_members :: "nat \<Rightarrow> string \<Rightarrow> ((string \<times> cjson) list \<times> string) option" where
  "parse_value d s =
     (if starts_with ''null'' s then Some (CNull, drop 4 s)
      else if starts_with ''false'' s then Some (CBool False, drop 5 s)
      else if starts_with ''true'' s then Some (CBool True, drop 4 s)
      else case s of [] \<Rightarrow> None
        | c # t \<Rightarrow>
            if c = dquote then map_option (\<lambda>(x, r). (CString x, r)) (parse_string s)
            else if c = CHR ''-'' \<or> c_isdigit c then parse_number s
            else if c = CHR ''['' then
              (if CJSON_NESTING_LIMIT \<le> d then None
               else if skip_ws t \<noteq> [] \<and> hd (skip_ws t) = CHR '']'' then Some (CArray [], tl (skip_ws t))
               else map_option (\<lambda>(xs, r). (CArray xs, r)) (parse_elements (Suc d) t))
            else if c = CHR ''{'' then
              (if CJSON_NESTING_LIMIT \<le> d then None
               else if skip_ws t \<noteq> [] \<and> hd (skip_ws t) = CHR ''}'' then Some (CObject [], tl (skip_ws t))
               else map_option (\<lambda>(ms, r). (CObject ms, r)) (parse_members (Suc d) t))
            else None)"
| "parse_elements d s =
     (case parse_value d (skip_ws s) of None \<Rightarrow> None
      | Some (v, r) \<Rightarrow>
          (case skip_ws r of [] \<Rightarrow> None
           | c # r' \<Rightarrow>
               if c = CHR '','' then map_option (\<lambda>(vs, q). (v # vs, q)) (parse_elements d r')
               else if c = CHR '']'' then Some ([v], r') else None))"
| "parse_members d s =
     (case parse_string (skip_ws s) of None \<Rightarrow> None
      | Some (k, r0) \<Rightarrow>
          (case skip_ws r0 of [] \<Rightarrow> None
           | c0 # r1 \<Rightarrow>
               if c0 \<noteq> CHR '':'' then None
               else case parse_value d (skip_ws r1) of None \<Rightarrow> None
                 | Some (v, r) \<Rightarrow>
                     (case skip_ws r of [] \<Rightarrow> None
                      | c # r' \<Rightarrow>
                          if c = CHR '','' then map_option (\<lambda>(ms, q). ((k, v) # ms, q)) (parse_members d r')
                          else if c = CHR ''}'' then Some ([(k, v)], r') else None)))"
  by pat_completeness auto
termination
proof -
  have shrinks: "(\<forall>v r. parse_value d s = Some (v, r) \<longrightarrow> length r < length s)"
    if "parse_value_parse_elements_parse_members_dom (Inl (d, s))" for d s
    using that
  proof (induct rule: parse_value_parse_elements_parse_members.pinduct(1) [where Q = "\<lambda>d s. \<forall>v r. parse_elements d s = Some (v, r) \<longrightarrow> length r < length s" and R = "\<lambda>d s. \<forall>v r. parse_members d s = Some (v, r) \<longrightarrow> length r < length s"])
    case (1 d s)
    show ?case
    proof (intro allI impI)
      fix v r
      assume e: "parse_value d s = Some (v, r)"
      show "length r < length s"
      proof (cases s)
        case Nil
        then show ?thesis using e 1(1) by (simp add: parse_value.psimps starts_with_def)
      next
        case (Cons c t)
        show ?thesis
          using e [unfolded parse_value.psimps [OF 1(1)]] 1(2) [OF _ _ _ Cons] 1(3) [OF _ _ _ Cons] Cons tl_skip_ws_less [of t]
            parse_string_shrinks [of s] parse_number_shrinks [of s]
          by (auto split: if_splits dest: less_SucI)
      qed
    qed
  next
    case (2 d s)
    show ?case
    proof (intro allI impI)
      fix v r
      assume e: "parse_elements d s = Some (v, r)"
      show "length r < length s"
        using e [unfolded parse_elements.psimps [OF 2(1)]] 2(2,3) skip_ws_le [of s]
        by (fastforce split: option.splits list.splits if_splits dest: skip_ws_Cons_le)
    qed
  next
    case (3 d s)
    show ?case
    proof (intro allI impI)
      fix v r
      assume e: "parse_members d s = Some (v, r)"
      obtain k r0 r1 v1 r2 c r3 where
        p: "parse_string (skip_ws s) = Some (k, r0)" "skip_ws r0 = CHR '':'' # r1" "parse_value d (skip_ws r1) = Some (v1, r2)" "skip_ws r2 = c # r3"
        and tail: "map_option (\<lambda>(ms, q). ((k, v1) # ms, q)) (parse_members d r3) = Some (v, r) \<and> c = CHR '','' \<or> r = r3"
        using e [unfolded parse_members.psimps [OF 3(1)]] by (auto split: option.splits list.splits if_splits)
      have "length r3 < length s"
        using 3(2) [OF p(1) _ p(2)] p parse_string_shrinks [OF p(1)] skip_ws_le [of s] skip_ws_le [of r1]
        by (fastforce dest: skip_ws_Cons_le)
      moreover have "r \<noteq> r3 \<Longrightarrow> length r < length r3"
        using 3(3) [OF p(1) _ p(2) _ p(3) _ p(4)] tail by auto
      ultimately show "length r < length s" by (cases "r = r3") auto
    qed
  qed
  have less: "length r' < length s"
    if "parse_value_parse_elements_parse_members_dom (Inl (d, skip_ws s))" "parse_value d (skip_ws s) = Some (v, r)" "skip_ws r = c # r'" for d s v r c r'
    using shrinks [OF that(1)] that(2,3) skip_ws_le [of s] by (fastforce dest: skip_ws_Cons_le)
  have "length r1 < length s" if "parse_string (skip_ws s) = Some (k, r0)" "skip_ws r0 = c # r1" for s k r0 c r1
    using parse_string_shrinks [OF that(1)] skip_ws_Cons_le [OF that(2)] skip_ws_le [of s] by simp
  note less = less this
  show ?thesis
  proof (relation "measure (case_sum (\<lambda>(d, s). 2 * length s) (case_sum (\<lambda>(d, s). 2 * length s + 1) (\<lambda>(d, s). 2 * length s + 1)))", goal_cases)
    case (5 d s x v r c r')
    then show ?case using less(1) by auto
  next
    case (6 d s x k r0 c r1)
    then show ?case using less(2) [of s k r0 c r1] skip_ws_le [of r1] by auto
  next
    case (7 d s x k r0 c0 r1 y v r c r')
    then show ?case using less(1) [of d r1 v r c r'] less(2) [of s k r0 c0 r1] by auto
  qed (auto simp: skip_ws_le less_Suc_eq_le)
qed

declare parse_value.simps [simp del] parse_elements.simps [simp del] parse_members.simps [simp del]

definition cJSON_Parse :: "string \<Rightarrow> cjson option" where
  "cJSON_Parse value = map_option fst (parse_value 0 (skip_ws (skip_utf8_bom (takeWhile (\<lambda>c. c \<noteq> nul) value))))"

section \<open>Printing\<close>

text \<open>\<open>%1.<p>g\<close> of a number that is not 0: \<open>p\<close> significant digits without the trailing zeros.\<close>

definition strip_zeros :: "string \<Rightarrow> string" where "strip_zeros s = rev (dropWhile (\<lambda>c. c = CHR ''0'') (rev s))"

definition put_fraction :: "string \<Rightarrow> string \<Rightarrow> string" where
  "put_fraction ip fp = (if strip_zeros fp = [] then ip else ip @ ''.'' @ strip_zeros fp)"

definition fmt_exp :: "int \<Rightarrow> string" where
  "fmt_exp e = ''e'' @ (if e < 0 then ''-'' else ''+'') @ (if \<bar>e\<bar> < 10 then ''0'' else []) @ show_nat (nat \<bar>e\<bar>)"

definition fmt_g :: "nat \<Rightarrow> rat \<Rightarrow> string" where
  "fmt_g p x =
     (let e0 = floor_log 10 \<bar>x\<bar>; n0 = round_half_even (\<bar>x\<bar> / rat_pow 10 (e0 - (int p - 1)));
          up = (n0 = 10 ^ p); e = (if up then e0 + 1 else e0); ds = show_nat (if up then 10 ^ (p - 1) else n0)
      in (if x < 0 then ''-'' else []) @
         (if - 4 \<le> e \<and> e < int p then
            (if 0 \<le> e then put_fraction (take (nat e + 1) ds) (drop (nat e + 1) ds)
             else put_fraction ''0'' (replicate (nat (- e) - 1) (CHR ''0'') @ ds))
          else put_fraction (take 1 ds) (drop 1 ds) @ fmt_exp e))"

definition compare_double :: "rat \<Rightarrow> rat \<Rightarrow> bool" where
  "compare_double a b \<longleftrightarrow> \<bar>a - b\<bar> \<le> max \<bar>a\<bar> \<bar>b\<bar> / 2 ^ 52"

definition print_number :: "rat \<Rightarrow> string option" where
  "print_number d =
     (let s = (if d = of_int (double_to_valueint d) then show_int (double_to_valueint d)
               else case strtod10 (fmt_g 15 d) of None \<Rightarrow> fmt_g 17 d
                 | Some (test, _) \<Rightarrow> if compare_double test d then fmt_g 15 d else fmt_g 17 d)
      in if length s > 25 then None else Some s)"

definition hex_lower :: "nat \<Rightarrow> char" where "hex_lower n = (if n < 10 then char_of (n + 48) else char_of (n + 87))"

definition escaped :: "char \<Rightarrow> string" where
  "escaped c =
     (if char_code c > 31 \<and> c \<noteq> dquote \<and> c \<noteq> bslash then [c]
      else if c = bslash then [bslash, bslash] else if c = dquote then [bslash, dquote]
      else if c = bspace then [bslash, CHR ''b''] else if c = ffeed then [bslash, CHR ''f'']
      else if c = lf then [bslash, CHR ''n''] else if c = cr then [bslash, CHR ''r'']
      else if c = tab then [bslash, CHR ''t'']
      else [bslash, CHR ''u'', CHR ''0'', CHR ''0'', hex_lower (char_code c div 16), hex_lower (char_code c mod 16)])"

definition print_string_ptr :: "string \<Rightarrow> string" where
  "print_string_ptr input = [dquote] @ concat (map escaped (takeWhile (\<lambda>c. c \<noteq> nul) input)) @ [dquote]"

text \<open>Compact printing; the depth is that of the print buffer.\<close>

fun print_value :: "nat \<Rightarrow> cjson \<Rightarrow> string option"
  and print_elements :: "nat \<Rightarrow> cjson list \<Rightarrow> string option"
  and print_members :: "nat \<Rightarrow> (string \<times> cjson) list \<Rightarrow> string option" where
  "print_value d CNull = Some ''null''"
| "print_value d (CBool b) = Some (if b then ''true'' else ''false'')"
| "print_value d (CNumber x) = print_number x"
| "print_value d (CString s) = Some (print_string_ptr s)"
| "print_value d (CArray xs) =
     (if CJSON_NESTING_LIMIT \<le> d then None else map_option (\<lambda>b. ''['' @ b @ '']'') (print_elements (Suc d) xs))"
| "print_value d (CObject ms) =
     (if CJSON_NESTING_LIMIT \<le> d then None else map_option (\<lambda>b. ''{'' @ b @ ''}'') (print_members (Suc d) ms))"
| "print_elements d [] = Some []"
| "print_elements d (v # vs) =
     (case print_value d v of None \<Rightarrow> None
      | Some a \<Rightarrow> if vs = [] then Some a else map_option (\<lambda>b. a @ '','' @ b) (print_elements d vs))"
| "print_members d [] = Some []"
| "print_members d ((k, v) # ms) =
     (case print_value d v of None \<Rightarrow> None
      | Some a \<Rightarrow>
          if ms = [] then Some (print_string_ptr k @ '':'' @ a)
          else map_option (\<lambda>b. print_string_ptr k @ '':'' @ a @ '','' @ b) (print_members d ms))"

definition cJSON_PrintUnformatted :: "cjson \<Rightarrow> string option" where
  "cJSON_PrintUnformatted item = print_value 0 item"

section \<open>Reading back what was printed\<close>

fun plain :: "cjson \<Rightarrow> bool" where
  "plain (CString s) = (nul \<notin> set s)"
| "plain (CNumber x) = (x = of_int (double_to_valueint x))"
| "plain (CArray xs) = list_all plain xs"
| "plain (CObject ms) = list_all (\<lambda>(k, v). nul \<notin> set k \<and> plain v) ms"
| "plain _ = True"

fun nesting :: "cjson \<Rightarrow> nat" where
  "nesting (CArray xs) = Suc (foldr (\<lambda>x n. max (nesting x) n) xs 0)"
| "nesting (CObject ms) = Suc (foldr (\<lambda>(k, v) n. max (nesting v) n) ms 0)"
| "nesting _ = 0"

subsection \<open>Numbers\<close>

lemma ndigits_le: "2 \<le> b \<Longrightarrow> n < b ^ k \<Longrightarrow> ndigits b n \<le> k"
proof (induction k arbitrary: n)
  case (Suc k)
  then show ?case by (subst ndigits.simps) (auto simp: less_mult_imp_div_less mult.commute)
qed (simp add: ndigits.simps)

lemma round_half_even_of_nat [simp]: "round_half_even (of_nat n) = n"
  by (simp add: round_half_even_def)

lemma to_double_of_nat: "n < 2 ^ 53 \<Longrightarrow> to_double (of_nat n) = of_nat n"
proof (cases "n = 0")
  case False
  assume n: "n < 2 ^ 53"
  define k where "k = nat (52 - floor_log 2 (of_nat n))"
  from False have fl: "floor_log 2 (of_nat n) = int (ndigits 2 n) - 1" by (simp add: floor_log_def)
  have "ndigits 2 n \<le> 53" using ndigits_le [of 2 n 53] n by simp
  then have u: "rat_pow 2 (max (floor_log 2 (of_nat n) - 52) (- 1074)) = 1 / 2 ^ k" and k: "k \<le> 53"
    unfolding fl k_def rat_pow_def by (auto simp: max_def)
  have "(of_nat n :: rat) * 2 ^ k = of_nat (n * 2 ^ k)" by simp
  then have "round_half_even (of_nat n * 2 ^ k) = n * 2 ^ k" by (metis round_half_even_of_nat)
  then show ?thesis using False by (simp add: to_double_def u Let_def)
qed (simp add: to_double_def)

lemma all_digits: "takeWhile c_isdigit (show_nat n) = show_nat n" "dropWhile c_isdigit (show_nat n) = []"
  using takeWhile_show_nat [of "[]" n] dropWhile_show_nat [of "[]" n] by simp_all

lemma strtod_show_nat: "strtod_num 10 c_isdigit digits_val CHR ''e'' 10 (show_nat n) = of_nat n"
  by (simp add: strtod_num_def strtod_exp_def rat_pow_def all_digits Let_def)

lemma strtod10_nat: "strtod10 (show_nat n) = Some (to_double (of_nat n), [])"
proof -
  obtain c r where "show_nat n = c # r" "c \<noteq> CHR ''-''" "c \<noteq> CHR ''+''" by (rule show_nat_head)
  then have "hd (show_nat n) \<noteq> CHR ''-''" "hd (show_nat n) \<noteq> CHR ''+''" by simp_all
  then show ?thesis
    by (simp add: strtod10_def after_exponent_def all_digits strtod_show_nat Let_def)
qed

lemma strtod10_minus: "strtod10 (show_nat n) = Some (x, []) \<Longrightarrow> strtod10 (CHR ''-'' # show_nat n) = Some (- x, [])"
proof -
  obtain c r where h: "show_nat n = c # r" "c \<noteq> CHR ''-''" "c \<noteq> CHR ''+''" by (rule show_nat_head)
  then show "strtod10 (show_nat n) = Some (x, []) \<Longrightarrow> strtod10 (CHR ''-'' # show_nat n) = Some (- x, [])"
    by (auto simp: strtod10_def Let_def split: if_splits)
qed

lemma to_double_minus: "to_double (- x) = - to_double x"
  by (simp add: to_double_def Let_def)

lemma strtod10_int: "strtod10 (show_int i) = Some (to_double (of_int i), [])"
  using strtod10_nat [of "nat i"] strtod10_minus [OF strtod10_nat, of "nat (- i)"]
  by (auto simp: show_int_def of_nat_nat simp flip: to_double_minus)

lemma to_double_int: "\<bar>i\<bar> < 2 ^ 53 \<Longrightarrow> to_double (of_int i) = of_int i"
  using to_double_of_nat [of "nat \<bar>i\<bar>"] to_double_minus [of "of_int \<bar>i\<bar>"] by (auto simp: of_nat_nat abs_if split: if_splits)

lemma strtod10_show_int: "\<bar>i\<bar> < 2 ^ 53 \<Longrightarrow> strtod10 (show_int i) = Some (of_int i, [])"
  by (simp add: strtod10_int to_double_int)

lemma show_int_chars: "list_all number_char (show_int i)"
  using show_nat_digits by (auto simp: show_int_def number_char_def list_all_iff)

lemma number_tail: "list_all number_char s \<Longrightarrow> u = [] \<or> \<not> number_char (hd u) \<Longrightarrow> takeWhile number_char (s @ u) = s"
  by (cases u) (auto simp: list_all_iff takeWhile_append)

lemma parse_number_show_int:
  "\<bar>i\<bar> < 2 ^ 53 \<Longrightarrow> u = [] \<or> \<not> number_char (hd u) \<Longrightarrow> parse_number (show_int i @ u) = Some (CNumber (of_int i), u)"
  by (simp add: parse_number_def number_tail [OF show_int_chars] strtod10_show_int)

lemma print_number_int:
  assumes "x = of_int (double_to_valueint x)"
  shows "print_number x = Some (show_int (double_to_valueint x))" "\<bar>double_to_valueint x\<bar> < 2 ^ 53"
proof -
  let ?i = "double_to_valueint x"
  have r: "c_int_min \<le> ?i" "?i \<le> c_int_max"
    using assms by (auto simp: double_to_valueint_def c_limits split: if_splits)
  then show "\<bar>?i\<bar> < 2 ^ 53" by (auto simp: c_limits)
  have "nat \<bar>?i\<bar> < 10 ^ 24" using r by (auto simp: c_limits nat_less_iff)
  then have "length (show_int ?i) \<le> 25"
    using show_nat_lengthI [of "nat \<bar>?i\<bar>" 24] by (auto simp: show_int_def)
  then show "print_number x = Some (show_int ?i)" using assms by (simp add: print_number_def Let_def)
qed

subsection \<open>Strings\<close>

lemma hex_lower_facts: "n < 16 \<Longrightarrow> c_isxdigit (hex_lower n) \<and> hexval (hex_lower n) = n"
  by (auto simp: hex_lower_def c_isxdigit_def c_isdigit_def hexval_def)

lemma string_end_plain: "c \<noteq> dquote \<Longrightarrow> c \<noteq> bslash \<Longrightarrow> string_end (c # s) = map_option (\<lambda>(b, r). (c # b, r)) (string_end s)"
  by simp

lemma xdigit_plain: "c_isxdigit c \<Longrightarrow> c \<noteq> dquote \<and> c \<noteq> bslash"
  by (auto simp: c_isxdigit_def c_isdigit_def dquote_def bslash_def)

lemma string_end_escaped: "string_end (escaped c @ s) = map_option (\<lambda>(b, r). (escaped c @ b, r)) (string_end s)"
proof -
  have h: "hex_lower (char_code c mod 16) \<noteq> dquote" "hex_lower (char_code c mod 16) \<noteq> bslash"
    using xdigit_plain [of "hex_lower (char_code c mod 16)"] hex_lower_facts [of "char_code c mod 16"] by auto
  have l: "hex_lower (char_code c div 16) \<noteq> dquote" "hex_lower (char_code c div 16) \<noteq> bslash" if "\<not> 31 < char_code c"
    using xdigit_plain [of "hex_lower (char_code c div 16)"] hex_lower_facts [of "char_code c div 16"] that by auto
  have b: "bslash \<noteq> dquote" "dquote \<noteq> CHR ''0''" "bslash \<noteq> CHR ''0''" "dquote \<noteq> CHR ''u''" by (simp_all add: bslash_def dquote_def)
  show ?thesis
    using h l b by (auto simp: escaped_def option.map_comp comp_def split_def intro!: option.map_cong0)
qed

lemma utf16_control:
  "n < 32 \<Longrightarrow> utf16_literal_to_utf8 (bslash # CHR ''u'' # CHR ''0'' # CHR ''0'' # hex_lower (n div 16) # hex_lower (n mod 16) # s) = Some ([char_of n], 6)"
proof -
  assume n: "n < 32"
  have "parse_hex4 (CHR ''0'' # CHR ''0'' # hex_lower (n div 16) # hex_lower (n mod 16) # s) = n"
    using n hex_lower_facts [of "n div 16"] hex_lower_facts [of "n mod 16"]
    by (simp add: parse_hex4_def hex_run_def c_isxdigit_def c_isdigit_def hexval_def)
  then show ?thesis using n by (simp add: utf16_literal_to_utf8_def utf8_of_def Let_def)
qed

lemma unescape_body_escaped: "unescape_body (escaped c @ s) = map_option ((#) c) (unescape_body s)"
proof -
  have special: "dquote \<noteq> bslash" "dquote \<noteq> CHR ''u''" "bspace \<noteq> bslash"
    by (simp_all add: dquote_def bslash_def bspace_def)
  consider "char_code c > 31" "c \<noteq> dquote" "c \<noteq> bslash" | "c \<in> {dquote, bslash, bspace, ffeed, lf, cr, tab}"
    | "c \<notin> {dquote, bslash, bspace, ffeed, lf, cr, tab}" "char_code c < 32" by force
  then show ?thesis
  proof cases
    case 2
    then show ?thesis by (auto simp: escaped_def dquote_def bslash_def bspace_def ffeed_def lf_def cr_def tab_def)
  next
    case 3
    have "(@) [c] = (#) c" by (rule ext) simp
    then show ?thesis
      using 3 utf16_control [of "char_code c" s]
      by (simp add: escaped_def dquote_def bslash_def)
  qed (simp add: escaped_def)
qed

lemma string_end_body: "string_end (concat (map escaped s) @ dquote # u) = Some (concat (map escaped s), u)"
  by (induction s) (simp_all add: string_end_escaped)

lemma unescape_concat: "unescape_body (concat (map escaped s)) = Some s"
  by (induction s) (simp_all add: unescape_body_escaped)

lemma takeWhile_id: "nul \<notin> set s \<Longrightarrow> takeWhile (\<lambda>c. c \<noteq> nul) s = s"
  by (induction s) auto

lemma parse_print_string: "nul \<notin> set s \<Longrightarrow> parse_string (print_string_ptr s @ u) = Some (s, u)"
  by (simp add: parse_string_def print_string_ptr_def takeWhile_id string_end_body unescape_concat)

text \<open>The escapes the agent writes itself (\<open>utils_json_escape\<close>) are read back by this parser too.\<close>

lemma high_digit: "n < 32 \<Longrightarrow> n div 16 mod 16 = (n :: nat) div 16"
proof -
  assume "n < 32"
  then have "n div 16 < 16" by simp
  then show ?thesis by (rule mod_less)
qed

lemma esc_cases:
  obtains "esc c = escaped c" | "char_code c < 32"
    "esc c = [bslash, CHR ''u'', CHR ''0'', CHR ''0'', hex_upper (char_code c div 16), hex_upper (char_code c mod 16)]"
proof (cases "c \<notin> {dquote, bslash, bspace, ffeed, lf, cr, tab} \<and> char_code c < 32")
  case True
  then have "char_code c div 16 mod 16 = char_code c div 16" by (intro high_digit) simp
  with True have "esc c = [bslash, CHR ''u'', CHR ''0'', CHR ''0'', hex_upper (char_code c div 16), hex_upper (char_code c mod 16)]"
    by (auto simp: esc_control hex4_def) (simp add: hex_upper_def)
  then show thesis using that(2) True by blast
next
  case False
  then have "esc c = escaped c"
    by (auto simp: esc_def escape_char_def escaped_def dquote_def bslash_def bspace_def ffeed_def lf_def cr_def tab_def)
  then show thesis by (rule that(1))
qed

lemma hex_upper_plain: "hex_upper (n mod 16) \<noteq> dquote" "hex_upper (n mod 16) \<noteq> bslash"
  "c_isxdigit (hex_upper (n mod 16))" "hexval (hex_upper (n mod 16)) = n mod 16"
  using hex_upper_facts [of n] xdigit_plain by auto

lemma string_end_esc: "string_end (esc c @ s) = map_option (\<lambda>(b, r). (esc c @ b, r)) (string_end s)"
proof (cases c rule: esc_cases)
  case 1
  then show ?thesis by (simp add: string_end_escaped)
next
  case 2
  then have d: "hex_upper (char_code c div 16) \<noteq> dquote" "hex_upper (char_code c div 16) \<noteq> bslash"
    using hex_upper_plain(1,2) [of "char_code c div 16"] high_digit by simp_all
  have b: "bslash \<noteq> dquote" "dquote \<noteq> CHR ''0''" "bslash \<noteq> CHR ''0''" by (simp_all add: bslash_def dquote_def)
  show ?thesis
    unfolding 2(2) using hex_upper_plain(1,2) [of "char_code c"] b d
    by (auto simp: option.map_comp comp_def split_def intro!: option.map_cong0)
qed

lemma unescape_esc_body: "unescape_body (esc c @ s) = map_option ((#) c) (unescape_body s)"
proof (cases c rule: esc_cases)
  case 1
  then show ?thesis by (simp add: unescape_body_escaped)
next
  case 2
  let ?n = "char_code c"
  have "?n div 16 mod 16 = ?n div 16" using 2(1) by (rule high_digit)
  then have x: "c_isxdigit (hex_upper (?n div 16))" "hexval (hex_upper (?n div 16)) = ?n div 16"
    using hex_upper_plain(3,4) [of "?n div 16"] by simp_all
  have "parse_hex4 (CHR ''0'' # CHR ''0'' # hex_upper (?n div 16) # hex_upper (?n mod 16) # s) = ?n"
    using x hex_upper_plain(3,4) [of ?n]
    by (simp add: parse_hex4_def hex_run_def) (simp add: c_isxdigit_def c_isdigit_def hexval_def)
  then have u: "utf16_literal_to_utf8 (bslash # CHR ''u'' # CHR ''0'' # CHR ''0'' # hex_upper (?n div 16) # hex_upper (?n mod 16) # s) = Some ([c], 6)"
    using 2(1) by (simp add: utf16_literal_to_utf8_def utf8_of_def Let_def)
  have "(@) [c] = (#) c" by (rule ext) simp
  then show ?thesis unfolding 2(2) using u by (simp add: dquote_def bslash_def)
qed

lemma parse_escaped_name: "nul \<notin> set s \<Longrightarrow> parse_string (jq (concat (map esc s)) @ u) = Some (s, u)"
proof -
  assume n: "nul \<notin> set s"
  have "string_end (concat (map esc s) @ dquote # u) = Some (concat (map esc s), u)"
    by (induction s) (simp_all add: string_end_esc)
  moreover have "unescape_body (concat (map esc s)) = Some s" by (induction s) (simp_all add: unescape_esc_body)
  ultimately show ?thesis using n by (simp add: parse_string_def jq_def takeWhile_id)
qed

subsection \<open>Values\<close>

lemma print_string_head: "\<exists>r. print_string_ptr s = dquote # r"
  by (simp add: print_string_ptr_def)

lemma show_int_head: "\<exists>c r. show_int i = c # r \<and> (c = CHR ''-'' \<or> c_isdigit c)"
  by (metis show_int_def show_nat_head)

lemma print_value_head:
  assumes "plain v" "print_value d v = Some s"
  obtains c r where "s = c # r" "32 < char_code c" "c \<noteq> CHR '']''"
proof (cases v)
  case CNull
  show thesis using assms(2) CNull by (intro that [of "CHR ''n''" "''ull''"]) simp_all
next
  case (CBool b)
  show thesis using assms(2) CBool
    by (intro that [of "hd s" "tl s"]) (auto split: if_splits)
next
  case (CNumber x)
  then have s: "s = show_int (double_to_valueint x)" using assms print_number_int [of x] by simp
  obtain c r where "show_int (double_to_valueint x) = c # r" "c = CHR ''-'' \<or> c_isdigit c"
    using show_int_head by blast
  then show thesis using s by (intro that [of c r]) (auto simp: c_isdigit_def)
next
  case (CString x)
  show thesis using assms(2) CString
    by (intro that [of dquote "tl s"]) (auto simp: print_string_ptr_def dquote_def)
next
  case (CArray xs)
  show thesis using assms(2) CArray by (intro that [of "CHR ''[''" "tl s"]) (auto split: if_splits)
next
  case (CObject ms)
  show thesis using assms(2) CObject by (intro that [of "CHR ''{''" "tl s"]) (auto split: if_splits)
qed

lemma skip_ws_id: "32 < char_code c \<Longrightarrow> skip_ws (c # s) = c # s"
  by (simp add: skip_ws_def)

text \<open>One step of the parser per printed form.\<close>

lemma parse_value_array:
  assumes "d < CJSON_NESTING_LIMIT" "parse_elements (Suc d) (b @ CHR '']'' # u) = Some (xs, u)" "b = c # b'" "32 < char_code c" "c \<noteq> CHR '']''"
  shows "parse_value d (CHR ''['' # b @ CHR '']'' # u) = Some (CArray xs, u)"
  using assms by (subst parse_value.simps) (simp add: starts_with_def dquote_def c_isdigit_def skip_ws_id)

lemma parse_value_object:
  assumes "d < CJSON_NESTING_LIMIT" "parse_members (Suc d) (b @ CHR ''}'' # u) = Some (ms, u)" "b = dquote # b'"
  shows "parse_value d (CHR ''{'' # b @ CHR ''}'' # u) = Some (CObject ms, u)"
  using assms by (subst parse_value.simps) (simp add: starts_with_def dquote_def c_isdigit_def skip_ws_id)

lemma parse_value_empty:
  "d < CJSON_NESTING_LIMIT \<Longrightarrow> parse_value d (CHR ''['' # CHR '']'' # u) = Some (CArray [], u)"
  "d < CJSON_NESTING_LIMIT \<Longrightarrow> parse_value d (CHR ''{'' # CHR ''}'' # u) = Some (CObject [], u)"
  by (subst parse_value.simps, simp add: starts_with_def dquote_def c_isdigit_def skip_ws_id)+

lemma print_elements_head:
  assumes "plain v" "print_elements d (v # vs) = Some s"
  obtains c r where "s = c # r" "32 < char_code c" "c \<noteq> CHR '']''"
proof -
  from assms(2) obtain a b where a: "print_value d v = Some a" "s = a @ b" by (auto split: option.splits if_splits)
  obtain c r where "a = c # r" "32 < char_code c" "c \<noteq> CHR '']''" by (rule print_value_head [OF assms(1) a(1)])
  then show thesis using a(2) that [of c "r @ b"] by simp
qed

lemma print_members_head: "print_members d (m # ms) = Some s \<Longrightarrow> \<exists>r. s = dquote # r"
  using print_string_head [of "fst m"] by (cases m) (auto split: option.splits if_splits)

lemma parse_value_number:
  assumes "x = of_int (double_to_valueint x)" "u = [] \<or> \<not> number_char (hd u)"
  shows "parse_value d (show_int (double_to_valueint x) @ u) = Some (CNumber x, u)"
proof -
  obtain c r where c: "show_int (double_to_valueint x) = c # r" "c = CHR ''-'' \<or> c_isdigit c" using show_int_head by blast
  have "c \<noteq> CHR ''n''" "c \<noteq> CHR ''f''" "c \<noteq> CHR ''t''" "c \<noteq> dquote" using c(2) by (auto simp: c_isdigit_def dquote_def)
  then have "parse_value d (show_int (double_to_valueint x) @ u) = parse_number (show_int (double_to_valueint x) @ u)"
    using c by (subst parse_value.simps) (simp add: starts_with_def)
  then show ?thesis
    using parse_number_show_int [OF print_number_int(2) [OF assms(1)] assms(2)] assms(1) by simp
qed

lemma parse_value_string: "nul \<notin> set s \<Longrightarrow> parse_value d (print_string_ptr s @ u) = Some (CString s, u)"
proof -
  assume s: "nul \<notin> set s"
  obtain r where r: "print_string_ptr s = dquote # r" using print_string_head by blast
  show ?thesis
    using parse_print_string [OF s, of u] r
    by (subst parse_value.simps) (simp add: starts_with_def dquote_def)
qed

lemma parse_elements_step:
  assumes "parse_value d (a @ c # t) = Some (v, c # t)" "a = h # a'" "32 < char_code h" "c = CHR '','' \<or> c = CHR '']''"
  shows "parse_elements d (a @ c # t) = (if c = CHR '','' then map_option (\<lambda>(vs, q). (v # vs, q)) (parse_elements d t) else Some ([v], t))"
  using assms by (subst parse_elements.simps) (auto simp: skip_ws_id)

lemma parse_members_step:
  assumes "nul \<notin> set k" "parse_value d (a @ c # t) = Some (v, c # t)" "a = h # a'" "32 < char_code h" "c = CHR '','' \<or> c = CHR ''}''"
  shows "parse_members d (print_string_ptr k @ CHR '':'' # a @ c # t) =
    (if c = CHR '','' then map_option (\<lambda>(ms, q). ((k, v) # ms, q)) (parse_members d t) else Some ([(k, v)], t))"
proof -
  obtain r where r: "print_string_ptr k = dquote # r" using print_string_head by blast
  then have "skip_ws (print_string_ptr k @ CHR '':'' # a @ c # t) = print_string_ptr k @ CHR '':'' # a @ c # t"
    by (simp add: skip_ws_id dquote_def)
  then show ?thesis
    using assms parse_print_string [OF assms(1)] by (subst parse_members.simps) (auto simp: skip_ws_id)
qed

lemma parse_print:
  "plain v \<Longrightarrow> print_value d v = Some s \<Longrightarrow> u = [] \<or> \<not> number_char (hd u) \<Longrightarrow> parse_value d (s @ u) = Some (v, u)"
  "list_all plain vs \<Longrightarrow> vs \<noteq> [] \<Longrightarrow> print_elements d vs = Some s \<Longrightarrow> parse_elements d (s @ CHR '']'' # u) = Some (vs, u)"
  "list_all (\<lambda>(k, v). nul \<notin> set k \<and> plain v) ms \<Longrightarrow> ms \<noteq> [] \<Longrightarrow> print_members d ms = Some s \<Longrightarrow>
     parse_members d (s @ CHR ''}'' # u) = Some (ms, u)"
proof (induction d v and d vs and d ms arbitrary: s u and s u and s u rule: print_value_print_elements_print_members.induct)
  case (1 d)
  then show ?case by (subst parse_value.simps) (auto simp: starts_with_def)
next
  case (2 d b)
  then show ?case by (cases b; subst parse_value.simps) (auto simp: starts_with_def)
next
  case (3 d x)
  then show ?case using parse_value_number [of x u d] print_number_int [of x] by simp
next
  case (4 d x)
  then show ?case using parse_value_string [of x d u] by simp
next
  case (5 d xs)
  then obtain b where b: "print_elements (Suc d) xs = Some b" "s = ''['' @ b @ '']''" "d < CJSON_NESTING_LIMIT"
    by (auto split: if_splits)
  show ?case
  proof (cases xs)
    case Nil
    then show ?thesis using b parse_value_empty(1) [of d u] by simp
  next
    case (Cons v vs)
    then obtain c b' where "b = c # b'" "32 < char_code c" "c \<noteq> CHR '']''"
      using print_elements_head [of v "Suc d" vs b] b(1) 5(2) by auto
    then show ?thesis using parse_value_array [of d b u xs c b'] b 5(1) [of b u] 5(2) Cons by simp
  qed
next
  case (6 d ms)
  then obtain b where b: "print_members (Suc d) ms = Some b" "s = ''{'' @ b @ ''}''" "d < CJSON_NESTING_LIMIT"
    by (auto split: if_splits)
  show ?case
  proof (cases ms)
    case Nil
    then show ?thesis using b parse_value_empty(2) [of d u] by simp
  next
    case (Cons m ms')
    then obtain b' where "b = dquote # b'" using print_members_head b(1) by blast
    then show ?thesis using parse_value_object [of d b u ms b'] b 6(1) [of b u] 6(2) Cons by simp
  qed
next
  case (8 d v vs)
  then obtain a where a: "print_value d v = Some a" by (auto split: option.splits)
  have "plain v" using 8(3) by simp
  from print_value_head [OF this a] obtain h a' where h: "a = h # a'" "32 < char_code h" by blast
  have p: "parse_value d (a @ c # t) = Some (v, c # t)" if "c = CHR '','' \<or> c = CHR '']''" for c t
    using 8(1) [of a "c # t"] 8(3) a that by (auto simp: number_char_def c_isdigit_def)
  show ?case
  proof (cases "vs = []")
    case True
    then show ?thesis using 8(5) a parse_elements_step [OF p h, of "CHR '']''" u] by simp
  next
    case False
    then obtain b where b: "print_elements d vs = Some b" "s = a @ CHR '','' # b" using 8(5) a by auto
    then show ?thesis
      using parse_elements_step [OF p h, of "CHR '',''" "b @ CHR '']'' # u"] 8(2) [OF a False, of b u] 8(3) False by simp
  qed
next
  case (10 d k v ms)
  then obtain a where a: "print_value d v = Some a" by (auto split: option.splits)
  have "plain v" using 10(3) by simp
  from print_value_head [OF this a] obtain h a' where h: "a = h # a'" "32 < char_code h" by blast
  have k: "nul \<notin> set k" using 10(3) by simp
  have p: "parse_value d (a @ c # t) = Some (v, c # t)" if "c = CHR '','' \<or> c = CHR ''}''" for c t
    using 10(1) [of a "c # t"] 10(3) a that by (auto simp: number_char_def c_isdigit_def)
  show ?case
  proof (cases "ms = []")
    case True
    then show ?thesis using 10(5) a parse_members_step [OF k p h, of "CHR ''}''" u] by auto
  next
    case False
    then obtain b where b: "print_members d ms = Some b" "s = print_string_ptr k @ CHR '':'' # a @ CHR '','' # b" using 10(5) a by auto
    then show ?thesis
      using parse_members_step [OF k p h, of "CHR '',''" "b @ CHR ''}'' # u"] 10(2) [OF a False, of b u] 10(3) False by simp
  qed
qed simp_all

lemma print_defined:
  "plain v \<Longrightarrow> d \<le> CJSON_NESTING_LIMIT \<Longrightarrow> print_value d v = None \<longleftrightarrow> CJSON_NESTING_LIMIT < d + nesting v"
  "list_all plain vs \<Longrightarrow> d \<le> CJSON_NESTING_LIMIT \<Longrightarrow> print_elements d vs = None \<longleftrightarrow> CJSON_NESTING_LIMIT < d + foldr (\<lambda>x n. max (nesting x) n) vs 0"
  "list_all (\<lambda>(k, v). nul \<notin> set k \<and> plain v) ms \<Longrightarrow> d \<le> CJSON_NESTING_LIMIT \<Longrightarrow>
     print_members d ms = None \<longleftrightarrow> CJSON_NESTING_LIMIT < d + foldr (\<lambda>(k, v) n. max (nesting v) n) ms 0"
proof (induction d v and d vs and d ms rule: print_value_print_elements_print_members.induct)
  case (3 d x)
  then show ?case using print_number_int(1) [of x] by simp
next
  case (8 d v vs)
  then show ?case by (cases "vs = []") (auto split: option.splits)
next
  case (10 d k v ms)
  then show ?case by (cases "ms = []") (auto split: option.splits)
qed auto

text \<open>The text has no control characters, so it holds no NUL and passes through every C string.\<close>

lemma escaped_printable: "list_all (\<lambda>x. 32 \<le> char_code x) (escaped c)"
proof -
  have "32 \<le> char_code (hex_lower n)" if "n < 16" for n using that by (auto simp: hex_lower_def)
  moreover have "\<not> 31 < char_code c \<Longrightarrow> char_code c div 16 < 16" by simp
  ultimately show ?thesis by (auto simp: escaped_def bslash_def dquote_def)
qed

lemma print_string_printable: "list_all (\<lambda>x. 32 \<le> char_code x) (print_string_ptr s)"
  using escaped_printable by (auto simp: print_string_ptr_def list_all_iff dquote_def)

lemma show_int_printable: "list_all (\<lambda>x. 32 \<le> char_code x) (show_int i)"
  using show_int_chars by (rule list.pred_mono_strong) (auto simp: number_char_def c_isdigit_def)

lemma print_printable:
  "plain v \<Longrightarrow> print_value d v = Some s \<Longrightarrow> list_all (\<lambda>x. 32 \<le> char_code x) s"
  "list_all plain vs \<Longrightarrow> print_elements d vs = Some s \<Longrightarrow> list_all (\<lambda>x. 32 \<le> char_code x) s"
  "list_all (\<lambda>(k, v). nul \<notin> set k \<and> plain v) ms \<Longrightarrow> print_members d ms = Some s \<Longrightarrow> list_all (\<lambda>x. 32 \<le> char_code x) s"
proof (induction d v and d vs and d ms arbitrary: s and s and s rule: print_value_print_elements_print_members.induct)
  case (2 d b)
  then show ?case by (cases b) auto
next
  case (3 d x)
  then show ?case using print_number_int(1) [of x] show_int_printable [of "double_to_valueint x"] by simp
qed (auto simp: print_string_printable split: option.splits if_splits)

lemma printable_nul: "list_all (\<lambda>x. 32 \<le> char_code x) s \<Longrightarrow> nul \<notin> set s"
  by (auto simp: list_all_iff nul_def)

lemma print_no_bom:
  assumes "plain v" "print_value d v = Some s"
  shows "hd s \<noteq> CHR 0xEF"
proof (cases v)
  case (CNumber x)
  then show ?thesis using assms print_number_int(1) [of x] show_int_head [of "double_to_valueint x"] by (auto simp: c_isdigit_def)
qed (use assms in \<open>auto simp: print_string_ptr_def dquote_def split: if_splits\<close>)

lemma printed_parses:
  assumes "plain t" "cJSON_PrintUnformatted t = Some s"
  shows "list_all (\<lambda>x. 32 \<le> char_code x) s \<and> cJSON_Parse s = Some t"
proof -
  have p: "print_value 0 t = Some s" using assms(2) by (simp add: cJSON_PrintUnformatted_def)
  obtain c r where c: "s = c # r" "32 < char_code c" by (rule print_value_head [OF assms(1) p])
  have "skip_utf8_bom s = s" using print_no_bom [OF assms(1) p] c by (simp add: skip_utf8_bom_def starts_with_def)
  moreover have "skip_ws s = s" using c by (simp add: skip_ws_id)
  moreover have "takeWhile (\<lambda>c. c \<noteq> nul) s = s" using takeWhile_id [OF printable_nul [OF print_printable(1) [OF assms(1) p]]] .
  ultimately have "cJSON_Parse s = map_option fst (parse_value 0 s)" by (simp only: cJSON_Parse_def)
  then show ?thesis using print_printable(1) [OF assms(1) p] parse_print(1) [OF assms(1) p, of "[]"] by simp
qed

lemma printed_defined: "plain t \<Longrightarrow> nesting t \<le> CJSON_NESTING_LIMIT \<Longrightarrow> \<exists>s. cJSON_PrintUnformatted t = Some s"
  using print_defined(1) [of t 0] by (auto simp: cJSON_PrintUnformatted_def)

interpretation json: codec "\<lambda>t. the (cJSON_PrintUnformatted t)" cJSON_Parse "\<lambda>t. plain t \<and> nesting t \<le> CJSON_NESTING_LIMIT"
  using printed_defined printed_parses by unfold_locales fastforce

text \<open>Different trees have different texts.\<close>

lemma json_text_inj:
  "plain s \<Longrightarrow> plain t \<Longrightarrow> nesting s \<le> CJSON_NESTING_LIMIT \<Longrightarrow> nesting t \<le> CJSON_NESTING_LIMIT \<Longrightarrow>
     cJSON_PrintUnformatted s = cJSON_PrintUnformatted t \<longleftrightarrow> s = t"
  using json.enc_inj [of s t] by auto


definition sample_tree :: cjson where
  "sample_tree = CObject [(''a'', CArray [CNull, CBool True, CNumber (- 12)]), (''s'', CString [dquote, lf, CHR 0x01, CHR 0xC3])]"


section \<open>What parsing yields\<close>

fun nul_free :: "cjson \<Rightarrow> bool" where
  "nul_free (CString s) = (nul \<notin> set s)"
| "nul_free (CArray xs) = list_all nul_free xs"
| "nul_free (CObject ms) = list_all (\<lambda>(k, v). nul \<notin> set k \<and> nul_free v) ms"
| "nul_free _ = True"

lemma parse_string_nul: "parse_string s = Some (x, r) \<Longrightarrow> nul \<notin> set x"
  by (auto simp: parse_string_def dest: set_takeWhileD split: list.splits if_splits option.splits)

lemma parse_number_number: "parse_number s = Some (v, r) \<Longrightarrow> \<exists>x. v = CNumber x"
  by (auto simp: parse_number_def Let_def)

lemma parse_yields:
  "parse_value d s = Some (v, r) \<Longrightarrow> d \<le> CJSON_NESTING_LIMIT \<Longrightarrow> d + nesting v \<le> CJSON_NESTING_LIMIT \<and> nul_free v"
  "parse_elements d s = Some (vs, r) \<Longrightarrow> d \<le> CJSON_NESTING_LIMIT \<Longrightarrow>
     d + foldr (\<lambda>x n. max (nesting x) n) vs 0 \<le> CJSON_NESTING_LIMIT \<and> list_all nul_free vs"
  "parse_members d s = Some (ms, r) \<Longrightarrow> d \<le> CJSON_NESTING_LIMIT \<Longrightarrow>
     d + foldr (\<lambda>(k, v) n. max (nesting v) n) ms 0 \<le> CJSON_NESTING_LIMIT \<and> list_all (\<lambda>(k, v). nul \<notin> set k \<and> nul_free v) ms"
proof (induction d s and d s and d s arbitrary: v r and vs r and ms r rule: parse_value_parse_elements_parse_members.induct)
  case (1 d s)
  note e = 1(3) [unfolded parse_value.simps [of d s]]
  show ?case
  proof (cases s)
    case Nil
    then show ?thesis using e by (simp add: starts_with_def)
  next
    case (Cons c t)
    then show ?thesis
      using e 1(1) [OF _ _ _ Cons] 1(2) [OF _ _ _ Cons] 1(4) parse_number_number [of s v r]
      by (auto dest: parse_string_nul split: if_splits)
  qed
next
  case (2 d s)
  note e = 2(3) [unfolded parse_elements.simps [of d s]]
  obtain v r0 c r' where p: "parse_value d (skip_ws s) = Some (v, r0)" "skip_ws r0 = c # r'"
    and tail: "map_option (\<lambda>(ws, q). (v # ws, q)) (parse_elements d r') = Some (vs, r) \<and> c = CHR '','' \<or> vs = [v]"
    using e by (auto split: option.splits list.splits if_splits)
  have "d + nesting v \<le> CJSON_NESTING_LIMIT \<and> nul_free v" using 2(1) [OF p(1) 2(4)] .
  then show ?case using tail 2(2) [OF p(1) refl p(2)] 2(4) by (auto simp: max_def)
next
  case (3 d s)
  note e = 3(3) [unfolded parse_members.simps [of d s]]
  obtain k r0 c0 r1 v r2 c r' where p: "parse_string (skip_ws s) = Some (k, r0)" "skip_ws r0 = c0 # r1" "c0 = CHR '':''"
      "parse_value d (skip_ws r1) = Some (v, r2)" "skip_ws r2 = c # r'"
    and tail: "map_option (\<lambda>(ws, q). ((k, v) # ws, q)) (parse_members d r') = Some (ms, r) \<and> c = CHR '','' \<or> ms = [(k, v)]"
    using e by (auto split: option.splits list.splits if_splits)
  have "d + nesting v \<le> CJSON_NESTING_LIMIT \<and> nul_free v" using 3(1) [OF p(1) _ p(2) _ p(4) 3(4)] p(3) by auto
  then show ?case using tail 3(2) [OF p(1) refl p(2) _ p(4) refl p(5)] 3(4) p(3) parse_string_nul [OF p(1)] by (auto simp: max_def)
qed

lemma cjson_parse_nul_free: "cJSON_Parse s = Some t \<Longrightarrow> nul_free t"
  using parse_yields(1) [of 0 "skip_ws (skip_utf8_bom (takeWhile (\<lambda>c. c \<noteq> nul) s))"] by (auto simp: cJSON_Parse_def)

text \<open>C31. Every tree the parser yields is nested at most as deep as the limit and has no NUL in any of
  its strings, whatever the text.\<close>

theorem cjson_parse_bounded:
  assumes "cJSON_Parse s = Some t"
  shows "nesting t \<le> CJSON_NESTING_LIMIT \<and> nul_free t"
  using assms parse_yields(1) [of 0 "skip_ws (skip_utf8_bom (takeWhile (\<lambda>c. c \<noteq> nul) s))"] by (auto simp: cJSON_Parse_def)

theorem cjson_parse_bounded_witness:
  "\<exists>t. cJSON_Parse (''[null,['' @ [dquote] @ ''a'' @ [dquote] @ '']]'') = Some t \<and> nesting t = 2 \<and> nesting t \<le> CJSON_NESTING_LIMIT \<and> nul_free t"
proof -
  have "cJSON_Parse (''[null,['' @ [dquote] @ ''a'' @ [dquote] @ '']]'') = Some (CArray [CNull, CArray [CString ''a'']])"
    by (simp add: cJSON_Parse_def skip_utf8_bom_def skip_ws_def parse_value.simps parse_elements.simps starts_with_def
      dquote_def bslash_def c_isdigit_def CJSON_NESTING_LIMIT_def parse_string_def nul_def)
  then show ?thesis using cjson_parse_bounded by fastforce
qed

text \<open>An escape with digits that are none is read as U+0000, which ends the string for its users.\<close>

lemma char_of_0: "char_of (0 :: nat) = CHR 0x00"
  by code_simp

lemma bad_unicode_escape:
  "cJSON_Parse ([dquote] @ ''ab'' @ [bslash] @ ''uZZZZcd'' @ [dquote]) = Some (CString ''ab'')"
  by (simp add: cJSON_Parse_def skip_utf8_bom_def skip_ws_def parse_value.simps starts_with_def dquote_def bslash_def
    parse_string_def nul_def utf16_literal_to_utf8_def parse_hex4_def c_isxdigit_def c_isdigit_def utf8_of_def char_of_0 Let_def)

text \<open>The check whether the double can be recovered accepts a neighbour: the double next to 0.3 is printed
  as 0.3 and comes back as another number.\<close>

lemma floor_log_examples:
  "floor_log 2 (3 / 10) = - 2" "floor_log 10 (5404319552844596 / 18014398509481984) = - 1"
proof -
  have "\<lceil>10 / 3 :: rat\<rceil> = 4" "\<lceil>4503599627370496 / 1351079888211149 :: rat\<rceil> = 4" by (simp_all add: ceiling_eq_iff)
  then show "floor_log 2 (3 / 10) = - 2" "floor_log 10 (5404319552844596 / 18014398509481984) = - 1"
    by (simp_all add: floor_log_def ndigits.simps)
qed

lemma read_0_3: "strtod10 ''0.3'' = Some (5404319552844595 / 2 ^ 54, [])"
proof -
  have "\<lfloor>27021597764222976 / 5 :: rat\<rfloor> = 5404319552844595" by (simp add: floor_eq_iff)
  then show ?thesis
    by (simp add: strtod10_def strtod_num_def strtod_exp_def after_exponent_def c_isdigit_def digits_val_def digit_val_def rat_pow_def
      to_double_def floor_log_examples round_half_even_def Let_def)
qed

lemma printing_loses_a_bit: "print_number (5404319552844596 / 2 ^ 54) = Some ''0.3''"
proof -
  let ?x = "5404319552844596 / 18014398509481984 :: rat"
  have r: "round_half_even (?x / rat_pow 10 (- 1 - (int 15 - 1))) = 300000000000000"
  proof -
    have "\<lfloor>41231686041600006103515625 / 137438953472 :: rat\<rfloor> = 300000000000000" by (simp add: floor_eq_iff)
    then show ?thesis by (simp add: rat_pow_def round_half_even_def Let_def)
  qed
  have "char_of (51 :: nat) = CHR ''3''" "char_of (48 :: nat) = CHR ''0''" by code_simp+
  then have "show_nat 300000000000000 = ''300000000000000''" by (simp add: show_nat.simps digit_char_def)
  then have ds: "show_nat 300000000000000 = ''300000000000000''" .
  have a: "\<bar>?x\<bar> = ?x" "(?x < 0) = False" "((300000000000000 :: nat) = 10 ^ 15) = False" by simp_all
  have "fmt_g 15 ?x = put_fraction ''0'' ''300000000000000''"
    unfolding fmt_g_def a floor_log_examples r Let_def if_False if_True ds by simp
  then have f: "fmt_g 15 ?x = ''0.3''" by (simp add: put_fraction_def strip_zeros_def)
  have "double_to_valueint ?x = 0" by (simp add: double_to_valueint_def c_limits trunc_rat_def floor_eq_iff)
  moreover have "compare_double (5404319552844595 / 2 ^ 54) ?x" by (simp add: compare_double_def)
  ultimately show ?thesis using f read_0_3 by (simp add: print_number_def)
qed

end
