(* ===== verification/Autodiscovery.thy ===== *)
theory Autodiscovery
  imports Upload CjsonText
begin

text \<open>
  Automatic registration (\<open>src/autodiscovery/autodiscovery.c\<close>): the saved identity, the registration
  request over TLS and what \<open>main\<close> does with the result.  The network, the JSON library and the file
  system answer through a record \<open>ad_env\<close>; the file is the state that survives a run.
\<close>

section \<open>URL, request, response\<close>

definition find_http_body :: "string \<Rightarrow> string option" where
  "find_http_body response =
     (case strstr [cr, lf, cr, lf] response of Some t \<Rightarrow> Some (drop 4 t)
      | None \<Rightarrow> map_option (drop 2) (strstr [lf, lf] response))"

text \<open>Scheme, host, port and path, cut to their arrays.  The port is not checked, and a bracketed address keeps its
  brackets.\<close>

definition ad_url_parts :: "string \<Rightarrow> string \<times> string \<times> int \<times> string" where
  "ad_url_parts url =
     (case http_scheme url of (scheme, p) \<Rightarrow>
        let port = (if scheme = ''https'' then 443 else 80);
            (host, path) =
              (case strchr CHR ''/'' p of
                 Some path_start \<Rightarrow> (take 255 (upto_ptr p path_start), take 767 path_start)
               | None \<Rightarrow> (take 255 p, ''/''));
            colon = (case strchr CHR '']'' host of Some bracket \<Rightarrow> strchr CHR '':'' (tl bracket) | None \<Rightarrow> strrchr CHR '':'' host)
        in case colon of
             Some c \<Rightarrow> (scheme, upto_ptr host c, atoi (tl c), path)
           | None \<Rightarrow> (scheme, host, port, path))"

definition ad_request :: "string \<Rightarrow> string \<Rightarrow> string \<Rightarrow> string \<Rightarrow> string option" where
  "ad_request path host extra_headers payload =
     snprintf_chk 4096
       (''POST '' @ path @ '' HTTP/1.1'' @ crlf @ ''Host: '' @ host @ crlf
        @ ''Content-Type: application/json'' @ crlf
        @ ''Content-Length: '' @ show_nat (length payload) @ crlf
        @ ''Connection: close'' @ crlf @ extra_headers @ crlf @ payload)"

text \<open>The response is read until the buffer is full or a read gives nothing, an interrupted one included.\<close>

function read_response :: "nat \<Rightarrow> rx list \<Rightarrow> byte list \<Rightarrow> byte list" where
  "read_response room r got =
     (if room = 0 then got
      else case recv_some room r of
             (IoBytes bs, r') \<Rightarrow> read_response (room - length bs) r' (got @ bs)
           | _ \<Rightarrow> got)"
  by pat_completeness auto
termination
  by (relation "measure (\<lambda>(room, r, got). rx_size r)") (auto dest: recv_some_smaller recv_some_smaller [OF sym])

declare read_response.simps [simp del]

definition ad_response_body :: "rx list \<Rightarrow> string option" where
  "ad_response_body r =
     (let raw = read_response 8191 r []; s = c_str (raw @ [0])
      in if raw = [] then None
         else if \<not> starts_with ''HTTP/1.1 200'' s \<and> \<not> starts_with ''HTTP/1.0 200'' s then None
         else map_option (strncpy_term 8192) (find_http_body s))"

section \<open>The request over the network\<close>

record autodiscovery_config = ac_uuid :: string  ac_token :: string

record ad_env =
  ad_net :: "string \<Rightarrow> int \<Rightarrow> http_env"        \<comment> \<open>what host and port answer\<close>
  ad_hostname :: "string option"
  ad_malloc_ok :: bool
  ad_read_ok :: bool
  ad_parse_file_ok :: bool
  ad_parse_reply_ok :: bool
  ad_build_ok :: bool
  ad_open_ok :: bool
  ad_written :: "string \<Rightarrow> int"

text \<open>Response body, operations, bytes on the wire.\<close>

definition http_post_get_body :: "ad_env \<Rightarrow> string \<Rightarrow> string \<Rightarrow> bool \<Rightarrow> string \<Rightarrow> string option \<times> sys_op list \<times> byte list" where
  "http_post_get_body env url payload ignore_cert extra_headers =
     (case ad_url_parts url of (scheme, host, port, path) \<Rightarrow>
        if snprintf_chk 16 (show_int port) = None then (None, [], [])
        else case hp_gai (ad_net env host port) of None \<Rightarrow> (None, [], [])
        | Some addrs \<Rightarrow>
           (case connect_addrs addrs of (fd, ops) \<Rightarrow>
              if fd < 0 then (None, ops, [])
              else
                let net = ad_net env host port; tls = (scheme = ''https'')
                in case (if tls then http_tls net ignore_cert host fd else (True, [])) of
                     (False, tops) \<Rightarrow> (None, ops @ tops, [])
                   | (True, tops) \<Rightarrow>
                       let release = (if tls then [SslFree, CtxFree] else []) @ [CloseFd fd]
                       in case ad_request path host extra_headers payload of
                            None \<Rightarrow> (None, ops @ tops @ release, [])
                          | Some request \<Rightarrow>
                              (case send_full (hp_tx net) (bytes_of_string request) of
                                 (sent, out, _) \<Rightarrow>
                                   if \<not> sent then (None, ops @ tops @ release, out)
                                   else (ad_response_body (hp_rx net),
                                         ops @ tops @ (if tls then [SslShutdown] else []) @ release, out))))"

section \<open>The saved identity\<close>

definition zero_config :: autodiscovery_config where "zero_config = \<lparr>ac_uuid = [], ac_token = []\<rparr>"

text \<open>Both strings have to be there; the one that is there is stored in any case.\<close>

definition identity_of :: "cjson \<Rightarrow> int \<times> autodiscovery_config" where
  "identity_of j =
     (case (get_string j ''uuid'', get_string j ''token'') of (u, t) \<Rightarrow>
       (if u = None \<or> t = None then -1 else 0,
        \<lparr>ac_uuid = (case u of None \<Rightarrow> [] | Some x \<Rightarrow> strncpy_term 64 x),
         ac_token = (case t of None \<Rightarrow> [] | Some x \<Rightarrow> strncpy_term 256 x)\<rparr>))"

definition autodiscovery_load_config :: "ad_env \<Rightarrow> string option \<Rightarrow> int \<times> autodiscovery_config" where
  "autodiscovery_load_config env file =
     (case file of None \<Rightarrow> (-1, zero_config)
      | Some text \<Rightarrow>
          if \<not> ad_malloc_ok env then (-1, zero_config)
          else case utils_read_file_string (Some (bytes_of_string text))
              (\<lambda>n. if ad_read_ok env then Some (take n (bytes_of_string text)) else None) 4096 of
            None \<Rightarrow> (-1, zero_config)
          | Some buf \<Rightarrow> (case if ad_parse_file_ok env then cJSON_Parse (c_str buf) else None of None \<Rightarrow> (-1, zero_config) | Some root_item \<Rightarrow> identity_of root_item))"

definition identity_tree :: "autodiscovery_config \<Rightarrow> cjson" where
  "identity_tree c = CObject [(''uuid'', CString (ac_uuid c)), (''token'', CString (ac_token c))]"

text \<open>Status and the file afterwards: opening for writing empties it.\<close>

definition autodiscovery_save_config :: "ad_env \<Rightarrow> autodiscovery_config \<Rightarrow> string option \<Rightarrow> int \<times> string option" where
  "autodiscovery_save_config env c file =
     (if \<not> ad_build_ok env then (-1, file)
      else case cJSON_PrintUnformatted (identity_tree c) of None \<Rightarrow> (-1, file)
        | Some text \<Rightarrow>
            (if utils_write_file_string (ad_open_ok env) (ad_written env text) text then 0 else -1,
             if ad_open_ok env then Some (take (nat (ad_written env text)) text) else file))"

section \<open>Registration\<close>

definition register_url :: "string \<Rightarrow> string \<Rightarrow> string option" where
  "register_url endpoint hostname =
     Option.bind (url_encode hostname 769) (\<lambda>name. snprintf_chk 1537 (endpoint @ ''/api/clients/register?name='' @ name))"

definition auth_header :: "string \<Rightarrow> string option" where
  "auth_header key = snprintf_chk 512 (''Authorization: Bearer '' @ key @ crlf)"

record register_result =
  rr_status :: int
  rr_config :: autodiscovery_config
  rr_file :: "string option"
  rr_ops :: "sys_op list"
  rr_wire :: "byte list"

definition register_refused :: "autodiscovery_config \<Rightarrow> string option \<Rightarrow> register_result" where
  "register_refused c file = \<lparr>rr_status = -1, rr_config = c, rr_file = file, rr_ops = [], rr_wire = []\<rparr>"

definition autodiscovery_register :: "ad_env \<Rightarrow> string \<Rightarrow> string \<Rightarrow> string \<Rightarrow> autodiscovery_config \<Rightarrow> string option \<Rightarrow> register_result" where
  "autodiscovery_register env endpoint key hostname c file =
     (if contains_crlf key \<or> contains_crlf hostname \<or> \<not> starts_with ''https://'' endpoint then register_refused c file
      else case register_url endpoint hostname of None \<Rightarrow> register_refused c file
      | Some url \<Rightarrow>
         (case auth_header key of None \<Rightarrow> register_refused c file
          | Some header \<Rightarrow>
             (case http_post_get_body env url [] False header of (body, ops, out) \<Rightarrow>
                let res = (register_refused c file)\<lparr>rr_ops := ops, rr_wire := out\<rparr>
                in case if ad_parse_reply_ok env then Option.bind body cJSON_Parse else None of None \<Rightarrow> res
                   | Some root_item \<Rightarrow>
                       (case identity_of root_item of (rc, c') \<Rightarrow>
                          if rc \<noteq> 0 then res\<lparr>rr_config := c'\<rparr>
                          else res\<lparr>rr_status := 0, rr_config := c', rr_file := snd (autodiscovery_save_config env c' file)\<rparr>))))"

text \<open>The token buffer has \<open>token_len\<close> bytes; it is emptied before anything else.\<close>

record discovery =
  dc_status :: int
  dc_token :: string
  dc_file :: "string option"
  dc_ops :: "sys_op list"
  dc_wire :: "byte list"

definition autodiscovery_handle :: "ad_env \<Rightarrow> string \<Rightarrow> string \<Rightarrow> nat \<Rightarrow> string option \<Rightarrow> discovery" where
  "autodiscovery_handle env endpoint key token_len file =
     (let failed = \<lparr>dc_status = -1, dc_token = [], dc_file = file, dc_ops = [], dc_wire = []\<rparr>
      in case autodiscovery_load_config env file of (rc, c) \<Rightarrow>
           if rc = 0 \<and> ac_token c \<noteq> [] then
             (if length (ac_token c) \<ge> token_len then failed
              else failed\<lparr>dc_status := 0, dc_token := strncpy_term token_len (ac_token c)\<rparr>)
           else case ad_hostname env of None \<Rightarrow> failed
             | Some hostname \<Rightarrow>
                 let r = autodiscovery_register env endpoint key hostname c file;
                     done_with = failed\<lparr>dc_file := rr_file r, dc_ops := rr_ops r, dc_wire := rr_wire r\<rparr>
                 in if rr_status r \<noteq> 0 \<or> length (ac_token (rr_config r)) \<ge> token_len then done_with
                    else done_with\<lparr>dc_status := 0, dc_token := strncpy_term token_len (ac_token (rr_config r))\<rparr>)"

text \<open>What \<open>main\<close> does: with a key configured the token is the one of \<open>autodiscovery_handle\<close>, whatever it was.\<close>

definition main_discovery :: "ad_env \<Rightarrow> string option \<Rightarrow> agent_config \<Rightarrow> agent_config \<times> string option" where
  "main_discovery env file cfg =
     (if ag_auto_discovery_key cfg = [] then (cfg, file)
      else let d = autodiscovery_handle env (ag_endpoint cfg) (ag_auto_discovery_key cfg) 256 file
           in (cfg\<lparr>ag_token := dc_token d\<rparr>, dc_file d))"

section \<open>Properties\<close>

lemma released_after:
  assumes "connect_addrs addrs = (fd, ops)" "0 \<le> fd" "(if tls then http_tls net ign host fd else (True, [])) = (True, tops)"
    "pre = [] \<or> pre = [SslShutdown]"
  shows "http_released (ops @ tops @ pre @ (if tls then [SslFree, CtxFree] else []) @ [CloseFd fd])"
  using assms(2-4) addrs_released [OF assms(1)] tls_released(1) [of net ign host fd True tops]
  by (auto simp: http_released_def surplus_Cons split: if_splits)

lemma post_outcome:
  assumes run: "http_post_get_body env url payload ign extra = (body, ops, out)"
  shows "http_released ops \<and> (out \<noteq> [] \<and> fst (ad_url_parts url) = ''https'' \<and> \<not> ign \<longrightarrow>
            VerifyPeer \<in> set ops \<and> CheckHost (fst (snd (ad_url_parts url))) \<in> set ops)"
proof -
  obtain scheme host port path where u: "ad_url_parts url = (scheme, host, port, path)" by (metis prod_cases4)
  let ?net = "ad_net env host port" and ?tls = "scheme = ''https''"
  show ?thesis
  proof (cases "snprintf_chk 16 (show_int port) = None \<or> hp_gai ?net = None")
    case True
    then have "(body, ops, out) = (None, [], [])" using run
      by (cases "snprintf_chk 16 (show_int port) = None") (simp_all add: http_post_get_body_def u)
    then show ?thesis by (simp add: http_released_def)
  next
    case False
    then obtain addrs where gai: "snprintf_chk 16 (show_int port) \<noteq> None" "hp_gai ?net = Some addrs" by auto
    obtain fd ops1 where c: "connect_addrs addrs = (fd, ops1)" by force
    obtain up tops where t: "(if ?tls then http_tls ?net ign host fd else (True, [])) = (up, tops)" by force
    note unfold = http_post_get_body_def u gai c
    show ?thesis
    proof (cases "fd < 0 \<or> \<not> up")
      case True
      then show ?thesis using run t addrs_released [OF c] tls_released(2) [of ?net ign host fd up tops]
        by (auto simp: unfold http_released_def split: if_splits prod.splits)
    next
      case False
      then have fd: "0 \<le> fd" and t': "(if ?tls then http_tls ?net ign host fd else (True, [])) = (True, tops)" using t by auto
      note rel = released_after [OF c fd t']
      have v: "?tls \<and> \<not> ign \<longrightarrow> VerifyPeer \<in> set tops \<and> CheckHost host \<in> set tops"
        using t' tls_released(1) [of ?net ign host fd True tops] by (auto split: if_splits)
      show ?thesis
      proof (cases "ad_request path host extra payload")
        case None
        then show ?thesis using run rel [of "[]"] False t' by (simp add: unfold Let_def)
      next
        case (Some request)
        obtain sent out' ts' where se: "send_full (hp_tx ?net) (bytes_of_string request) = (sent, out', ts')" by (metis prod_cases3)
        show ?thesis using run rel [of "[]"] rel [of "[SslShutdown]"] v False t' Some se
          by (cases sent; cases ?tls) (auto simp: unfold Let_def)
      qed
    qed
  qed
qed

lemma https_scheme: "fst (ad_url_parts (''https://'' @ rest)) = ''https''"
  by (simp add: ad_url_parts_def http_scheme_def starts_with_def upto_ptr_def Let_def split: option.splits)

lemma register_outcome:
  assumes "r = autodiscovery_register env endpoint key hostname c file"
  shows "http_released (rr_ops r) \<and> (rr_wire r \<noteq> [] \<longrightarrow> starts_with ''https://'' endpoint \<and> VerifyPeer \<in> set (rr_ops r)
       \<and> (\<exists>url. register_url endpoint hostname = Some url \<and> CheckHost (fst (snd (ad_url_parts url))) \<in> set (rr_ops r)))
     \<and> (rr_status r = 0 \<longrightarrow> length (ac_uuid (rr_config r)) < 64 \<and> length (ac_token (rr_config r)) < 256
       \<and> rr_file r = snd (autodiscovery_save_config env (rr_config r) file))"
proof (cases "contains_crlf key \<or> contains_crlf hostname \<or> \<not> starts_with ''https://'' endpoint
    \<or> register_url endpoint hostname = None \<or> auth_header key = None")
  case True
  then have "r = register_refused c file" using assms
    by (cases "contains_crlf key \<or> contains_crlf hostname \<or> \<not> starts_with ''https://'' endpoint";
        cases "register_url endpoint hostname"; cases "auth_header key") (auto simp: autodiscovery_register_def)
  then show ?thesis by (simp add: register_refused_def http_released_def)
next
  case False
  then obtain url h where g: "\<not> contains_crlf key" "\<not> contains_crlf hostname" "starts_with ''https://'' endpoint"
      "register_url endpoint hostname = Some url" "auth_header key = Some h" by auto
  obtain body ops out where p: "http_post_get_body env url [] False h = (body, ops, out)" by (metis prod_cases3)
  obtain rest where "url = ''https://'' @ rest"
    using g(3,4) by (auto simp: register_url_def starts_with_prefix bind_eq_Some_conv snprintf_chk_Some)
  then have s: "fst (ad_url_parts url) = ''https''" using https_scheme by blast
  have bound: "identity_of j = (rc, c') \<Longrightarrow> length (ac_uuid c') < 64 \<and> length (ac_token c') < 256" for j rc c'
    by (auto simp: identity_of_def length_strncpy_term split: option.splits prod.splits)
  show ?thesis using post_outcome [OF p] s g assms
    by (auto simp: autodiscovery_register_def p register_refused_def Let_def dest!: bound split: option.splits prod.splits)
qed


text \<open>An identity taken from a tree of the parser has no NUL, so it is printed, fits the read buffer, and is
  parsed to itself.\<close>

lemma find_member_nul_free:
  "list_all (\<lambda>(k, v). nul \<notin> set k \<and> nul_free v) ms \<Longrightarrow> find_member name ms = Some v \<Longrightarrow> nul_free v"
  by (induction name ms rule: find_member.induct) (auto split: if_splits)

lemma get_string_nul_free: "nul_free j \<Longrightarrow> get_string j name = Some s \<Longrightarrow> nul \<notin> set s"
proof -
  assume a: "nul_free j" "get_string j name = Some s"
  have v: "valuestring v = Some x \<longleftrightarrow> v = CString x" for v x by (cases v) auto
  obtain ms where "j = CObject ms" "find_member name ms = Some (CString s)"
    using a(2) by (auto simp: get_string_def cJSON_GetObjectItem_def v bind_eq_Some_conv split: option.splits cjson.splits)
  then show "nul \<notin> set s" using a(1) find_member_nul_free [of ms name "CString s"] by simp
qed

lemma identity_nul_free:
  assumes "nul_free j" "identity_of j = (rc, c)" shows "nul \<notin> set (ac_uuid c)" "nul \<notin> set (ac_token c)"
  using assms get_string_nul_free [OF assms(1)]
  by (fastforce simp: identity_of_def strncpy_term_def split: option.splits dest: in_set_takeD)+

lemma escaped_length: "length (concat (map escaped s)) \<le> 6 * length s"
  by (induction s) (auto simp: escaped_def)

lemma identity_printed:
  assumes "nul \<notin> set (ac_uuid c)" "nul \<notin> set (ac_token c)" "length (ac_uuid c) < 64" "length (ac_token c) < 256"
  shows "\<exists>t. cJSON_PrintUnformatted (identity_tree c) = Some t \<and> cJSON_Parse t = Some (identity_tree c) \<and> length t < 4096 \<and> nul \<notin> set t"
proof -
  have "nul \<notin> set ''uuid''" "nul \<notin> set ''token''" by (simp_all add: nul_def)
  then have keys: "length (print_string_ptr ''uuid'') \<le> 26" "length (print_string_ptr ''token'') \<le> 32"
    using escaped_length [of "''uuid''"] escaped_length [of "''token''"] by (simp_all add: print_string_ptr_def takeWhile_id)
  have printed: "length (print_string_ptr x) \<le> 6 * length x + 2" if "nul \<notin> set x" for x
    using escaped_length [of x] takeWhile_id [OF that] by (simp only: print_string_ptr_def) simp
  have "plain (identity_tree c)" using assms by (simp add: identity_tree_def nul_def)
  moreover obtain t where t: "cJSON_PrintUnformatted (identity_tree c) = Some t"
    by (simp add: cJSON_PrintUnformatted_def identity_tree_def CJSON_NESTING_LIMIT_def)
  moreover have "length t < 4096"
    using t assms(3,4) printed [OF assms(1)] printed [OF assms(2)] keys
    by (auto simp: cJSON_PrintUnformatted_def identity_tree_def CJSON_NESTING_LIMIT_def)
  ultimately show ?thesis using printed_parses printable_nul by blast
qed

lemma c_str_text: "nul \<notin> set t \<Longrightarrow> c_str (bytes_of_string t @ [0]) = t"
proof -
  assume a: "nul \<notin> set t"
  have "\<forall>b \<in> set (bytes_of_string t). b \<noteq> 0"
  proof -
    have "byte_of_char nul = 0" by (simp add: byte_of_char_def nul_def)
    then show ?thesis using a by (auto simp: bytes_of_string_def) (metis byte_of_char_inj)
  qed
  then have "takeWhile (\<lambda>b. b \<noteq> 0) (bytes_of_string t @ [0]) = bytes_of_string t" by (subst takeWhile_append2) auto
  then show ?thesis by (simp add: c_str_def bytes_of_string_def o_def)
qed

lemma load_saved:
  assumes "\<forall>t. ad_written env t = int (length t)" "nul \<notin> set (ac_uuid c)" "nul \<notin> set (ac_token c)"
    "length (ac_uuid c) < 64" "length (ac_token c) < 256"
    "snd (autodiscovery_save_config env c None) = Some text"
    "ad_malloc_ok env'" "ad_read_ok env'" "ad_parse_file_ok env'"
  shows "autodiscovery_load_config env' (Some text) = (0, c)"
proof -
  obtain t where t: "cJSON_PrintUnformatted (identity_tree c) = Some t" "cJSON_Parse t = Some (identity_tree c)" "length t < 4096" "nul \<notin> set t"
    using identity_printed [OF assms(2-5)] by blast
  then have "text = t" using assms(1,6) by (auto simp: autodiscovery_save_config_def split: if_splits)
  moreover have "identity_of (identity_tree c) = (0, c)"
    using assms(4,5) by (simp add: identity_of_def identity_tree_def get_string_def strcaseeq_def c_tolower_def strncpy_term_id)
  ultimately show ?thesis using assms(7-9) t
    by (simp add: autodiscovery_load_config_def utils_read_file_string_def c_str_text)
qed

lemma registered_nul_free:
  "rr_status r = 0 \<Longrightarrow> r = autodiscovery_register env endpoint key hostname c file \<Longrightarrow>
     nul \<notin> set (ac_uuid (rr_config r)) \<and> nul \<notin> set (ac_token (rr_config r))"
  using cjson_parse_nul_free identity_nul_free
  by (fastforce simp: autodiscovery_register_def register_refused_def Let_def bind_eq_Some_conv split: option.splits prod.splits if_splits)

text \<open>C22. An identity is requested once: when the first run registers with a token that is not empty and leaves a
  file whose writes were complete, every later run that can read it gets the same token from the file it left,
  without opening a connection, whatever the network answers and whatever characters uuid and token have.\<close>

theorem registration_remembered:
  assumes "\<forall>t. ad_written env t = int (length t)" "ad_malloc_ok env'" "ad_read_ok env'" "ad_parse_file_ok env'"
    "d = autodiscovery_handle env endpoint key 256 None" "dc_status d = 0" "dc_token d \<noteq> []" "dc_file d \<noteq> None"
  shows "autodiscovery_handle env' endpoint' key' 256 (dc_file d) =
    \<lparr>dc_status = 0, dc_token = dc_token d, dc_file = dc_file d, dc_ops = [], dc_wire = []\<rparr>"
proof -
  have none: "autodiscovery_load_config env None = (-1, zero_config)" by (simp add: autodiscovery_load_config_def)
  obtain hostname where h: "ad_hostname env = Some hostname"
    using assms(5,6) none by (cases "ad_hostname env") (auto simp: autodiscovery_handle_def Let_def)
  define r where "r = autodiscovery_register env endpoint key hostname zero_config None"
  have r: "rr_status r = 0" "length (ac_token (rr_config r)) < 256" "dc_token d = strncpy_term 256 (ac_token (rr_config r))"
      "dc_file d = rr_file r"
    using assms(5,6) none h by (auto simp: autodiscovery_handle_def Let_def r_def split: if_splits)
  with register_outcome [OF r_def] have f: "length (ac_uuid (rr_config r)) < 64"
      "dc_file d = snd (autodiscovery_save_config env (rr_config r) None)" by auto
  have tok: "ac_token (rr_config r) = dc_token d" using r(2,3) by (simp add: strncpy_term_id)
  obtain content where "dc_file d = Some content" using assms(8) by auto
  then have "autodiscovery_load_config env' (dc_file d) = (0, rr_config r)"
    using load_saved [OF assms(1) _ _ f(1) r(2) _ assms(2-4)] f(2) registered_nul_free [OF r(1) r_def] by simp
  with assms(7) tok r(2) show ?thesis
    by (simp add: autodiscovery_handle_def Let_def strncpy_term_id)
qed

text \<open>Nothing saved and nobody to ask: the token is empty afterwards, whatever it was.\<close>

lemma token_lost:
  assumes "ag_auto_discovery_key cfg \<noteq> []" "\<And>host port. hp_gai (ad_net env host port) = None"
  shows "ag_token (fst (main_discovery env None cfg)) = []"
proof -
  have "http_post_get_body env url [] False h = (None, [], [])" for url h
    using assms(2) by (simp add: http_post_get_body_def split_beta)
  then have "rr_status (autodiscovery_register env (ag_endpoint cfg) (ag_auto_discovery_key cfg) hn zero_config None) = -1" for hn
    by (simp add: autodiscovery_register_def register_refused_def Let_def split: option.splits)
  then have "dc_token (autodiscovery_handle env (ag_endpoint cfg) (ag_auto_discovery_key cfg) 256 None) = []"
    by (simp add: autodiscovery_handle_def autodiscovery_load_config_def Let_def split: option.splits)
  with assms(1) show ?thesis by (simp add: main_discovery_def Let_def)
qed

section \<open>A concrete registration\<close>

definition sample_identity :: autodiscovery_config where
  "sample_identity = \<lparr>ac_uuid = ''u1'', ac_token = ''tok''\<rparr>"

definition sample_reply :: string where
  "sample_reply = ''{'' @ jq ''uuid'' @ '':'' @ jq ''u1'' @ '','' @ jq ''token'' @ '':'' @ jq ''tok'' @ ''}''"

lemma sample_identity_text:
  "cJSON_PrintUnformatted (identity_tree sample_identity) = Some sample_reply" "cJSON_Parse sample_reply = Some (identity_tree sample_identity)"
proof -
  show p: "cJSON_PrintUnformatted (identity_tree sample_identity) = Some sample_reply"
    by (simp add: cJSON_PrintUnformatted_def identity_tree_def sample_identity_def sample_reply_def CJSON_NESTING_LIMIT_def print_string_ptr_def
      jq_def escaped_def nul_def dquote_def bslash_def)
  have "plain (identity_tree sample_identity)" by (simp add: identity_tree_def sample_identity_def nul_def)
  from printed_parses [OF this p] show "cJSON_Parse sample_reply = Some (identity_tree sample_identity)" by simp
qed

lemma sample_reply_chars: "nul \<notin> set sample_reply" "cr \<notin> set sample_reply" "length sample_reply = 27"
  by (simp_all add: sample_reply_def jq_def nul_def cr_def dquote_def)

definition sample_ad :: ad_env where
  "sample_ad = \<lparr>ad_net = (\<lambda>host port. \<lparr>hp_gai = Some [(5, True)], hp_ctx_ok = True, hp_ssl_new_ok = True, hp_ssl_connect_ok = True,
       hp_tx = [TxSent 4096], hp_rx = [RxData (bytes_of_string (''HTTP/1.1 200 OK'' @ crlf @ crlf @ sample_reply))]\<rparr>),
     ad_hostname = Some ''gw'', ad_malloc_ok = True, ad_read_ok = True,
     ad_parse_file_ok = True, ad_parse_reply_ok = True, ad_build_ok = True, ad_open_ok = True,
     ad_written = (\<lambda>t. int (length t))\<rparr>"

lemma sample_storage: "\<forall>t. ad_written sample_ad t = int (length t)"
  by (simp add: sample_ad_def)

lemma sample_body: "ad_response_body [RxData (bytes_of_string (''HTTP/1.1 200 OK'' @ crlf @ crlf @ sample_reply))] = Some sample_reply"
proof -
  let ?t = "''HTTP/1.1 200 OK'' @ crlf @ crlf @ sample_reply"
  have "read_response 8191 [RxData (bytes_of_string ?t)] [] = bytes_of_string ?t"
    by (subst read_response.simps) (simp add: read_response.simps [of _ "[]"] bytes_of_string_def crlf_def sample_reply_chars)
  moreover have "nul \<notin> set ?t" using sample_reply_chars(1) by (simp add: crlf_def nul_def cr_def lf_def)
  then have "c_str (bytes_of_string ?t @ [0]) = ?t" by (rule c_str_text)
  moreover have "find_http_body ?t = Some sample_reply" by (simp add: find_http_body_def crlf_def starts_with_def cr_def lf_def)
  ultimately show ?thesis
    by (simp add: ad_response_body_def Let_def) (simp add: bytes_of_string_def starts_with_def strncpy_term_def sample_reply_chars)
qed

lemma sample_url_parts:
  "register_url ''https://panel'' ''gw'' = Some ''https://panel/api/clients/register?name=gw''"
  "ad_url_parts ''https://panel/api/clients/register?name=gw'' = (''https'', ''panel'', 443, ''/api/clients/register?name=gw'')"
  by code_simp+

lemma sample_exchange:
  assumes "length h < 512"
  shows "\<exists>ops out. http_post_get_body sample_ad ''https://panel/api/clients/register?name=gw'' [] False h = (Some sample_reply, ops, out)"
proof -
  have env: "hp_tx (ad_net sample_ad a b) = [TxSent 4096]" "hp_gai (ad_net sample_ad a b) = Some [(5, True)]"
    "hp_ctx_ok (ad_net sample_ad a b)" "hp_ssl_new_ok (ad_net sample_ad a b)" "hp_ssl_connect_ok (ad_net sample_ad a b)"
    "hp_rx (ad_net sample_ad a b) = [RxData (bytes_of_string (''HTTP/1.1 200 OK'' @ crlf @ crlf @ sample_reply))]" for a b
    unfolding sample_ad_def by (simp_all only: http_env.simps ad_env.simps)
  have p: "snprintf_chk 16 (show_int 443) \<noteq> None" by (simp add: snprintf_chk_def show_int_def show_nat.simps)
  obtain req where req: "ad_request ''/api/clients/register?name=gw'' ''panel'' h [] = Some req" "req \<noteq> []" "length req \<le> 4096"
    using assms by (simp add: ad_request_def snprintf_chk_def crlf_def show_nat.simps)
  have "send_full [TxSent 4096] (bytes_of_string req) = (True, bytes_of_string req, [])"
    using req(2,3) by (intro send_full_once) (simp_all add: bytes_of_string_def)
  then show ?thesis using p req(1)
    by (simp add: http_post_get_body_def sample_url_parts env http_tls_def Let_def sample_body [simplified])
qed

lemma sample_discovery:
  "\<exists>ops out. autodiscovery_handle sample_ad ''https://panel'' ''key'' 256 None =
     \<lparr>dc_status = 0, dc_token = ''tok'', dc_file = Some sample_reply, dc_ops = ops, dc_wire = out\<rparr>"
proof -
  obtain h where h: "auth_header ''key'' = Some h" "length h < 512" by (simp add: auth_header_def snprintf_chk_def crlf_def)
  obtain ops out where e: "http_post_get_body sample_ad ''https://panel/api/clients/register?name=gw'' [] False h = (Some sample_reply, ops, out)"
    using sample_exchange [OF h(2)] by blast
  have fields: "ad_hostname sample_ad = Some ''gw''" "ad_parse_reply_ok sample_ad"
    "ad_build_ok sample_ad" "ad_open_ok sample_ad" "ad_written sample_ad sample_reply = int (length sample_reply)"
    by (simp_all add: sample_ad_def)
  have i: "identity_of (identity_tree sample_identity) = (0, sample_identity)"
    by (simp add: identity_of_def identity_tree_def get_string_def sample_identity_def strcaseeq_def c_tolower_def strncpy_term_def)
  have "snd (autodiscovery_save_config sample_ad sample_identity None) = Some sample_reply"
    by (simp add: autodiscovery_save_config_def fields sample_identity_text)
  then show ?thesis
    by (simp add: autodiscovery_handle_def autodiscovery_load_config_def fields(1) autodiscovery_register_def contains_crlf_iff
        cr_def lf_def starts_with_def sample_url_parts(1) h(1) e register_refused_def fields(2) sample_identity_text(2) i Let_def)
      (simp add: sample_identity_def strncpy_term_def)
qed

theorem registration_remembered_witness:
  "\<exists>d. d = autodiscovery_handle sample_ad ''https://panel'' ''key'' 256 None
     \<and> autodiscovery_handle sample_ad ''https://other'' ''key2'' 256 (dc_file d)
       = \<lparr>dc_status = 0, dc_token = ''tok'', dc_file = dc_file d, dc_ops = [], dc_wire = []\<rparr>"
proof -
  obtain ops out where d: "autodiscovery_handle sample_ad ''https://panel'' ''key'' 256 None =
     \<lparr>dc_status = 0, dc_token = ''tok'', dc_file = Some sample_reply, dc_ops = ops, dc_wire = out\<rparr>" using sample_discovery by blast
  show ?thesis using registration_remembered [OF sample_storage _ _ _ refl, of sample_ad "''https://panel''" "''key''" "''https://other''" "''key2''"]
    by (simp add: d) (simp add: sample_ad_def)
qed


lemma sample_reload:
  "dc_token (autodiscovery_handle sample_ad endpoint key 256 (Some sample_reply)) = ''tok''"
proof -
  have "snd (autodiscovery_save_config sample_ad sample_identity None) = Some sample_reply"
    by (simp add: autodiscovery_save_config_def sample_ad_def sample_identity_text)
  then have "autodiscovery_load_config sample_ad (Some sample_reply) = (0, sample_identity)"
    using load_saved [OF sample_storage, of sample_identity "sample_reply" sample_ad]
    by (simp add: sample_identity_def nul_def) (simp add: sample_ad_def)
  then show ?thesis by (simp add: autodiscovery_handle_def sample_identity_def strncpy_term_def Let_def)
qed

end
