(* ===== verification/Terminal.thy ===== *)
theory Terminal
  imports WsSock
begin

text \<open>
  The web terminal of \<open>src/terminal/terminal.c\<close>: the session counter, the terminal record and its
  operations, the loop of the reading thread.  What the system answers (\<open>forkpty\<close>, \<open>waitpid\<close>,
  \<open>read\<close>, \<open>write\<close>, thread creation) is an argument; what it is asked to do is recorded in a log.
  The child's side of \<open>terminal_start\<close> (environment, MOTD, \<open>execl\<close>) is in theory \<open>Child\<close>.
\<close>

abbreviation MAX_TERMINAL_SESSIONS :: nat where "MAX_TERMINAL_SESSIONS \<equiv> 8"

section \<open>The counter of sessions\<close>

definition terminal_acquire_session :: "nat \<Rightarrow> int \<times> nat" where
  "terminal_acquire_session active = (if active \<ge> MAX_TERMINAL_SESSIONS then (-1, active) else (0, active + 1))"

definition terminal_release_session :: "nat \<Rightarrow> nat" where
  "terminal_release_session active = (if active > 0 then active - 1 else active)"

section \<open>The terminal\<close>

datatype term_op =
    TmFork int int        \<comment> \<open>\<open>forkpty\<close>: the master descriptor and the child\<close>
  | TmSetpgid int | TmSpawn | TmJoin
  | TmKill int nat        \<comment> \<open>negative: the process group; 15 is SIGTERM, 9 is SIGKILL\<close>
  | TmReap int            \<comment> \<open>the child is waited for\<close>
  | TmClose int | TmWinsz int int

record terminal =
  tm_master_fd :: int
  tm_pid :: int
  tm_pgid :: int
  tm_cols :: int
  tm_rows :: int
  tm_running :: bool
  tm_output_cb :: bool
  tm_user_data :: "nat option"

definition terminal_create :: "bool \<Rightarrow> int \<Rightarrow> int \<Rightarrow> terminal option" where
  "terminal_create calloc_ok cols rows =
     (if \<not> calloc_ok then None
      else Some \<lparr>tm_master_fd = -1, tm_pid = -1, tm_pgid = -1,
             tm_cols = (if cols > 0 then cols else 80), tm_rows = (if rows > 0 then rows else 24),
             tm_running = False, tm_output_cb = False, tm_user_data = None\<rparr>)"

text \<open>\<open>find_shell\<close>: the user's shell if it is executable, cut to 255 characters, else the first of four.\<close>

definition find_shell :: "string option \<Rightarrow> (string \<Rightarrow> bool) \<Rightarrow> string option" where
  "find_shell pw_shell executable =
     (case pw_shell of
        Some sh \<Rightarrow> if sh \<noteq> [] \<and> executable sh then Some (take 255 sh)
                   else List.find executable [''/bin/bash'', ''/bin/zsh'', ''/bin/sh'', ''/bin/ash'']
      | None \<Rightarrow> List.find executable [''/bin/bash'', ''/bin/zsh'', ''/bin/sh'', ''/bin/ash''])"

text \<open>\<open>fork\<close> is the result of \<open>forkpty\<close>, None a failure.\<close>

definition terminal_start ::
    "string option \<Rightarrow> (int \<times> int) option \<Rightarrow> bool \<Rightarrow> terminal \<Rightarrow> int \<times> term_op list \<times> terminal" where
  "terminal_start sh fork thread_ok t =
     (case sh of None \<Rightarrow> (-1, [], t)
      | Some s \<Rightarrow>
          (case fork of None \<Rightarrow> (-1, [], t\<lparr>tm_pid := -1\<rparr>)
           | Some (fd, pid) \<Rightarrow>
               let t1 = t\<lparr>tm_master_fd := fd, tm_pid := pid, tm_pgid := pid, tm_running := True\<rparr>
               in if thread_ok then (0, [TmFork fd pid, TmSetpgid pid, TmSpawn], t1)
                  else (-1, [TmFork fd pid, TmSetpgid pid, TmKill pid 9, TmReap pid, TmClose fd],
                        t1\<lparr>tm_master_fd := -1, tm_running := False\<rparr>)))"

text \<open>The polls of \<open>waitpid(pid, WNOHANG)\<close>, at most \<open>retries\<close> of them: whether the child was reaped.\<close>

fun reap_polls :: "nat \<Rightarrow> bool list \<Rightarrow> bool" where
  "reap_polls 0 polls = False"
| "reap_polls (Suc retries) [] = reap_polls retries []"
| "reap_polls (Suc retries) (reaped # polls) = (if reaped then True else reap_polls retries polls)"

definition terminal_terminate :: "bool list \<Rightarrow> terminal \<Rightarrow> term_op list \<times> terminal" where
  "terminal_terminate polls t =
     (let ops1 =
        (if tm_running t then
           (if tm_pid t > 0 then
              (let pgid = (if tm_pgid t > 0 then tm_pgid t else tm_pid t)
               in TmKill (- pgid) 15 #
                  (if reap_polls 50 polls then [TmReap (tm_pid t)] else [TmKill (- pgid) 9, TmReap (tm_pid t)]))
            else []) @ [TmJoin]
         else []);
          t1 = (if tm_running t then t\<lparr>tm_running := False, tm_pid := (if tm_pid t > 0 then -1 else tm_pid t)\<rparr>
                else t)
      in if tm_master_fd t1 \<ge> 0 then (ops1 @ [TmClose (tm_master_fd t1)], t1\<lparr>tm_master_fd := -1\<rparr>)
         else (ops1, t1))"

text \<open>The argument is the caller's pointer; None is NULL.  The record is freed.\<close>

definition terminal_destroy :: "bool list \<Rightarrow> terminal option \<Rightarrow> term_op list \<times> terminal option" where
  "terminal_destroy polls tp =
     (case tp of None \<Rightarrow> ([], None)
      | Some t \<Rightarrow> (if tm_running t then fst (terminal_terminate polls t) else [], None))"

text \<open>\<open>write\<close> repeated until everything is out; the int result is the count or -1.\<close>

fun write_loop :: "tx list \<Rightarrow> byte list \<Rightarrow> nat \<Rightarrow> int \<times> byte list" where
  "write_loop ts [] written = (int written, [])"
| "write_loop [] data written = (-1, [])"
| "write_loop (TxSent n # ts) data written =
     (if n = 0 then (int written, [])
      else case write_loop ts (drop n data) (written + length (take n data)) of (r, out) \<Rightarrow> (r, take n data @ out))"
| "write_loop (TxEintr # ts) data written = write_loop ts data written"
| "write_loop (TxErr # ts) data written = (-1, [])"

definition terminal_write :: "tx list \<Rightarrow> byte list \<Rightarrow> terminal \<Rightarrow> int \<times> byte list" where
  "terminal_write ts data t =
     (if data = [] then (-1, [])
      else if tm_master_fd t < 0 \<or> \<not> tm_running t then (-1, [])
      else write_loop ts data 0)"

definition terminal_resize :: "bool \<Rightarrow> int \<Rightarrow> int \<Rightarrow> terminal \<Rightarrow> int \<times> term_op list \<times> terminal" where
  "terminal_resize ioctl_ok cols rows t =
     (let t1 = t\<lparr>tm_cols := cols, tm_rows := rows\<rparr>
      in if tm_master_fd t1 < 0 then (-1, [], t1)
         else (if ioctl_ok then 0 else -1, [TmWinsz (cols mod 65536) (rows mod 65536)], t1))"

definition terminal_set_output_cb :: "bool \<Rightarrow> terminal \<Rightarrow> terminal" where
  "terminal_set_output_cb cb t = t\<lparr>tm_output_cb := cb\<rparr>"

definition terminal_set_user_data :: "nat option \<Rightarrow> terminal \<Rightarrow> terminal" where
  "terminal_set_user_data d t = t\<lparr>tm_user_data := d\<rparr>"

text \<open>\<open>waited\<close> is what \<open>waitpid\<close> reports: None a failure, else the exit status if the child exited.
  After a failure the code decodes the unset variable \<open>status\<close>: \<open>unset\<close> is what it finds there.\<close>

definition terminal_wait ::
    "int option option \<Rightarrow> int option \<Rightarrow> terminal \<Rightarrow> int \<times> term_op list \<times> terminal" where
  "terminal_wait waited unset t =
     (if tm_pid t \<le> 0 then (-1, [], t)
      else case waited of
        None \<Rightarrow> (case unset of Some st \<Rightarrow> st | None \<Rightarrow> -1, [], t)
      | Some status \<Rightarrow> (case status of Some st \<Rightarrow> st | None \<Rightarrow> -1, [TmReap (tm_pid t)], t\<lparr>tm_pid := -1\<rparr>))"

section \<open>The reading thread\<close>

text \<open>What one round of \<open>select\<close> and \<open>read\<close> on the master descriptor yields.\<close>

datatype pty_read = PtyIdle | PtyData "byte list" | PtyEof | PtyAgain | PtyError

definition read_turn :: "bool \<Rightarrow> pty_read \<Rightarrow> bool \<times> byte list list" where
  "read_turn output_cb r =
     (case r of
        PtyIdle \<Rightarrow> (True, [])
      | PtyData bs \<Rightarrow> (True, if output_cb then [take 4095 bs] else [])
      | PtyEof \<Rightarrow> (False, [])
      | PtyAgain \<Rightarrow> (True, [])
      | PtyError \<Rightarrow> (False, []))"

text \<open>The thread: every round first reads \<open>running\<close>.  It never writes the terminal.\<close>

fun terminal_read_thread :: "bool \<Rightarrow> (bool \<times> pty_read) list \<Rightarrow> byte list list" where
  "terminal_read_thread output_cb [] = []"
| "terminal_read_thread output_cb ((running, r) # rs) =
     (if \<not> running then []
      else case read_turn output_cb r of
             (cont, out) \<Rightarrow> out @ (if cont then terminal_read_thread output_cb rs else []))"

section \<open>Balance\<close>

lemma write_loop_prefix:
  "case write_loop ts data n of (r, out) \<Rightarrow>
     (\<exists>rest. data = out @ rest) \<and> (0 \<le> r \<longrightarrow> r = int n + int (length out)) \<and> (r = int (n + length data) \<longrightarrow> out = data)"
proof (induction ts data n rule: write_loop.induct)
  case (3 k ts d ds n)
  let ?D = "d # ds"
  show ?case
  proof (cases "k = 0")
    case False
    obtain r out where w: "write_loop ts (drop k ?D) (n + length (take k ?D)) = (r, out)" by (metis surj_pair)
    have D: "take k ?D @ drop k ?D = ?D" by (rule append_take_drop_id)
    from 3 False w obtain rest where *: "drop k ?D = out @ rest"
      "0 \<le> r \<longrightarrow> r = int (n + length (take k ?D)) + int (length out)"
      "r = int (n + length (take k ?D) + length (drop k ?D)) \<longrightarrow> out = drop k ?D" by auto
    have "?D = (take k ?D @ out) @ rest" using D *(1) by (metis append.assoc)
    moreover have "n + length (take k ?D) + length (drop k ?D) = n + length ?D"
      using arg_cong [OF D, of length] by (simp only: length_append)
    ultimately show ?thesis using False w *(2,3) D by (auto simp del: take_Cons' drop_Cons')
  qed auto
qed auto

text \<open>What a log of operations leaves behind: open descriptors, children not waited for, threads not
  joined.\<close>

definition fds_open :: "term_op list \<Rightarrow> int" where
  "fds_open ops = sum_list (map (\<lambda>x. case x of TmFork f p \<Rightarrow> 1 | TmClose f \<Rightarrow> -1 | _ \<Rightarrow> 0) ops)"

definition children_left :: "term_op list \<Rightarrow> int" where
  "children_left ops = sum_list (map (\<lambda>x. case x of TmFork f p \<Rightarrow> 1 | TmReap p \<Rightarrow> -1 | _ \<Rightarrow> 0) ops)"

definition threads_left :: "term_op list \<Rightarrow> int" where
  "threads_left ops = sum_list (map (\<lambda>x. case x of TmSpawn \<Rightarrow> 1 | TmJoin \<Rightarrow> -1 | _ \<Rightarrow> 0) ops)"

lemmas term_counts = fds_open_def children_left_def threads_left_def

definition all_released :: "term_op list \<Rightarrow> bool" where
  "all_released ops \<longleftrightarrow> fds_open ops = 0 \<and> children_left ops = 0 \<and> threads_left ops = 0"

lemma start_terminate:
  assumes t0: "tm_master_fd t0 = -1" "\<not> tm_running t0"
    and start: "terminal_start sh fork thr t0 = (rc, ops1, t1)"
    and pos: "\<forall>fd pid. fork = Some (fd, pid) \<longrightarrow> 0 \<le> fd \<and> 0 < pid"
    and stop: "terminal_terminate polls t1 = (ops2, t2)"
  shows "(rc = 0 \<or> rc = -1) \<and> all_released (ops1 @ ops2) \<and> (rc = -1 \<longrightarrow> all_released ops1)
     \<and> tm_master_fd t2 = -1 \<and> \<not> tm_running t2 \<and> terminal_terminate polls t2 = ([], t2)
     \<and> terminal_destroy polls (Some t2) = ([], None)
     \<and> terminal_destroy polls (Some t1) = (ops2, None)"
proof -
  note defs = terminal_start_def terminal_terminate_def terminal_destroy_def all_released_def term_counts Let_def
  show ?thesis
  proof (cases "sh = None \<or> fork = None")
    case True
    then have "ops1 = []" "rc = -1" "tm_master_fd t1 = -1" "\<not> tm_running t1"
      using start t0 by (auto simp: terminal_start_def split: option.splits)
    then show ?thesis using stop by (auto simp: defs)
  next
    case False
    then obtain s fd pid where sf: "sh = Some s" "fork = Some (fd, pid)" by auto
    with pos have fd: "0 \<le> fd" "0 < pid" by auto
    show ?thesis
    proof (cases thr)
      case True
      then have "rc = 0" "ops1 = [TmFork fd pid, TmSetpgid pid, TmSpawn]"
        "t1 = t0\<lparr>tm_master_fd := fd, tm_pid := pid, tm_pgid := pid, tm_running := True\<rparr>"
        using start sf by (simp_all add: terminal_start_def)
      then show ?thesis using stop fd by (cases "reap_polls 50 polls") (auto simp: defs)
    next
      case False
      then have "rc = -1" "ops1 = [TmFork fd pid, TmSetpgid pid, TmKill pid 9, TmReap pid, TmClose fd]"
        "tm_master_fd t1 = -1" "\<not> tm_running t1"
        using start sf by (auto simp: terminal_start_def)
      then show ?thesis using stop by (auto simp: defs)
    qed
  qed
qed

text \<open>A terminal gives back everything it took: whatever \<open>forkpty\<close>, the thread creation and the
  child do, after \<open>terminal_start\<close> and \<open>terminal_terminate\<close> (or \<open>terminal_destroy\<close>) the descriptor is
  closed, the child waited for and the reading thread joined, each exactly once; a failing start has
  released everything itself, and terminating or destroying again does nothing.\<close>

theorem terminal_releases_all:
  assumes "terminal_create True c r = Some t0" "terminal_start sh fork thread_ok t0 = (rc, ops1, t1)"
    "\<forall>fd pid. fork = Some (fd, pid) \<longrightarrow> 0 \<le> fd \<and> 0 < pid" "terminal_terminate polls t1 = (ops2, t2)"
  shows "all_released (ops1 @ ops2) \<and> (rc = -1 \<longrightarrow> all_released ops1)
     \<and> tm_master_fd t2 = -1 \<and> \<not> tm_running t2 \<and> terminal_terminate polls t2 = ([], t2)
     \<and> terminal_destroy polls (Some t2) = ([], None)
     \<and> terminal_destroy polls (Some t1) = (ops2, None)"
proof -
  have "tm_master_fd t0 = -1" "\<not> tm_running t0" using assms(1) by (auto simp: terminal_create_def)
  from start_terminate [OF this assms(2-4)] show ?thesis by blast
qed

theorem terminal_releases_all_witness:
  "\<exists>t0 t1 t2 :: terminal.
     all_released ([TmFork 7 99, TmSetpgid 99, TmSpawn] @ [TmKill (-99) 15, TmKill (-99) 9, TmReap 99, TmJoin, TmClose 7])
     \<and> ((0::int) = -1 \<longrightarrow> all_released [TmFork 7 99, TmSetpgid 99, TmSpawn])
     \<and> tm_master_fd t2 = -1 \<and> \<not> tm_running t2 \<and> terminal_terminate [] t2 = ([], t2)
     \<and> terminal_destroy [] (Some t2) = ([], None)
     \<and> terminal_destroy [] (Some t1) = ([TmKill (-99) 15, TmKill (-99) 9, TmReap 99, TmJoin, TmClose 7], None)"
proof -
  define t0 where "t0 = the (terminal_create True 80 24)"
  define t1 where "t1 = snd (snd (terminal_start (Some ''/bin/sh'') (Some (7, 99)) True t0))"
  define t2 where "t2 = snd (terminal_terminate [] t1)"
  have polls: "\<not> reap_polls k []" for k by (induction k) auto
  have "terminal_create True 80 24 = Some t0" by (simp add: t0_def terminal_create_def)
  moreover have "terminal_start (Some ''/bin/sh'') (Some (7, 99)) True t0 = (0, [TmFork 7 99, TmSetpgid 99, TmSpawn], t1)"
    by (simp add: t1_def terminal_start_def Let_def)
  moreover have "terminal_terminate [] t1 = ([TmKill (-99) 15, TmKill (-99) 9, TmReap 99, TmJoin, TmClose 7], t2)"
    by (simp add: t2_def t1_def t0_def terminal_start_def terminal_create_def terminal_terminate_def Let_def polls)
  ultimately show ?thesis
    using terminal_releases_all [of 80 24 t0 "Some ''/bin/sh''" "Some (7, 99)" True 0
        "[TmFork 7 99, TmSetpgid 99, TmSpawn]" t1 "[]" "[TmKill (-99) 15, TmKill (-99) 9, TmReap 99, TmJoin, TmClose 7]" t2]
    by auto
qed

end
