(* ===== verification/Sessions.thy ===== *)
theory Sessions
  imports Terminal Endpoint WsEvent
begin

text \<open>
  The terminal sessions of \<open>src/core/main.c\<close>: the registry \<open>g_sessions\<close>, the set-up of a session and
  its failure paths, the monitor thread.  A session pointer is a number; the heap says which are
  allocated.  An operation that dereferences a freed session has the result None.
\<close>

section \<open>The registry\<close>

record terminal_session =
  ss_active :: bool
  ss_cleanup_done :: bool
  ss_monitor_started :: bool
  ss_ws_endpoint :: string
  ss_extra_query :: string

record registry =
  rg_slots :: "nat option list"
  rg_heap :: "nat \<Rightarrow> terminal_session option"
  rg_joined :: "nat list"

text \<open>The scan of \<open>sessions_register\<close>: the index of the first NULL, and the first finished session
  before it with its index.\<close>

fun register_scan ::
    "nat option list \<Rightarrow> (nat \<Rightarrow> terminal_session option) \<Rightarrow> nat \<Rightarrow> (nat \<times> nat) option
      \<Rightarrow> (nat option \<times> (nat \<times> nat) option) option" where
  "register_scan [] heap i zombie = Some (None, zombie)"
| "register_scan (slot # slots) heap i zombie =
     (case slot of
        None \<Rightarrow> Some (Some i, zombie)
      | Some s \<Rightarrow>
          (case heap s of
             None \<Rightarrow> None
           | Some rec \<Rightarrow>
               register_scan slots heap (i + 1)
                 (if ss_cleanup_done rec \<and> zombie = None then Some (i, s) else zombie)))"

definition sessions_register :: "nat \<Rightarrow> registry \<Rightarrow> (int \<times> registry) option" where
  "sessions_register session rg =
     (case register_scan (rg_slots rg) (rg_heap rg) 0 None of
        None \<Rightarrow> None
      | Some (free_idx, zombie) \<Rightarrow>
          let (rc, rg1) =
            (case free_idx of
               Some i \<Rightarrow> (0, rg\<lparr>rg_slots := (rg_slots rg)[i := Some session]\<rparr>)
             | None \<Rightarrow>
                 (case zombie of
                    Some (zi, z) \<Rightarrow> (0, rg\<lparr>rg_slots := (rg_slots rg)[zi := Some session]\<rparr>)
                  | None \<Rightarrow> (-1, rg)))
          in (case zombie of
                None \<Rightarrow> Some (rc, rg1)
              | Some (zi, z) \<Rightarrow>
                  Some (rc, rg1\<lparr>rg_joined := rg_joined rg1 @ [z], rg_heap := (rg_heap rg1)(z := None)\<rparr>)))"

fun deactivate :: "nat option list \<Rightarrow> (nat \<Rightarrow> terminal_session option) \<Rightarrow> (nat \<Rightarrow> terminal_session option) option" where
  "deactivate [] heap = Some heap"
| "deactivate (None # slots) heap = deactivate slots heap"
| "deactivate (Some s # slots) heap =
     (case heap s of None \<Rightarrow> None
      | Some rec \<Rightarrow> deactivate slots (heap(s \<mapsto> rec\<lparr>ss_active := False\<rparr>)))"

definition sessions_signal_stop :: "registry \<Rightarrow> registry option" where
  "sessions_signal_stop rg =
     (case deactivate (rg_slots rg) (rg_heap rg) of None \<Rightarrow> None | Some h \<Rightarrow> Some (rg\<lparr>rg_heap := h\<rparr>))"

fun join_slots ::
    "nat option list \<Rightarrow> (nat \<Rightarrow> terminal_session option) \<Rightarrow> nat list
      \<Rightarrow> ((nat \<Rightarrow> terminal_session option) \<times> nat list) option" where
  "join_slots [] heap joined = Some (heap, joined)"
| "join_slots (None # slots) heap joined = join_slots slots heap joined"
| "join_slots (Some s # slots) heap joined =
     (case heap s of None \<Rightarrow> None
      | Some rec \<Rightarrow>
          join_slots slots (heap(s := None)) (if ss_monitor_started rec then joined @ [s] else joined))"

definition sessions_join_and_cleanup :: "registry \<Rightarrow> registry option" where
  "sessions_join_and_cleanup rg =
     (case join_slots (rg_slots rg) (rg_heap rg) (rg_joined rg) of
        None \<Rightarrow> None
      | Some (h, j) \<Rightarrow>
          Some (rg\<lparr>rg_slots := map (\<lambda>x. None) (rg_slots rg), rg_heap := h, rg_joined := j\<rparr>))"

section \<open>Which registrations are safe\<close>

text \<open>No slot points to freed memory, and no session is in two slots.\<close>

definition slots_live :: "nat option list \<Rightarrow> (nat \<Rightarrow> terminal_session option) \<Rightarrow> bool" where
  "slots_live slots heap \<longleftrightarrow>
     list_all (\<lambda>i. case slots ! i of None \<Rightarrow> True
         | Some s \<Rightarrow> heap s \<noteq> None \<and> list_all (\<lambda>j. slots ! j = Some s \<longrightarrow> i = j) [0..<length slots])
       [0..<length slots]"

lemma slots_live_iff:
  "slots_live slots heap \<longleftrightarrow> (\<forall>i < length slots. \<forall>s. slots ! i = Some s \<longrightarrow>
      heap s \<noteq> None \<and> (\<forall>j < length slots. slots ! j = Some s \<longrightarrow> i = j))"
  by (auto simp: slots_live_def list_all_iff split: option.splits)

lemma slots_live_heap: "slots_live slots heap \<Longrightarrow> Some s \<in> set slots \<Longrightarrow> heap s \<noteq> None"
  by (metis in_set_conv_nth slots_live_iff)

text \<open>A finished session lies before the first free slot.\<close>

definition finished :: "(nat \<Rightarrow> terminal_session option) \<Rightarrow> nat \<Rightarrow> bool" where
  "finished heap s \<longleftrightarrow> (case heap s of Some rec \<Rightarrow> ss_cleanup_done rec | None \<Rightarrow> False)"

fun zombie_before_free :: "nat option list \<Rightarrow> (nat \<Rightarrow> terminal_session option) \<Rightarrow> bool" where
  "zombie_before_free [] heap = False"
| "zombie_before_free (None # slots) heap = False"
| "zombie_before_free (Some s # slots) heap =
     (finished heap s \<and> None \<in> set slots \<or> zombie_before_free slots heap)"

lemma register_scan_some:
  "\<forall>s. Some s \<in> set xs \<longrightarrow> heap s \<noteq> None \<Longrightarrow>
     \<exists>free_idx. register_scan xs heap i (Some z) = Some (free_idx, Some z)
       \<and> (free_idx = None \<longleftrightarrow> None \<notin> set xs)
       \<and> (\<forall>k. free_idx = Some k \<longrightarrow> i \<le> k \<and> k - i < length xs \<and> xs ! (k - i) = None)"
proof (induction xs arbitrary: i)
  case (Cons x xs)
  show ?case
  proof (cases x)
    case (Some s)
    then obtain rec where "heap s = Some rec" using Cons.prems by auto
    moreover obtain free_idx where
      "register_scan xs heap (i + 1) (Some z) = Some (free_idx, Some z)"
      "free_idx = None \<longleftrightarrow> None \<notin> set xs"
      "\<forall>k. free_idx = Some k \<longrightarrow> i + 1 \<le> k \<and> k - (i + 1) < length xs \<and> xs ! (k - (i + 1)) = None"
      using Cons.IH [of "i + 1"] Cons.prems by auto
    ultimately show ?thesis by (auto simp: Some nth_Cons' )
  qed simp
qed simp

lemma register_scan_none:
  "\<forall>s. Some s \<in> set xs \<longrightarrow> heap s \<noteq> None \<Longrightarrow>
     \<exists>free_idx zombie. register_scan xs heap i None = Some (free_idx, zombie)
       \<and> (free_idx = None \<longleftrightarrow> None \<notin> set xs)
       \<and> (\<forall>k. free_idx = Some k \<longrightarrow> i \<le> k \<and> k - i < length xs \<and> xs ! (k - i) = None)
       \<and> (\<forall>zi z. zombie = Some (zi, z) \<longrightarrow> i \<le> zi \<and> zi - i < length xs \<and> xs ! (zi - i) = Some z \<and> finished heap z)
       \<and> (zombie_before_free xs heap \<longleftrightarrow> zombie \<noteq> None \<and> free_idx \<noteq> None)"
proof (induction xs arbitrary: i)
  case (Cons x xs)
  show ?case
  proof (cases x)
    case (Some s)
    then obtain rec where rec: "heap s = Some rec" using Cons.prems by auto
    have live: "\<forall>s. Some s \<in> set xs \<longrightarrow> heap s \<noteq> None" using Cons.prems by auto
    show ?thesis
    proof (cases "ss_cleanup_done rec")
      case True
      have zb: "zombie_before_free xs heap \<Longrightarrow> None \<in> set xs"
        by (induction xs heap rule: zombie_before_free.induct) auto
      from register_scan_some [OF live, of "i + 1" "(i, s)"] obtain free_idx where
        "register_scan xs heap (i + 1) (Some (i, s)) = Some (free_idx, Some (i, s))"
        "free_idx = None \<longleftrightarrow> None \<notin> set xs"
        "\<forall>k. free_idx = Some k \<longrightarrow> i + 1 \<le> k \<and> k - (i + 1) < length xs \<and> xs ! (k - (i + 1)) = None" by blast
      then show ?thesis using True zb rec by (auto simp: Some finished_def nth_Cons')
    next
      case False
      from Cons.IH [OF live, of "i + 1"] obtain free_idx zombie where *:
        "register_scan xs heap (i + 1) None = Some (free_idx, zombie)"
        "free_idx = None \<longleftrightarrow> None \<notin> set xs"
        "\<forall>k. free_idx = Some k \<longrightarrow> i + 1 \<le> k \<and> k - (i + 1) < length xs \<and> xs ! (k - (i + 1)) = None"
        "\<forall>zi z. zombie = Some (zi, z) \<longrightarrow> i + 1 \<le> zi \<and> zi - (i + 1) < length xs \<and> xs ! (zi - (i + 1)) = Some z \<and> finished heap z"
        "zombie_before_free xs heap \<longleftrightarrow> zombie \<noteq> None \<and> free_idx \<noteq> None" by blast
      show ?thesis
        by (rule exI [of _ free_idx], rule exI [of _ zombie])
          (use * False rec in \<open>auto simp: Some finished_def nth_Cons'\<close>)
    qed
  qed simp
qed simp

lemma register_live_iff:
  assumes live: "slots_live (rg_slots rg) (rg_heap rg)" and new: "rg_heap rg session \<noteq> None"
    "Some session \<notin> set (rg_slots rg)"
  shows "\<exists>rc rg'. sessions_register session rg = Some (rc, rg')
     \<and> (rc = 0 \<longleftrightarrow> Some session \<in> set (rg_slots rg'))
     \<and> (slots_live (rg_slots rg') (rg_heap rg') \<longleftrightarrow> \<not> zombie_before_free (rg_slots rg) (rg_heap rg))"
proof -
  let ?sl = "rg_slots rg" and ?h = "rg_heap rg"
  from register_scan_none [of ?sl ?h 0] slots_live_heap [OF live] obtain free_idx zombie where
    scan: "register_scan ?sl ?h 0 None = Some (free_idx, zombie)"
    and fr: "\<And>k. free_idx = Some k \<Longrightarrow> k < length ?sl \<and> ?sl ! k = None"
    and zo: "\<And>zi z. zombie = Some (zi, z) \<Longrightarrow> zi < length ?sl \<and> ?sl ! zi = Some z \<and> finished ?h z"
    and zb: "zombie_before_free ?sl ?h \<longleftrightarrow> zombie \<noteq> None \<and> free_idx \<noteq> None" by auto
  have ns: "?sl ! i \<noteq> Some session" if "i < length ?sl" for i using new(2) that by (metis nth_mem)
  have lv: "?h s \<noteq> None \<and> (\<forall>j < length ?sl. ?sl ! j = Some s \<longrightarrow> i = j)" if "i < length ?sl" "?sl ! i = Some s" for i s
    using live that by (simp add: slots_live_iff)
  have put: "slots_live (?sl[k := Some session]) ?h" if "k < length ?sl" for k
    unfolding slots_live_iff using lv ns new(1) that by (auto simp: nth_list_update split: if_splits)
  have mem: "k < length ?sl \<Longrightarrow> Some session \<in> set (?sl[k := Some session])" for k
    by (simp add: set_update_memI)
  show ?thesis
  proof (cases zombie)
    case None
    show ?thesis
    proof (cases free_idx)
      case None
      with \<open>zombie = None\<close> show ?thesis using live new(2) zb by (simp add: sessions_register_def scan)
    next
      case (Some k)
      with \<open>zombie = None\<close> show ?thesis using put fr mem zb by (simp add: sessions_register_def scan)
    qed
  next
    case (Some zz)
    obtain zi z where zz: "zz = (zi, z)" by (cases zz)
    note zf = zo [OF Some [unfolded zz]]
    have zs: "z \<noteq> session" using ns zf by auto
    show ?thesis
    proof (cases free_idx)
      case None
      have "slots_live (?sl[zi := Some session]) (?h(z := None))"
        unfolding slots_live_iff using lv ns new(1) zf zs by (auto simp: nth_list_update)
      with None show ?thesis using mem zf zb by (simp add: sessions_register_def scan Some zz)
    next
      case (Some k)
      have "k \<noteq> zi" using fr [OF Some] zf by auto
      then have "\<not> slots_live (?sl[k := Some session]) (?h(z := None))"
        unfolding slots_live_iff using zf by (auto simp: nth_list_update)
      with Some show ?thesis using mem fr [OF Some] zb \<open>zombie = Some zz\<close>
        by (simp add: sessions_register_def scan zz)
    qed
  qed
qed

text \<open>Defect: registering a session leaves a dangling pointer exactly when a finished session lies
  before the first free slot: it is joined and freed, but its slot is only overwritten when there is
  no free slot.  Otherwise every slot points to a live session afterwards.\<close>

theorem register_dangles_iff:
  assumes "slots_live (rg_slots rg) (rg_heap rg)" "rg_heap rg session \<noteq> None" "Some session \<notin> set (rg_slots rg)"
  shows "\<exists>rc rg'. sessions_register session rg = Some (rc, rg')
     \<and> (rc = 0 \<longleftrightarrow> Some session \<in> set (rg_slots rg'))
     \<and> (slots_live (rg_slots rg') (rg_heap rg') \<longleftrightarrow> \<not> zombie_before_free (rg_slots rg) (rg_heap rg))"
  using assms by (rule register_live_iff)

definition sample_session :: "bool \<Rightarrow> terminal_session" where
  "sample_session done = \<lparr>ss_active = \<not> done, ss_cleanup_done = done, ss_monitor_started = True,
     ss_ws_endpoint = ''ws://h/api/clients/terminal'', ss_extra_query = ''&id=1''\<rparr>"

definition sample_registry :: registry where
  "sample_registry = \<lparr>rg_slots = Some 1 # replicate 7 None,
     rg_heap = [1 \<mapsto> sample_session True, 2 \<mapsto> sample_session False], rg_joined = []\<rparr>"

theorem register_dangles_iff_witness:
  "\<exists>rc rg'. sessions_register 2 sample_registry = Some (rc, rg')
     \<and> (rc = 0 \<longleftrightarrow> Some 2 \<in> set (rg_slots rg')) \<and> \<not> slots_live (rg_slots rg') (rg_heap rg')"
proof -
  have "slots_live (rg_slots sample_registry) (rg_heap sample_registry)"
    "rg_heap sample_registry 2 \<noteq> None" "Some 2 \<notin> set (rg_slots sample_registry)"
    "zombie_before_free (rg_slots sample_registry) (rg_heap sample_registry)"
    by (auto simp: slots_live_def sample_registry_def sample_session_def finished_def list_all_iff nth_Cons')
  then show ?thesis using register_dangles_iff [of sample_registry 2] by blast
qed

section \<open>Three sessions\<close>

definition session_finished :: "nat \<Rightarrow> registry \<Rightarrow> registry" where
  "session_finished s rg =
     rg\<lparr>rg_heap := (rg_heap rg)(s := map_option (\<lambda>rec. rec\<lparr>ss_active := False, ss_cleanup_done := True\<rparr>) (rg_heap rg s))\<rparr>"

lemma three_sessions:
  assumes "rg_slots rg = replicate MAX_TERMINAL_SESSIONS None" "rg_heap rg a \<noteq> None" "rg_heap rg b \<noteq> None"
    "a \<noteq> b"
  shows "\<exists>rg1 rg2. sessions_register a rg = Some (0, rg1)
     \<and> sessions_register b (session_finished a rg1) = Some (0, rg2)
     \<and> sessions_register c rg2 = None \<and> sessions_signal_stop rg2 = None
     \<and> sessions_join_and_cleanup rg2 = None"
proof -
  have r: "replicate MAX_TERMINAL_SESSIONS (None :: nat option) = [None, None, None, None, None, None, None, None]"
    by (simp add: numeral_eq_Suc)
  let ?s = "[Some a, None, None, None, None, None, None, None]"
  obtain ra where ra: "rg_heap rg a = Some ra" using assms by auto
  have 1: "sessions_register a rg = Some (0, rg\<lparr>rg_slots := ?s\<rparr>)"
    using assms(1) by (simp add: sessions_register_def r)
  let ?h = "(rg_heap rg)(a := None)"
  let ?rg2 = "rg\<lparr>rg_slots := [Some a, Some b, None, None, None, None, None, None], rg_heap := ?h,
     rg_joined := rg_joined rg @ [a]\<rparr>"
  have 2: "sessions_register b (session_finished a (rg\<lparr>rg_slots := ?s\<rparr>)) = Some (0, ?rg2)"
    by (simp add: sessions_register_def session_finished_def ra)
  have "sessions_register c ?rg2 = None" "sessions_signal_stop ?rg2 = None" "sessions_join_and_cleanup ?rg2 = None"
    by (simp_all add: sessions_register_def sessions_signal_stop_def sessions_join_and_cleanup_def)
  with 1 2 show ?thesis by blast
qed

text \<open>Defect: after one session has finished and a second one has been registered, the next
  registration reads the freed first session, and so do both loops of the shutdown.\<close>

theorem third_session_use_after_free:
  assumes "rg_slots rg = replicate MAX_TERMINAL_SESSIONS None" "rg_heap rg a \<noteq> None" "rg_heap rg b \<noteq> None"
    "a \<noteq> b"
  shows "\<exists>rg1 rg2. sessions_register a rg = Some (0, rg1)
     \<and> sessions_register b (session_finished a rg1) = Some (0, rg2)
     \<and> sessions_register c rg2 = None \<and> sessions_signal_stop rg2 = None
     \<and> sessions_join_and_cleanup rg2 = None"
  using assms by (rule three_sessions)

theorem third_session_use_after_free_witness:
  "\<exists>rg rg1 rg2. sessions_register 1 rg = Some (0, rg1)
     \<and> sessions_register 2 (session_finished 1 rg1) = Some (0, rg2)
     \<and> sessions_register 3 rg2 = None \<and> sessions_signal_stop rg2 = None
     \<and> sessions_join_and_cleanup rg2 = None"
  using third_session_use_after_free [of "sample_registry\<lparr>rg_slots := replicate MAX_TERMINAL_SESSIONS None\<rparr>" 1 2 3]
  by (simp add: sample_registry_def) blast

end
