(* ===== verification/SessionLife.thy ===== *)
theory SessionLife
  imports Sessions
begin

text \<open>
  A terminal session of \<open>src/core/main.c\<close> from \<open>establish_terminal_connection\<close> to the end of its
  monitor thread, and its two callbacks.  Results of calls into the system and of the WebSocket client
  are arguments; the calls made are recorded in order.
\<close>

section \<open>Set-up\<close>

datatype session_op =
    SoMutexInit | SoMutexDestroy
  | SoWsCreate ws_client_config | SoWsConnect | SoWsStop | SoWsDisconnect | SoWsDestroy
  | SoTermCreate | SoTermFree
  | SoTerm "term_op list"       \<comment> \<open>what \<open>terminal_start\<close> and \<open>terminal_terminate\<close> do\<close>
  | SoMonitor

record est_env =
  ev_pton4 :: "string \<Rightarrow> bool"
  ev_pton6 :: "string \<Rightarrow> bool"
  ev_calloc :: bool
  ev_mutex :: bool
  ev_ws_create :: bool
  ev_ws_connect :: bool
  ev_term_create :: bool
  ev_shell :: "string option"
  ev_fork :: "(int \<times> int) option"
  ev_thread :: bool
  ev_monitor :: bool
  ev_polls :: "bool list"

type_synonym session_state = "nat \<times> registry"   \<comment> \<open>the session counter and the registry\<close>

definition put_session :: "nat \<Rightarrow> (terminal_session \<Rightarrow> terminal_session) \<Rightarrow> registry \<Rightarrow> registry" where
  "put_session s f rg = rg\<lparr>rg_heap := (rg_heap rg)(s := map_option f (rg_heap rg s))\<rparr>"

definition free_session :: "nat \<Rightarrow> session_state \<Rightarrow> session_state" where
  "free_session s st = (terminal_release_session (fst st), (snd st)\<lparr>rg_heap := (rg_heap (snd st))(s := None)\<rparr>)"

fun sessions_unregister :: "nat \<Rightarrow> nat option list \<Rightarrow> nat option list" where
  "sessions_unregister s [] = []"
| "sessions_unregister s (x # xs) = (if x = Some s then None # xs else x # sessions_unregister s xs)"

text \<open>The shared end of the failure paths once the client is connected.\<close>

definition close_ws :: "session_op list" where "close_ws = [SoWsStop, SoWsDisconnect]"

definition undo_started :: "bool list \<Rightarrow> terminal \<Rightarrow> session_op list" where
  "undo_started polls t =
     (case terminal_terminate polls t of (kops, t') \<Rightarrow>
        SoTerm kops # close_ws @ [SoTerm (fst (terminal_destroy polls (Some t'))), SoTermFree, SoWsDestroy, SoMutexDestroy])"

text \<open>From \<open>ws_client_create\<close> on.  None: \<open>sessions_register\<close> reads freed memory.\<close>

definition establish_session ::
    "est_env \<Rightarrow> nat \<Rightarrow> ws_client_config \<Rightarrow> session_state
      \<Rightarrow> (int \<times> session_op list \<times> terminal option \<times> session_state) option" where
  "establish_session env s cfg st =
     (if \<not> ev_ws_create env then Some (-1, [SoMutexDestroy], None, free_session s st)
      else if \<not> ev_ws_connect env then
        Some (-1, [SoWsCreate cfg, SoWsDestroy, SoMutexDestroy], None, free_session s st)
      else case terminal_create (ev_term_create env) 80 24 of
        None \<Rightarrow> Some (-1, [SoWsCreate cfg, SoWsConnect] @ close_ws @ [SoWsDestroy, SoMutexDestroy], None, free_session s st)
      | Some t0 \<Rightarrow>
          (case terminal_start (ev_shell env) (ev_fork env) (ev_thread env)
                  (terminal_set_output_cb True (terminal_set_user_data (Some s) t0)) of
             (rc, tops, t) \<Rightarrow>
               let opened = [SoWsCreate cfg, SoWsConnect, SoTermCreate, SoTerm tops] in
               if rc \<noteq> 0 then
                 Some (-1, opened @ close_ws @ [SoTerm (fst (terminal_destroy (ev_polls env) (Some t))),
                         SoTermFree, SoWsDestroy, SoMutexDestroy], None, free_session s st)
               else
                 let rg = put_session s (\<lambda>r. r\<lparr>ss_active := True, ss_cleanup_done := False, ss_monitor_started := False\<rparr>) (snd st)
                 in (case sessions_register s rg of None \<Rightarrow> None
                     | Some (reg, rg1) \<Rightarrow>
                         if reg \<noteq> 0 then
                           Some (-1, opened @ undo_started (ev_polls env) t, None, free_session s (fst st, rg1))
                         else if \<not> ev_monitor env then
                           Some (-1, opened @ undo_started (ev_polls env) t, None,
                             free_session s (fst st, rg1\<lparr>rg_slots := sessions_unregister s (rg_slots rg1)\<rparr>))
                         else Some (0, opened @ [SoMonitor], Some t,
                                (fst st, put_session s (\<lambda>r. r\<lparr>ss_monitor_started := True\<rparr>) rg1)))))"

text \<open>\<open>s\<close> is the pointer \<open>calloc\<close> returns.\<close>

definition establish_terminal_connection ::
    "est_env \<Rightarrow> nat \<Rightarrow> string \<Rightarrow> string \<Rightarrow> string \<Rightarrow> bool \<Rightarrow> session_state
      \<Rightarrow> (int \<times> session_op list \<times> terminal option \<times> session_state) option" where
  "establish_terminal_connection env s token request_id endpoint ignore_cert st =
     (if contains_crlf request_id then Some (-1, [], None, st)
      else case terminal_acquire_session (fst st) of (acq, n) \<Rightarrow>
        if acq \<noteq> 0 then Some (-1, [], None, st)
        else if \<not> ev_calloc env then Some (-1, [], None, (terminal_release_session n, snd st))
        else
          let blank = \<lparr>ss_active = False, ss_cleanup_done = False, ss_monitor_started = False,
                ss_ws_endpoint = [], ss_extra_query = []\<rparr>;
              st1 = (n, (snd st)\<lparr>rg_heap := (rg_heap (snd st))(s \<mapsto> blank)\<rparr>)
          in if \<not> ev_mutex env then Some (-1, [], None, free_session s st1)
             else
               let w = terminal_ws_endpoint (ev_pton4 env) (ev_pton6 env) endpoint
               in (case url_encode_query request_id 256 of
                     None \<Rightarrow> Some (-1, [SoMutexInit, SoMutexDestroy], None, free_session s st1)
                   | Some enc \<Rightarrow>
                       let q = take 255 (''&id='' @ enc);
                           rg = put_session s (\<lambda>r. r\<lparr>ss_ws_endpoint := w, ss_extra_query := q\<rparr>) (snd st1)
                       in map_option (\<lambda>(rc, ops, t, st'). (rc, SoMutexInit # ops, t, st'))
                            (establish_session env s
                               \<lparr>cfg_endpoint = Some w, cfg_token = Some token, cfg_extra_query = Some q,
                                cfg_ignore_cert = ignore_cert\<rparr> (n, rg))))"

section \<open>The monitor thread\<close>

text \<open>After its loop: everything is stopped and released; the record stays until it is joined.\<close>

definition monitor_teardown ::
    "bool list \<Rightarrow> bool \<Rightarrow> terminal option \<Rightarrow> nat \<Rightarrow> session_state \<Rightarrow> session_op list \<times> session_state" where
  "monitor_teardown polls ws tp s st =
     (let (kops, term1) = (case tp of None \<Rightarrow> ([], None)
                           | Some t \<Rightarrow> (case terminal_terminate polls t of (k, t') \<Rightarrow> ([SoTerm k], Some t')));
          wops = (if ws then close_ws else []);
          dops = (case term1 of None \<Rightarrow> []
                  | Some t' \<Rightarrow> [SoTerm (fst (terminal_destroy polls (Some t'))), SoTermFree]);
          wd = (if ws then [SoWsDestroy] else [])
      in (kops @ wops @ dops @ wd @ [SoMutexDestroy],
          (terminal_release_session (fst st),
           put_session s (\<lambda>r. r\<lparr>ss_active := False, ss_cleanup_done := True\<rparr>) (snd st))))"

section \<open>Balance\<close>

definition so_net :: "session_op \<Rightarrow> session_op \<Rightarrow> session_op list \<Rightarrow> int" where
  "so_net a b ops = int (length (filter (\<lambda>x. x = a) ops)) - int (length (filter (\<lambda>x. x = b) ops))"

fun is_ws_create :: "session_op \<Rightarrow> bool" where
  "is_ws_create (SoWsCreate cfg) = True"
| "is_ws_create _ = False"

fun term_log :: "session_op list \<Rightarrow> term_op list" where
  "term_log [] = []"
| "term_log (SoTerm ts # ops) = ts @ term_log ops"
| "term_log (_ # ops) = term_log ops"

lemma term_log_append [simp]: "term_log (a @ b) = term_log a @ term_log b"
  by (induction a rule: term_log.induct) auto

text \<open>The mutex, the client, the terminal, its process, thread and descriptor: taken once, given back
  once.\<close>

definition session_balanced :: "session_op list \<Rightarrow> bool" where
  "session_balanced ops \<longleftrightarrow>
     so_net SoMutexInit SoMutexDestroy ops = 0
     \<and> length (filter is_ws_create ops) = length (filter (\<lambda>x. x = SoWsDestroy) ops)
     \<and> so_net SoWsConnect SoWsDisconnect ops = 0
     \<and> so_net SoTermCreate SoTermFree ops = 0
     \<and> all_released (term_log ops)"

lemma register_scan_in:
  "register_scan xs heap i z = Some (free_idx, z') \<Longrightarrow>
     (\<forall>k. free_idx = Some k \<longrightarrow> i \<le> k \<and> k < i + length xs)
     \<and> (\<forall>zi zz. z' = Some (zi, zz) \<longrightarrow> z = z' \<or> i \<le> zi \<and> zi < i + length xs \<and> Some zz \<in> set xs)"
proof (induction xs heap i z rule: register_scan.induct)
  case (2 slot slots heap i zombie)
  then show ?case by (fastforce split: option.splits if_splits)
qed simp

lemma register_slots:
  assumes "sessions_register s rg = Some (rc, rg')" "Some s \<notin> set (rg_slots rg)"
  shows "rg_heap rg' s = rg_heap rg s \<and>
     (rc = 0 \<and> (\<exists>k < length (rg_slots rg). rg_slots rg' = (rg_slots rg)[k := Some s])
      \<or> rc = -1 \<and> rg_slots rg' = rg_slots rg)"
proof -
  obtain free_idx zombie where scan: "register_scan (rg_slots rg) (rg_heap rg) 0 None = Some (free_idx, zombie)"
    using assms(1) by (auto simp: sessions_register_def split: option.splits)
  note * = register_scan_in [OF this]
  have zs: "z \<noteq> s" if "zombie = Some (zi, z)" for zi z using * assms(2) that by auto
  then show ?thesis using assms(1) * scan
    by (cases zombie; cases free_idx) (auto simp: sessions_register_def)
qed

lemma unregister_update:
  "Some s \<notin> set xs \<Longrightarrow> Some s \<notin> set (sessions_unregister s (xs[k := Some s]))"
proof (induction xs arbitrary: k)
  case (Cons x xs)
  then show ?case by (cases k) auto
qed simp

lemmas session_counts = session_balanced_def so_net_def undo_started_def close_ws_def

lemma released_append: "all_released a \<Longrightarrow> all_released b \<Longrightarrow> all_released (a @ b)"
  by (simp add: all_released_def term_counts)

lemma released_Nil [simp]: "all_released []"
  by (simp add: all_released_def term_counts)

lemma started:
  assumes "terminal_create ok 80 24 = Some t0"
    "terminal_start sh fork thr (terminal_set_output_cb cb (terminal_set_user_data d t0)) = (rc, ops, t)"
    "\<forall>fd pid. fork = Some (fd, pid) \<longrightarrow> 0 \<le> fd \<and> 0 < pid"
  shows "rc = 0 \<or> rc = -1 \<and> all_released (ops @ fst (terminal_destroy polls (Some t)))"
    "all_released (ops @ fst (terminal_terminate polls t)
       @ fst (terminal_destroy polls (Some (snd (terminal_terminate polls t)))))"
proof -
  let ?u = "terminal_set_output_cb cb (terminal_set_user_data d t0)"
  have u: "tm_master_fd ?u = -1" "\<not> tm_running ?u"
    using assms(1) by (auto simp: terminal_create_def terminal_set_output_cb_def terminal_set_user_data_def split: if_splits)
  obtain kops t' where k: "terminal_terminate polls t = (kops, t')" by force
  note st = start_terminate [OF u assms(2,3) k]
  then show "all_released (ops @ fst (terminal_terminate polls t)
       @ fst (terminal_destroy polls (Some (snd (terminal_terminate polls t)))))" using k by simp
  have "rc = -1 \<Longrightarrow> \<not> tm_running t"
    using assms(2) u by (auto simp: terminal_start_def Let_def split: option.splits if_splits)
  then show "rc = 0 \<or> rc = -1 \<and> all_released (ops @ fst (terminal_destroy polls (Some t)))"
    using st by (auto simp: terminal_destroy_def)
qed

lemma undo_started_log:
  "term_log (undo_started polls t) =
     fst (terminal_terminate polls t) @ fst (terminal_destroy polls (Some (snd (terminal_terminate polls t))))"
  "so_net SoMutexInit SoMutexDestroy (undo_started polls t) = -1"
  "filter is_ws_create (undo_started polls t) = []"
  "length (filter (\<lambda>x. x = SoWsDestroy) (undo_started polls t)) = 1"
  "so_net SoWsConnect SoWsDisconnect (undo_started polls t) = -1"
  "so_net SoTermCreate SoTermFree (undo_started polls t) = -1"
  by (simp_all add: session_counts split: prod.splits)

lemma so_net_append [simp]: "so_net a b (x @ y) = so_net a b x + so_net a b y"
  by (simp add: so_net_def)

lemma so_net_Cons: "so_net a b (x # xs) = (if x = a then 1 else 0) - (if x = b then 1 else 0) + so_net a b xs"
  by (simp add: so_net_def)

lemma so_net_Nil [simp]: "so_net a b [] = 0"
  by (simp add: so_net_def)

lemma undone_balanced:
  assumes "terminal_create ok 80 24 = Some t0"
    "terminal_start sh fork thr (terminal_set_output_cb cb (terminal_set_user_data d t0)) = (rc, tops, t)"
    "\<forall>fd pid. fork = Some (fd, pid) \<longrightarrow> 0 \<le> fd \<and> 0 < pid"
    "mon = [] \<or> mon = [SoMonitor]"
  shows "session_balanced (SoMutexInit # [SoWsCreate cfg, SoWsConnect, SoTermCreate, SoTerm tops] @ mon @ undo_started polls t)"
  using started(2) [OF assms(1-3), of polls] assms(4)
  by (auto simp: session_balanced_def undo_started_log so_net_Cons simp del: append_Cons)

lemma teardown_undo:
  "monitor_teardown polls True (Some t) s st =
     (undo_started polls t, terminal_release_session (fst st),
      put_session s (\<lambda>r. r\<lparr>ss_active := False, ss_cleanup_done := True\<rparr>) (snd st))"
  by (simp add: monitor_teardown_def undo_started_def close_ws_def split: prod.splits)

lemma put_session_simps [simp]:
  "rg_slots (put_session s f rg) = rg_slots rg"
  "rg_heap (put_session s f rg) = (rg_heap rg)(s := map_option f (rg_heap rg s))"
  by (simp_all add: put_session_def)

lemma free_session_simps [simp]:
  "free_session s (n, rg) = (terminal_release_session n, rg\<lparr>rg_heap := (rg_heap rg)(s := None)\<rparr>)"
  by (simp add: free_session_def)

lemma release_pos [simp]: "0 < n \<Longrightarrow> terminal_release_session n = n - 1"
  by (simp add: terminal_release_session_def)

lemma establish_session_balanced:
  assumes e: "establish_session env s cfg (n, rg) = Some (rc, ops, tp, (n', rg'))"
    and pos: "\<forall>fd pid. ev_fork env = Some (fd, pid) \<longrightarrow> 0 \<le> fd \<and> 0 < pid"
    and fresh: "Some s \<notin> set (rg_slots rg)" "rg_heap rg s \<noteq> None" "0 < n"
  shows "rc = -1 \<and> tp = None \<and> session_balanced (SoMutexInit # ops) \<and> n' = n - 1 \<and> rg_heap rg' s = None
       \<and> Some s \<notin> set (rg_slots rg')
    \<or> rc = 0 \<and> n' = n \<and> Some s \<in> set (rg_slots rg')
       \<and> (case monitor_teardown polls True tp s (n', rg') of (ops2, n2, rg2) \<Rightarrow>
            session_balanced (SoMutexInit # ops @ ops2) \<and> n2 = n - 1 \<and> finished (rg_heap rg2) s)"
proof (cases "ev_ws_create env \<and> ev_ws_connect env")
  case False
  then show ?thesis using e fresh by (auto simp: establish_session_def session_counts split: if_splits)
next
  case ws: True
  show ?thesis
  proof (cases "terminal_create (ev_term_create env) 80 24")
    case None
    then show ?thesis using e fresh ws by (auto simp: establish_session_def session_counts)
  next
    case (Some t0)
    obtain trc tops t where start: "terminal_start (ev_shell env) (ev_fork env) (ev_thread env)
        (terminal_set_output_cb True (terminal_set_user_data (Some s) t0)) = (trc, tops, t)"
      by (metis surj_pair)
    note st = started [OF Some start pos] and undone = undone_balanced [OF Some start pos]
    note run = establish_session_def ws Some start Let_def
    show ?thesis
    proof (cases "trc = 0")
      case False
      then show ?thesis using e ws st(1) [of "ev_polls env"] fresh by (simp add: run) (auto simp: session_counts)
    next
      case True
      let ?rg = "put_session s (\<lambda>r. r\<lparr>ss_active := True, ss_cleanup_done := False, ss_monitor_started := False\<rparr>) rg"
      obtain reg rg1 where reg: "sessions_register s ?rg = Some (reg, rg1)"
        using e ws True by (cases "sessions_register s ?rg") (auto simp: run)
      note rs = register_slots [OF reg, simplified, OF fresh(1)]
      show ?thesis
      proof (cases "reg = 0 \<and> ev_monitor env")
        case False
        then have "rc = -1 \<and> tp = None \<and> n' = n - 1 \<and> rg_heap rg' s = None \<and> Some s \<notin> set (rg_slots rg')
            \<and> ops = [SoWsCreate cfg, SoWsConnect, SoTermCreate, SoTerm tops] @ undo_started (ev_polls env) t"
          using e ws True reg rs fresh by (auto simp: run unregister_update split: if_splits)
        then show ?thesis using undone [of "[]" cfg "ev_polls env"] by simp
      next
        case mon: True
        then have "rc = 0 \<and> tp = Some t \<and> n' = n \<and> rg_heap rg' s \<noteq> None \<and> Some s \<in> set (rg_slots rg')
            \<and> ops = [SoWsCreate cfg, SoWsConnect, SoTermCreate, SoTerm tops] @ [SoMonitor]"
          using e ws True reg rs fresh by (auto simp: run set_update_memI)
        then show ?thesis using fresh undone [of "[SoMonitor]" cfg polls]
          by (auto simp: teardown_undo finished_def)
      qed
    qed
  qed
qed


definition sample_est_env :: est_env where
  "sample_est_env = \<lparr>ev_pton4 = (\<lambda>h. False), ev_pton6 = (\<lambda>h. False), ev_calloc = True, ev_mutex = True,
     ev_ws_create = True, ev_ws_connect = True, ev_term_create = True, ev_shell = Some ''/bin/sh'',
     ev_fork = Some (7, 99), ev_thread = True, ev_monitor = True, ev_polls = [True]\<rparr>"

definition empty_registry :: registry where
  "empty_registry = \<lparr>rg_slots = replicate MAX_TERMINAL_SESSIONS None, rg_heap = (\<lambda>x. None), rg_joined = []\<rparr>"


section \<open>The monitor and the reading thread together\<close>

datatype session_event =
    EvPty pty_read bool     \<comment> \<open>a round of the reading thread; whether the client's send succeeds\<close>
  | EvDisconnect | EvSignalStop
  | EvMonitor               \<comment> \<open>a turn of the monitor's loop\<close>

record live_session =
  lv_term :: terminal
  lv_reading :: bool
  lv_active :: bool
  lv_connected :: bool
  lv_closing :: bool        \<comment> \<open>the monitor has left its loop\<close>

text \<open>\<open>on_terminal_output\<close>: the client's send, if the session is active.\<close>

definition on_terminal_output :: "bool \<Rightarrow> bool \<Rightarrow> bool \<Rightarrow> byte list \<Rightarrow> bool \<times> byte list list" where
  "on_terminal_output ws send_ok active data =
     (if active \<and> ws then (if send_ok then (active, [data]) else (False, [data])) else (active, []))"

text \<open>One turn of the loop, whose condition is read again after the sleep: whether it leaves.\<close>

definition monitor_turn :: "bool \<Rightarrow> bool \<Rightarrow> terminal option \<Rightarrow> bool \<Rightarrow> bool \<Rightarrow> bool" where
  "monitor_turn active active_after_sleep tp ws conn_up \<longleftrightarrow>
     \<not> active \<or> \<not> active_after_sleep
     \<or> (case tp of Some t \<Rightarrow> \<not> tm_running t | None \<Rightarrow> False)
     \<or> ws \<and> \<not> conn_up"

fun session_step :: "session_event \<Rightarrow> live_session \<Rightarrow> live_session" where
  "session_step (EvPty r send_ok) ls =
     (if \<not> lv_reading ls then ls
      else if \<not> tm_running (lv_term ls) then ls\<lparr>lv_reading := False\<rparr>
      else case read_turn (tm_output_cb (lv_term ls)) r of
        (cont, out) \<Rightarrow>
          ls\<lparr>lv_reading := cont,
             lv_active := foldl (\<lambda>a data. fst (on_terminal_output True send_ok a data)) (lv_active ls) out\<rparr>)"
| "session_step EvDisconnect ls = ls\<lparr>lv_connected := False\<rparr>"
| "session_step EvSignalStop ls = ls\<lparr>lv_active := False\<rparr>"
| "session_step EvMonitor ls =
     (if lv_closing ls then ls
      else if monitor_turn (lv_active ls) (lv_active ls) (Some (lv_term ls)) True (lv_connected ls)
           then ls\<lparr>lv_closing := True, lv_active := False\<rparr> else ls)"

definition live_start :: "terminal \<Rightarrow> live_session" where
  "live_start t = \<lparr>lv_term = t, lv_reading = True, lv_active = True, lv_connected = True, lv_closing = False\<rparr>"

definition disturbance :: "session_event \<Rightarrow> bool" where
  "disturbance e \<longleftrightarrow> e = EvDisconnect \<or> e = EvSignalStop \<or> (\<exists>r. e = EvPty r False)"

lemma undisturbed:
  assumes "tm_running t" "list_all (\<lambda>e. \<not> disturbance e) evs"
    "lv_term ls = t" "lv_active ls" "lv_connected ls" "\<not> lv_closing ls"
  shows "\<not> lv_closing (fold session_step evs ls)"
  using assms
proof (induction evs arbitrary: ls)
  case (Cons e evs)
  have out: "foldl (\<lambda>a data. fst (on_terminal_output True True a data)) True out" for out
    by (induction out) (simp_all add: on_terminal_output_def)
  have "lv_term (session_step e ls) = t \<and> lv_active (session_step e ls) \<and> lv_connected (session_step e ls)
      \<and> \<not> lv_closing (session_step e ls)"
    using Cons.prems out by (cases e) (auto simp: disturbance_def monitor_turn_def split: prod.splits)
  then show ?case using Cons by simp
qed simp

lemma foldl_inactive: "\<not> a \<Longrightarrow> \<not> foldl (\<lambda>a data. fst (on_terminal_output True ok a data)) a out"
  by (induction out arbitrary: a) (simp_all add: on_terminal_output_def)

definition doomed :: "live_session \<Rightarrow> bool" where
  "doomed ls \<longleftrightarrow> lv_closing ls \<or> \<not> lv_active ls \<or> \<not> lv_connected ls"

lemma doomed_event: "doomed ls \<Longrightarrow> doomed (session_step e ls)"
  by (cases e) (auto simp: doomed_def monitor_turn_def foldl_inactive split: prod.splits)

lemma doomed_fold: "doomed ls \<Longrightarrow> doomed (fold session_step evs ls)"
  by (induction evs arbitrary: ls) (simp_all add: doomed_event)

lemma doomed_closes: "doomed ls \<Longrightarrow> lv_closing (session_step EvMonitor ls)"
  by (auto simp: doomed_def monitor_turn_def)

text \<open>C34. Liveness of a session: once the connection is lost or the agent shuts down, the monitor's next
  turn leaves the loop, whatever else happens in between.  Defect: nothing but those and failing sends
  ends a session; when the shell exits, the reading thread ends without clearing \<open>running\<close>, the flag
  the monitor tests, so the monitor never notices it, however many turns it makes.\<close>

theorem session_end_noticed:
  assumes "terminal_start sh fork thr t0 = (0, ops, t)"
  shows "(e \<in> {EvDisconnect, EvSignalStop} \<longrightarrow>
        lv_closing (fold session_step (evs @ e # evs' @ [EvMonitor]) (live_start t)))
     \<and> (list_all (\<lambda>e. \<not> disturbance e) evs \<longrightarrow>
        \<not> lv_closing (fold session_step (evs @ EvPty PtyEof True # replicate k EvMonitor) (live_start t)))"
proof (intro conjI impI)
  assume e: "e \<in> {EvDisconnect, EvSignalStop}"
  then have "doomed (session_step e (fold session_step evs (live_start t)))"
    by (auto simp: doomed_def)
  from doomed_closes [OF doomed_fold [OF this, of evs']]
  show "lv_closing (fold session_step (evs @ e # evs' @ [EvMonitor]) (live_start t))" by simp
next
  assume evs: "list_all (\<lambda>e. \<not> disturbance e) evs"
  have "tm_running t" using assms by (auto simp: terminal_start_def Let_def split: option.splits if_splits)
  moreover have "list_all (\<lambda>e. \<not> disturbance e) (evs @ EvPty PtyEof True # replicate k EvMonitor)"
    using evs by (auto simp: disturbance_def list_all_iff)
  ultimately show "\<not> lv_closing (fold session_step (evs @ EvPty PtyEof True # replicate k EvMonitor) (live_start t))"
    by (rule undisturbed) (simp_all add: live_start_def)
qed

theorem session_end_noticed_witness:
  "\<exists>t. lv_closing (fold session_step ([EvPty (PtyData [65]) True] @ EvDisconnect # [] @ [EvMonitor]) (live_start t))
     \<and> \<not> lv_closing (fold session_step ([EvPty (PtyData [65]) True] @ EvPty PtyEof True # replicate 3600 EvMonitor) (live_start t))"
proof -
  define t where "t = snd (snd (terminal_start (Some ''/bin/sh'') (Some (7, 99)) True (the (terminal_create True 80 24))))"
  have t: "terminal_start (Some ''/bin/sh'') (Some (7, 99)) True (the (terminal_create True 80 24))
      = (0, [TmFork 7 99, TmSetpgid 99, TmSpawn], t)"
    by (simp add: t_def terminal_start_def Let_def)
  have "list_all (\<lambda>e. \<not> disturbance e) [EvPty (PtyData [65]) True]" by (simp add: disturbance_def)
  with session_end_noticed [OF t] show ?thesis by blast
qed

section \<open>Input from the panel\<close>

text \<open>Control messages are JSON objects of type \<open>resize\<close>; everything else goes to the shell.  The data is
  parsed as a C string.\<close>

definition on_terminal_ws_data ::
    "(string \<Rightarrow> cjson option) \<Rightarrow> bool \<Rightarrow> tx list \<Rightarrow> byte list \<Rightarrow> bool \<Rightarrow> terminal option
      \<Rightarrow> byte list \<times> term_op list \<times> terminal option" where
  "on_terminal_ws_data parse ioctl_ok ts data active tp =
     (if \<not> active then ([], [], tp)
      else case tp of None \<Rightarrow> ([], [], None)
      | Some t \<Rightarrow>
          let root = (if data \<noteq> [] \<and> char_of_byte (hd data) = CHR ''{'' then parse (c_str data) else None)
          in (case root of
                Some j \<Rightarrow>
                  (if get_string j ''type'' = Some ''resize'' then
                     (case (cJSON_GetObjectItem j ''cols'', cJSON_GetObjectItem j ''rows'') of
                        (Some c, Some r) \<Rightarrow>
                          if cJSON_IsNumber c \<and> cJSON_IsNumber r then
                            (case terminal_resize ioctl_ok (valueint c) (valueint r) t of
                               (rc, ops, t') \<Rightarrow> ([], ops, Some t'))
                          else ([], [], Some t)
                      | _ \<Rightarrow> ([], [], Some t))
                   else (snd (terminal_write ts data t), [], Some t))
              | None \<Rightarrow> (snd (terminal_write ts data t), [], Some t)))"

end
