(* ===== verification/ExecArgv.thy ===== *)
theory ExecArgv
  imports Utils
begin

text \<open>
  The tokeniser of remote commands, \<open>parse_exec_command_argv\<close> of \<open>src/core/main.c\<close>.  It works in
  place: the buffer is a list with the terminating NUL, \<open>p\<close> and \<open>write\<close> are indices into it, and
  \<open>argv\<close> holds the start indices of the tokens.
\<close>

section \<open>The loops\<close>

text \<open>\<open>*p\<close>; \<open>argv_in_bounds\<close> shows the index is always inside the buffer.\<close>

definition deref :: "string \<Rightarrow> nat \<Rightarrow> char" where
  "deref buf p = (if p < length buf then buf ! p else nul)"

definition arg_space :: "char \<Rightarrow> bool" where
  "arg_space c \<longleftrightarrow> c = CHR '' '' \<or> c = tab \<or> c = lf \<or> c = cr"

definition apos :: char where "apos = CHR 0x27"

lemma deref_less: "deref buf p \<noteq> nul \<Longrightarrow> p < length buf"
  by (simp add: deref_def split: if_splits)

function skip_space :: "string \<Rightarrow> nat \<Rightarrow> nat" where
  "skip_space buf p = (if arg_space (deref buf p) then skip_space buf (p + 1) else p)"
  by pat_completeness auto
termination
proof (relation "measure (\<lambda>(buf, p). length buf - p)", simp, clarsimp)
  fix buf p
  assume "arg_space (deref buf p)"
  then have "p < length buf" by (intro deref_less) (auto simp: arg_space_def nul_def tab_def lf_def cr_def)
  then show "length buf - Suc p < length buf - p" by simp
qed

text \<open>The inner loop for quote character \<open>q\<close>: \<open>*write++ = *p++\<close>.\<close>

function copy_quoted :: "char \<Rightarrow> string \<Rightarrow> nat \<Rightarrow> nat \<Rightarrow> string \<times> nat \<times> nat" where
  "copy_quoted q buf p w =
     (if deref buf p \<noteq> nul \<and> deref buf p \<noteq> q then copy_quoted q (buf[w := deref buf p]) (p + 1) (w + 1)
      else (buf, p, w))"
  by pat_completeness auto
termination
  by (relation "measure (\<lambda>(q, buf, p, w). length buf - p)") (auto dest: deref_less)

declare skip_space.simps [simp del] copy_quoted.simps [simp del]

lemma copy_quoted_mono:
  "copy_quoted q buf p w = (buf', p', w') \<Longrightarrow> p \<le> p' \<and> length buf' = length buf"
  by (induction q buf p w rule: copy_quoted.induct)
    (subst (asm) (2) copy_quoted.simps, auto split: if_splits)

lemma quoted_measure:
  assumes "copy_quoted q buf (p + 1) w = (b1, p1, w1)" "deref buf p \<noteq> nul"
  shows "length b1 - (if c then p1 + 1 else p1) < length buf - p"
  using copy_quoted_mono [OF assms(1)] deref_less [OF assms(2)] by auto

function copy_token :: "string \<Rightarrow> nat \<Rightarrow> nat \<Rightarrow> string \<times> nat \<times> nat" where
  "copy_token buf p w =
     (if deref buf p = nul \<or> arg_space (deref buf p) then (buf, p, w)
      else if deref buf p = dquote \<or> deref buf p = apos then
        (case copy_quoted (deref buf p) buf (p + 1) w of
           (buf1, p1, w1) \<Rightarrow> copy_token buf1 (if deref buf1 p1 = deref buf p then p1 + 1 else p1) w1)
      else copy_token (buf[w := deref buf p]) (p + 1) (w + 1))"
  by pat_completeness auto
termination
  by (relation "measure (\<lambda>(buf, p, w). length buf - p)", simp, simp only: in_measure prod.case)
    (metis quoted_measure prod.sel, simp add: diff_less_mono2 deref_less)

declare copy_token.simps [simp del]

lemma copy_token_mono:
  "copy_token buf p w = (buf', p', w') \<Longrightarrow> p \<le> p' \<and> length buf' = length buf"
proof (induction buf p w rule: copy_token.induct)
  case (1 buf p w)
  show ?case
  proof (cases "deref buf p = dquote \<or> deref buf p = apos")
    case True
    obtain b1 p1 w1 where q: "copy_quoted (deref buf p) buf (p + 1) w = (b1, p1, w1)" by (metis prod_cases3)
    note m = copy_quoted_mono [OF q]
    from 1 True q m show ?thesis
      by (subst (asm) (3) copy_token.simps) (fastforce split: if_splits)
  next
    case False
    with 1 show ?thesis by (subst (asm) (3) copy_token.simps) (fastforce split: if_splits)
  qed
qed

lemma copy_token_advance:
  assumes "copy_token buf p w = (buf', p', w')" "deref buf p \<noteq> nul" "\<not> arg_space (deref buf p)"
  shows "p < p'"
proof (cases "deref buf p = dquote \<or> deref buf p = apos")
  case True
  obtain b1 p1 w1 where q: "copy_quoted (deref buf p) buf (p + 1) w = (b1, p1, w1)" by (metis prod_cases3)
  from assms True q copy_quoted_mono [OF q] show ?thesis
    by (subst (asm) copy_token.simps) (auto split: if_splits dest!: copy_token_mono)
next
  case False
  with assms show ?thesis by (subst (asm) copy_token.simps) (auto dest!: copy_token_mono)
qed

lemma skip_space_mono: "p \<le> skip_space buf p"
  by (induction buf p rule: skip_space.induct) (subst skip_space.simps, auto)

lemma skip_space_stop: "\<not> arg_space (deref buf (skip_space buf p))"
  by (induction buf p rule: skip_space.induct) (subst skip_space.simps, auto)

text \<open>The outer loop: \<open>*write = 0\<close>, \<open>argv[argc++] = token_start\<close>, \<open>if (*p) p++\<close>.\<close>

lemma argv_measure:
  assumes "deref buf (skip_space buf p) \<noteq> nul"
    "copy_token buf (skip_space buf p) (skip_space buf p) = (buf1, p1, w)"
  shows "length buf1 - (if c then p1 + 1 else p1) < length buf - p"
  using copy_token_mono [OF assms(2)] copy_token_advance [OF assms(2,1) skip_space_stop]
    deref_less [OF assms(1)] skip_space_mono [of p buf] by auto

function argv_loop :: "string \<Rightarrow> nat \<Rightarrow> nat list \<Rightarrow> string \<times> nat list" where
  "argv_loop buf p argv =
     (if deref buf p = nul then (buf, argv)
      else let token_start = skip_space buf p
           in if deref buf token_start = nul then (buf, argv)
              else (case copy_token buf token_start token_start of
                      (buf1, p1, w) \<Rightarrow>
                        let buf2 = buf1[w := nul]
                        in argv_loop buf2 (if deref buf2 p1 \<noteq> nul then p1 + 1 else p1) (argv @ [token_start])))"
  by pat_completeness auto
termination
  by (relation "measure (\<lambda>(buf, p, argv). length buf - p)", simp, simp only: in_measure prod.case length_list_update)
    (metis argv_measure)

declare argv_loop.simps [simp del]

text \<open>The strings \<open>argv\<close> points to; None is the result NULL (no memory, or no token).\<close>

definition cstring_at :: "string \<Rightarrow> nat \<Rightarrow> string" where
  "cstring_at buf i = takeWhile (\<lambda>c. c \<noteq> nul) (drop i buf)"

definition parse_exec_command_argv :: "bool \<Rightarrow> bool \<Rightarrow> string \<Rightarrow> string list option" where
  "parse_exec_command_argv malloc_ok calloc_ok cmd =
     (if \<not> malloc_ok then None
      else if \<not> calloc_ok then None
      else case argv_loop (cmd @ [nul]) 0 [] of
        (buf, argv) \<Rightarrow> if argv = [] then None else Some (map (cstring_at buf) argv))"

section \<open>What it computes\<close>

text \<open>A word at the head of the text: its characters, the number of quote characters removed, the
  text behind it.\<close>

function take_word :: "string \<Rightarrow> string \<times> nat \<times> string" where
  "take_word s =
     (case s of [] \<Rightarrow> ([], 0, [])
      | c # r \<Rightarrow>
         if arg_space c then ([], 0, s)
         else if c = dquote \<or> c = apos then
           (let a = takeWhile (\<lambda>x. x \<noteq> c) r; b = dropWhile (\<lambda>x. x \<noteq> c) r
            in case take_word (tl b) of
                 (word, n, rest) \<Rightarrow> (a @ word, (if b = [] then 1 else 2) + n, rest))
         else (case take_word r of (word, n, rest) \<Rightarrow> (c # word, n, rest)))"
  by pat_completeness auto
termination
proof (relation "measure length", simp, goal_cases)
  case (1 s c r a b)
  have "length (tl b) \<le> length b" by simp
  also have "length b \<le> length r" using 1 by (simp add: length_dropWhile_le)
  finally show ?case using 1 by simp
qed simp

declare take_word.simps [simp del]

definition is_quote :: "char \<Rightarrow> bool" where "is_quote c \<longleftrightarrow> c = dquote \<or> c = apos"

lemma quote_not_space: "is_quote c \<Longrightarrow> \<not> arg_space c \<and> c \<noteq> nul"
  by (auto simp: is_quote_def arg_space_def dquote_def apos_def nul_def tab_def lf_def cr_def)

lemma take_word_eqs:
  "take_word [] = ([], 0, [])"
  "arg_space c \<Longrightarrow> take_word (c # r) = ([], 0, c # r)"
  "is_quote c \<Longrightarrow> c \<notin> set a \<Longrightarrow> take_word (c # a @ c # b) =
     (case take_word b of (word, n, rest) \<Rightarrow> (a @ word, 2 + n, rest))"
  "is_quote c \<Longrightarrow> c \<notin> set r \<Longrightarrow> take_word (c # r) = (r, 1, [])"
  "\<not> arg_space c \<Longrightarrow> \<not> is_quote c \<Longrightarrow> take_word (c # r) =
     (case take_word r of (word, n, rest) \<Rightarrow> (c # word, n, rest))"
proof -
  show n: "take_word [] = ([], 0, [])" by (simp add: take_word.simps)
  show "arg_space c \<Longrightarrow> take_word (c # r) = ([], 0, c # r)" by (simp add: take_word.simps)
  assume "is_quote c" and c: "c \<notin> set a"
  moreover have "takeWhile (\<lambda>x. x \<noteq> c) (a @ c # b) = a" "dropWhile (\<lambda>x. x \<noteq> c) (a @ c # b) = c # b"
    using c by (auto simp: takeWhile_tail dropWhile_append3)
  ultimately show "take_word (c # a @ c # b) =
     (case take_word b of (word, n, rest) \<Rightarrow> (a @ word, 2 + n, rest))"
    using quote_not_space [of c]
    by (subst take_word.simps) (simp add: is_quote_def Let_def)
next
  assume "is_quote c" and c: "c \<notin> set r"
  moreover have tw: "takeWhile (\<lambda>x. x \<noteq> c) r = r" "dropWhile (\<lambda>x. x \<noteq> c) r = []"
    using c by auto
  ultimately show "take_word (c # r) = (r, 1, [])"
    using quote_not_space [of c]
    by (subst take_word.simps) (simp add: is_quote_def Let_def tw take_word.simps [of "[]"])
next
  show "\<not> arg_space c \<Longrightarrow> \<not> is_quote c \<Longrightarrow> take_word (c # r) =
     (case take_word r of (word, n, rest) \<Rightarrow> (c # word, n, rest))"
    by (subst take_word.simps) (simp add: is_quote_def)
qed

text \<open>Induction along the words.\<close>

lemma word_cases:
  obtains (Nil) "s = []" | (Space) c r where "s = c # r" "arg_space c"
    | (Closed) c a b where "s = c # a @ c # b" "is_quote c" "c \<notin> set a"
    | (Open1) c r where "s = c # r" "is_quote c" "c \<notin> set r"
    | (Char1) c r where "s = c # r" "\<not> arg_space c" "\<not> is_quote c"
proof (cases s)
  case (Cons c r)
  show ?thesis
  proof (cases "is_quote c")
    case True
    then show ?thesis using Closed Open1 Cons by (cases "c \<in> set r") (auto dest!: split_list_first)
  next
    case False
    then show ?thesis using Space Char1 Cons by blast
  qed
qed (rule Nil)

lemma take_word_length: "take_word s = (word, n, rest) \<Longrightarrow> length rest + length word + n = length s"
proof (induction s arbitrary: word n rest rule: length_induct)
  case (1 s)
  note IH = 1(1) [rule_format]
  show ?case
  proof (cases s rule: word_cases)
    case (Closed c a b)
    obtain w1 n1 r1 where "take_word b = (w1, n1, r1)" by (metis prod_cases3)
    with Closed 1(2) IH [of b w1 n1 r1] show ?thesis by (auto simp: take_word_eqs)
  next
    case (Char1 c r)
    obtain w1 n1 r1 where "take_word r = (w1, n1, r1)" by (metis prod_cases3)
    with Char1 1(2) IH [of r w1 n1 r1] show ?thesis by (auto simp: take_word_eqs)
  qed (use 1(2) in \<open>auto simp: take_word_eqs\<close>)
qed

text \<open>The words the program finds: behind a word without quote characters it stops.\<close>

lemma exec_words_measure:
  assumes "dropWhile arg_space s \<noteq> []" "take_word (dropWhile arg_space s) = (word, n, rest)"
  shows "length (tl rest) < length s"
  using take_word_length [OF assms(2)] length_dropWhile_le [of arg_space s] assms(1)
  by (cases rest) auto

function exec_words :: "string \<Rightarrow> string list" where
  "exec_words s =
     (let t = dropWhile arg_space s
      in if t = [] then []
         else case take_word t of
           (word, n, rest) \<Rightarrow> word # (if n = 0 \<or> rest = [] then [] else exec_words (tl rest)))"
  by pat_completeness auto
termination
  by (relation "measure length", simp, simp only: in_measure) (metis exec_words_measure)

declare exec_words.simps [simp del]

section \<open>The in-place loops compute it\<close>

text \<open>The unread text at \<open>p\<close>.\<close>

definition reads :: "string \<Rightarrow> nat \<Rightarrow> string \<Rightarrow> bool" where
  "reads buf p s \<longleftrightarrow> drop p buf = s @ [nul] \<and> nul \<notin> set s"

lemma reads_less: "reads buf p s \<Longrightarrow> p < length buf"
  by (metis append_is_Nil_conv drop_all linorder_not_less list.distinct(1) reads_def)

lemma reads_Nil: "reads buf p [] \<Longrightarrow> deref buf p = nul"
  using reads_less [of buf p] Cons_nth_drop_Suc [of p buf] by (auto simp: reads_def deref_def)

lemma reads_Cons:
  assumes "reads buf p (c # s)"
  shows "deref buf p = c" "c \<noteq> nul" "w \<le> p \<Longrightarrow> reads (buf[w := x]) (p + 1) s" "reads buf (p + 1) s"
proof -
  have p: "p < length buf" using assms by (rule reads_less)
  then have "buf ! p # drop (Suc p) buf = c # s @ [nul]"
    using assms by (simp add: reads_def Cons_nth_drop_Suc)
  then show "deref buf p = c" "c \<noteq> nul" "w \<le> p \<Longrightarrow> reads (buf[w := x]) (p + 1) s" "reads buf (p + 1) s"
    using assms p by (auto simp: deref_def reads_def drop_update_cancel)
qed

lemma take_write: "w < length buf \<Longrightarrow> take (w + 1) (buf[w := c]) = take w buf @ [c]"
  by (simp add: take_Suc_conv_app_nth)

lemma copy_quoted_reads:
  "reads buf p (a @ b) \<Longrightarrow> q \<notin> set a \<Longrightarrow> b = [] \<or> hd b = q \<Longrightarrow> w \<le> p \<Longrightarrow>
     \<exists>buf'. copy_quoted q buf p w = (buf', p + length a, w + length a) \<and> length buf' = length buf
        \<and> reads buf' (p + length a) b \<and> take (w + length a) buf' = take w buf @ a"
proof (induction a arbitrary: buf p w)
  case Nil
  have "deref buf p = nul \<or> deref buf p = q"
    using Nil reads_Nil [of buf p] reads_Cons(1) [of buf p] by (cases b) auto
  then show ?case using Nil by (subst copy_quoted.simps) auto
next
  case (Cons c a)
  note rc = reads_Cons [of buf p c "a @ b"]
  have r: "reads buf p (c # a @ b)" using Cons.prems(1) by simp
  have w: "w < length buf" using Cons.prems(4) reads_less [OF r] by simp
  obtain buf' where
    "copy_quoted q (buf[w := c]) (p + 1) (w + 1) = (buf', p + 1 + length a, w + 1 + length a)"
    "length buf' = length buf" "reads buf' (p + 1 + length a) b"
    "take (w + 1 + length a) buf' = take w buf @ [c] @ a"
    using Cons.IH [OF rc(3) [OF r Cons.prems(4)], of "w + 1" c] Cons.prems w
    by (auto simp: take_write [simplified] simp del: take_Suc_conv_app_nth)
  then show ?case using rc(1,2) [OF r] Cons.prems(2)
    by (subst copy_quoted.simps) auto
qed

lemma copy_token_reads:
  "reads buf p s \<Longrightarrow> w \<le> p \<Longrightarrow> take_word s = (word, n, rest) \<Longrightarrow>
     \<exists>buf'. copy_token buf p w = (buf', p + length word + n, w + length word) \<and> length buf' = length buf
        \<and> reads buf' (p + length word + n) rest \<and> take (w + length word) buf' = take w buf @ word"
proof (induction s arbitrary: buf p w word n rest rule: length_induct)
  case (1 s)
  note IH = 1(1) [rule_format] and r = 1(2) and wp = 1(3) and tw = 1(4)
  show ?case
  proof (cases s rule: word_cases)
    case Nil
    then show ?thesis using r tw reads_Nil [of buf p] by (subst copy_token.simps) (auto simp: take_word_eqs)
  next
    case (Space c t)
    then show ?thesis using r tw reads_Cons(1) [of buf p c t]
      by (subst copy_token.simps) (auto simp: take_word_eqs)
  next
    case (Closed c a b)
    obtain w1 n1 r1 where b: "take_word b = (w1, n1, r1)" by (metis prod_cases3)
    have res: "word = a @ w1" "n = 2 + n1" "rest = r1" using tw Closed by (simp_all add: take_word_eqs b)
    note rc = reads_Cons [OF r [unfolded Closed(1)]]
    obtain b1 where q: "copy_quoted c buf (p + 1) w = (b1, p + 1 + length a, w + length a)"
      "length b1 = length buf" "reads b1 (p + 1 + length a) (c # b)" "take (w + length a) b1 = take w buf @ a"
      using copy_quoted_reads [of buf "p + 1" a "c # b" c w] rc(4) Closed(3) wp by auto
    note rb = reads_Cons [OF q(3)]
    have "\<exists>buf'. copy_token b1 (p + 1 + length a + 1) (w + length a) =
        (buf', p + 1 + length a + 1 + length w1 + n1, w + length a + length w1) \<and> length buf' = length b1
        \<and> reads buf' (p + 1 + length a + 1 + length w1 + n1) r1
        \<and> take (w + length a + length w1) buf' = take (w + length a) b1 @ w1"
      by (rule IH [OF _ rb(4) _ b]) (use wp in \<open>auto simp: Closed\<close>)
    then show ?thesis using quote_not_space [OF Closed(2)] Closed(2) rc(1) rb(1) q res
      by (subst copy_token.simps) (auto simp: is_quote_def algebra_simps)
  next
    case (Open1 c t)
    have res: "word = t" "n = 1" "rest = []" using tw Open1 by (simp_all add: take_word_eqs)
    note rc = reads_Cons [OF r [unfolded Open1(1)]]
    obtain b1 where q: "copy_quoted c buf (p + 1) w = (b1, p + 1 + length t, w + length t)"
      "length b1 = length buf" "reads b1 (p + 1 + length t) []" "take (w + length t) b1 = take w buf @ t"
      using copy_quoted_reads [of buf "p + 1" t "[]" c w] rc(4) Open1(3) wp by auto
    note nl = reads_Nil [OF q(3)]
    have "copy_token b1 (p + 1 + length t) (w + length t) = (b1, p + 1 + length t, w + length t)"
      using nl by (subst copy_token.simps) simp
    then show ?thesis using quote_not_space [OF Open1(2)] Open1(2) rc(1) nl q res
      by (subst copy_token.simps) (auto simp: is_quote_def algebra_simps)
  next
    case (Char1 c t)
    obtain w1 n1 r1 where t: "take_word t = (w1, n1, r1)" by (metis prod_cases3)
    have res: "word = c # w1" "n = n1" "rest = r1" using tw Char1 by (simp_all add: take_word_eqs t)
    note rc = reads_Cons [OF r [unfolded Char1(1)]]
    have w: "w < length buf" using wp reads_less [OF r] by simp
    have "\<exists>buf'. copy_token (buf[w := c]) (p + 1) (w + 1) =
        (buf', p + 1 + length w1 + n1, w + 1 + length w1) \<and> length buf' = length (buf[w := c])
        \<and> reads buf' (p + 1 + length w1 + n1) r1
        \<and> take (w + 1 + length w1) buf' = take (w + 1) (buf[w := c]) @ w1"
      by (rule IH [OF _ rc(3) [OF wp] _ t]) (use wp in \<open>auto simp: Char1\<close>)
    then show ?thesis using Char1 rc(1,2) res w
      by (subst copy_token.simps) (auto simp: is_quote_def take_write [simplified] simp del: take_Suc_conv_app_nth)
  qed
qed

lemma skip_space_reads:
  "reads buf p s \<Longrightarrow> reads buf (skip_space buf p) (dropWhile arg_space s)"
proof (induction s arbitrary: p)
  case Nil
  have "\<not> arg_space nul" by (simp add: arg_space_def nul_def tab_def lf_def cr_def)
  then show ?case using Nil reads_Nil [OF Nil] by (subst skip_space.simps) simp
next
  case (Cons c s)
  note rc = reads_Cons [OF Cons.prems]
  show ?case using Cons.IH [OF rc(4)] Cons.prems rc(1) by (subst skip_space.simps) simp
qed

text \<open>A finished token and what keeps it.\<close>

definition token_at :: "string \<Rightarrow> nat \<Rightarrow> string \<Rightarrow> bool" where
  "token_at buf i word \<longleftrightarrow> take (length word + 1) (drop i buf) = word @ [nul] \<and> nul \<notin> set word"

lemma token_at_cstring: "token_at buf i word \<Longrightarrow> cstring_at buf i = word"
proof -
  assume t: "token_at buf i word"
  have "drop i buf = take (length word + 1) (drop i buf) @ drop (length word + 1) (drop i buf)"
    by (rule append_take_drop_id [symmetric])
  also have "\<dots> = word @ nul # drop (length word + 1) (drop i buf)" using t by (simp add: token_at_def)
  finally obtain x where d: "drop i buf = word @ nul # x" by blast
  have "takeWhile (\<lambda>c. c \<noteq> nul) (word @ nul # x) = word @ takeWhile (\<lambda>c. c \<noteq> nul) (nul # x)"
    using t by (intro takeWhile_append2) (auto simp: token_at_def)
  then show ?thesis by (simp add: cstring_at_def d)
qed

lemma token_at_keep:
  assumes "token_at buf i word" "take k buf' = take k buf" "i + length word < k"
  shows "token_at buf' i word"
proof -
  have "take (length word + 1) (drop i b) = drop i (take (i + length word + 1) (take k b))" for b :: string
    using assms(3) by (simp add: drop_take min_def)
  then show ?thesis using assms(1,2) unfolding token_at_def by metis
qed

lemma take_word_nul: "take_word s = (word, n, rest) \<Longrightarrow> nul \<notin> set s \<Longrightarrow> nul \<notin> set word \<and> nul \<notin> set rest"
proof (induction s arbitrary: word n rest rule: length_induct)
  case (1 s)
  note IH = 1(1) [rule_format]
  show ?case
  proof (cases s rule: word_cases)
    case (Closed c a b)
    obtain w1 n1 r1 where "take_word b = (w1, n1, r1)" by (metis prod_cases3)
    with Closed 1(2,3) IH [of b w1 n1 r1] show ?thesis by (auto simp: take_word_eqs)
  next
    case (Char1 c r)
    obtain w1 n1 r1 where "take_word r = (w1, n1, r1)" by (metis prod_cases3)
    with Char1 1(2,3) IH [of r w1 n1 r1] show ?thesis by (auto simp: take_word_eqs)
  qed (use 1(2,3) in \<open>auto simp: take_word_eqs\<close>)
qed

lemma take_word_rest: "take_word s = (word, n, rest) \<Longrightarrow> rest = [] \<or> arg_space (hd rest)"
proof (induction s arbitrary: word n rest rule: length_induct)
  case (1 s)
  note IH = 1(1) [rule_format]
  show ?case
  proof (cases s rule: word_cases)
    case (Closed c a b)
    obtain w1 n1 r1 where "take_word b = (w1, n1, r1)" by (metis prod_cases3)
    with Closed 1(2) IH [of b w1 n1 r1] show ?thesis by (auto simp: take_word_eqs)
  next
    case (Char1 c r)
    obtain w1 n1 r1 where "take_word r = (w1, n1, r1)" by (metis prod_cases3)
    with Char1 1(2) IH [of r w1 n1 r1] show ?thesis by (auto simp: take_word_eqs)
  qed (use 1(2) in \<open>auto simp: take_word_eqs\<close>)
qed

text \<open>The outer loop: the new tokens lie at or behind \<open>p\<close>, and nothing before \<open>p\<close> is overwritten.\<close>

lemma argv_loop_reads:
  "reads buf p s \<Longrightarrow>
     \<exists>buf' new. argv_loop buf p argv = (buf', argv @ new) \<and> length buf' = length buf
        \<and> list_all2 (token_at buf') new (exec_words s) \<and> take p buf' = take p buf
        \<and> list_all (\<lambda>i. i < length buf) new"
proof (induction s arbitrary: buf p argv rule: length_induct)
  case (1 s)
  note IH = 1(1) [rule_format] and r = 1(2)
  let ?t = "dropWhile arg_space s" and ?ts = "skip_space buf p"
  note rt = skip_space_reads [OF r]
  show ?case
  proof (cases "?t = []")
    case True
    then show ?thesis using rt reads_Nil [of buf ?ts]
      by (subst argv_loop.simps, subst exec_words.simps) (auto simp: Let_def)
  next
    case False
    obtain c t' where t: "?t = c # t'" using False by (cases ?t) auto
    note rc = reads_Cons [OF rt [unfolded t]]
    obtain word n rest where tw: "take_word ?t = (word, n, rest)" by (metis prod_cases3)
    obtain buf1 where ct: "copy_token buf ?ts ?ts = (buf1, ?ts + length word + n, ?ts + length word)"
      "length buf1 = length buf" "reads buf1 (?ts + length word + n) rest"
      "take (?ts + length word) buf1 = take ?ts buf @ word"
      using copy_token_reads [OF rt le_refl tw] by blast
    let ?w = "?ts + length word" and ?p1 = "?ts + length word + n"
    let ?buf2 = "buf1[?w := nul]"
    have tsl: "?ts < length buf" by (rule reads_less [OF rt])
    have p1l: "?p1 < length buf1" by (rule reads_less [OF ct(3)])
    have nulw: "nul \<notin> set word" using take_word_nul [OF tw] rt by (simp add: reads_def)
    have tk: "take (?w + 1) ?buf2 = take ?ts buf @ word @ [nul]"
      using take_write [of ?w buf1 nul] p1l ct(4) by simp
    have tok: "token_at ?buf2 ?ts word"
    proof -
      have "take (length word + 1) (drop ?ts ?buf2) = drop ?ts (take (?w + 1) ?buf2)"
        by (simp add: drop_take)
      then show ?thesis unfolding token_at_def tk using tsl nulw by simp
    qed
    have keep: "take p ?buf2 = take p buf"
    proof -
      have "take p ?buf2 = take p (take (?w + 1) ?buf2)" using skip_space_mono [of p buf] by (simp add: min_def)
      also have "\<dots> = take p buf" unfolding tk using skip_space_mono [of p buf] tsl by (simp add: min_def)
      finally show ?thesis .
    qed
    have pn: "deref buf p \<noteq> nul"
      using r t reads_Cons(1,2) [of buf p] by (cases s) auto
    have run: "argv_loop buf p argv = argv_loop ?buf2 (if deref ?buf2 ?p1 \<noteq> nul then ?p1 + 1 else ?p1) (argv @ [?ts])"
      using pn rc(1,2) ct(1) by (subst argv_loop.simps) (simp add: Let_def)
    show ?thesis
    proof (cases "n = 0 \<or> rest = []")
      case True
      have "deref ?buf2 ?p1 = nul"
      proof (cases "n = 0")
        case True
        then show ?thesis using p1l by (simp add: deref_def)
      next
        case False
        with True ct(3) reads_Nil have "deref buf1 ?p1 = nul" by blast
        with False show ?thesis by (simp add: deref_def split: if_splits)
      qed
      then have "argv_loop buf p argv = (?buf2, argv @ [?ts])"
        unfolding run by (subst argv_loop.simps) simp
      moreover have "exec_words s = [word]" using True False tw by (subst exec_words.simps) (simp add: Let_def)
      ultimately show ?thesis using tok keep tsl ct(2) by auto
    next
      case False
      then obtain d r' where rest: "rest = d # r'" by (cases rest) auto
      note rd = reads_Cons [OF ct(3) [unfolded rest]]
      have "deref ?buf2 ?p1 = d" using rd(1) False by (simp add: deref_def split: if_splits)
      then have run': "argv_loop buf p argv = argv_loop ?buf2 (?p1 + 1) (argv @ [?ts])"
        unfolding run using rd(2) by simp
      have r2: "reads ?buf2 (?p1 + 1) r'" by (rule rd(3)) simp
      have "length r' < length s"
        using take_word_length [OF tw] length_dropWhile_le [of arg_space s] by (simp add: rest)
      from IH [OF this r2, of "argv @ [?ts]"] obtain buf' new where
        ih: "argv_loop ?buf2 (?p1 + 1) (argv @ [?ts]) = (buf', (argv @ [?ts]) @ new)"
          "length buf' = length ?buf2" "list_all2 (token_at buf') new (exec_words r')"
          "take (?p1 + 1) buf' = take (?p1 + 1) ?buf2" "list_all (\<lambda>i. i < length ?buf2) new" by blast
      have "token_at buf' ?ts word" by (rule token_at_keep [OF tok ih(4)]) simp
      moreover have "exec_words s = word # exec_words r'"
        using False tw t by (subst exec_words.simps) (simp add: Let_def rest)
      moreover have "take p buf' = take p buf"
      proof -
        have "take p b = take p (take (?p1 + 1) b)" for b :: string
          using skip_space_mono [of p buf] by (simp add: min_def)
        then show ?thesis using ih(4) keep by metis
      qed
      ultimately show ?thesis unfolding run' ih(1) using ih(2,3,5) tsl ct(2) by auto
    qed
  qed
qed

section \<open>The tokeniser\<close>

lemma exec_words_bound: "2 * length (exec_words s) \<le> length s + 1"
proof (induction s rule: exec_words.induct)
  case (1 s)
  let ?t = "dropWhile arg_space s"
  obtain word n rest where tw: "take_word ?t = (word, n, rest)" by (metis prod_cases3)
  note len = take_word_length [OF tw] length_dropWhile_le [of arg_space s]
  show ?case
  proof (cases "?t = [] \<or> n = 0 \<or> rest = []")
    case True
    then show ?thesis using tw len by (subst exec_words.simps) (cases s, auto simp: Let_def)
  next
    case False
    from 1 [OF refl _ tw [symmetric] refl] False have "2 * length (exec_words (tl rest)) \<le> length (tl rest) + 1"
      by simp
    then show ?thesis using False tw len by (subst exec_words.simps) (cases rest, auto simp: Let_def)
  qed
qed

lemma argv_words:
  assumes "nul \<notin> set cmd"
  shows "length (snd (argv_loop (cmd @ [nul]) 0 [])) = length (exec_words cmd)"
    "parse_exec_command_argv True True cmd = (if exec_words cmd = [] then None else Some (exec_words cmd))"
proof -
  have "reads (cmd @ [nul]) 0 cmd" using assms by (simp add: reads_def)
  from argv_loop_reads [OF this, of "[]"] obtain buf' new where
    run: "argv_loop (cmd @ [nul]) 0 [] = (buf', new)" and tk: "list_all2 (token_at buf') new (exec_words cmd)"
    by auto
  have "map (cstring_at buf') new = exec_words cmd"
    using tk by (induction rule: list_all2_induct) (simp_all add: token_at_cstring)
  moreover have "new = [] \<longleftrightarrow> exec_words cmd = []" using tk by (auto simp: list_all2_iff)
  ultimately show "parse_exec_command_argv True True cmd = (if exec_words cmd = [] then None else Some (exec_words cmd))"
    by (simp add: parse_exec_command_argv_def run)
  show "length (snd (argv_loop (cmd @ [nul]) 0 [])) = length (exec_words cmd)"
    using tk by (simp add: run list_all2_lengthD)
qed

text \<open>Every store goes inside the buffer and inside \<open>argv\<close>, which has \<open>len / 2 + 2\<close> entries.\<close>

lemma argv_in_bounds:
  assumes "nul \<notin> set cmd" "argv_loop (cmd @ [nul]) 0 [] = (buf', argv)"
  shows "length buf' = length cmd + 1 \<and> list_all (\<lambda>i. i \<le> length cmd) argv \<and> length argv + 1 \<le> length cmd div 2 + 2"
proof -
  have "reads (cmd @ [nul]) 0 cmd" using assms by (simp add: reads_def)
  from argv_loop_reads [OF this, of "[]"] assms(2) have
    "length buf' = length cmd + 1" "list_all2 (token_at buf') argv (exec_words cmd)"
    "list_all (\<lambda>i. i < length cmd + 1) argv" by auto
  then show ?thesis using exec_words_bound [of cmd] by (auto simp: list_all2_lengthD less_Suc_eq_le)
qed



text \<open>Defect: a word without quotes ends the list.  Its terminating NUL is stored on the separator
  \<open>p\<close> still points to, so the loop stops: of a command line whose first word is unquoted only the
  first word is executed, and its arguments are dropped.\<close>

theorem exec_drops_arguments:
  assumes "word \<noteq> []" "list_all (\<lambda>c. \<not> arg_space c \<and> \<not> is_quote c \<and> c \<noteq> nul) word"
    "arg_space sep" "nul \<notin> set args"
  shows "parse_exec_command_argv True True (word @ sep # args) = Some [word]"
proof -
  have tw: "take_word (word @ sep # args) = (word, 0, sep # args)"
    using assms(2) by (induction word) (simp_all add: take_word_eqs assms(3))
  have "dropWhile arg_space (word @ sep # args) = word @ sep # args"
    using assms(1,2) by (cases word) auto
  then have "exec_words (word @ sep # args) = [word]"
    using assms(1) tw by (subst exec_words.simps) (simp add: Let_def)
  moreover have "nul \<notin> set (word @ sep # args)"
    using assms(2-4) by (auto simp: list_all_iff arg_space_def nul_def tab_def lf_def cr_def)
  ultimately show ?thesis by (simp add: argv_words)
qed

theorem exec_drops_arguments_witness:
  "parse_exec_command_argv True True (''reboot'' @ CHR '' '' # ''-d 60'') = Some [''reboot'']"
  by (rule exec_drops_arguments)
    (simp_all add: arg_space_def is_quote_def nul_def tab_def lf_def cr_def dquote_def apos_def)

end
