(* ===== verification/MainLoop.thy ===== *)
theory MainLoop
  imports Autodiscovery Ping SessionLife ExecArgv WsLife
begin

text \<open>
  The threads of \<open>src/core/main.c\<close>: messages from the panel, the report thread, the heartbeat, and the
  order of start-up and shutdown in \<open>main\<close>.  \<open>g_running\<close> is a script of the values read.
\<close>

section \<open>Messages\<close>

datatype message_action =
    ActTerminal string              \<comment> \<open>\<open>establish_terminal_connection\<close> for this request\<close>
  | ActTerminalDisabled
  | ActExec "string list" string
  | ActExecRejected | ActExecUnparsed
  | ActPing u32 string string string   \<comment> \<open>task, type, target, DNS server\<close>
  | ActNone

definition restricted_path :: "string \<Rightarrow> bool" where
  "restricted_path cmd_path \<longleftrightarrow>
     starts_with ''/proc/'' cmd_path \<or> starts_with ''/sys/'' cmd_path \<or> strstr ''..'' cmd_path \<noteq> None"

definition message_action :: "agent_config \<Rightarrow> bool \<Rightarrow> bool \<Rightarrow> ws_message \<Rightarrow> message_action" where
  "message_action cfg malloc_ok calloc_ok msg =
     (if msg_message msg = ''terminal'' \<or> msg_terminal_id msg \<noteq> [] then
        (if \<not> ag_disable_web_ssh cfg then ActTerminal (msg_terminal_id msg) else ActTerminalDisabled)
      else if msg_message msg = ''exec'' then
        (case parse_exec_command_argv malloc_ok calloc_ok (msg_exec_command msg) of
           None \<Rightarrow> ActExecUnparsed
         | Some argv \<Rightarrow>
             if restricted_path (hd argv) then ActExecRejected else ActExec argv (msg_exec_task_id msg))
      else if msg_message msg = ''ping'' \<or> msg_ping_type msg \<noteq> [] then
        (if 0 < msg_ping_task_id msg \<and> msg_ping_type msg \<noteq> [] \<and> msg_ping_target msg \<noteq> [] then
           ActPing (msg_ping_task_id msg) (msg_ping_type msg) (msg_ping_target msg) (take 127 (ag_custom_dns cfg))
         else ActNone)
      else ActNone)"

text \<open>Running a command and uploading what it printed; \<open>run\<close> is what its execution yields.\<close>

definition handle_exec ::
    "http_env \<Rightarrow> agent_config \<Rightarrow> (string list \<Rightarrow> bool \<times> bool \<times> rx list \<times> wait_status) \<Rightarrow> u64 \<Rightarrow> string list \<Rightarrow> string
      \<Rightarrow> (int \<times> sys_op list \<times> byte list) option" where
  "handle_exec env cfg run now argv task_id =
     (case run argv of (pipe_ok, fork_ok, out, status) \<Rightarrow>
        (case utils_exec_capture pipe_ok fork_ok out status 8192 of
           None \<Rightarrow> None
         | Some (output, exit_code) \<Rightarrow>
             Some (report_upload_task_result env cfg task_id (Some (c_str output)) exit_code now)))"

text \<open>A ping: the task and the one upload of its result; \<open>now\<close> and \<open>later\<close> are the two readings of the
  clock.\<close>

definition main_ping_config :: "agent_config \<Rightarrow> string \<Rightarrow> ping_task_config" where
  "main_ping_config cfg dns =
     \<lparr>pc_timeout_ms = 3000, pc_threshold = 1000, pc_retries = 3, pc_custom_dns = dns, pc_ignore_cert = ag_ignore_unsafe_cert cfg\<rparr>"

definition handle_ping ::
    "http_env \<Rightarrow> agent_config \<Rightarrow> ping_env \<Rightarrow> attempt_env \<Rightarrow> int \<Rightarrow> int \<Rightarrow> u32 \<Rightarrow> string \<Rightarrow> string \<Rightarrow> string
      \<Rightarrow> (int \<times> sys_op list \<times> byte list) option" where
  "handle_ping env cfg penv ae now later task_id type target dns =
     (case ping_task_execute penv ae (main_ping_config cfg dns) now target type of
        None \<Rightarrow> None
      | Some (ret, r) \<Rightarrow>
          Some (if ret = 0 then report_upload_ping_result env cfg task_id (pr_type r) (pr_result r) (word_of_int (pr_finished_at r))
                else report_upload_ping_result env cfg task_id type (-1) (word_of_int later)))"

lemma attempt_returns:
  assumes "\<forall>k. \<exists>j. pc_timeout_ms cfg \<le> tu_now (ic_turns (at_icmp ae k) j) - ic_start (at_icmp ae k)"
  shows "\<exists>p. \<forall>k. map_option fst (ping_attempt env ae cfg target type k) = Some (p k)"
proof -
  have "\<exists>v. map_option fst (ping_attempt env ae cfg target type k) = Some v" for k
  proof -
    obtain j where "pc_timeout_ms cfg \<le> tu_now (ic_turns (at_icmp ae k) j) - ic_start (at_icmp ae k)" using assms by blast
    from icmp_ends [OF this] obtain v ops where
      "ping_task_icmp env (at_icmp ae k) target (pc_timeout_ms cfg) (pc_custom_dns cfg) = Some (v, ops)" by blast
    then show ?thesis by (simp add: ping_attempt_def)
  qed
  then show ?thesis by metis
qed

lemma find_in: "find P xs = Some v \<Longrightarrow> v \<in> set xs"
  by (induction xs) (auto split: if_splits)

lemma latency_origin: "\<exists>k \<le> n. task_latency p threshold n = p k"
proof (cases "p 0 > threshold")
  case True
  show ?thesis
  proof (cases "find (\<lambda>v. 0 \<le> v \<and> v \<le> threshold) (map p [1..<Suc n])")
    case (Some v)
    then have "v \<in> set (map p [1..<Suc n])" by (rule find_in)
    then obtain k where "k \<le> n" "v = p k" by (auto simp: less_Suc_eq_le simp del: upt_Suc)
    with Some True show ?thesis by (auto simp: task_latency_def simp del: upt_Suc)
  qed (auto simp: task_latency_def True simp del: upt_Suc)
qed (auto simp: task_latency_def)



text \<open>C13. Every ping request that passes the guards is answered by exactly one upload under its own task id and type: -1
  when the request is rejected or the probes fail, and otherwise the latency one of at most four probes
  measured.  The task returns as soon as the clock reaches the timeout of each ICMP probe.\<close>

theorem ping_answered:
  assumes "message_action cfg m c msg = ActPing task_id type target dns"
    "\<forall>k. \<exists>j. 3000 \<le> tu_now (ic_turns (at_icmp ae k) j) - ic_start (at_icmp ae k)"
  shows "task_id = msg_ping_task_id msg \<and> type = msg_ping_type msg \<and> 0 < task_id \<and>
     (\<exists>v t. handle_ping env cfg penv ae now later task_id type target dns = Some (report_upload_ping_result env cfg task_id type v t)
        \<and> (v = -1 \<or> \<not> ping_rejected target type \<and> 0 \<le> v
             \<and> (\<exists>k \<le> 3. \<exists>ops. ping_attempt penv ae (main_ping_config cfg dns) target type k = Some (v, ops))))"
proof -
  let ?cfg = "main_ping_config cfg dns"
  have c: "pc_timeout_ms ?cfg = 3000" "nat (pc_retries ?cfg) = 3" by (simp_all add: main_ping_config_def)
  have "\<exists>v t. handle_ping env cfg penv ae now later task_id type target dns = Some (report_upload_ping_result env cfg task_id type v t)
        \<and> (v = -1 \<or> \<not> ping_rejected target type \<and> 0 \<le> v
             \<and> (\<exists>k \<le> 3. \<exists>ops. ping_attempt penv ae ?cfg target type k = Some (v, ops)))"
  proof (cases "ping_rejected target type")
    case True
    then show ?thesis by (auto simp: handle_ping_def ping_task_execute_def)
  next
    case False
    obtain p where p: "\<forall>k. map_option fst (ping_attempt penv ae ?cfg target type k) = Some (p k)"
      using attempt_returns [of ?cfg ae penv target type] assms(2) c(1) by auto
    define v where "v = task_latency p (pc_threshold ?cfg) 3"
    obtain k where k: "k \<le> 3" "v = p k" using latency_origin [of 3 p "pc_threshold ?cfg"] v_def by blast
    have t: "take 15 type = type" using False by (auto simp: ping_rejected_def)
    from p k(2) have "\<exists>ops. ping_attempt penv ae ?cfg target type k = Some (v, ops)" by (auto simp: map_option_eq_Some)
    with k False t show ?thesis
      using execute_latency [OF False p, of now] by (auto simp: handle_ping_def c(2) simp flip: v_def)
  qed
  with assms(1) show ?thesis by (auto simp: message_action_def Let_def split: if_splits option.splits)
qed

definition sample_attempts :: attempt_env where
  "sample_attempts = \<lparr>at_icmp = (\<lambda>k. sample_icmp), at_tcp = (\<lambda>k. sock_env.truncate sample_web), at_http = (\<lambda>k. sample_web)\<rparr>"

theorem ping_answered_witness:
  "\<exists>v t. handle_ping sample_http config_init sample_names sample_attempts 0 0 7 ''icmp'' ''1.2.3.4'' []
       = Some (report_upload_ping_result sample_http config_init 7 ''icmp'' v t)"
proof -
  let ?msg = "empty_message\<lparr>msg_message := ''ping'', msg_ping_task_id := 7, msg_ping_type := ''icmp'', msg_ping_target := ''1.2.3.4''\<rparr>"
  have a: "message_action config_init True True ?msg = ActPing 7 ''icmp'' ''1.2.3.4'' []"
    by (simp add: message_action_def empty_message_def config_init_def)
  have "\<exists>j. 3000 \<le> tu_now (ic_turns (at_icmp sample_attempts k) j) - ic_start (at_icmp sample_attempts k)" for k
    by (intro exI [of _ 3]) (simp add: sample_attempts_def sample_icmp_def)
  then show ?thesis
    using ping_answered [OF a, of sample_attempts sample_http sample_names 0 0] by blast
qed

section \<open>The report thread\<close>

text \<open>\<open>for (i = 0; i < n && g_running; i++) sleep(1)\<close>: the values of \<open>g_running\<close> still to be read.\<close>

fun sleep_slices :: "nat \<Rightarrow> bool list \<Rightarrow> bool list" where
  "sleep_slices 0 flags = flags"
| "sleep_slices (Suc i) [] = []"
| "sleep_slices (Suc i) (running # flags) = (if running then sleep_slices i flags else flags)"

text \<open>The attempts to connect: how many are left, whether the last one succeeded.  \<open>net k\<close> is what attempt
  \<open>k\<close> meets.\<close>

fun connect_retries ::
    "nat \<Rightarrow> (nat \<Rightarrow> conn_env) \<Rightarrow> nat \<Rightarrow> nat \<Rightarrow> bool list \<Rightarrow> ws_client \<Rightarrow> nat \<times> bool \<times> nat \<times> bool list \<times> ws_client" where
  "connect_retries 0 net wait k flags c = (0, False, k, flags, c)"
| "connect_retries (Suc left) net wait k [] c = (Suc left, False, k, [], c)"
| "connect_retries (Suc left) net wait k (running # flags) c =
     (if \<not> running then (Suc left, False, k, flags, c)
      else case ws_client_connect (net k) c of
        (True, out, c') \<Rightarrow> (Suc left, True, k + 1, flags, c')
      | (False, out, c') \<Rightarrow> connect_retries left net wait (k + 1) (sleep_slices wait flags) c')"

text \<open>What one turn of the loop meets: measurements, clock readings, the sends, and what the receive
  thread does to the client between the snapshot of the acknowledgements and the send.\<close>

record tick =
  tk_metrics :: metrics
  tk_host :: host_info
  tk_id_time :: int
  tk_now :: int
  tk_send :: "nat \<Rightarrow> tx list \<times> byte list"
  tk_recv :: "ws_client \<Rightarrow> ws_client"

definition send_report :: "tick \<Rightarrow> nat \<Rightarrow> string \<Rightarrow> ws_client \<Rightarrow> bool \<times> ws_client" where
  "send_report tk i t c =
     (case ws_client_send_text (fst (tk_send tk i)) (snd (tk_send tk i)) (bytes_of_string t) c of
        (ok, out, ts, c') \<Rightarrow> (ok, c'))"

definition basic_info :: "agent_config \<Rightarrow> tick \<Rightarrow> ws_client \<Rightarrow> string option" where
  "basic_info cfg tk c =
     (if ws_client_should_use_current_protocol c then report_generate_basic_info_v2 cfg (tk_host tk) 8192
      else report_generate_basic_info cfg (tk_host tk) 8192)"

text \<open>The basic information after a connection and every \<open>info_report_interval\<close> minutes: its send is not
  checked.  The texts sent come first in the results.\<close>

definition send_basic_info :: "agent_config \<Rightarrow> tick \<Rightarrow> nat \<Rightarrow> bool \<Rightarrow> ws_client \<Rightarrow> string list \<times> ws_client" where
  "send_basic_info cfg tk i wanted c =
     (case basic_info cfg tk c of
        Some t \<Rightarrow> if wanted then (case send_report tk i t c of (ok, c') \<Rightarrow> (if ok then [t] else [], c')) else ([], c)
      | None \<Rightarrow> ([], c))"

definition report_cycle :: "tick \<Rightarrow> ws_client \<Rightarrow> string list \<times> ws_client" where
  "report_cycle tk c =
     (let use_v2 = ws_client_should_use_current_protocol c;
          (ids, ack_count) = (case v2_snapshot_ack_ids (cl_v2 c) 1024 of Some p \<Rightarrow> p | None \<Rightarrow> ([], 0));
          msg = (if use_v2 then
                   report_generate_v2_with_acks (tk_metrics tk) (tk_id_time tk) 8192
                     (if ack_count > 0 then Some ids else None) (int ack_count)
                 else report_generate (tk_metrics tk) 8192);
          c1 = tk_recv tk c
      in case msg of
           None \<Rightarrow> ([], c1)
         | Some t \<Rightarrow>
             if \<not> cl_connected c1 then ([], c1)
             else (case send_report tk 1 t c1 of
                     (True, c2) \<Rightarrow>
                       ([t], if use_v2 \<and> ack_count > 0 then c2\<lparr>cl_v2 := v2_clear_acks (cl_v2 c2)\<rparr> else c2)
                   | (False, c2) \<Rightarrow> ([], ws_client_disconnect c2)))"

datatype thread_end = MaxRetries | Stopped | Unfinished

definition interval_slices :: "(c_double \<Rightarrow> int) \<Rightarrow> c_double \<Rightarrow> nat" where
  "interval_slices ub x =
     nat (case x of Fin r \<Rightarrow> if of_int c_int_min - 1 < r \<and> r < of_int c_int_max + 1 then trunc_rat r else ub x | _ \<Rightarrow> ub x)"

text \<open>The loop, one tick per turn.  \<open>ub\<close> is the conversion of an interval outside \<open>int\<close>.\<close>

fun report_thread ::
    "(c_double \<Rightarrow> int) \<Rightarrow> agent_config \<Rightarrow> (nat \<Rightarrow> conn_env) \<Rightarrow> tick list \<Rightarrow> nat \<Rightarrow> bool list \<Rightarrow> int \<Rightarrow> ws_client
      \<Rightarrow> thread_end \<times> string list \<times> ws_client" where
  "report_thread ub cfg net ticks k [] last_info c = (Stopped, [], c)"
| "report_thread ub cfg net [] k (running # flags) last_info c = (if running then Unfinished else Stopped, [], c)"
| "report_thread ub cfg net (tk # ticks) k (running # flags) last_info c =
     (if \<not> running then (Stopped, [], c)
      else
        let (left, fresh, k1, flags1, c1) =
              (if cl_connected c then (Suc 0, False, k, flags, c)
               else connect_retries (nat (ag_max_retries cfg)) net (nat (ag_reconnect_interval cfg)) k flags c);
            (out1, c2) = (if fresh then send_basic_info cfg tk 0 True c1 else ([], c1))
        in if left = 0 then (MaxRetries, [], c1)
           else
             let (out2, c3) = report_cycle tk c2;
                 due = (tk_now tk - last_info \<ge> ag_info_report_interval cfg * 60);
                 (out3, c4) = (if due then send_basic_info cfg tk 2 (cl_connected c3) c3 else ([], c3))
             in case report_thread ub cfg net ticks k1 (sleep_slices (interval_slices ub (ag_interval cfg)) flags1)
                       (if due then tk_now tk else last_info) c4 of
                  (e, out, c') \<Rightarrow> (e, out1 @ out2 @ out3 @ out, c'))"

text \<open>The heartbeat: a ping every 30 seconds while connected; its failure is only logged.  The client is the
  one the other threads leave at each turn.\<close>

fun heartbeat_thread :: "bool list \<Rightarrow> ws_client list \<Rightarrow> (nat \<Rightarrow> tx list \<times> byte list) \<Rightarrow> nat \<Rightarrow> bool list" where
  "heartbeat_thread [] cs snd_env i = []"
| "heartbeat_thread (running # flags) [] snd_env i = []"
| "heartbeat_thread (running # flags) (c # cs) snd_env i =
     (if \<not> running then []
      else (if cl_connected c
            then [fst (ws_client_send_ping (fst (snd_env i)) (snd (snd_env i)) c)] else [])
           @ heartbeat_thread (sleep_slices 30 flags) cs snd_env (i + 1))"

section \<open>Acknowledgements in the reports\<close>

lemma send_text_acks:
  "ws_client_send_text ts msk data c = (ok, out, ts', c') \<Longrightarrow> ack_ids (cl_v2 c') = ack_ids (cl_v2 c)"
  by (auto simp: ws_client_send_text_def ws_client_note_protocol_result_def v2_note_attempt_result_def Let_def
      split: if_splits prod.splits bool.splits)

lemma send_report_acks: "send_report tk i t c = (ok, c') \<Longrightarrow> ack_ids (cl_v2 c') = ack_ids (cl_v2 c)"
  by (auto simp: send_report_def dest: send_text_acks split: prod.splits)

lemma disconnect_v2: "cl_v2 (ws_client_disconnect c) = cl_v2 c"
  by (simp add: ws_client_disconnect_def log_ops_def Let_def)

lemma reachable_v2_inv: "client_reachable c \<Longrightarrow> v2_inv (cl_v2 c)"
  using client_reachable_inv by (simp add: client_inv_def recv_inv_def)

lemma inv_snapshot:
  "v2_inv s \<Longrightarrow> v2_snapshot_ack_ids s 1024 = Some (ack_ids s, length (ack_ids s))"
  using v2_inv_ack_len [of s] by (simp add: v2_snapshot_ack_ids_def Let_def min_absorb1)

lemmas reachable_snapshot = inv_snapshot [OF reachable_v2_inv]

text \<open>The text of a turn, from the pending acknowledgements.\<close>

definition cycle_text :: "tick \<Rightarrow> ws_client \<Rightarrow> jval" where
  "cycle_text tk c =
     (if ws_client_should_use_current_protocol c
      then report_request_tree (tk_metrics tk) (tk_id_time tk) (ack_ids (cl_v2 c)) else report_tree (tk_metrics tk))"

lemma with_acks_none:
  "report_generate_v2_with_acks m now n None 0 = report_generate_v2_with_acks m now n (Some []) (int (length ([] :: int list)))"
  by (cases "report_generate m 4096") (simp_all add: report_generate_v2_with_acks_def)

lemma cycle_msg:
  assumes "client_reachable c" "v2_snapshot_ack_ids (cl_v2 c) 1024 = Some (ids, n)"
    "(if ws_client_should_use_current_protocol c then
        report_generate_v2_with_acks (tk_metrics tk) (tk_id_time tk) 8192 (if n > 0 then Some ids else None) (int n)
      else report_generate (tk_metrics tk) 8192) = Some t"
  shows "t = jv_print (cycle_text tk c)"
proof -
  have ids: "ids = ack_ids (cl_v2 c)" "n = length (ack_ids (cl_v2 c))"
    using assms(2) unfolding reachable_snapshot [OF assms(1)] by auto
  show ?thesis
  proof (cases "ws_client_should_use_current_protocol c")
    case True
    have "(if n > 0 then Some ids else None) = (if ids \<noteq> [] then Some ids else None)" using ids by simp
    with True assms(3) show ?thesis
      using with_acks_text [of "tk_metrics tk" "tk_id_time tk" 8192 ids]
      by (cases "ids = []") (auto simp: cycle_text_def ids with_acks_none split: if_splits)
  next
    case False
    with assms(3) show ?thesis
      by (simp add: cycle_text_def report_generate_def snprintf_chk_def report_text_tree split: if_splits)
  qed
qed

lemma cycle_acks:
  assumes "client_reachable c" "report_cycle tk c = (out, c')"
  shows "out = [] \<and> ack_ids (cl_v2 c') = ack_ids (cl_v2 (tk_recv tk c))
     \<or> out = [jv_print (cycle_text tk c)]
       \<and> ack_ids (cl_v2 c') =
           (if ws_client_should_use_current_protocol c \<and> ack_ids (cl_v2 c) \<noteq> [] then []
            else ack_ids (cl_v2 (tk_recv tk c)))"
proof -
  let ?ids = "ack_ids (cl_v2 c)"
  note snap = reachable_snapshot [OF assms(1)]
  define msg where "msg = (if ws_client_should_use_current_protocol c then
        report_generate_v2_with_acks (tk_metrics tk) (tk_id_time tk) 8192 (if length ?ids > 0 then Some ?ids else None) (int (length ?ids))
      else report_generate (tk_metrics tk) 8192)"
  have run: "report_cycle tk c = (case msg of None \<Rightarrow> ([], tk_recv tk c)
      | Some t \<Rightarrow> if \<not> cl_connected (tk_recv tk c) then ([], tk_recv tk c)
          else (case send_report tk 1 t (tk_recv tk c) of
             (True, c2) \<Rightarrow> ([t], if ws_client_should_use_current_protocol c \<and> length ?ids > 0
                              then c2\<lparr>cl_v2 := v2_clear_acks (cl_v2 c2)\<rparr> else c2)
           | (False, c2) \<Rightarrow> ([], ws_client_disconnect c2)))"
    by (simp add: report_cycle_def snap msg_def Let_def)
  show ?thesis
  proof (cases msg)
    case None
    with assms(2) show ?thesis by (simp add: run)
  next
    case (Some t)
    have t: "t = jv_print (cycle_text tk c)" using cycle_msg [OF assms(1) snap] Some by (simp add: msg_def)
    obtain ok c2 where s: "send_report tk 1 t (tk_recv tk c) = (ok, c2)" by force
    then show ?thesis using assms(2) Some t send_report_acks [OF s]
      by (cases ok) (auto simp: run disconnect_v2 v2_clear_acks_def split: if_splits)
  qed
qed


text \<open>A list of ids whose text alone fills the buffer.\<close>

lemma request_longer: "length (commas (map show_int ids)) < length (jv_print (report_request_tree m now ids))"
  by (simp add: request_pieces)

lemma cycle_wedged:
  assumes "v2_inv (cl_v2 c)" "ws_client_should_use_current_protocol c"
    "8192 \<le> length (commas (map show_int (ack_ids (cl_v2 c))))"
  shows "report_cycle tk c = ([], tk_recv tk c)"
proof -
  have "ack_ids (cl_v2 c) \<noteq> []" using assms(3) by auto
  then have "report_generate_v2_with_acks m now 8192 (if length (ack_ids (cl_v2 c)) > 0 then Some (ack_ids (cl_v2 c)) else None)
      (int (length (ack_ids (cl_v2 c)))) = None" for m now
    using with_acks_text [of m now 8192 "ack_ids (cl_v2 c)"] request_longer [of "ack_ids (cl_v2 c)" m now] assms(3)
    by simp
  then show ?thesis by (simp add: report_cycle_def inv_snapshot [OF assms(1)] assms(2))
qed

fun report_cycles :: "tick list \<Rightarrow> ws_client \<Rightarrow> string list \<times> ws_client" where
  "report_cycles [] c = ([], c)"
| "report_cycles (tk # tks) c =
     (case report_cycle tk c of (out, c1) \<Rightarrow> (case report_cycles tks c1 of (outs, c2) \<Rightarrow> (out @ outs, c2)))"

text \<open>Defect: once the pending acknowledgements take 8192 characters (1024 ids of eight digits do), no
  report fits its buffer any more; nothing is sent and nothing is cleared, for any number of turns,
  although the connection is up.\<close>

theorem ack_backlog_stops_reports:
  assumes "v2_inv (cl_v2 c)" "ws_client_should_use_current_protocol c"
    "8192 \<le> length (commas (map show_int (ack_ids (cl_v2 c))))" "\<forall>tk \<in> set tks. tk_recv tk = (\<lambda>c. c)"
  shows "report_cycles tks c = ([], c)"
  using assms(4)
proof (induction tks)
  case (Cons tk tks)
  then show ?case using cycle_wedged [OF assms(1-3), of tk] by simp
qed simp

lemma show_nat_longer: "10 ^ k \<le> n \<Longrightarrow> k < length (show_nat n)"
proof (induction n arbitrary: k rule: show_nat.induct)
  case (1 n)
  show ?case
  proof (cases "n < 10")
    case True
    have "k = 0"
    proof (cases k)
      case (Suc j)
      have "1 \<le> (10::nat) ^ j" by simp
      then have "10 \<le> (10::nat) ^ k" unfolding Suc power_Suc by linarith
      with True "1.prems" show ?thesis by linarith
    qed
    then show ?thesis by simp
  next
    case False
    show ?thesis
    proof (cases k)
      case (Suc j)
      with "1.prems" have "10 ^ j \<le> n div 10" by (simp add: less_eq_div_iff_mult_less_eq mult.commute)
      with "1.IH" [OF False] Suc False show ?thesis by (simp add: show_nat.simps [of n])
    qed simp
  qed
qed

lemma commas_longer: "\<forall>x \<in> set xs. m \<le> length x \<Longrightarrow> xs \<noteq> [] \<Longrightarrow> (m + 1) * length xs \<le> length (commas xs) + 1"
proof (induction xs rule: commas.induct)
  case (3 x y zs)
  then have "(m + 1) * length (y # zs) \<le> length (commas (y # zs)) + 1" "m \<le> length x" by simp_all
  then show ?case by simp
qed simp_all

lemma eight_digits:
  assumes "\<forall>i \<in> set ids. 10000000 \<le> i" "length ids = 1024"
  shows "8192 \<le> length (commas (map show_int ids))"
proof -
  have "8 \<le> length (show_int i)" if "i \<in> set ids" for i
  proof -
    have i: "10000000 \<le> i" using assms(1) that by blast
    then have "10 ^ 7 \<le> nat i" by simp
    then have "7 < length (show_nat (nat i))" by (rule show_nat_longer)
    with i show ?thesis by (simp add: show_int_def)
  qed
  then have "(8 + 1) * length (map show_int ids) \<le> length (commas (map show_int ids)) + 1"
    using assms(2) by (intro commas_longer) auto
  with assms(2) show ?thesis by simp
qed

definition backlog_range :: "int list" where "backlog_range = [10000000..10001023]"

definition backlog :: v2_state where "backlog = foldl ack_add v2_state_init backlog_range"

lemma backlog_range_facts: "length backlog_range = 1024 \<and> (\<forall>i \<in> set backlog_range. 10000000 \<le> i)"
proof -
  have "length [a..b] = nat (b - a + 1)" for a b :: int by (rule length_upto)
  then show ?thesis unfolding backlog_range_def set_upto by simp
qed

lemma backlog_ids: "v2_inv backlog \<and> length (ack_ids backlog) = 1024 \<and> (\<forall>i \<in> set (ack_ids backlog). 10000000 \<le> i)"
proof -
  have inv: "v2_inv (foldl ack_add s xs)" if "v2_inv s" for s xs
    using that by (induction xs arbitrary: s) (simp_all add: ack_add_inv)
  have "ack_ids backlog = last_n 1024 (ack_ids v2_state_init @ backlog_range)"
    unfolding backlog_def using ack_w.contents_foldl [of v2_state_init] by (simp add: v2_inv_init)
  then have "ack_ids backlog = backlog_range" using backlog_range_facts by (simp add: v2_state_init_def)
  then show ?thesis using inv [OF v2_inv_init] backlog_range_facts by (simp add: backlog_def)
qed

theorem ack_backlog_stops_reports_witness:
  "\<exists>c. length (ack_ids (cl_v2 c)) = 1024 \<and>
     (\<forall>tk k. report_cycles (replicate k (tk\<lparr>tk_recv := (\<lambda>c. c)\<rparr>)) c = ([], c))"
proof -
  let ?c = "(sample_client ''ws://h/x'')\<lparr>cl_v2 := backlog\<rparr>"
  have f1: "v2_inv s \<Longrightarrow> fail_count (ack_add s i) = fail_count s \<and> v2_inv (ack_add s i)" for s i
    by (erule v2_add_ack_event_ok [of s True i]) (simp add: ack_add_def)
  have f: "v2_inv s \<Longrightarrow> fail_count (foldl ack_add s xs) = fail_count s" for s xs
    by (induction xs arbitrary: s) (simp_all add: f1)
  have "ws_client_should_use_current_protocol ?c"
    by (simp add: ws_client_should_use_current_protocol_def v2_should_fallback_to_v1_def backlog_def f [OF v2_inv_init]) (simp add: v2_state_init_def)
  moreover have "8192 \<le> length (commas (map show_int (ack_ids (cl_v2 ?c))))"
    using backlog_ids eight_digits by simp
  ultimately have "report_cycles tks ?c = ([], ?c)" if "\<forall>tk \<in> set tks. tk_recv tk = (\<lambda>c. c)" for tks
    using that backlog_ids by (intro ack_backlog_stops_reports) simp_all
  then show ?thesis using backlog_ids by (intro exI [of _ ?c]) auto
qed

definition sample_tick :: tick where
  "sample_tick = \<lparr>tk_metrics = \<lparr>m_cpu_usage = Fin 2, m_mem_total = 1024, m_mem_used = 512, m_swap_total = 0, m_swap_used = 0,
       m_load1 = Fin 1, m_load5 = Fin 0, m_load15 = Fin 0, m_disk_total = 10, m_disk_used = 5, m_tx_speed = 1, m_rx_speed = 2,
       m_tx_bytes = 3, m_rx_bytes = 4, m_tcp_count = 5, m_udp_count = 6, m_uptime = 7, m_process_count = 8\<rparr>,
     tk_host = \<lparr>h_cpu_name = [], h_cpu_cores = 1, h_cpu_arch = [], h_os_name = [], h_kernel_version = [], h_ipv4 = [],
       h_ipv6 = [], h_mem_total = 0, h_swap_total = 0, h_disk_total = 0, h_gpu_name = None, h_virt_type = []\<rparr>,
     tk_id_time = 1700000000, tk_now = 1700000000, tk_send = (\<lambda>i. ([TxSent 100000], [1, 2, 3, 4])), tk_recv = (\<lambda>c. c)\<rparr>"

lemma sample_report: "length (jv_print (report_tree (tk_metrics sample_tick))) \<le> 500"
  by (simp add: report_tree_def sample_tick_def jq_def fmt_u64_def show_int_def show_nat.simps round_half_even_def digit_char_def)

lemma sample_text: "length (jv_print (report_request_tree (tk_metrics sample_tick) 1700000000 [])) \<le> 1000"
proof -
  have "length (request_head 1700000000) \<le> 200"
    by (simp add: request_head_def jq_def show_int_def c_int_of_long_def show_nat.simps)
  then show ?thesis using sample_report by (simp add: request_pieces report_text_tree jq_def)
qed

lemma frame_length: "length (frame_bytes op msk data) \<le> 10 + length msk + length data"
  by (simp add: frame_bytes_def frame_len_bytes_def Let_def)

lemma sample_send:
  assumes "cl_connected c" "length t \<le> 1000"
  shows "\<exists>c'. send_report sample_tick i t c = (True, c')"
proof -
  have "send_full [TxSent 100000] (frame_bytes 0x01 [1, 2, 3, 4] (bytes_of_string t))
      = (True, frame_bytes 0x01 [1, 2, 3, 4] (bytes_of_string t), [])"
    using frame_length [of 1 "[1, 2, 3, 4]" "bytes_of_string t"] assms(2)
    by (intro send_full_once) (auto simp: bytes_of_string_def frame_bytes_def)
  then show ?thesis using assms(1)
    by (simp add: send_report_def ws_client_send_text_def ws_send_frame_def sample_tick_def)
qed

lemma connect_ok_running:
  assumes "ws_client_connect env c = (True, out, c')"
  shows "cl_recv_thread c' \<and> \<not> cl_should_stop c' \<and> fail_count (cl_v2 c') = 0"
proof -
  have u: "connect_upgrade env h p e = (True, out, c') \<Longrightarrow> cl_recv_thread c' \<and> \<not> cl_should_stop c' \<and> fail_count (cl_v2 c') = 0" for h p e
    by (auto simp: connect_upgrade_def ws_client_note_protocol_result_def v2_note_attempt_result_def log_ops_def Let_def split: prod.splits if_splits)
  show ?thesis using assms
    by (auto simp: ws_client_connect_def connect_open_def Let_def split: option.splits prod.splits if_splits bool.splits
        dest: u)
qed

lemma note_attempt_acks: "ack_ids (snd (v2_note_attempt_result ok s)) = ack_ids s"
  by (simp add: v2_note_attempt_result_def)

lemma note_acks: "ack_ids (cl_v2 (ws_client_note_protocol_result ok c)) = ack_ids (cl_v2 c)"
  by (simp add: ws_client_note_protocol_result_def v2_note_attempt_result_def Let_def)

lemma release_v2: "cl_v2 (release_conn c) = cl_v2 c"
  by (simp add: release_conn_def log_ops_def Let_def)

lemma connect_acks:
  assumes "ws_client_connect env c = (ok, out, c')"
  shows "ack_ids (cl_v2 c') = ack_ids (cl_v2 c)"
proof -
  have up: "connect_upgrade env h p e = (ok, out, c') \<Longrightarrow> ack_ids (cl_v2 c') = ack_ids (cl_v2 e)" for h p e
    by (auto simp: connect_upgrade_def note_acks note_attempt_acks release_v2 log_ops_def Let_def split: prod.splits if_splits)
  have tls: "tls_setup env h e = (t, e') \<Longrightarrow> cl_v2 e' = cl_v2 e" for h e t e'
    by (auto simp: tls_setup_def log_ops_def Let_def split: if_splits)
  have base: "cl_v2 (connect_base c) = cl_v2 c" by (simp add: connect_base_def disconnect_v2 Let_def)
  show ?thesis using assms
    by (auto simp: ws_client_connect_def connect_open_def Let_def note_acks note_attempt_acks base log_ops_def dest!: up tls
        split: option.splits prod.splits if_splits bool.splits)
qed


section \<open>A lost connection\<close>

text \<open>The receive thread of a connected client runs until the connection is lost.\<close>

definition plain_turn :: turn_env where
  "plain_turn = \<lparr>te_env = \<lparr>ub_u32 = (\<lambda>x. 0), ub_long = (\<lambda>x. 0), json_parse = (\<lambda>s. None), realloc_seen_ok = True,
     dup_ok = True, realloc_ack_ok = True\<rparr>, te_alloc = (\<lambda>n. True), te_stop = False\<rparr>"

lemma connection_lost:
  "client_reachable c \<Longrightarrow> cl_recv_thread c \<Longrightarrow> \<not> cl_should_stop c \<Longrightarrow>
     \<exists>c'. client_reachable c' \<and> \<not> cl_connected c' \<and> cl_fd c' = cl_fd c"
proof (induction "rx_measure (cl_rx c)" arbitrary: c rule: less_induct)
  case less
  have "recv_inv c" using client_reachable_inv [OF less.prems(1)] by (simp add: client_inv_def)
  from recv_turn_ok [OF this, of plain_turn] obtain go outs c1 where
    t: "recv_turn plain_turn c = Some (go, outs, c1)" and f: "thread_frame c c1"
    and stops: "go \<or> te_stop plain_turn \<or> cl_should_stop c \<or> \<not> cl_connected c1"
    by (auto simp: turn_ok_def)
  have r: "client_reachable c1"
    by (rule client_reachable.step [OF less.prems(1) client_step.turn [OF less.prems(2) t]])
  show ?case
  proof (cases go)
    case True
    then show ?thesis using less.hyps [of c1] r recv_turn_measure [of plain_turn c outs c1] t f less.prems
      by (auto simp: thread_frame_def)
  next
    case False
    then show ?thesis using stops r f less.prems(3) by (auto simp: thread_frame_def plain_turn_def)
  qed
qed

text \<open>C33. Defect: with \<open>max_retries\<close> 1, which the validation accepts, losing the connection ends the report
  thread for good: the client still holds the descriptor of the lost connection, so the one attempt
  fails whatever the network does, and the thread returns; \<open>main\<close> only waits for a signal and neither
  restarts it nor ends.\<close>

theorem lost_connection_ends_reports:
  assumes "client_reachable c" "0 \<le> cl_fd c" "\<not> cl_connected c" "ag_max_retries cfg = 1"
  shows "\<exists>c'. report_thread ub cfg net (tk # tks) k (True # True # flags) last_info c = (MaxRetries, [], c')"
proof -
  obtain ok out c1 where k: "ws_client_connect (net k) c = (ok, out, c1)" by (metis prod_cases3)
  with reconnect_fails [OF assms(1,2), of "net k"] have "\<not> ok" by simp
  with k assms(3,4) show ?thesis by simp
qed

theorem lost_connection_ends_reports_witness:
  "\<exists>c. client_reachable c \<and> \<not> cl_connected c \<and>
     (\<forall>ub net tk tks flags. \<exists>c'. report_thread ub (config_init\<lparr>ag_max_retries := 1\<rparr>) net (tk # tks) 0
        (True # True # flags) 0 c = (MaxRetries, [], c'))"
proof -
  obtain out c where c: "ws_client_connect sample_conn (sample_client ''ws://h/x'') = (True, out, c)"
    "cl_fd c = 5" "client_reachable c"
    by (rule sample_connected [of "''ws://h/x''"]) auto
  from connect_ok_running [OF c(1)] obtain c' where c': "client_reachable c'" "\<not> cl_connected c'" "cl_fd c' = 5"
    using connection_lost [OF c(3)] c(2) by auto
  have "\<exists>c''. report_thread ub (config_init\<lparr>ag_max_retries := 1\<rparr>) net (tk # tks) 0
        (True # True # flags) 0 c' = (MaxRetries, [], c'')" for ub net tk tks flags
    by (rule lost_connection_ends_reports) (use c' in simp_all)
  with c' show ?thesis by blast
qed

section \<open>Start and end of main\<close>

datatype main_op =
    MoAutodiscovery | MoNetState | MoNetStateCleanup | MoWsCreate | MoWsStop | MoWsDisconnect | MoWsDestroy
  | MoNetstaticStart | MoNetstaticStop
  | MoSpawnUpdate | MoSpawnReport | MoSpawnHeartbeat | MoJoinUpdate | MoJoinReport | MoJoinHeartbeat
  | MoRunningOff | MoWaitSignal | MoUpdateStop | MoSessionsStop | MoSessionsJoin | MoLoggerCleanup

record main_env =
  me_ad :: ad_env
  me_ad_file :: "string option"
  me_net_state_ok :: bool
  me_ws_create_ok :: bool
  me_netstatic_ok :: bool
  me_update_ok :: bool
  me_report_ok :: bool
  me_heartbeat_ok :: bool

text \<open>After the signal: everything is told to stop before anything is joined, and the client goes last.\<close>

definition main_shutdown :: "bool \<Rightarrow> bool \<Rightarrow> main_op list" where
  "main_shutdown update_tid_valid netstatic =
     [MoUpdateStop, MoSessionsStop, MoWsStop, MoJoinReport, MoJoinHeartbeat]
     @ (if update_tid_valid then [MoJoinUpdate] else []) @ [MoSessionsJoin]
     @ (if netstatic then [MoNetstaticStop] else [])
     @ [MoWsDisconnect, MoWsDestroy, MoNetStateCleanup, MoLoggerCleanup]"

definition main_service :: "agent_config \<Rightarrow> main_env \<Rightarrow> int \<times> main_op list" where
  "main_service cfg env =
     (if \<not> me_ws_create_ok env then (1, [])
      else
        let netstatic = (ag_month_rotate cfg > 0 \<and> me_netstatic_ok env);
            update = (\<not> ag_disable_auto_update cfg \<and> me_update_ok env);
            started = [MoWsCreate] @ (if netstatic then [MoNetstaticStart] else []) @ (if update then [MoSpawnUpdate] else []);
            undo = (if netstatic then [MoNetstaticStop] else []) @ [MoWsStop, MoWsDisconnect, MoWsDestroy, MoLoggerCleanup]
        in if \<not> me_report_ok env then (1, started @ undo)
           else if \<not> me_heartbeat_ok env then (1, started @ [MoSpawnReport, MoRunningOff, MoJoinReport] @ undo)
           else (0, started @ [MoSpawnReport, MoSpawnHeartbeat, MoWaitSignal] @ main_shutdown update netstatic))"

text \<open>From the validated configuration on; the configuration the threads run with comes last.\<close>

definition main_run :: "agent_config \<Rightarrow> main_env \<Rightarrow> int \<times> main_op list \<times> agent_config" where
  "main_run cfg env =
     (let (ops1, cfg1) =
        (if ag_auto_discovery_key cfg \<noteq> [] then
           ([MoAutodiscovery], fst (main_discovery (me_ad env) (me_ad_file env) cfg))
         else ([], cfg))
      in if \<not> me_net_state_ok env then (1, ops1, cfg1)
         else if ag_token cfg1 = [] \<or> ag_endpoint cfg1 = [] then (1, ops1 @ [MoNetState], cfg1)
         else let cfg2 = (if cd_le_zero (ag_interval cfg1) then cfg1\<lparr>ag_interval := Fin 1\<rparr> else cfg1)
              in case main_service cfg2 env of (rc, ops) \<Rightarrow> (rc, ops1 @ MoNetState # ops, cfg2))"

definition joined :: "main_op \<Rightarrow> main_op \<Rightarrow> main_op list \<Rightarrow> bool" where
  "joined spawn join ops \<longleftrightarrow> count_list ops spawn = count_list ops join"

definition main_order :: "int \<Rightarrow> main_op list \<Rightarrow> bool" where
  "main_order rc ops \<longleftrightarrow>
     (let pre = takeWhile (\<lambda>x. x \<noteq> MoWsDestroy) ops
      in count_list ops MoWsCreate = count_list ops MoWsDestroy
         \<and> (MoWsDestroy \<in> set ops \<longrightarrow>
              joined MoSpawnReport MoJoinReport pre \<and> joined MoSpawnHeartbeat MoJoinHeartbeat pre
              \<and> joined MoNetstaticStart MoNetstaticStop pre)
         \<and> (rc = 0 \<longrightarrow>
              joined MoSpawnUpdate MoJoinUpdate pre \<and> MoSessionsJoin \<in> set pre
              \<and> {MoUpdateStop, MoSessionsStop, MoWsStop} \<subseteq> set (takeWhile (\<lambda>x. x \<noteq> MoJoinReport) ops)))"

lemma service_order:
  assumes "main_service cfg env = (rc, ops)"
  shows "(rc = 0 \<or> rc = 1) \<and> main_order rc ops"
proof -
  obtain netstatic where n: "netstatic \<longleftrightarrow> ag_month_rotate cfg > 0 \<and> me_netstatic_ok env" by blast
  obtain update where u: "update \<longleftrightarrow> \<not> ag_disable_auto_update cfg \<and> me_update_ok env" by blast
  note run = assms [unfolded main_service_def Let_def main_shutdown_def, folded n u]
  show ?thesis
  proof (cases "me_ws_create_ok env")
    case False
    with run show ?thesis by (auto simp: main_order_def)
  next
    case True
    show ?thesis
    proof (cases "me_report_ok env")
      case False
      with True run show ?thesis by (cases netstatic; cases update) (auto simp: main_order_def joined_def)
    next
      case report: True
      show ?thesis
      proof (cases "me_heartbeat_ok env")
        case False
        with True report run show ?thesis by (cases netstatic; cases update) (auto simp: main_order_def joined_def)
      next
        case heartbeat: True
        with True report run show ?thesis by (cases netstatic; cases update) (auto simp: main_order_def joined_def)
      qed
    qed
  qed
qed

lemma order_prefix:
  "set xs \<subseteq> {MoAutodiscovery, MoNetState} \<Longrightarrow> main_order rc (xs @ ops) = main_order rc ops"
proof (induction xs)
  case (Cons x xs)
  then have "main_order rc (x # ys) = main_order rc ys" for ys
    by (auto simp: main_order_def joined_def Let_def)
  with Cons show ?case by simp
qed simp

lemma run_order:
  assumes "main_run cfg env = (rc, ops, cfg')"
  shows "(rc = 0 \<or> rc = 1) \<and> main_order rc ops \<and> (rc = 0 \<longrightarrow> ag_token cfg' \<noteq> [] \<and> ag_endpoint cfg' \<noteq> [])"
proof -
  obtain ops1 cfg1 where 1: "(if ag_auto_discovery_key cfg \<noteq> [] then
           ([MoAutodiscovery], fst (main_discovery (me_ad env) (me_ad_file env) cfg))
         else ([], cfg)) = (ops1, cfg1)" by force
  then have o1: "set ops1 \<subseteq> {MoAutodiscovery, MoNetState}" by (auto split: if_splits)
  note run = assms [unfolded main_run_def 1 Let_def, simplified]
  show ?thesis
  proof (cases "\<not> me_net_state_ok env \<or> ag_token cfg1 = [] \<or> ag_endpoint cfg1 = []")
    case True
    have "main_order 1 (ops1 @ [])" "main_order 1 ((ops1 @ [MoNetState]) @ [])"
      using o1 by (subst order_prefix; simp add: main_order_def)+
    with True run show ?thesis by (auto split: if_splits)
  next
    case False
    define cfg2 where "cfg2 = (if cd_le_zero (ag_interval cfg1) then cfg1\<lparr>ag_interval := Fin 1\<rparr> else cfg1)"
    obtain rc2 ops2 where s: "main_service cfg2 env = (rc2, ops2)" by force
    have "rc = rc2" "ops = ops1 @ MoNetState # ops2" "cfg' = cfg2"
      using False run s by (auto simp flip: cfg2_def)
    moreover have "ag_token cfg2 \<noteq> []" "ag_endpoint cfg2 \<noteq> []" using False by (auto simp: cfg2_def)
    ultimately show ?thesis
      using service_order [OF s] order_prefix [of "ops1 @ [MoNetState]" rc2 ops2] o1 by simp
  qed
qed

text \<open>C14. The client is never freed under a running thread: whatever fails, on every path of \<open>main\<close> the report
  and the heartbeat thread have been joined when the client is destroyed, and the traffic statistics
  stopped; a normal end (status 0) has also joined the update thread and the terminal sessions before,
  with every stop signal given before the first join, and only happens with a token and an endpoint.\<close>

theorem main_frees_after_join:
  assumes "main_run cfg env = (rc, ops, cfg')" "pre = takeWhile (\<lambda>x. x \<noteq> MoWsDestroy) ops"
  shows "(rc = 0 \<or> rc = 1) \<and> count_list ops MoWsCreate = count_list ops MoWsDestroy
     \<and> (MoWsDestroy \<in> set ops \<longrightarrow>
          joined MoSpawnReport MoJoinReport pre \<and> joined MoSpawnHeartbeat MoJoinHeartbeat pre
          \<and> joined MoNetstaticStart MoNetstaticStop pre)
     \<and> (rc = 0 \<longrightarrow>
          joined MoSpawnUpdate MoJoinUpdate pre \<and> MoSessionsJoin \<in> set pre
          \<and> {MoUpdateStop, MoSessionsStop, MoWsStop} \<subseteq> set (takeWhile (\<lambda>x. x \<noteq> MoJoinReport) ops)
          \<and> ag_token cfg' \<noteq> [] \<and> ag_endpoint cfg' \<noteq> [])"
  using run_order [OF assms(1)] by (simp add: main_order_def Let_def assms(2))

definition sample_main :: main_env where
  "sample_main = \<lparr>me_ad = sample_ad, me_ad_file = Some sample_reply, me_net_state_ok = True, me_ws_create_ok = True, me_netstatic_ok = True,
     me_update_ok = True, me_report_ok = True, me_heartbeat_ok = True\<rparr>"

theorem main_frees_after_join_witness:
  "\<exists>ops cfg'. main_run (config_init\<lparr>ag_endpoint := ''https://h'', ag_auto_discovery_key := ''k''\<rparr>) sample_main = (0, ops, cfg')
     \<and> joined MoSpawnReport MoJoinReport (takeWhile (\<lambda>x. x \<noteq> MoWsDestroy) ops) \<and> ag_token cfg' \<noteq> []"
proof -
  obtain ops cfg' where r: "main_run (config_init\<lparr>ag_endpoint := ''https://h'', ag_auto_discovery_key := ''k''\<rparr>) sample_main
      = (0, ops, cfg')" "MoWsDestroy \<in> set ops"
    by (simp add: main_run_def main_service_def main_shutdown_def sample_main_def config_init_def main_discovery_def sample_reload Let_def)
  from main_frees_after_join [OF r(1) refl] r(2) have
    "joined MoSpawnReport MoJoinReport (takeWhile (\<lambda>x. x \<noteq> MoWsDestroy) ops) \<and> ag_token cfg' \<noteq> []" by blast
  with r(1) show ?thesis by blast
qed

text \<open>Defect: with a discovery key in the configuration a configured token is lost.  The comment in \<open>main\<close> says
  that registration is attempted when the token is empty, but nothing tests it: when there is no saved
  identity and the panel cannot be resolved, the configured token is emptied and the agent exits with status
  1 before any thread is started.\<close>

theorem configured_token_lost:
  assumes "ag_auto_discovery_key cfg \<noteq> []" "me_ad_file env = None" "me_net_state_ok env"
    "\<And>host port. hp_gai (ad_net (me_ad env) host port) = None"
  shows "\<exists>cfg'. main_run cfg env = (1, [MoAutodiscovery, MoNetState], cfg') \<and> ag_token cfg' = []"
  using token_lost [of cfg "me_ad env"] assms by (simp add: main_run_def)

theorem configured_token_lost_witness:
  "\<exists>cfg'. main_run (config_init\<lparr>ag_token := ''configured'', ag_auto_discovery_key := ''key''\<rparr>)
     (sample_main\<lparr>me_ad := sample_ad\<lparr>ad_net := \<lambda>host port. (ad_net sample_ad host port)\<lparr>hp_gai := None\<rparr>\<rparr>, me_ad_file := None\<rparr>)
     = (1, [MoAutodiscovery, MoNetState], cfg') \<and> ag_token cfg' = []"
  by (rule configured_token_lost) (simp_all add: sample_main_def)

end
