(* ===== verification/ProcScan.thy ===== *)
theory ProcScan
  imports Utils
begin

text \<open>
  Reading the text files of the kernel the way the monitoring code does: \<open>fgets\<close> until the end, and the
  conversions of \<open>sscanf\<close> it uses.
\<close>

text \<open>The buffers a loop over \<open>fgets\<close> with \<open>n\<close> bytes sees.\<close>

function fgets_lines :: "nat \<Rightarrow> string \<Rightarrow> string list" where
  "fgets_lines n s = (case fgets n s of None \<Rightarrow> [] | Some (l, r) \<Rightarrow> l # fgets_lines n r)"
  by pat_completeness auto
termination
  by (relation "measure (\<lambda>(n, s). length s)") (auto dest: fgets_decreases)

declare fgets_lines.simps [simp del]

text \<open>\<open>%lu\<close> and \<open>%llu\<close>: white space, a sign, digits; the value saturates, a minus sign wraps.\<close>

definition u64_max :: nat where "u64_max = 2 ^ 64 - 1"

definition scan_u64 :: "string \<Rightarrow> (u64 \<times> string) option" where
  "scan_u64 s =
     (let t = dropWhile c_isspace s;
          neg = (case t of c # _ \<Rightarrow> c = CHR ''-'' | [] \<Rightarrow> False);
          u = (case t of c # r \<Rightarrow> if c = CHR ''-'' \<or> c = CHR ''+'' then r else t | [] \<Rightarrow> t);
          ds = takeWhile c_isdigit u; v = digits_val ds
      in if ds = [] then None
         else Some (if v > u64_max then of_nat u64_max else if neg then - of_nat v else of_nat v, dropWhile c_isdigit u))"

text \<open>Up to \<open>n\<close> such conversions in a row: the values that were stored.\<close>

fun scan_u64s :: "nat \<Rightarrow> string \<Rightarrow> u64 list" where
  "scan_u64s 0 s = []"
| "scan_u64s (Suc n) s = (case scan_u64 s of None \<Rightarrow> [] | Some (v, r) \<Rightarrow> v # scan_u64s n r)"

lemma scan_u64s_length: "length (scan_u64s n s) \<le> n"
  by (induction n s rule: scan_u64s.induct) (auto split: option.splits)

text \<open>A line of \<open>/proc/net/dev\<close>: \<open>%31[^:]:\<close> and up to \<open>n\<close> counters; the name without leading blanks.\<close>

definition net_dev_counters :: "nat \<Rightarrow> string \<Rightarrow> (string \<times> u64 list) option" where
  "net_dev_counters n line =
     (let name = take 31 (takeWhile (\<lambda>c. c \<noteq> CHR '':'') line); rest = drop (length name) line
      in if name = [] \<or> rest = [] \<or> hd rest \<noteq> CHR '':'' then None
         else Some (dropWhile (\<lambda>c. c = CHR '' '') name, scan_u64s n (tl rest)))"

text \<open>Bytes received and bytes sent, if at least \<open>k\<close> counters were read.\<close>

definition scan_net_dev :: "nat \<Rightarrow> nat \<Rightarrow> string \<Rightarrow> (string \<times> u64 \<times> u64) option" where
  "scan_net_dev n k line =
     (case net_dev_counters n line of None \<Rightarrow> None
      | Some (name, vs) \<Rightarrow> if length vs < k \<or> k < 9 then None else Some (name, vs ! 0, vs ! 8))"

lemma scan_net_dev_name: "scan_net_dev n k line = Some (name, rx, tx) \<Longrightarrow> length name \<le> 31 \<and> CHR '':'' \<notin> set name"
  by (auto simp: scan_net_dev_def net_dev_counters_def Let_def split: if_splits option.splits
      intro: order_trans [OF length_dropWhile_le] dest!: set_dropWhileD in_set_takeD set_takeWhileD)

text \<open>\<open>%Ns\<close>: white space, then up to \<open>n\<close> other characters.\<close>

definition scan_word :: "nat \<Rightarrow> string \<Rightarrow> (string \<times> string) option" where
  "scan_word n s =
     (let t = dropWhile c_isspace s; w = take n (takeWhile (\<lambda>c. \<not> c_isspace c) t)
      in if w = [] then None else Some (w, drop (length w) t))"

text \<open>\<open>%N[^:]: %lu\<close>.\<close>

definition scan_key_value :: "nat \<Rightarrow> string \<Rightarrow> (string \<times> u64) option" where
  "scan_key_value n line =
     (let key = take n (takeWhile (\<lambda>c. c \<noteq> CHR '':'') line); rest = drop (length key) line
      in if key = [] \<or> rest = [] \<or> hd rest \<noteq> CHR '':'' then None
         else map_option (\<lambda>(v, _). (key, v)) (scan_u64 (tl rest)))"

end
