(* ===== verification/Netstatic.thy ===== *)
theory Netstatic
  imports ProcScan Report
begin

text \<open>
  Traffic statistics (\<open>src/monitoring/netstatic.c\<close>): the samples kept per interface, their collection from
  \<open>/proc/net/dev\<close>, the retention, the file they are saved to and loaded from, and the worker thread.
  The data array of an interface is a list as long as its capacity; an access outside it is None.
  Products of doubles are taken exactly.
\<close>

section \<open>State\<close>

record traffic_data =
  td_timestamp :: u64
  td_tx :: u64
  td_rx :: u64

record interface_stats =
  is_name :: string
  is_data :: "traffic_data list"   \<comment> \<open>\<open>data_capacity\<close> slots\<close>
  is_count :: nat
  is_last_tx :: u64
  is_last_rx :: u64

record netstatic =
  ns_interfaces :: "interface_stats list"   \<comment> \<open>the first \<open>interface_count\<close>\<close>
  ns_preserve_days :: rat
  ns_detect_interval :: rat
  ns_save_interval :: rat
  ns_save_path :: string
  ns_running :: bool

definition zero_data :: traffic_data where
  "zero_data = \<lparr>td_timestamp = 0, td_tx = 0, td_rx = 0\<rparr>"

definition MAX_SAMPLES :: nat where "MAX_SAMPLES = 200000"

definition samples :: "interface_stats \<Rightarrow> traffic_data list" where
  "samples s = take (is_count s) (is_data s)"

definition netstatic_create :: "bool \<Rightarrow> string option \<Rightarrow> netstatic option" where
  "netstatic_create calloc_ok save_path =
     (if \<not> calloc_ok then None
      else Some \<lparr>ns_interfaces = [], ns_preserve_days = 31, ns_detect_interval = 2, ns_save_interval = 600,
        ns_save_path = (case save_path of Some p \<Rightarrow> take 255 p | None \<Rightarrow> ''/tmp/komari-netstatic.json''), ns_running = False\<rparr>)"

definition new_interface :: "string \<Rightarrow> interface_stats" where
  "new_interface name =
     \<lparr>is_name = take 31 name, is_data = replicate 1024 zero_data, is_count = 0, is_last_tx = 0, is_last_rx = 0\<rparr>"

definition netstatic_add_interface :: "bool \<Rightarrow> string \<Rightarrow> netstatic \<Rightarrow> int \<times> netstatic" where
  "netstatic_add_interface calloc_ok name ns =
     (if length (ns_interfaces ns) \<ge> 32 then (-1, ns)
      else if \<exists>s \<in> set (ns_interfaces ns). is_name s = name then (0, ns)
      else if \<not> calloc_ok then (-1, ns)
      else (0, ns\<lparr>ns_interfaces := ns_interfaces ns @ [new_interface name]\<rparr>))"

fun remove_first :: "string \<Rightarrow> interface_stats list \<Rightarrow> interface_stats list option" where
  "remove_first name [] = None"
| "remove_first name (s # ss) = (if is_name s = name then Some ss else map_option ((#) s) (remove_first name ss))"

definition netstatic_remove_interface :: "string \<Rightarrow> netstatic \<Rightarrow> int \<times> netstatic" where
  "netstatic_remove_interface name ns =
     (case remove_first name (ns_interfaces ns) of
        Some ss \<Rightarrow> (0, ns\<lparr>ns_interfaces := ss\<rparr>)
      | None \<Rightarrow> (-1, ns))"

section \<open>Collection\<close>

text \<open>Room for one more sample: at the limit the oldest is moved out, below it the array is doubled.  False: \<open>realloc\<close>
  failed.\<close>

definition make_room :: "bool \<Rightarrow> interface_stats \<Rightarrow> (bool \<times> interface_stats) option" where
  "make_room realloc_ok s =
     (let cap = length (is_data s); count = is_count s; data = is_data s
      in if count \<ge> cap then
           if cap \<ge> MAX_SAMPLES then
             if count = 0 \<or> count > cap then None
             else Some (True, s\<lparr>is_data := take (count - 1) (tl data) @ drop (count - 1) data, is_count := count - 1\<rparr>)
           else
             let new_cap = (if cap * 2 > MAX_SAMPLES then MAX_SAMPLES else cap * 2)
             in if realloc_ok then Some (True, s\<lparr>is_data := data @ replicate (new_cap - cap) zero_data\<rparr>)
                else Some (False, s)
         else Some (True, s))"

definition record_sample :: "bool \<Rightarrow> traffic_data \<Rightarrow> interface_stats \<Rightarrow> interface_stats option" where
  "record_sample realloc_ok d s =
     (case make_room realloc_ok s of
        None \<Rightarrow> None
      | Some (False, s') \<Rightarrow> Some s'
      | Some (True, s') \<Rightarrow>
          Some (if is_count s' < length (is_data s')
                then s'\<lparr>is_data := (is_data s')[is_count s' := d], is_count := is_count s' + 1\<rparr> else s'))"

definition counter_delta :: "u64 \<Rightarrow> u64 \<Rightarrow> u64" where
  "counter_delta prev now = (if prev > 0 \<and> now \<ge> prev then now - prev else 0)"

definition collect_interface :: "bool \<Rightarrow> u64 \<Rightarrow> u64 \<Rightarrow> u64 \<Rightarrow> interface_stats \<Rightarrow> interface_stats option" where
  "collect_interface realloc_ok time tx rx s =
     record_sample realloc_ok
       \<lparr>td_timestamp = time, td_tx = counter_delta (is_last_tx s) tx, td_rx = counter_delta (is_last_rx s) rx\<rparr>
       (s\<lparr>is_last_tx := tx, is_last_rx := rx\<rparr>)"

fun update_first :: "string \<Rightarrow> (interface_stats \<Rightarrow> interface_stats option) \<Rightarrow> interface_stats list \<Rightarrow> interface_stats list option" where
  "update_first name f [] = Some []"
| "update_first name f (s # ss) =
     (if is_name s = name then map_option (\<lambda>s'. s' # ss) (f s) else map_option ((#) s) (update_first name f ss))"

text \<open>What the turn of line \<open>i\<close> meets: whether \<open>realloc\<close> works, and the clock.\<close>

type_synonym collect_env = "nat \<Rightarrow> bool \<times> u64"

fun collect_lines :: "collect_env \<Rightarrow> nat \<Rightarrow> string list \<Rightarrow> interface_stats list \<Rightarrow> interface_stats list option" where
  "collect_lines env i [] ss = Some ss"
| "collect_lines env i (line # ls) ss =
     (case scan_net_dev 16 9 line of
        None \<Rightarrow> collect_lines env (i + 1) ls ss
      | Some (name, rx, tx) \<Rightarrow>
          (case update_first name (collect_interface (fst (env i)) (snd (env i)) tx rx) ss of
             None \<Rightarrow> None
           | Some ss' \<Rightarrow> collect_lines env (i + 1) ls ss'))"

definition netstatic_collect :: "collect_env \<Rightarrow> string option \<Rightarrow> netstatic \<Rightarrow> netstatic option" where
  "netstatic_collect env file ns =
     (case file of None \<Rightarrow> Some ns
      | Some saved \<Rightarrow>
          map_option (\<lambda>ss. ns\<lparr>ns_interfaces := ss\<rparr>)
            (collect_lines env 0 (drop 2 (fgets_lines 512 saved)) (ns_interfaces ns)))"

section \<open>Retention and totals\<close>

text \<open>\<open>(uint64_t)x\<close>; \<open>ub\<close> is the value where the conversion is undefined.\<close>

definition u64_of_double :: "(rat \<Rightarrow> u64) \<Rightarrow> rat \<Rightarrow> u64" where
  "u64_of_double ub x = (if - 1 < x \<and> x < 2 ^ 64 then word_of_int (trunc_rat x) else ub x)"

definition cleanup_interface :: "u64 \<Rightarrow> interface_stats \<Rightarrow> interface_stats" where
  "cleanup_interface cutoff s =
     (let first_valid = length (takeWhile (\<lambda>d. td_timestamp d < cutoff) (samples s));
          remaining = is_count s - first_valid;
          s1 = (if first_valid > 0
                then s\<lparr>is_data := take remaining (drop first_valid (is_data s)) @ drop remaining (is_data s), is_count := remaining\<rparr>
                else s);
          excess = is_count s1 - MAX_SAMPLES
      in if is_count s1 > MAX_SAMPLES
         then s1\<lparr>is_data := take MAX_SAMPLES (drop excess (is_data s1)) @ drop MAX_SAMPLES (is_data s1), is_count := MAX_SAMPLES\<rparr>
         else s1)"

definition netstatic_cleanup_old_data :: "(rat \<Rightarrow> u64) \<Rightarrow> u64 \<Rightarrow> netstatic \<Rightarrow> netstatic" where
  "netstatic_cleanup_old_data ub now ns =
     (let cutoff = now - u64_of_double ub (ns_preserve_days ns * 86400)
      in ns\<lparr>ns_interfaces := map (cleanup_interface cutoff) (ns_interfaces ns)\<rparr>)"

definition sat_add :: "u64 \<Rightarrow> u64 \<Rightarrow> u64" where
  "sat_add x y = (if y > of_nat u64_max - x then of_nat u64_max else x + y)"

text \<open>\<open>month\<close> is the month and year of \<open>localtime\<close>.\<close>

fun add_month :: "(u64 \<Rightarrow> int \<times> int) \<Rightarrow> int \<times> int \<Rightarrow> traffic_data list \<Rightarrow> u64 \<Rightarrow> u64 \<Rightarrow> u64 \<times> u64" where
  "add_month month current [] tx rx = (tx, rx)"
| "add_month month current (d # ds) tx rx =
     (if month (td_timestamp d) = current
      then add_month month current ds (sat_add tx (td_tx d)) (sat_add rx (td_rx d))
      else add_month month current ds tx rx)"

definition netstatic_get_monthly_traffic :: "(u64 \<Rightarrow> int \<times> int) \<Rightarrow> u64 \<Rightarrow> string \<Rightarrow> netstatic \<Rightarrow> u64 \<times> u64" where
  "netstatic_get_monthly_traffic month now iface ns =
     (case find (\<lambda>s. is_name s = iface) (ns_interfaces ns) of
        None \<Rightarrow> (0, 0)
      | Some s \<Rightarrow> add_month month (month now) (samples s) 0 0)"

section \<open>The file\<close>

definition fmt_1f :: "rat \<Rightarrow> string" where
  "fmt_1f x =
     (let n = round_half_even (\<bar>x\<bar> * 10)
      in (if x < 0 then ''-'' else []) @ show_nat (n div 10) @ ''.'' @ [digit_char (n mod 10)])"

definition sample_text :: "traffic_data \<Rightarrow> string" where
  "sample_text d =
     ''      {'' @ jq ''timestamp'' @ '': '' @ fmt_u64 (td_timestamp d) @ '', '' @ jq ''tx'' @ '': '' @ fmt_u64 (td_tx d)
     @ '', '' @ jq ''rx'' @ '': '' @ fmt_u64 (td_rx d) @ ''}''"

text \<open>The lines of a list, all but the last with a comma.\<close>

fun comma_lines :: "string list \<Rightarrow> string" where
  "comma_lines [] = []"
| "comma_lines [x] = x @ [lf]"
| "comma_lines (x # y # ys) = x @ '','' @ [lf] @ comma_lines (y # ys)"

definition interface_text :: "interface_stats \<Rightarrow> string option" where
  "interface_text s =
     (case utils_json_escape (is_name s) of
        None \<Rightarrow> None
      | Some escaped \<Rightarrow> Some (''    '' @ jq escaped @ '': ['' @ [lf] @ comma_lines (map sample_text (samples s)) @ ''    ]''))"

fun all_some :: "'a option list \<Rightarrow> 'a list option" where
  "all_some [] = Some []"
| "all_some (x # xs) = Option.bind x (\<lambda>y. map_option ((#) y) (all_some xs))"

definition netstatic_serialize :: "bool \<Rightarrow> netstatic \<Rightarrow> string option" where
  "netstatic_serialize mem_ok ns =
     (if \<not> mem_ok then None
      else map_option (\<lambda>texts.
        ''{'' @ [lf] @ ''  '' @ jq ''config'' @ '': {'' @ [lf]
        @ ''    '' @ jq ''data_preserve_day'' @ '': '' @ fmt_1f (ns_preserve_days ns) @ '','' @ [lf]
        @ ''    '' @ jq ''detect_interval'' @ '': '' @ fmt_1f (ns_detect_interval ns) @ '','' @ [lf]
        @ ''    '' @ jq ''save_interval'' @ '': '' @ fmt_1f (ns_save_interval ns) @ [lf]
        @ ''  },'' @ [lf] @ ''  '' @ jq ''interfaces'' @ '': {'' @ [lf]
        @ comma_lines texts @ ''  }'' @ [lf] @ ''}'' @ [lf])
        (all_some (map interface_text (ns_interfaces ns))))"

text \<open>The settings of the file; one that is missing or not a number keeps its value, one that is not positive
  is replaced by its default.\<close>

definition config_number :: "cjson option \<Rightarrow> string \<Rightarrow> rat \<Rightarrow> rat" where
  "config_number config name x =
     (case config of
        Some c \<Rightarrow> if cJSON_IsObject c
                  then (case cJSON_GetObjectItem c name of
                          Some v \<Rightarrow> if cJSON_IsNumber v then valuedouble v else x
                        | None \<Rightarrow> x)
                  else x
      | None \<Rightarrow> x)"

definition positive_or :: "rat \<Rightarrow> rat \<Rightarrow> rat" where
  "positive_or dflt x = (if x \<le> 0 then dflt else x)"

definition load_config :: "cjson \<Rightarrow> netstatic \<Rightarrow> netstatic" where
  "load_config rt ns =
     (let config = cJSON_GetObjectItem rt ''config''
      in ns\<lparr>ns_preserve_days := positive_or 31 (config_number config ''data_preserve_day'' (ns_preserve_days ns)),
            ns_detect_interval := positive_or 2 (config_number config ''detect_interval'' (ns_detect_interval ns)),
            ns_save_interval := positive_or 600 (config_number config ''save_interval'' (ns_save_interval ns))\<rparr>)"

definition u64_field :: "(rat \<Rightarrow> u64) \<Rightarrow> cjson \<Rightarrow> string \<Rightarrow> u64 \<Rightarrow> u64" where
  "u64_field ub record name x =
     (case cJSON_GetObjectItem record name of
        Some v \<Rightarrow> if cJSON_IsNumber v then u64_of_double ub (valuedouble v) else x
      | None \<Rightarrow> x)"

text \<open>Records into the slots from \<open>idx\<close> on; a field that is missing keeps what the slot held.\<close>

fun fill_records :: "(rat \<Rightarrow> u64) \<Rightarrow> nat \<Rightarrow> cjson list \<Rightarrow> traffic_data list \<Rightarrow> traffic_data list \<times> nat" where
  "fill_records ub idx [] data = (data, idx)"
| "fill_records ub idx (r # rs) data =
     (if idx \<ge> length data then (data, idx)
      else
        let d = data ! idx
        in fill_records ub (idx + 1) rs
             (data[idx := \<lparr>td_timestamp = u64_field ub r ''timestamp'' (td_timestamp d),
                          td_tx = u64_field ub r ''tx'' (td_tx d), td_rx = u64_field ub r ''rx'' (td_rx d)\<rparr>]))"

definition load_records :: "(rat \<Rightarrow> u64) \<Rightarrow> bool \<Rightarrow> cjson list \<Rightarrow> interface_stats \<Rightarrow> interface_stats" where
  "load_records ub realloc_ok rs s =
     (let count = length rs; cap = length (is_data s)
      in if count = 0 then s
         else if count > cap \<and> \<not> realloc_ok then s
         else
           let data = (if count > cap then is_data s @ replicate (count - cap) zero_data else is_data s)
           in case fill_records ub 0 rs data of (data', n) \<Rightarrow> s\<lparr>is_data := data', is_count := n\<rparr>)"

fun update_last :: "('a \<Rightarrow> 'a) \<Rightarrow> 'a list \<Rightarrow> 'a list" where
  "update_last f [] = []"
| "update_last f [x] = [f x]"
| "update_last f (x # y # ys) = x # update_last f (y # ys)"

fun map_first :: "('a \<Rightarrow> bool) \<Rightarrow> ('a \<Rightarrow> 'a) \<Rightarrow> 'a list \<Rightarrow> 'a list" where
  "map_first P f [] = []"
| "map_first P f (x # xs) = (if P x then f x # xs else x # map_first P f xs)"

text \<open>The members of \<open>interfaces\<close>; \<open>ok i\<close>: whether the allocations for member \<open>i\<close> succeed.\<close>

fun load_entries :: "(rat \<Rightarrow> u64) \<Rightarrow> (nat \<Rightarrow> bool \<times> bool) \<Rightarrow> nat \<Rightarrow> (string \<times> cjson) list \<Rightarrow> netstatic \<Rightarrow> netstatic" where
  "load_entries ub ok i [] ns = ns"
| "load_entries ub ok i ((name, CArray rs) # es) ns =
     (if length (ns_interfaces ns) \<ge> 32 then ns
      else if \<exists>s \<in> set (ns_interfaces ns). is_name s = name then
        load_entries ub ok (i + 1) es
          (ns\<lparr>ns_interfaces := map_first (\<lambda>s. is_name s = name) (load_records ub (snd (ok i)) rs) (ns_interfaces ns)\<rparr>)
      else
        case netstatic_add_interface (fst (ok i)) name ns of (rc, ns1) \<Rightarrow>
          if rc \<noteq> 0 then load_entries ub ok (i + 1) es ns1
          else load_entries ub ok (i + 1) es
                 (ns1\<lparr>ns_interfaces := update_last (load_records ub (snd (ok i)) rs) (ns_interfaces ns1)\<rparr>))"
| "load_entries ub ok i ((name, v) # es) ns = load_entries ub ok (i + 1) es ns"

text \<open>\<open>file\<close> is what \<open>fread\<close> returned, \<open>parse\<close> is \<open>cJSON_Parse\<close>
  (theory CjsonText), or gives nothing when memory is short.\<close>

definition netstatic_load ::
    "(rat \<Rightarrow> u64) \<Rightarrow> (nat \<Rightarrow> bool \<times> bool) \<Rightarrow> (string \<Rightarrow> cjson option) \<Rightarrow> bool \<Rightarrow> string option \<Rightarrow> netstatic \<Rightarrow> int \<times> netstatic" where
  "netstatic_load ub ok parse malloc_ok file ns =
     (if ns_save_path ns = [] then (-1, ns)
      else case file of None \<Rightarrow> (-1, ns)
      | Some saved \<Rightarrow>
          if \<not> malloc_ok then (-1, ns)
          else (case parse saved of None \<Rightarrow> (-1, ns)
                | Some rt \<Rightarrow>
                    let ns1 = load_config rt ns
                    in case cJSON_GetObjectItem rt ''interfaces'' of
                         Some (CObject es) \<Rightarrow> (0, load_entries ub ok 0 es ns1)
                       | _ \<Rightarrow> (0, ns1)))"

section \<open>The worker\<close>

record worker_turn =
  wt_collect :: collect_env
  wt_file :: "string option"
  wt_now :: u64
  wt_mem_ok :: bool

text \<open>One turn under the lock; the snapshot to write comes second.\<close>

definition worker_step ::
    "(rat \<Rightarrow> u64) \<Rightarrow> worker_turn \<Rightarrow> u64 \<Rightarrow> netstatic \<Rightarrow> (netstatic \<times> string option \<times> u64) option" where
  "worker_step ub wt last_save ns =
     (case netstatic_collect (wt_collect wt) (wt_file wt) ns of
        None \<Rightarrow> None
      | Some ns1 \<Rightarrow>
          if wt_now wt - last_save \<ge> u64_of_double ub (ns_save_interval ns1) then
            let ns2 = netstatic_cleanup_old_data ub (wt_now wt) ns1
            in Some (ns2, netstatic_serialize (wt_mem_ok wt) ns2, wt_now wt)
          else Some (ns1, None, last_save))"

fun netstatic_worker :: "(rat \<Rightarrow> u64) \<Rightarrow> worker_turn list \<Rightarrow> u64 \<Rightarrow> netstatic \<Rightarrow> (string list \<times> netstatic) option" where
  "netstatic_worker ub [] last_save ns = Some ([], ns)"
| "netstatic_worker ub (wt # wts) last_save ns =
     (case worker_step ub wt last_save ns of None \<Rightarrow> None
      | Some (ns', snapshot, last_save') \<Rightarrow>
          map_option (\<lambda>(out, ns''). ((case snapshot of Some t \<Rightarrow> [t] | None \<Rightarrow> []) @ out, ns''))
            (netstatic_worker ub wts last_save' ns'))"

definition netstatic_start :: "(netstatic \<Rightarrow> int \<times> netstatic) \<Rightarrow> bool \<Rightarrow> netstatic \<Rightarrow> int \<times> netstatic" where
  "netstatic_start load create_ok ns =
     (if ns_running ns then (-1, ns)
      else let ns1 = snd (load ns)
           in if create_ok then (0, ns1\<lparr>ns_running := True\<rparr>) else (-1, ns1\<lparr>ns_running := False\<rparr>))"

definition netstatic_save :: "bool \<Rightarrow> netstatic \<Rightarrow> string option" where
  "netstatic_save mem_ok ns = (if ns_save_path ns = [] then None else netstatic_serialize mem_ok ns)"

text \<open>\<open>open_ok\<close>, the count \<open>fwrite\<close> returns, \<open>close_ok\<close>.\<close>

definition netstatic_write_to_disk :: "string \<Rightarrow> bool \<Rightarrow> nat \<Rightarrow> bool \<Rightarrow> string \<Rightarrow> int" where
  "netstatic_write_to_disk path open_ok written close_ok buf =
     (if path = [] \<or> \<not> open_ok then -1 else if written \<noteq> length buf \<or> \<not> close_ok then -1 else 0)"

text \<open>The text written after joining the worker.\<close>

definition netstatic_stop :: "bool \<Rightarrow> netstatic \<Rightarrow> netstatic \<times> string option" where
  "netstatic_stop mem_ok ns =
     (if \<not> ns_running ns then (ns, None) else (ns\<lparr>ns_running := False\<rparr>, netstatic_save mem_ok ns))"

section \<open>Memory safety\<close>

definition iface_ok :: "interface_stats \<Rightarrow> bool" where
  "iface_ok s \<longleftrightarrow> is_count s \<le> length (is_data s) \<and> 1024 \<le> length (is_data s) \<and> length (is_name s) \<le> 31"

definition ns_ok :: "netstatic \<Rightarrow> bool" where
  "ns_ok ns \<longleftrightarrow> length (ns_interfaces ns) \<le> 32 \<and> (\<forall>s \<in> set (ns_interfaces ns). iface_ok s)"

text \<open>The capacity an interface can reach, and what a sample does to the window of samples.\<close>

definition window :: "interface_stats \<Rightarrow> nat" where "window s = max MAX_SAMPLES (length (is_data s))"

lemma room_cases:
  assumes "iface_ok s"
  obtains (free) "make_room ok s = Some (True, s)" "is_count s < length (is_data s)"
  | (moved) "make_room ok s = Some (True, s\<lparr>is_data := take (is_count s - 1) (tl (is_data s)) @ drop (is_count s - 1) (is_data s),
        is_count := is_count s - 1\<rparr>)" "is_count s = length (is_data s)" "MAX_SAMPLES \<le> length (is_data s)"
  | (grown) n where "make_room ok s = Some (True, s\<lparr>is_data := is_data s @ replicate n zero_data\<rparr>)" "0 < n"
      "is_count s = length (is_data s)" "length (is_data s) + n \<le> MAX_SAMPLES" "ok"
  | (failed) "make_room ok s = Some (False, s)" "is_count s = length (is_data s)" "\<not> ok"
proof -
  let ?cap = "length (is_data s)"
  have c: "is_count s \<le> ?cap" "0 < ?cap" using assms by (auto simp: iface_ok_def)
  show thesis
  proof (cases "is_count s < ?cap")
    case True
    then show ?thesis by (intro free) (simp_all add: make_room_def)
  next
    case full: False
    show ?thesis
    proof (cases "MAX_SAMPLES \<le> ?cap")
      case True
      with full c show ?thesis by (intro moved) (auto simp: make_room_def Let_def)
    next
      case False
      define n where "n = (if ?cap * 2 > MAX_SAMPLES then MAX_SAMPLES else ?cap * 2) - ?cap"
      have "0 < n" "?cap + n \<le> MAX_SAMPLES" using False c(2) by (auto simp: n_def)
      moreover have "make_room ok s = (if ok then Some (True, s\<lparr>is_data := is_data s @ replicate n zero_data\<rparr>) else Some (False, s))"
        using full False by (simp add: make_room_def Let_def n_def)
      ultimately show ?thesis using grown [of n] failed full c by (cases ok) auto
    qed
  qed
qed

lemma update_end: "xs \<noteq> [] \<Longrightarrow> (tl xs @ drop (length xs - Suc 0) xs)[length xs - Suc 0 := d] = tl xs @ [d]"
proof -
  assume "xs \<noteq> []"
  then have "drop (length xs - Suc 0) xs = [last xs]" by (induction xs rule: rev_induct) auto
  moreover have "(tl xs @ [last xs])[length (tl xs) := d] = tl xs @ [d]" by (rule list_update_length)
  ultimately show ?thesis by simp
qed

lemma record_ok:
  assumes "iface_ok s"
  obtains s' where "record_sample ok d s = Some s'" "iface_ok s'"
    "is_name s' = is_name s \<and> is_last_tx s' = is_last_tx s \<and> is_last_rx s' = is_last_rx s"
    "window s' = window s" "ok \<Longrightarrow> samples s' = last_n (window s) (samples s @ [d])"
  using assms
proof (cases rule: room_cases [where ok = ok])
  case free
  have "samples s' = last_n (window s) (samples s @ [d])" if "s' = s\<lparr>is_data := (is_data s)[is_count s := d], is_count := is_count s + 1\<rparr>" for s'
    using free(2) that by (simp add: samples_def window_def take_Suc_conv_app_nth)
  with free show ?thesis
    using assms by (intro that [of "s\<lparr>is_data := (is_data s)[is_count s := d], is_count := is_count s + 1\<rparr>"])
      (auto simp: record_sample_def iface_ok_def window_def)
next
  case moved
  let ?c = "is_count s - 1"
  let ?data = "take ?c (tl (is_data s)) @ drop ?c (is_data s)"
  have c: "0 < is_count s" using assms moved(2) by (auto simp: iface_ok_def)
  then have len: "length ?data = length (is_data s)" "?c < length (is_data s)" using moved(2) by auto
  have "take (Suc ?c) (?data[?c := d]) = tl (is_data s) @ [d]"
  proof -
    have "is_data s \<noteq> []" using c moved(2) by auto
    then have "?data[?c := d] = tl (is_data s) @ [d]" using moved(2) update_end [of "is_data s" d] by simp
    moreover have "length (tl (is_data s) @ [d]) = Suc ?c" using c moved(2) by simp
    ultimately show ?thesis by (metis take_all order_refl)
  qed
  moreover have "last_n (window s) (samples s @ [d]) = tl (is_data s) @ [d]"
    using moved(2,3) c by (simp add: samples_def window_def max_def last_n_snoc_full)
  ultimately show ?thesis
    using assms moved c len
    by (intro that [of "s\<lparr>is_data := ?data[?c := d], is_count := is_count s\<rparr>"])
      (auto simp: record_sample_def iface_ok_def window_def samples_def)
next
  case (grown n)
  let ?data = "is_data s @ replicate n zero_data"
  have "take (Suc (is_count s)) (?data[is_count s := d]) = samples s @ [d]"
    using grown(2,3) by (simp add: take_Suc_conv_app_nth samples_def)
  then show ?thesis
    using assms grown
    by (intro that [of "s\<lparr>is_data := ?data[is_count s := d], is_count := is_count s + 1\<rparr>"])
      (auto simp: record_sample_def iface_ok_def window_def samples_def)
next
  case failed
  with assms show ?thesis by (intro that [of s]) (auto simp: record_sample_def)
qed

lemma collect_ok:
  assumes "iface_ok s"
  shows "\<exists>s'. collect_interface ok time tx rx s = Some s' \<and> iface_ok s'"
proof -
  have "iface_ok (s\<lparr>is_last_tx := tx, is_last_rx := rx\<rparr>)" using assms by (simp add: iface_ok_def)
  then show ?thesis
    by (rule record_ok [where ok = ok and d = "\<lparr>td_timestamp = time, td_tx = counter_delta (is_last_tx s) tx,
          td_rx = counter_delta (is_last_rx s) rx\<rparr>"]) (auto simp: collect_interface_def)
qed

lemma update_first_ok:
  assumes "\<forall>s \<in> set ss. iface_ok s" "\<And>s. iface_ok s \<Longrightarrow> \<exists>s'. f s = Some s' \<and> iface_ok s'"
  shows "\<exists>ss'. update_first name f ss = Some ss' \<and> (\<forall>s \<in> set ss'. iface_ok s) \<and> length ss' = length ss"
  using assms(1)
proof (induction ss)
  case (Cons s ss)
  with assms(2) [of s] show ?case by (cases "is_name s = name") auto
qed simp

lemma collect_lines_ok:
  "\<forall>s \<in> set ss. iface_ok s \<Longrightarrow>
     \<exists>ss'. collect_lines env i ls ss = Some ss' \<and> (\<forall>s \<in> set ss'. iface_ok s) \<and> length ss' = length ss"
proof (induction ls arbitrary: i ss)
  case (Cons line ls)
  show ?case
  proof (cases "scan_net_dev 16 9 line")
    case None
    with Cons show ?thesis by simp
  next
    case (Some r)
    obtain name rx tx where r: "r = (name, rx, tx)" by (cases r)
    obtain ss1 where "update_first name (collect_interface (fst (env i)) (snd (env i)) tx rx) ss = Some ss1"
      "\<forall>s \<in> set ss1. iface_ok s" "length ss1 = length ss"
      using update_first_ok [OF Cons.prems, of "collect_interface (fst (env i)) (snd (env i)) tx rx" name] collect_ok by blast
    with Cons.IH [of ss1 "i + 1"] Some r show ?thesis by auto
  qed
qed simp

lemma netstatic_collect_ok:
  assumes "ns_ok ns"
  shows "\<exists>ns'. netstatic_collect env file ns = Some ns' \<and> ns_ok ns'"
proof (cases "file")
  case (Some content)
  from collect_lines_ok [of "ns_interfaces ns" env 0 "drop 2 (fgets_lines 512 content)"] assms Some show ?thesis
    by (auto simp: netstatic_collect_def ns_ok_def)
qed (use assms in \<open>simp add: netstatic_collect_def\<close>)

text \<open>What the retention keeps of the samples.\<close>

lemma move_front: "k + n \<le> length xs \<Longrightarrow> take n (take n (drop k xs) @ drop n xs) = take n (drop k xs)
    \<and> length (take n (drop k xs) @ drop n xs) = length xs"
  by (auto simp: min_def)

lemma cleanup_samples:
  assumes "iface_ok s"
  shows "samples (cleanup_interface cutoff s) = last_n MAX_SAMPLES (dropWhile (\<lambda>d. td_timestamp d < cutoff) (samples s))
     \<and> iface_ok (cleanup_interface cutoff s) \<and> is_name (cleanup_interface cutoff s) = is_name s"
proof -
  define fv where "fv = length (takeWhile (\<lambda>d. td_timestamp d < cutoff) (samples s))"
  define rem where "rem = is_count s - fv"
  have c: "is_count s \<le> length (is_data s)" "length (samples s) = is_count s" using assms by (auto simp: iface_ok_def samples_def)
  have fv: "fv \<le> is_count s" unfolding fv_def using c(2) by (metis length_takeWhile_le)
  define s1 where "s1 = (if fv > 0 then s\<lparr>is_data := take rem (drop fv (is_data s)) @ drop rem (is_data s), is_count := rem\<rparr> else s)"
  have d: "dropWhile (\<lambda>d. td_timestamp d < cutoff) (samples s) = drop fv (samples s)" by (simp add: fv_def dropWhile_eq_drop)
  have k: "samples s1 = drop fv (samples s)" "iface_ok s1" "is_name s1 = is_name s"
    using fv c assms move_front [of fv rem "is_data s"]
    by (auto simp: s1_def samples_def rem_def iface_ok_def drop_take)
  have run: "cleanup_interface cutoff s = (if is_count s1 > MAX_SAMPLES
         then s1\<lparr>is_data := take MAX_SAMPLES (drop (is_count s1 - MAX_SAMPLES) (is_data s1)) @ drop MAX_SAMPLES (is_data s1), is_count := MAX_SAMPLES\<rparr>
         else s1)"
    by (simp add: cleanup_interface_def fv_def rem_def s1_def Let_def)
  have c1: "is_count s1 \<le> length (is_data s1)" "length (samples s1) = is_count s1" using k(2) by (auto simp: iface_ok_def samples_def)
  show ?thesis
  proof (cases "is_count s1 > MAX_SAMPLES")
    case True
    then have "samples (cleanup_interface cutoff s) = take MAX_SAMPLES (drop (is_count s1 - MAX_SAMPLES) (is_data s1))"
      using c1 by (auto simp: run samples_def min_def)
    also have "\<dots> = last_n MAX_SAMPLES (samples s1)" using True c1 by (simp add: last_n_def samples_def drop_take)
    finally show ?thesis using True c1 k by (auto simp: run iface_ok_def d)
  next
    case False
    with k c1 show ?thesis by (simp add: run d)
  qed
qed

lemma cleanup_ok: "ns_ok ns \<Longrightarrow> ns_ok (netstatic_cleanup_old_data ub now ns)"
  using cleanup_samples by (auto simp: netstatic_cleanup_old_data_def ns_ok_def Let_def)

lemma new_interface_ok: "iface_ok (new_interface name)" by (simp add: iface_ok_def new_interface_def)

lemma add_ok: "ns_ok ns \<Longrightarrow> ns_ok (snd (netstatic_add_interface ok name ns))"
  using new_interface_ok by (auto simp: netstatic_add_interface_def ns_ok_def)

lemma remove_first_ok: "remove_first name ss = Some ss' \<Longrightarrow> length ss' < length ss \<and> set ss' \<subseteq> set ss"
  by (induction ss arbitrary: ss') (auto split: if_splits)

lemma remove_ok: "ns_ok ns \<Longrightarrow> ns_ok (snd (netstatic_remove_interface name ns))"
  by (auto simp: netstatic_remove_interface_def ns_ok_def split: option.splits dest!: remove_first_ok)

lemma fill_bounds: "fill_records ub idx rs data = (data', n) \<Longrightarrow> idx \<le> length data \<Longrightarrow> length data' = length data \<and> n \<le> length data"
proof (induction rs arbitrary: idx data)
  case (Cons r rs)
  show ?case
  proof (cases "idx \<ge> length data")
    case False
    with Cons.prems obtain d where "fill_records ub (idx + 1) rs (data[idx := d]) = (data', n)" by (auto simp: Let_def)
    from Cons.IH [OF this] False show ?thesis by simp
  qed (use Cons.prems in simp)
qed simp

lemma load_records_ok: "iface_ok s \<Longrightarrow> iface_ok (load_records ub ok rs s)"
  by (auto simp: load_records_def Let_def iface_ok_def split: prod.splits if_splits dest!: fill_bounds)

lemma map_first_ok: "\<forall>s \<in> set ss. Q s \<Longrightarrow> (\<And>s. Q s \<Longrightarrow> Q (f s)) \<Longrightarrow> (\<forall>s \<in> set (map_first P f ss). Q s) \<and> length (map_first P f ss) = length ss"
  by (induction ss) auto

lemma update_last_append: "update_last f (xs @ [x]) = xs @ [f x]"
proof (induction xs)
  case (Cons y ys)
  then show ?case by (cases "ys @ [x]") simp_all
qed simp

lemma add_new:
  assumes "\<not> 32 \<le> length (ns_interfaces ns)" "\<not> (\<exists>s \<in> set (ns_interfaces ns). is_name s = name)"
  shows "netstatic_add_interface ok name ns =
     (if ok then (0, ns\<lparr>ns_interfaces := ns_interfaces ns @ [new_interface name]\<rparr>) else (-1, ns))"
  using assms by (auto simp: netstatic_add_interface_def)

lemma load_entries_ok: "ns_ok ns \<Longrightarrow> ns_ok (load_entries ub ok i es ns)"
proof (induction ub ok i es ns rule: load_entries.induct)
  case (2 ub ok i name rs es ns)
  let ?load = "load_records ub (snd (ok i)) rs"
  show ?case
  proof (cases "32 \<le> length (ns_interfaces ns)")
    case True
    with 2(4) show ?thesis by simp
  next
    case room: False
    show ?thesis
    proof (cases "\<exists>s \<in> set (ns_interfaces ns). is_name s = name")
      case True
      have "ns_ok (ns\<lparr>ns_interfaces := map_first (\<lambda>s. is_name s = name) ?load (ns_interfaces ns)\<rparr>)"
        using 2(4) map_first_ok [of "ns_interfaces ns" iface_ok ?load "\<lambda>s. is_name s = name"] load_records_ok
        by (simp add: ns_ok_def)
      from 2(1) [OF room True this] room True show ?thesis by simp
    next
      case new: False
      show ?thesis
      proof (cases "fst (ok i)")
        case True
        let ?ns1 = "ns\<lparr>ns_interfaces := ns_interfaces ns @ [new_interface name]\<rparr>"
        have "ns_ok (?ns1\<lparr>ns_interfaces := ns_interfaces ns @ [?load (new_interface name)]\<rparr>)"
          using 2(4) room new_interface_ok [of name] load_records_ok by (auto simp: ns_ok_def)
        with 2(3) [OF room new, of 0 ?ns1] room new True show ?thesis by (simp add: add_new update_last_append)
      next
        case False
        with 2(2) [OF room new, of "-1" ns] 2(4) room new show ?thesis by (simp add: add_new)
      qed
    qed
  qed
qed simp_all

lemma load_ok: "ns_ok ns \<Longrightarrow> ns_ok (snd (netstatic_load ub ok parse malloc_ok content ns))"
  using load_entries_ok [of "load_config _ ns"]
  by (auto simp: netstatic_load_def load_config_def ns_ok_def Let_def split: option.splits cjson.splits)

lemma worker_ok: "ns_ok ns \<Longrightarrow> \<exists>ns' snap l. worker_step ub wt last_save ns = Some (ns', snap, l) \<and> ns_ok ns'"
  using netstatic_collect_ok [of ns "wt_collect wt" "wt_file wt"] cleanup_ok
  by (auto simp: worker_step_def Let_def)

text \<open>A step is one critical section of the worker or of a caller.\<close>

inductive ns_step :: "netstatic \<Rightarrow> netstatic \<Rightarrow> bool" where
  work: "worker_step ub wt last_save ns = Some (ns', snap, l) \<Longrightarrow> ns_step ns ns'"
| add: "netstatic_add_interface ok name ns = (rc, ns') \<Longrightarrow> ns_step ns ns'"
| remove: "netstatic_remove_interface name ns = (rc, ns') \<Longrightarrow> ns_step ns ns'"
| start: "netstatic_start (netstatic_load ub ok parse malloc_ok content) create_ok ns = (rc, ns') \<Longrightarrow> ns_step ns ns'"
| stop: "netstatic_stop mem_ok ns = (ns', snap) \<Longrightarrow> ns_step ns ns'"

inductive ns_reachable :: "netstatic \<Rightarrow> bool" where
  create: "netstatic_create calloc_ok path = Some ns \<Longrightarrow> ns_reachable ns"
| step: "ns_reachable ns \<Longrightarrow> ns_step ns ns' \<Longrightarrow> ns_reachable ns'"

lemma step_ok: "ns_step ns ns' \<Longrightarrow> ns_ok ns \<Longrightarrow> ns_ok ns'"
proof (induction rule: ns_step.induct)
  case (work ub wt last_save ns ns' snap l)
  with worker_ok [of ns ub wt last_save] show ?case by auto
next
  case (add ok name ns rc ns')
  with add_ok [of ns ok name] show ?case by simp
next
  case (remove name ns rc ns')
  with remove_ok [of ns name] show ?case by simp
next
  case (start ub ok parse malloc_ok content create_ok ns rc ns')
  with load_ok [of ns ub ok parse malloc_ok content] show ?case
    by (auto simp: netstatic_start_def ns_ok_def Let_def split: if_splits)
next
  case (stop mem_ok ns ns' snap)
  then show ?case by (auto simp: netstatic_stop_def ns_ok_def split: if_splits)
qed

lemma reachable_ns_ok: "ns_reachable ns \<Longrightarrow> ns_ok ns"
proof (induction rule: ns_reachable.induct)
  case (create calloc_ok path ns)
  then show ?case by (auto simp: netstatic_create_def ns_ok_def split: if_splits)
qed (rule step_ok)

text \<open>C23. Whatever is collected, loaded, added or removed, and whichever allocations fail, there are at most 32
  interfaces, every name fits, no count exceeds its array, and a further turn of the worker never moves or stores
  a sample outside it.\<close>

theorem traffic_memory_safe:
  assumes "ns_reachable ns"
  shows "ns_ok ns \<and> (\<exists>ns' snap l. worker_step ub wt last_save ns = Some (ns', snap, l) \<and> ns_ok ns')"
  using reachable_ns_ok [OF assms] worker_ok by blast

definition sample_turn :: worker_turn where
  "sample_turn = \<lparr>wt_collect = (\<lambda>i. (True, 1700000000)), wt_file = Some [], wt_now = 1700000000, wt_mem_ok = True\<rparr>"

theorem traffic_memory_safe_witness:
  "\<exists>ns ns' snap l. ns_reachable ns \<and> worker_step (\<lambda>x. 0) sample_turn 0 ns = Some (ns', snap, l) \<and> ns_ok ns'"
proof -
  obtain ns where c: "netstatic_create True None = Some ns" by (simp add: netstatic_create_def)
  have r: "ns_reachable ns" by (rule ns_reachable.create [OF c])
  from traffic_memory_safe [OF r, of "\<lambda>x. 0" sample_turn 0] r show ?thesis by blast
qed

section \<open>What is counted\<close>

text \<open>The samples are a window of the last \<open>MAX_SAMPLES\<close> readings, as long as allocations succeed.\<close>

definition window_inv :: "interface_stats \<Rightarrow> bool" where
  "window_inv s \<longleftrightarrow> iface_ok s \<and> length (is_data s) \<le> MAX_SAMPLES"

definition push_sample :: "interface_stats \<Rightarrow> traffic_data \<Rightarrow> interface_stats" where
  "push_sample s d = the (record_sample True d s)"

lemma window_inv_iff: "window_inv s \<longleftrightarrow> iface_ok s \<and> window s = MAX_SAMPLES"
  by (auto simp: window_inv_def window_def)

lemma push_facts:
  assumes "window_inv s"
  shows "window_inv (push_sample s d) \<and> samples (push_sample s d) = last_n MAX_SAMPLES (samples s @ [d])
     \<and> record_sample True d s = Some (push_sample s d)
     \<and> is_last_tx (push_sample s d) = is_last_tx s \<and> is_last_rx (push_sample s d) = is_last_rx s"
proof -
  have "iface_ok s" using assms by (simp add: window_inv_iff)
  then show ?thesis
    by (rule record_ok [where ok = True and d = d]) (use assms in \<open>simp add: window_inv_iff push_sample_def\<close>)
qed

lemma window_bound: "window_inv s \<Longrightarrow> length (samples s) \<le> MAX_SAMPLES"
  by (auto simp: window_inv_def iface_ok_def samples_def)

interpretation traffic_w: log_window push_sample samples window_inv MAX_SAMPLES
  by unfold_locales (simp_all add: push_facts window_bound, simp add: MAX_SAMPLES_def)

text \<open>A run of readings of the counters of one interface.\<close>

fun collect_readings :: "(u64 \<times> u64 \<times> u64) list \<Rightarrow> interface_stats \<Rightarrow> interface_stats option" where
  "collect_readings [] s = Some s"
| "collect_readings ((time, tx, rx) # rs) s = Option.bind (collect_interface True time tx rx s) (collect_readings rs)"

definition traffic_total :: "(traffic_data \<Rightarrow> u64) \<Rightarrow> interface_stats \<Rightarrow> nat" where
  "traffic_total get s = sum_list (map (\<lambda>d. unat (get d)) (samples s))"

lemma delta_value: "0 < prev \<Longrightarrow> prev \<le> now \<Longrightarrow> unat (counter_delta prev now) = unat now - unat prev \<and> unat prev \<le> unat now"
  by (simp add: counter_delta_def unat_sub word_le_nat_alt)

lemma one_reading:
  assumes "window_inv s" "length (samples s) < MAX_SAMPLES"
  obtains s' where "collect_interface True time tx rx s = Some s'" "window_inv s'" "is_last_tx s' = tx" "is_last_rx s' = rx"
    "samples s' = samples s @ [\<lparr>td_timestamp = time, td_tx = counter_delta (is_last_tx s) tx, td_rx = counter_delta (is_last_rx s) rx\<rparr>]"
proof -
  let ?s = "s\<lparr>is_last_tx := tx, is_last_rx := rx\<rparr>"
  let ?d = "\<lparr>td_timestamp = time, td_tx = counter_delta (is_last_tx s) tx, td_rx = counter_delta (is_last_rx s) rx\<rparr>"
  have "window_inv ?s" "samples ?s = samples s" using assms(1) by (simp_all add: window_inv_def iface_ok_def samples_def)
  with push_facts [of ?s ?d] assms(2) show ?thesis
    by (intro that [of "push_sample ?s ?d"]) (simp_all add: collect_interface_def)
qed

lemma readings_counted:
  assumes "window_inv s" "length (samples s) + length rs \<le> MAX_SAMPLES" "0 < is_last_tx s" "0 < is_last_rx s"
    "sorted (is_last_tx s # map (\<lambda>r. fst (snd r)) rs)" "sorted (is_last_rx s # map (\<lambda>r. snd (snd r)) rs)"
  shows "\<exists>s'. collect_readings rs s = Some s'
     \<and> traffic_total td_tx s' + unat (is_last_tx s) = traffic_total td_tx s + unat (last (is_last_tx s # map (\<lambda>r. fst (snd r)) rs))
     \<and> traffic_total td_rx s' + unat (is_last_rx s) = traffic_total td_rx s + unat (last (is_last_rx s # map (\<lambda>r. snd (snd r)) rs))"
  using assms
proof (induction rs arbitrary: s)
  case (Cons r rs)
  obtain time tx rx where r: "r = (time, tx, rx)" by (cases r)
  have room: "length (samples s) < MAX_SAMPLES" using Cons.prems(2) by simp
  obtain s1 where s1: "collect_interface True time tx rx s = Some s1" "window_inv s1" "is_last_tx s1 = tx" "is_last_rx s1 = rx"
    "samples s1 = samples s @ [\<lparr>td_timestamp = time, td_tx = counter_delta (is_last_tx s) tx, td_rx = counter_delta (is_last_rx s) rx\<rparr>]"
    by (rule one_reading [OF Cons.prems(1) room])
  have le: "is_last_tx s \<le> tx" "is_last_rx s \<le> rx" using Cons.prems(5,6) r by simp_all
  have "\<exists>s'. collect_readings rs s1 = Some s'
     \<and> traffic_total td_tx s' + unat tx = traffic_total td_tx s1 + unat (last (tx # map (\<lambda>r. fst (snd r)) rs))
     \<and> traffic_total td_rx s' + unat rx = traffic_total td_rx s1 + unat (last (rx # map (\<lambda>r. snd (snd r)) rs))"
    using Cons.IH [of s1] Cons.prems s1 r le by (auto simp: order_less_le_trans)
  then obtain s' where s': "collect_readings rs s1 = Some s'"
     "traffic_total td_tx s' + unat tx = traffic_total td_tx s1 + unat (last (tx # map (\<lambda>r. fst (snd r)) rs))"
     "traffic_total td_rx s' + unat rx = traffic_total td_rx s1 + unat (last (rx # map (\<lambda>r. snd (snd r)) rs))" by blast
  have t: "traffic_total td_tx s1 + unat (is_last_tx s) = traffic_total td_tx s + unat tx" "traffic_total td_rx s1 + unat (is_last_rx s) = traffic_total td_rx s + unat rx"
    using delta_value [OF Cons.prems(3) le(1)] delta_value [OF Cons.prems(4) le(2)] s1(5) by (simp_all add: traffic_total_def)
  from s' t s1(1) show ?case by (intro exI [of _ s']) (simp add: r)
qed simp



text \<open>The month's totals are the sums of its samples, saturated at \<open>UINT64_MAX\<close>.\<close>

lemma u64_bound: "unat (x :: u64) \<le> u64_max"
proof -
  have "unat x < 2 ^ LENGTH(64)" by (rule unsigned_less)
  then show ?thesis by (simp add: u64_max_def)
qed

lemma unat_u64_max: "unat (of_nat u64_max :: u64) = u64_max"
  by (simp add: u64_max_def unat_of_nat)

lemma sat_add_value: "unat (sat_add x y) = min u64_max (unat x + unat y)"
proof -
  have "unat (of_nat u64_max - x) = u64_max - unat x"
    using unat_sub [of x "of_nat u64_max"] u64_bound [of x] by (simp add: unat_u64_max word_le_nat_alt)
  then have c: "y > of_nat u64_max - x \<longleftrightarrow> u64_max < unat x + unat y"
    using u64_bound [of x] by (auto simp: word_less_nat_alt)
  show ?thesis
  proof (cases "u64_max < unat x + unat y")
    case True
    with c show ?thesis by (simp add: sat_add_def unat_u64_max)
  next
    case False
    then have "unat (x + y) = unat x + unat y" by (intro unat_add_lem [THEN iffD1]) (simp add: u64_max_def)
    with False c show ?thesis by (simp add: sat_add_def)
  qed
qed

lemma add_month_value:
  "add_month month current ds tx rx = (tx', rx') \<Longrightarrow>
     unat tx' = min u64_max (unat tx + sum_list (map (\<lambda>d. unat (td_tx d)) (filter (\<lambda>d. month (td_timestamp d) = current) ds)))
     \<and> unat rx' = min u64_max (unat rx + sum_list (map (\<lambda>d. unat (td_rx d)) (filter (\<lambda>d. month (td_timestamp d) = current) ds)))"
proof (induction ds arbitrary: tx rx)
  case Nil
  then show ?case using u64_bound [of tx] u64_bound [of rx] by auto
next
  case (Cons d ds)
  show ?case
  proof (cases "month (td_timestamp d) = current")
    case True
    with Cons.prems have "add_month month current ds (sat_add tx (td_tx d)) (sat_add rx (td_rx d)) = (tx', rx')" by simp
    from Cons.IH [OF this] True show ?thesis by (simp add: sat_add_value min_def)
  qed (use Cons in simp)
qed

text \<open>The monthly totals of an interface are the sums over its samples of the current month, and \<open>UINT64_MAX\<close>
  when a sum does not fit: the addition never wraps.\<close>

theorem monthly_traffic_sum:
  assumes "find (\<lambda>s. is_name s = iface) (ns_interfaces ns) = Some s"
  shows "(case netstatic_get_monthly_traffic month now iface ns of (tx, rx) \<Rightarrow>
     let this_month = filter (\<lambda>d. month (td_timestamp d) = month now) (samples s)
     in unat tx = min u64_max (sum_list (map (\<lambda>d. unat (td_tx d)) this_month))
        \<and> unat rx = min u64_max (sum_list (map (\<lambda>d. unat (td_rx d)) this_month)))"
  using add_month_value [of month "month now" "samples s" 0 0] assms
  by (simp add: netstatic_get_monthly_traffic_def Let_def split: prod.splits)

theorem monthly_traffic_sum_witness:
  "\<exists>ns tx rx. netstatic_get_monthly_traffic (\<lambda>t. (0, 0)) 0 ''eth0'' ns = (tx, rx) \<and> unat tx = u64_max \<and> unat rx = 3"
proof -
  let ?s = "(new_interface ''eth0'')\<lparr>is_data := \<lparr>td_timestamp = 1, td_tx = of_nat u64_max, td_rx = 1\<rparr>
    # \<lparr>td_timestamp = 2, td_tx = 5, td_rx = 2\<rparr> # replicate 1022 zero_data, is_count := 2\<rparr>"
  let ?ns = "\<lparr>ns_interfaces = [?s], ns_preserve_days = 31, ns_detect_interval = 2, ns_save_interval = 600,
        ns_save_path = ''/tmp/n'', ns_running = False\<rparr>"
  have "find (\<lambda>s. is_name s = ''eth0'') (ns_interfaces ?ns) = Some ?s" by (simp add: new_interface_def)
  from monthly_traffic_sum [OF this, of "\<lambda>t. (0, 0)" 0]
  have "unat (fst (netstatic_get_monthly_traffic (\<lambda>t. (0, 0)) 0 ''eth0'' ?ns)) = u64_max
     \<and> unat (snd (netstatic_get_monthly_traffic (\<lambda>t. (0, 0)) 0 ''eth0'' ?ns)) = 3"
    by (simp add: samples_def unat_u64_max split: prod.splits) (simp add: u64_max_def)
  then show ?thesis by (metis prod.collapse)
qed

section \<open>Retention\<close>

lemma sorted_filter_dropWhile:
  "sorted (map f xs) \<Longrightarrow> dropWhile (\<lambda>x. f x < c) xs = filter (\<lambda>x. (c :: 'a :: linorder) \<le> f x) xs"
proof (induction xs)
  case (Cons x xs)
  show ?case
  proof (cases "f x < c")
    case False
    with Cons.prems have "\<forall>y \<in> set (x # xs). c \<le> f y" by auto
    then show ?thesis using False by (simp add: filter_id_conv)
  qed (use Cons in auto)
qed simp

lemma wrapped_cutoff: "now < secs \<Longrightarrow> t \<le> now \<Longrightarrow> t < now - (secs :: u64)"
proof -
  assume "now < secs" "t \<le> now"
  then have n: "unat now < unat secs" "unat t \<le> unat now" by (simp_all add: word_less_nat_alt word_le_nat_alt)
  have "unat secs < 2 ^ LENGTH(64)" by (rule unsigned_less)
  with n have "unat (now - secs) = 2 ^ 64 + unat now - unat secs" by (simp add: unat_sub_if_size word_size word_le_nat_alt)
  with n \<open>unat secs < 2 ^ LENGTH(64)\<close> show ?thesis by (simp add: word_less_nat_alt)
qed

text \<open>Retention: with samples in the order of their times, exactly those of the last \<open>data_preserve_days\<close> are kept, at most
  \<open>MAX_SAMPLES\<close> of them and in order.  Defect: a period longer than the time since 1970 wraps around and every
  sample is deleted.\<close>

theorem retention_keeps_recent:
  assumes "ns_ok ns" "s \<in> set (ns_interfaces ns)" "sorted (map td_timestamp (samples s))"
    "\<forall>d \<in> set (samples s). td_timestamp d \<le> now" "secs = u64_of_double ub (ns_preserve_days ns * 86400)"
  shows "\<exists>s' \<in> set (ns_interfaces (netstatic_cleanup_old_data ub now ns)). is_name s' = is_name s
     \<and> samples s' = (if secs \<le> now then last_n MAX_SAMPLES (filter (\<lambda>d. now - secs \<le> td_timestamp d) (samples s)) else [])"
proof
  let ?s = "cleanup_interface (now - secs) s"
  have ok: "iface_ok s" using assms(1,2) by (simp add: ns_ok_def)
  show "?s \<in> set (ns_interfaces (netstatic_cleanup_old_data ub now ns))"
    using assms(2) by (simp add: netstatic_cleanup_old_data_def Let_def assms(5))
  have "filter (\<lambda>d. now - secs \<le> td_timestamp d) (samples s) = []" if "\<not> secs \<le> now"
    using wrapped_cutoff [of now secs] that assms(4) by (auto simp: filter_empty_conv not_le)
  then show "is_name ?s = is_name s
     \<and> samples ?s = (if secs \<le> now then last_n MAX_SAMPLES (filter (\<lambda>d. now - secs \<le> td_timestamp d) (samples s)) else [])"
    using cleanup_samples [OF ok, of "now - secs"] sorted_filter_dropWhile [OF assms(3), of "now - secs"] by simp
qed

definition sample_stats :: interface_stats where
  "sample_stats = (new_interface ''eth0'')\<lparr>is_data := \<lparr>td_timestamp = 1000, td_tx = 10, td_rx = 1\<rparr>
     # \<lparr>td_timestamp = 1700000000, td_tx = 5, td_rx = 2\<rparr> # replicate 1022 zero_data, is_count := 2\<rparr>"

definition sample_static :: netstatic where
  "sample_static = \<lparr>ns_interfaces = [sample_stats], ns_preserve_days = 31, ns_detect_interval = 2, ns_save_interval = 600,
     ns_save_path = ''/tmp/n'', ns_running = False\<rparr>"

lemma sample_samples: "samples sample_stats = [\<lparr>td_timestamp = 1000, td_tx = 10, td_rx = 1\<rparr>, \<lparr>td_timestamp = 1700000000, td_tx = 5, td_rx = 2\<rparr>]"
  by (simp add: samples_def sample_stats_def)

lemma sample_static_ok: "ns_ok sample_static" "ns_interfaces sample_static = [sample_stats]"
  by (simp_all add: ns_ok_def iface_ok_def sample_static_def sample_stats_def new_interface_def)

theorem retention_keeps_recent_witness:
  "\<exists>s'. ns_interfaces (netstatic_cleanup_old_data (\<lambda>x. 0) 1700000100 sample_static) = [s']
     \<and> samples s' = [\<lparr>td_timestamp = 1700000000, td_tx = 5, td_rx = 2\<rparr>]"
proof -
  have secs: "u64_of_double (\<lambda>x. 0) (ns_preserve_days sample_static * 86400) = 2678400"
    by (simp add: u64_of_double_def sample_static_def)
  obtain s' where one: "ns_interfaces (netstatic_cleanup_old_data (\<lambda>x. 0) 1700000100 sample_static) = [s']"
    by (simp add: netstatic_cleanup_old_data_def sample_static_ok Let_def)
  have "\<exists>s' \<in> set (ns_interfaces (netstatic_cleanup_old_data (\<lambda>x. 0) 1700000100 sample_static)). is_name s' = is_name sample_stats
     \<and> samples s' = (if (2678400 :: u64) \<le> 1700000100 then last_n MAX_SAMPLES
         (filter (\<lambda>d. 1700000100 - 2678400 \<le> td_timestamp d) (samples sample_stats)) else [])"
    by (rule retention_keeps_recent) (simp_all add: sample_static_ok sample_samples secs)
  then show ?thesis using one by (simp add: sample_samples MAX_SAMPLES_def)
qed

section \<open>Saving and loading\<close>

definition record_tree :: "traffic_data \<Rightarrow> cjson" where
  "record_tree d = CObject [(''timestamp'', CNumber (of_nat (unat (td_timestamp d)))), (''tx'', CNumber (of_nat (unat (td_tx d)))),
     (''rx'', CNumber (of_nat (unat (td_rx d))))]"

definition static_tree :: "netstatic \<Rightarrow> cjson" where
  "static_tree ns = CObject
     [(''config'', CObject [(''data_preserve_day'', CNumber (ns_preserve_days ns)), (''detect_interval'', CNumber (ns_detect_interval ns)),
        (''save_interval'', CNumber (ns_save_interval ns))]),
      (''interfaces'', CObject (map (\<lambda>s. (is_name s, CArray (map record_tree (samples s)))) (ns_interfaces ns)))]"

lemma strcaseeq_static:
  "\<not> strcaseeq ''tx'' ''timestamp''" "\<not> strcaseeq ''rx'' ''timestamp''" "\<not> strcaseeq ''rx'' ''tx''"
  "\<not> strcaseeq ''interfaces'' ''config''" "\<not> strcaseeq ''detect_interval'' ''data_preserve_day''"
  "\<not> strcaseeq ''save_interval'' ''data_preserve_day''" "\<not> strcaseeq ''save_interval'' ''detect_interval''"
  by code_simp+

lemma u64_double_exact: "u64_of_double ub (unsigned x) = x"
proof -
  have u: "(unsigned x :: rat) = of_nat (unat x)" by simp
  have "unat x < 2 ^ LENGTH(64)" by (rule unsigned_less)
  then have "unat x < 2 ^ 64" by simp
  then have "(of_nat (unat x) :: rat) < of_nat (2 ^ 64)" by (simp only: of_nat_less_iff)
  then have l: "(of_nat (unat x) :: rat) < 2 ^ 64" by (simp only: of_nat_power of_nat_numeral)
  have g: "(-1 :: rat) < of_nat (unat x)" using of_nat_0_le_iff [of "unat x", where ?'a = rat] by linarith
  have "(of_nat (unat x) :: rat) = of_int (int (unat x))" by (simp only: of_int_of_nat_eq)
  then have "trunc_rat (of_nat (unat x)) = int (unat x)" by (simp only: trunc_rat_of_int)
  with l g show ?thesis unfolding u64_of_double_def u by (simp only: simp_thms if_True) simp
qed

lemma record_fields:
  "u64_field ub (record_tree d) ''timestamp'' x = td_timestamp d" "u64_field ub (record_tree d) ''tx'' x = td_tx d"
  "u64_field ub (record_tree d) ''rx'' x = td_rx d"
  by (simp_all add: u64_field_def record_tree_def strcaseeq_static u64_double_exact)

lemma traffic_data_eta: "\<lparr>td_timestamp = td_timestamp d, td_tx = td_tx d, td_rx = td_rx d\<rparr> = d"
  by (cases d) simp

lemma fill_exact:
  "idx + length ds \<le> length data \<Longrightarrow> \<exists>data'. fill_records ub idx (map record_tree ds) data = (data', idx + length ds)
     \<and> length data' = length data \<and> take (idx + length ds) data' = take idx data @ ds"
proof (induction ds arbitrary: idx data)
  case (Cons d ds)
  let ?new = "data[idx := d]"
  have len: "Suc idx + length ds \<le> length ?new" "idx < length data" using Cons.prems by simp_all
  from Cons.IH [OF len(1)] obtain data' where
    "fill_records ub (Suc idx) (map record_tree ds) ?new = (data', Suc idx + length ds)" "length data' = length ?new"
    "take (Suc idx + length ds) data' = take (Suc idx) ?new @ ds" by blast
  moreover have "take (Suc idx) ?new = take idx data @ [d]" using len(2) by (simp add: take_Suc_conv_app_nth)
  ultimately show ?case using len(2) by (simp add: Let_def record_fields traffic_data_eta)
qed simp

lemma load_records_exact:
  assumes "length name \<le> 31"
  shows "samples (load_records ub True (map record_tree ds) (new_interface name)) = ds
     \<and> is_name (load_records ub True (map record_tree ds) (new_interface name)) = name"
proof (cases "ds = []")
  case True
  with assms show ?thesis by (simp add: load_records_def new_interface_def samples_def)
next
  case False
  let ?data = "if length ds > 1024 then replicate 1024 zero_data @ replicate (length ds - 1024) zero_data else replicate 1024 zero_data"
  have "0 + length ds \<le> length ?data" by simp
  from fill_exact [OF this] obtain data' where
    "fill_records ub 0 (map record_tree ds) ?data = (data', length ds)" "take (length ds) data' = ds" by auto
  with False assms show ?thesis by (auto simp: load_records_def new_interface_def samples_def Let_def)
qed

lemma load_entries_exact:
  assumes "\<forall>i. ok i = (True, True)" "\<forall>s \<in> set ss. length (is_name s) \<le> 31"
    "distinct (map is_name (ns_interfaces ns) @ map is_name ss)" "length (ns_interfaces ns) + length ss \<le> 32"
  shows "map (\<lambda>s. (is_name s, samples s))
      (ns_interfaces (load_entries ub ok i (map (\<lambda>s. (is_name s, CArray (map record_tree (samples s)))) ss) ns))
    = map (\<lambda>s. (is_name s, samples s)) (ns_interfaces ns @ ss)
    \<and> (\<exists>l. load_entries ub ok i (map (\<lambda>s. (is_name s, CArray (map record_tree (samples s)))) ss) ns = ns\<lparr>ns_interfaces := l\<rparr>)"
  using assms(2-4)
proof (induction ss arbitrary: i ns)
  case Nil
  show ?case by (auto intro: exI [of _ "ns_interfaces ns"])
next
  case (Cons s ss)
  let ?new = "load_records ub True (map record_tree (samples s)) (new_interface (is_name s))"
  let ?ns = "ns\<lparr>ns_interfaces := ns_interfaces ns @ [?new]\<rparr>"
  have new: "samples ?new = samples s" "is_name ?new = is_name s" using load_records_exact [of "is_name s"] Cons.prems(1) by simp_all
  have room: "\<not> 32 \<le> length (ns_interfaces ns)" "\<not> (\<exists>t \<in> set (ns_interfaces ns). is_name t = is_name s)"
    using Cons.prems(2,3) by (auto simp: image_iff)
  have run: "load_entries ub ok i (map (\<lambda>s. (is_name s, CArray (map record_tree (samples s)))) (s # ss)) ns
      = load_entries ub ok (i + 1) (map (\<lambda>s. (is_name s, CArray (map record_tree (samples s)))) ss) ?ns"
    using room by (simp add: add_new assms(1) update_last_append)
  have "distinct (map is_name (ns_interfaces ?ns) @ map is_name ss)" "length (ns_interfaces ?ns) + length ss \<le> 32"
    using Cons.prems(2,3) new(2) by auto
  with Cons.IH [of ?ns "i + 1"] Cons.prems(1) have
    "map (\<lambda>s. (is_name s, samples s)) (ns_interfaces (load_entries ub ok (i + 1) (map (\<lambda>s. (is_name s, CArray (map record_tree (samples s)))) ss) ?ns))
       = map (\<lambda>s. (is_name s, samples s)) (ns_interfaces ?ns @ ss)"
    "\<exists>l. load_entries ub ok (i + 1) (map (\<lambda>s. (is_name s, CArray (map record_tree (samples s)))) ss) ?ns = ?ns\<lparr>ns_interfaces := l\<rparr>" by auto
  then show ?case unfolding run using new by auto
qed

lemma all_some_texts: "\<exists>texts. all_some (map interface_text ss) = Some texts"
  by (induction ss) (auto simp: interface_text_def json_escape_eq)

lemma static_roundtrip:
  assumes "ns_ok ns" "distinct (map is_name (ns_interfaces ns))" "\<forall>i. ok i = (True, True)"
    "0 < ns_preserve_days ns" "0 < ns_detect_interval ns" "0 < ns_save_interval ns"
    "netstatic_create True (Some path) = Some ns0" "path \<noteq> []" "parse saved = Some (static_tree ns)"
  shows "\<exists>ns1. netstatic_load ub ok parse True (Some saved) ns0 = (0, ns1)
     \<and> map (\<lambda>s. (is_name s, samples s)) (ns_interfaces ns1) = map (\<lambda>s. (is_name s, samples s)) (ns_interfaces ns)
     \<and> ns_preserve_days ns1 = ns_preserve_days ns \<and> ns_detect_interval ns1 = ns_detect_interval ns
     \<and> ns_save_interval ns1 = ns_save_interval ns"
proof -
  define ns1 where "ns1 = load_config (static_tree ns) ns0"
  have ns0: "ns_interfaces ns0 = []" "ns_save_path ns0 \<noteq> []" using assms(7,8) by (auto simp: netstatic_create_def)
  have c: "ns_interfaces ns1 = []" "ns_preserve_days ns1 = ns_preserve_days ns" "ns_detect_interval ns1 = ns_detect_interval ns"
    "ns_save_interval ns1 = ns_save_interval ns"
    using assms(4-6) ns0(1)
    by (simp_all add: ns1_def load_config_def static_tree_def config_number_def positive_or_def strcaseeq_static Let_def)
  have "\<forall>s \<in> set (ns_interfaces ns). length (is_name s) \<le> 31" "length (ns_interfaces ns) \<le> 32"
    using assms(1) by (auto simp: ns_ok_def iface_ok_def)
  with load_entries_exact [OF assms(3), of "ns_interfaces ns" ns1 ub 0] assms(2) c
  show ?thesis
    using ns0(2) assms(9) unfolding ns1_def
    by (auto simp: netstatic_load_def Let_def static_tree_def strcaseeq_static)
qed

end
