(* ===== verification/HostInfo.thy ===== *)
theory HostInfo
  imports Config Utils "HOL-Library.Char_ord" "HOL-Library.List_Lexorder"
begin

text \<open>
  What the agent finds out about its host besides the measurements: the kind of virtualisation
  (\<open>src/utils/virtual.c\<close>), the graphics card (\<open>src/monitoring/gpu.c\<close>), and the message of the day a
  terminal shows (\<open>src/utils/motd.c\<close>).
\<close>

section \<open>Virtualisation\<close>

record host_env =
  he_exists :: "string \<Rightarrow> bool"
  he_file :: "string \<Rightarrow> string option"      \<comment> \<open>contents, when the file can be read\<close>
  he_vm :: string                           \<comment> \<open>output of \<open>systemd-detect-virt --vm\<close>\<close>
  he_lspci :: "(string \<times> int) option"
  he_cards :: "string list option"          \<comment> \<open>\<open>readdir\<close> of \<open>/sys/class/drm\<close>\<close>
  he_link :: "string \<Rightarrow> string option"
  he_scripts :: "(string \<times> bool \<times> bool) list option"   \<comment> \<open>name, executable, \<open>strdup\<close>\<close>
  he_run :: "string \<Rightarrow> (string \<times> int) option"

record virt_state =
  vs_type :: "string option"
  vs_vm :: "string option"

definition virt_init :: virt_state where "virt_init = \<lparr>vs_type = None, vs_vm = None\<rparr>"

definition has_word :: "string \<Rightarrow> string \<Rightarrow> bool" where "has_word k s \<longleftrightarrow> strstr k s \<noteq> None"

definition check_file_contains :: "host_env \<Rightarrow> string \<Rightarrow> string \<Rightarrow> bool" where
  "check_file_contains env path keyword = (case he_file env path of None \<Rightarrow> False | Some s \<Rightarrow> has_word keyword (take 4095 s))"

definition virt_vm_output :: "host_env \<Rightarrow> virt_state \<Rightarrow> string \<times> virt_state" where
  "virt_vm_output env st =
     (case vs_vm st of Some s \<Rightarrow> (s, st)
      | None \<Rightarrow> (take 255 (he_vm env), st\<lparr>vs_vm := Some (take 255 (he_vm env))\<rparr>))"

definition virt_detect_once :: "host_env \<Rightarrow> virt_state \<Rightarrow> string \<times> virt_state" where
  "virt_detect_once env st =
     (if he_exists env ''/.dockerenv'' then (''docker'', st)
      else if check_file_contains env ''/proc/1/cgroup'' ''docker'' \<or> check_file_contains env ''/proc/1/cgroup'' ''kubepods''
        then (''docker'', st)
      else if he_exists env ''/run/.containerenv'' then (''docker'', st)
      else if check_file_contains env ''/proc/1/cgroup'' ''lxc'' then (''lxc'', st)
      else if he_exists env ''/proc/vz/veinfo'' then (''openvz'', st)
      else case virt_vm_output env st of (vm, st') \<Rightarrow>
        if has_word ''kvm'' vm then (''kvm'', st')
        else if has_word ''qemu'' vm then (''qemu'', st')
        else if has_word ''vmware'' vm then (''vmware'', st')
        else if has_word ''oracle'' vm then (''virtualbox'', st')
        else if has_word ''microsoft'' vm then (''hyperv'', st')
        else if has_word ''xen'' vm then (''xen'', st')
        else if check_file_contains env ''/proc/cpuinfo'' ''QEMU'' \<or> check_file_contains env ''/proc/cpuinfo'' ''KVM''
          then (if check_file_contains env ''/proc/cpuinfo'' ''QEMU'' then ''qemu'' else ''kvm'', st')
        else if he_exists env ''/sys/class/dmi/id/product_name'' then
          (if check_file_contains env ''/sys/class/dmi/id/product_name'' ''VMware'' then ''vmware''
           else if check_file_contains env ''/sys/class/dmi/id/product_name'' ''VirtualBox'' then ''virtualbox''
           else if check_file_contains env ''/sys/class/dmi/id/product_name'' ''KVM'' then ''kvm'' else ''none'', st')
        else (''none'', st'))"

definition virt_detect :: "host_env \<Rightarrow> virt_state \<Rightarrow> string \<times> virt_state" where
  "virt_detect env st =
     (case vs_type st of Some t \<Rightarrow> (t, st)
      | None \<Rightarrow> (case virt_detect_once env st of (t, st') \<Rightarrow> (t, st'\<lparr>vs_type := Some t\<rparr>)))"

definition virt_is_container :: "host_env \<Rightarrow> virt_state \<Rightarrow> bool \<times> virt_state" where
  "virt_is_container env st =
     (case virt_detect env st of (t, st') \<Rightarrow> (t = ''docker'' \<or> t = ''lxc'' \<or> t = ''openvz'', st'))"

definition virt_is_vm :: "host_env \<Rightarrow> virt_state \<Rightarrow> bool \<times> virt_state" where
  "virt_is_vm env st =
     (case virt_detect env st of (t, st') \<Rightarrow>
        (t = ''kvm'' \<or> t = ''qemu'' \<or> t = ''vmware'' \<or> t = ''virtualbox'' \<or> t = ''hyperv'' \<or> t = ''xen'', st'))"

section \<open>Graphics card\<close>

definition virtual_drivers :: "string list" where
  "virtual_drivers = [''virtio-pci'', ''vmwgfx'', ''qxl'', ''cirrus'', ''vboxvideo'', ''hyperv_fb'']"

definition virtual_indicators :: "string list" where
  "virtual_indicators = [''VMware'', ''VirtualBox'', ''InnoTek'', ''Cirrus'', ''QXL'', ''Hyper-V'', ''virtio'']"

definition vendor_priority :: "(string \<times> nat) list" where
  "vendor_priority = [(''NVIDIA'', 0), (''Advanced Micro Devices'', 1), (''AMD'', 1), (''Intel'', 2), (''ARC'', 3),
     (''Qualcomm'', 4), (''Adreno'', 4)]"

definition is_virtual_driver :: "string \<Rightarrow> bool" where
  "is_virtual_driver d \<longleftrightarrow> d \<noteq> [] \<and> list_ex (\<lambda>k. has_word k d) virtual_drivers"

definition is_virtual_description :: "string \<Rightarrow> bool" where
  "is_virtual_description d \<longleftrightarrow> d \<noteq> [] \<and> list_ex (\<lambda>k. has_word k d) virtual_indicators"

definition get_vendor_priority :: "string \<Rightarrow> nat" where
  "get_vendor_priority d = (case List.find (\<lambda>(k, _). has_word k d) vendor_priority of Some (_, p) \<Rightarrow> p | None \<Rightarrow> 99)"

definition is_gpu_line :: "string \<Rightarrow> bool" where
  "is_gpu_line l \<longleftrightarrow> has_word ''VGA'' l \<or> has_word ''3D'' l \<or> has_word ''Display'' l"

definition extract_gpu_desc :: "string \<Rightarrow> nat \<Rightarrow> string option" where
  "extract_gpu_desc line desc_len =
     map_option (\<lambda>sep. takeWhile (\<lambda>c. c \<noteq> cr) (takeWhile (\<lambda>c. c \<noteq> lf) (strncpy_term desc_len (drop 2 sep))))
       (strstr '': '' line)"

text \<open>\<open>strtok_r\<close> with the newline: the non-empty lines.\<close>

function strtok_lines :: "string \<Rightarrow> string list" where
  "strtok_lines [] = []"
| "strtok_lines (c # s) =
     (if c = lf then strtok_lines s else (c # takeWhile (\<lambda>d. d \<noteq> lf) s) # strtok_lines (dropWhile (\<lambda>d. d \<noteq> lf) s))"
  by pat_completeness auto
termination
  by (relation "measure length") (auto simp: less_Suc_eq_le length_dropWhile_le)

text \<open>Best priority, description, found.\<close>

definition lspci_line :: "string \<Rightarrow> nat \<times> string \<times> bool \<Rightarrow> nat \<times> string \<times> bool" where
  "lspci_line line = (\<lambda>(best, desc, found).
     if \<not> is_gpu_line line then (best, desc, found)
     else case extract_gpu_desc line 256 of None \<Rightarrow> (best, desc, found)
       | Some d \<Rightarrow>
           if is_virtual_description d then (best, desc, found)
           else if get_vendor_priority d < best then (get_vendor_priority d, strncpy_term 256 d, True)
           else (best, desc, found))"

definition gpu_get_name_via_lspci :: "host_env \<Rightarrow> nat \<Rightarrow> string option" where
  "gpu_get_name_via_lspci env name_len =
     (case he_lspci env of None \<Rightarrow> None
      | Some (out, code) \<Rightarrow>
          let output = take 4095 out
          in if code \<noteq> 0 \<or> output = [] then None
             else case fold lspci_line (strtok_lines output) (100, [], False) of
               (_, desc, found) \<Rightarrow> if found then Some (strncpy_term name_len desc) else None)"

definition read_driver_name :: "host_env \<Rightarrow> string \<Rightarrow> nat \<Rightarrow> string option" where
  "read_driver_name env link_path buf_len =
     map_option (\<lambda>target0. let target = take 511 target0
        in strncpy_term buf_len (case strrchr CHR ''/'' target of Some s \<Rightarrow> tl s | None \<Rightarrow> target)) (he_link env link_path)"

definition is_card_entry :: "string \<Rightarrow> bool" where
  "is_card_entry name \<longleftrightarrow> starts_with ''card'' name \<and> drop 4 name \<noteq> [] \<and> list_all c_isdigit (drop 4 name)"

definition soc_name :: "string \<Rightarrow> string option" where
  "soc_name p =
     (if has_word ''adreno'' p \<or> has_word ''qcom,'' p then Some ''Qualcomm Adreno''
      else if has_word ''mali'' p then Some ''ARM Mali''
      else if has_word ''brcm,bcm'' p \<or> has_word ''vc4'' p then Some ''Broadcom VideoCore''
      else if has_word ''allwinner'' p then Some ''Allwinner GPU''
      else if has_word ''nvidia,tegra'' p \<or> has_word ''tegra'' p then Some ''NVIDIA Tegra''
      else None)"

text \<open>The property of the device tree is a sequence of strings, each ended by a NUL.\<close>

function soc_loop :: "string \<Rightarrow> string option" where
  "soc_loop p =
     (if p = [] then None
      else case soc_name (takeWhile (\<lambda>c. c \<noteq> nul) p) of Some n \<Rightarrow> Some n
        | None \<Rightarrow> soc_loop (drop (Suc (length (takeWhile (\<lambda>c. c \<noteq> nul) p))) p))"
  by pat_completeness auto
termination
  by (relation "measure length") auto

declare soc_loop.simps [simp del]

definition detect_soc_gpu :: "host_env \<Rightarrow> string \<Rightarrow> nat \<Rightarrow> string option" where
  "detect_soc_gpu env card_path name_len =
     Option.bind (he_file env (card_path @ ''/device/of_node/compatible''))
       (\<lambda>s. map_option (strncpy_term name_len) (soc_loop (take 511 s)))"

definition drm_dir :: string where "drm_dir = ''/sys/class/drm''"

text \<open>The first usable card, and how many were virtual before it.\<close>

fun sysfs_loop :: "host_env \<Rightarrow> string list \<Rightarrow> nat \<Rightarrow> string option \<times> nat" where
  "sysfs_loop env [] virtual_count = (None, virtual_count)"
| "sysfs_loop env (e # es) virtual_count =
     (if \<not> is_card_entry e then sysfs_loop env es virtual_count
      else let card_path = drm_dir @ ''/'' @ e
           in case read_driver_name env (card_path @ ''/device/driver'') 64 of
                None \<Rightarrow> sysfs_loop env es virtual_count
              | Some driver \<Rightarrow>
                  if is_virtual_driver driver then sysfs_loop env es (Suc virtual_count)
                  else (Some (case detect_soc_gpu env card_path 128 of Some n \<Rightarrow> n | None \<Rightarrow> strncpy_term 128 driver), virtual_count))"

definition gpu_get_name_via_sysfs :: "host_env \<Rightarrow> nat \<Rightarrow> string option" where
  "gpu_get_name_via_sysfs env name_len =
     (case he_cards env of None \<Rightarrow> None
      | Some es \<Rightarrow> (case sysfs_loop env es 0 of
            (Some n, _) \<Rightarrow> Some (strncpy_term name_len n)
          | (None, v) \<Rightarrow> if v > 0 then Some (strncpy_term name_len ''None'') else None))"

definition gpu_get_name :: "host_env \<Rightarrow> nat \<Rightarrow> string option" where
  "gpu_get_name env name_len =
     (if name_len = 0 then None
      else case gpu_get_name_via_lspci env name_len of Some n \<Rightarrow> Some n
        | None \<Rightarrow> (case gpu_get_name_via_sysfs env name_len of Some n \<Rightarrow> Some n
            | None \<Rightarrow> Some (strncpy_term name_len ''None'')))"

record gpu_info = gi_name :: string  gi_driver :: string  gi_count :: int

fun first_driver :: "host_env \<Rightarrow> string list \<Rightarrow> string" where
  "first_driver env [] = []"
| "first_driver env (e # es) =
     (if \<not> is_card_entry e then first_driver env es
      else case read_driver_name env (drm_dir @ ''/'' @ e @ ''/device/driver'') 64 of None \<Rightarrow> first_driver env es
        | Some d \<Rightarrow> if is_virtual_driver d then first_driver env es else strncpy_term 64 d)"

definition gpu_get_info :: "host_env \<Rightarrow> gpu_info" where
  "gpu_get_info env =
     (let name = (case gpu_get_name env 128 of Some n \<Rightarrow> n | None \<Rightarrow> strncpy_term 128 ''None'')
      in \<lparr>gi_name = name, gi_driver = (case he_cards env of Some es \<Rightarrow> first_driver env es | None \<Rightarrow> []),
          gi_count = if name = ''None'' then 0 else 1\<rparr>)"

section \<open>Message of the day\<close>

text \<open>At most 64 scripts that are executable and do not begin with a dot, in the order of the directory.\<close>

fun motd_collect :: "(string \<times> bool \<times> bool) list \<Rightarrow> string list \<Rightarrow> string list" where
  "motd_collect [] acc = acc"
| "motd_collect ((name, executable, dup_ok) # es) acc =
     (if 64 \<le> length acc then acc
      else motd_collect es
        (if (case name of c # _ \<Rightarrow> c = CHR ''.'' | [] \<Rightarrow> False) \<or> \<not> executable \<or> \<not> dup_ok then acc else acc @ [name]))"

text \<open>An output that does not fit is left out, the next one is tried.\<close>

definition motd_append :: "nat \<Rightarrow> string \<Rightarrow> string \<Rightarrow> string" where
  "motd_append output_size acc s = (if length acc + length s < output_size - 1 then acc @ s else acc)"

definition script_output :: "host_env \<Rightarrow> string \<Rightarrow> string" where
  "script_output env name =
     (case he_run env (''/etc/update-motd.d'' @ ''/'' @ name) of None \<Rightarrow> []
      | Some (out, code) \<Rightarrow> if code = 0 then take 4095 out else [])"

definition motd_execute_scripts :: "host_env \<Rightarrow> nat \<Rightarrow> string option" where
  "motd_execute_scripts env output_size =
     (if output_size = 0 then None
      else case he_scripts env of None \<Rightarrow> Some []
        | Some es \<Rightarrow> Some (foldl (motd_append output_size) [] (map (script_output env) (sort (motd_collect es [])))))"

definition motd_read_file :: "host_env \<Rightarrow> nat \<Rightarrow> int \<times> string" where
  "motd_read_file env output_size =
     (if output_size = 0 then (-1, [])
      else if \<not> he_exists env ''/etc/motd'' then (-2, [])
      else case he_file env ''/etc/motd'' of None \<Rightarrow> (-1, []) | Some s \<Rightarrow> (0, take (output_size - 1) s))"

definition motd_get_content :: "host_env \<Rightarrow> nat \<Rightarrow> int \<times> string" where
  "motd_get_content env output_size =
     (if output_size = 0 then (-1, [])
      else let out1 = (case motd_execute_scripts env 8192 of None \<Rightarrow> []
                 | Some s \<Rightarrow> if s \<noteq> [] then motd_append output_size [] s else []);
               out2 = (case motd_read_file env 8192 of (rc, s) \<Rightarrow>
                 if rc = 0 \<and> s \<noteq> [] \<and> length out1 + length s < output_size - 1 then
                   out1 @ (if out1 \<noteq> [] \<and> last out1 \<noteq> lf then [lf] else []) @ s
                 else out1)
           in (if out2 \<noteq> [] then 0 else -2, out2))"

section \<open>Properties\<close>

text \<open>The detection as a table: the first row whose test holds.\<close>

definition virt_table :: "host_env \<Rightarrow> string \<Rightarrow> (bool \<times> string) list" where
  "virt_table env vm =
     (let c = check_file_contains env; f = he_exists env;
          cg = ''/proc/1/cgroup''; cpu = ''/proc/cpuinfo''; dmi = ''/sys/class/dmi/id/product_name''
      in [(f ''/.dockerenv'', ''docker''), (c cg ''docker'', ''docker''), (c cg ''kubepods'', ''docker''),
          (f ''/run/.containerenv'', ''docker''), (c cg ''lxc'', ''lxc''), (f ''/proc/vz/veinfo'', ''openvz''),
          (has_word ''kvm'' vm, ''kvm''), (has_word ''qemu'' vm, ''qemu''), (has_word ''vmware'' vm, ''vmware''),
          (has_word ''oracle'' vm, ''virtualbox''), (has_word ''microsoft'' vm, ''hyperv''), (has_word ''xen'' vm, ''xen''),
          (c cpu ''QEMU'', ''qemu''), (c cpu ''KVM'', ''kvm''), (f dmi \<and> c dmi ''VMware'', ''vmware''),
          (f dmi \<and> c dmi ''VirtualBox'', ''virtualbox''), (f dmi \<and> c dmi ''KVM'', ''kvm''), (True, ''none'')])"

fun first_row :: "(bool \<times> string) list \<Rightarrow> string" where
  "first_row [] = []"
| "first_row ((b, t) # rows) = (if b then t else first_row rows)"

lemma first_row_in: "\<exists>r \<in> set rows. fst r \<Longrightarrow> first_row rows \<in> snd ` set rows"
  by (induction rows rule: first_row.induct) auto

lemma detect_once_table: "fst (virt_detect_once env st) = first_row (virt_table env (fst (virt_vm_output env st)))"
proof -
  obtain vm st' where vm: "virt_vm_output env st = (vm, st')" by force
  show ?thesis
    unfolding virt_detect_once_def virt_table_def Let_def vm prod.case fst_conv first_row.simps
    by (cases "he_exists env ''/.dockerenv''", simp, cases "check_file_contains env ''/proc/1/cgroup'' ''docker''", simp, cases
        "check_file_contains env ''/proc/1/cgroup'' ''kubepods''", simp, cases "he_exists env ''/run/.containerenv''", simp,
        cases "check_file_contains env ''/proc/1/cgroup'' ''lxc''", simp, cases "he_exists env ''/proc/vz/veinfo''", simp, cases
        "has_word ''kvm'' vm", simp, cases "has_word ''qemu'' vm", simp, cases "has_word ''vmware'' vm", simp, cases "has_word
        ''oracle'' vm", simp, cases "has_word ''microsoft'' vm", simp, cases "has_word ''xen'' vm", simp, cases
        "check_file_contains env ''/proc/cpuinfo'' ''QEMU''", simp, cases "check_file_contains env ''/proc/cpuinfo'' ''KVM''",
        simp, cases "he_exists env ''/sys/class/dmi/id/product_name''", simp, cases "check_file_contains env
        ''/sys/class/dmi/id/product_name'' ''VMware''", simp, cases "check_file_contains env ''/sys/class/dmi/id/product_name''
        ''VirtualBox''", simp, simp)
qed

definition container_types :: "string set" where "container_types = {''docker'', ''lxc'', ''openvz''}"
definition vm_types :: "string set" where
  "vm_types = {''kvm'', ''qemu'', ''vmware'', ''virtualbox'', ''hyperv'', ''xen''}"

lemma first_row_type: "first_row (virt_table env vm) \<in> insert ''none'' (container_types \<union> vm_types)"
  using first_row_in [of "virt_table env vm"] by (auto simp: virt_table_def Let_def container_types_def vm_types_def)

text \<open>The first detection gives the type of the first row of the table that holds; every later call gives the same
  type, whatever the machine looks like by then; and the type makes the machine a container, a virtual machine
  or neither, never both.\<close>

theorem virt_detection_stable:
  assumes "virt_detect env virt_init = (t, st)"
  shows "t = first_row (virt_table env (take 255 (he_vm env)))
       \<and> virt_detect env' st = (t, st)
       \<and> virt_is_container env' st = (t \<in> container_types, st) \<and> virt_is_vm env' st = (t \<in> vm_types, st)
       \<and> (t \<in> container_types \<longrightarrow> t \<notin> vm_types) \<and> (t \<notin> container_types \<union> vm_types \<longrightarrow> t = ''none'')"
proof -
  have t: "t = first_row (virt_table env (take 255 (he_vm env)))"
    using assms detect_once_table [of env virt_init]
    by (auto simp: virt_detect_def virt_init_def virt_vm_output_def split: prod.splits)
  have "vs_type st = Some t" using assms by (auto simp: virt_detect_def virt_init_def split: prod.splits)
  then have d: "virt_detect env' st = (t, st)" by (simp add: virt_detect_def)
  have "t \<in> insert ''none'' (container_types \<union> vm_types)" unfolding t by (rule first_row_type)
  moreover have "container_types \<inter> vm_types = {}" by (auto simp: container_types_def vm_types_def)
  ultimately show ?thesis using t d
    by (auto simp: virt_is_container_def virt_is_vm_def container_types_def vm_types_def)
qed

text \<open>The descriptions \<open>lspci\<close> offers, and the selection as a library function: the first with the least priority
  number.\<close>

definition gpu_candidate :: "string \<Rightarrow> string option" where
  "gpu_candidate line =
     (if is_gpu_line line then
        case extract_gpu_desc line 256 of None \<Rightarrow> None | Some d \<Rightarrow> if is_virtual_description d then None else Some d
      else None)"

lemma candidate_short: "gpu_candidate line = Some d \<Longrightarrow> length d < 256"
proof -
  assume "gpu_candidate line = Some d"
  then obtain t where "d = takeWhile (\<lambda>c. c \<noteq> cr) (takeWhile (\<lambda>c. c \<noteq> lf) (strncpy_term 256 t))"
    by (auto simp: gpu_candidate_def extract_gpu_desc_def split: if_splits option.splits)
  then have "length d \<le> length (strncpy_term 256 t)" by (auto intro: order_trans [OF length_takeWhile_le])
  with length_strncpy_term [of 256 t] show ?thesis by simp
qed

lemma lspci_candidate:
  "lspci_line line (best, desc, found) = (case gpu_candidate line of None \<Rightarrow> (best, desc, found)
     | Some d \<Rightarrow> if get_vendor_priority d < best then (get_vendor_priority d, d, True) else (best, desc, found))"
  using candidate_short [of line]
  by (auto simp: lspci_line_def gpu_candidate_def strncpy_term_id split: option.splits)

lemma fold_lspci:
  "fold lspci_line ls (best, desc, found) =
     (case List.map_filter gpu_candidate ls of [] \<Rightarrow> (best, desc, found)
      | cs \<Rightarrow> let m = arg_min_list get_vendor_priority cs
              in if get_vendor_priority m < best then (get_vendor_priority m, m, True) else (best, desc, found))"
proof (induction ls arbitrary: best desc found)
  case (Cons l ls)
  show ?case
    by (cases "gpu_candidate l"; cases "List.map_filter gpu_candidate ls")
      (auto simp: lspci_candidate Cons.IH List.map_filter_simps Let_def)
qed (simp add: List.map_filter_simps)

lemma priority_bound: "get_vendor_priority d < 100"
  by (auto simp: get_vendor_priority_def vendor_priority_def)

text \<open>From the output of \<open>lspci\<close> the card with the best vendor is chosen: of all lines that describe a graphics
  card that is not virtual, the first with the least priority number gives the name (cut to the buffer), and
  only when there is none the other sources are asked.\<close>

theorem gpu_best_vendor:
  assumes "he_lspci env = Some (out, 0)" "out \<noteq> []" "0 < n"
    "cs = List.map_filter gpu_candidate (strtok_lines (take 4095 out))"
  shows "gpu_get_name_via_lspci env n = (if cs = [] then None else Some (strncpy_term n (arg_min_list get_vendor_priority cs)))
       \<and> (cs \<noteq> [] \<longrightarrow> gpu_get_name env n = Some (strncpy_term n (arg_min_list get_vendor_priority cs)))"
proof -
  have "gpu_get_name_via_lspci env n = (if cs = [] then None else Some (strncpy_term n (arg_min_list get_vendor_priority cs)))"
    using assms(1,2) priority_bound
    by (cases cs) (simp_all add: gpu_get_name_via_lspci_def fold_lspci assms(4) [symmetric] Let_def)
  with assms(3) show ?thesis by (simp add: gpu_get_name_def)
qed

definition sample_host :: host_env where
  "sample_host = \<lparr>he_exists = (\<lambda>p. p = ''/etc/motd''), he_file = (\<lambda>p. if p = ''/etc/motd'' then Some ''welcome'' else None), he_vm = ''kvm'',
     he_lspci = Some (''00:02.0 VGA compatible controller: Intel HD'' @ [lf] @ ''01:00.0 3D controller: NVIDIA T4'' @ [lf], 0),
     he_cards = None, he_link = (\<lambda>_. None),
     he_scripts = Some [(''20-b'', True, True), (''.x'', True, True), (''10-a'', True, True), (''30-c'', False, True)],
     he_run = (\<lambda>p. if p = ''/etc/update-motd.d/10-a'' then Some (''one'', 0)
                   else if p = ''/etc/update-motd.d/20-b'' then Some (''two'', 0) else None)\<rparr>"

theorem virt_detection_stable_witness:
  "\<exists>st. virt_detect sample_host virt_init = (''kvm'', st)
     \<and> virt_detect (sample_host\<lparr>he_vm := ''xen''\<rparr>) st = (''kvm'', st) \<and> virt_is_vm sample_host st = (True, st)"
proof -
  obtain t st where d: "virt_detect sample_host virt_init = (t, st)" by force
  have "first_row (virt_table sample_host (take 255 (he_vm sample_host))) = ''kvm''" by code_simp
  with virt_detection_stable [OF d] d show ?thesis by (auto simp: vm_types_def)
qed

theorem gpu_best_vendor_witness:
  "gpu_get_name sample_host 128 = Some ''NVIDIA T4''"
proof -
  let ?out = "''00:02.0 VGA compatible controller: Intel HD'' @ [lf] @ ''01:00.0 3D controller: NVIDIA T4'' @ [lf]"
  have "List.map_filter gpu_candidate (strtok_lines (take 4095 ?out)) = [''Intel HD'', ''NVIDIA T4'']" by code_simp
  moreover have "arg_min_list get_vendor_priority [''Intel HD'', ''NVIDIA T4''] = ''NVIDIA T4''" by code_simp
  ultimately show ?thesis
    using gpu_best_vendor [of sample_host ?out 128 "[''Intel HD'', ''NVIDIA T4'']"]
    by (simp add: sample_host_def strncpy_term_def)
qed

lemma append_bound: "length acc \<le> n - 1 \<Longrightarrow> length (foldl (motd_append n) acc outs) \<le> n - 1"
  by (induction outs arbitrary: acc) (simp_all add: motd_append_def)

lemma append_all: "length acc + length (concat outs) < n - 1 \<Longrightarrow> foldl (motd_append n) acc outs = acc @ concat outs"
  by (induction outs arbitrary: acc) (simp_all add: motd_append_def)

lemma collect_bound: "length acc \<le> 64 \<Longrightarrow> length (motd_collect es acc) \<le> 64"
  by (induction es acc rule: motd_collect.induct) auto

text \<open>The outputs in the order of the script names.\<close>

definition motd_scripts :: "host_env \<Rightarrow> string list" where
  "motd_scripts env = (case he_scripts env of None \<Rightarrow> [] | Some es \<Rightarrow> sort (motd_collect es []))"

definition motd_file :: "host_env \<Rightarrow> string" where
  "motd_file env = (if he_exists env ''/etc/motd'' then case he_file env ''/etc/motd'' of Some s \<Rightarrow> s | None \<Rightarrow> [] else [])"

lemma scripts_output:
  "motd_execute_scripts env 8192 = Some (foldl (motd_append 8192) [] (map (script_output env) (motd_scripts env)))"
  by (cases "he_scripts env") (simp_all add: motd_execute_scripts_def motd_scripts_def)

text \<open>The message of the day never exceeds its buffer, at most 64 scripts run, in the order of their names; and when
  everything fits it is the output of the scripts, a line feed if it does not end in one, and the file.\<close>

theorem motd_content:
  assumes "motd_get_content env n = (rc, s)" "0 < n"
    "outs = concat (map (script_output env) (motd_scripts env))" "text_file = motd_file env"
  shows "length s < n \<and> (rc = 0 \<longleftrightarrow> s \<noteq> []) \<and> (rc = 0 \<or> rc = -2) \<and> length (motd_scripts env) \<le> 64 \<and> sorted (motd_scripts env)
     \<and> (length outs < 8191 \<and> length text_file < 8192 \<and> length outs + length text_file < n - 1 \<longrightarrow>
          s = (if text_file = [] then outs else outs @ (if outs \<noteq> [] \<and> last outs \<noteq> lf then [lf] else []) @ text_file))"
proof -
  let ?raw = "foldl (motd_append 8192) [] (map (script_output env) (motd_scripts env))"
  define out1 where "out1 = (if ?raw \<noteq> [] then motd_append n [] ?raw else [])"
  define f where "f = take 8191 text_file"
  have s: "s = (if f \<noteq> [] \<and> length out1 + length f < n - 1 then out1 @ (if out1 \<noteq> [] \<and> last out1 \<noteq> lf then [lf] else []) @ f else out1)"
    and rc: "rc = (if s \<noteq> [] then 0 else -2)"
    using assms(1,2) by (auto simp: motd_get_content_def scripts_output out1_def f_def assms(4) motd_file_def motd_read_file_def Let_def split: option.splits if_splits)
  have b1: "length out1 \<le> n - 1" by (simp add: out1_def motd_append_def)
  have "length (motd_scripts env) \<le> 64 \<and> sorted (motd_scripts env)"
    using collect_bound [of "[]"] by (auto simp: motd_scripts_def split: option.splits)
  moreover have "length s < n" using b1 assms(2) by (auto simp: s)
  moreover have "length outs < 8191 \<and> length text_file < 8192 \<and> length outs + length text_file < n - 1 \<Longrightarrow> out1 = outs \<and> f = text_file"
    using append_all [of "[]" "map (script_output env) (motd_scripts env)" 8192]
    by (auto simp: out1_def f_def assms(3) motd_append_def)
  ultimately show ?thesis using rc s by auto
qed

theorem motd_content_witness:
  "\<exists>rc s. motd_get_content sample_host 8192 = (rc, s) \<and> s = ''onetwo'' @ [lf] @ ''welcome''"
proof -
  obtain rc s where m: "motd_get_content sample_host 8192 = (rc, s)" by force
  have o: "concat (map (script_output sample_host) (motd_scripts sample_host)) = ''onetwo''" by code_simp
  have f: "motd_file sample_host = ''welcome''" by code_simp
  from motd_content [OF m, of "''onetwo''" "''welcome''"] o f show ?thesis using m by (simp add: lf_def)
qed

end
