(* ===== verification/Monitoring.thy ===== *)
theory Monitoring
  imports Report Netstatic HostInfo
begin

text \<open>
  The measurements of \<open>src/monitoring/monitoring.c\<close>.  The contents of the files under \<open>/proc\<close>, the answers
  of the system calls and the clock are a record \<open>mon_env\<close>; the variables that live between calls are a
  record \<open>mon_state\<close>.  A file that cannot be opened is None.  Quotients of doubles are taken exactly.
\<close>

section \<open>State and environment\<close>

record cpu_info = ci_name :: string  ci_arch :: string  ci_cores :: int  ci_usage :: c_double
record mem_info = mi_total :: u64  mi_used :: u64  mi_free :: u64  mi_available :: u64  mi_buffers :: u64  mi_cached :: u64
record disk_info = di_total :: u64  di_used :: u64  di_free :: u64
record net_info = ni_rx_bytes :: u64  ni_tx_bytes :: u64  ni_rx_packets :: u64  ni_tx_packets :: u64
  ni_rx_speed :: u64  ni_tx_speed :: u64
record load_info = li_load1 :: c_double  li_load5 :: c_double  li_load15 :: c_double
record conn_info = co_tcp :: int  co_udp :: int
record system_info = sy_os_name :: string  sy_kernel_version :: string  sy_arch :: string  sy_hostname :: string  sy_uptime :: u64

record net_state = nst_last_rx :: u64  nst_last_tx :: u64  nst_last_time :: u64  nst_has_prev :: bool

record mon_state =
  ms_last_total :: u64
  ms_last_used :: u64
  ms_sampled :: bool
  ms_cpu_name :: string
  ms_cpu_arch :: string
  ms_cpu_cores :: int
  ms_cpu_cached :: bool
  ms_disk :: disk_info
  ms_disk_ts :: int
  ms_conn :: conn_info
  ms_conn_ts :: int
  ms_procs :: int
  ms_procs_ts :: int

definition zero_disk :: disk_info where "zero_disk = \<lparr>di_total = 0, di_used = 0, di_free = 0\<rparr>"
definition zero_conn :: conn_info where "zero_conn = \<lparr>co_tcp = 0, co_udp = 0\<rparr>"
definition zero_net :: net_info where
  "zero_net = \<lparr>ni_rx_bytes = 0, ni_tx_bytes = 0, ni_rx_packets = 0, ni_tx_packets = 0, ni_rx_speed = 0, ni_tx_speed = 0\<rparr>"

definition mon_init :: mon_state where
  "mon_init = \<lparr>ms_last_total = 0, ms_last_used = 0, ms_sampled = False, ms_cpu_name = [], ms_cpu_arch = [],
     ms_cpu_cores = 0, ms_cpu_cached = False, ms_disk = zero_disk, ms_disk_ts = 0, ms_conn = zero_conn,
     ms_conn_ts = 0, ms_procs = 0, ms_procs_ts = 0\<rparr>"

definition monitoring_net_state_init :: net_state where
  "monitoring_net_state_init = \<lparr>nst_last_rx = 0, nst_last_tx = 0, nst_last_time = 0, nst_has_prev = False\<rparr>"

text \<open>An entry of \<open>getifaddrs\<close>: the numeric form \<open>getnameinfo\<close> gives, if it succeeds, and for IPv6 whether the
  address is link-local.\<close>

datatype ifa_addr = Inet "string option" | Inet6 bool "string option" | OtherFamily

record mon_env =
  me_now :: int
  me_nproc :: int
  me_arch :: string
  me_cpuinfo :: "string option"
  me_stat :: "string option"
  me_meminfo :: "string option"
  me_mounts :: "string option"
  me_statvfs :: "string \<Rightarrow> (u64 \<times> u64 \<times> u64) option"
  me_net_dev :: "string option"
  me_stale :: "nat \<Rightarrow> u64"
  me_timestamp :: u64
  me_loadavg :: "string option"
  me_tcp :: "string option"
  me_tcp6 :: "string option"
  me_udp :: "string option"
  me_udp6 :: "string option"
  me_release :: "string option"
  me_uname :: "(string \<times> string \<times> string) option"
  me_uptime :: "string option"
  me_ub :: "c_double \<Rightarrow> u64"
  me_proc :: "(bool \<times> string) list option"
  me_ifaddrs :: "(string \<times> ifa_addr option) list option"

section \<open>Processor\<close>

text \<open>The first line that names the model ends the search, with or without a colon.\<close>

definition cpu_name_line :: "string \<Rightarrow> bool" where
  "cpu_name_line l \<longleftrightarrow> starts_with ''model name'' l \<or> starts_with ''Model'' l \<or> starts_with ''cpu model'' l"

definition cpu_name_of :: "string \<Rightarrow> string" where
  "cpu_name_of contents =
     (case filter cpu_name_line (fgets_lines 256 contents) of [] \<Rightarrow> []
      | l # _ \<Rightarrow> (case strchr CHR '':'' l of None \<Rightarrow> []
          | Some t \<Rightarrow> strncpy_term 128 (takeWhile (\<lambda>c. c \<noteq> lf) (dropWhile (\<lambda>c. c = CHR '' '') (tl t)))))"

definition cpu_invariants :: "mon_env \<Rightarrow> mon_state \<Rightarrow> mon_state" where
  "cpu_invariants env st =
     (if ms_cpu_cached st then st
      else let n = c_int_of_long (me_nproc env);
               name = (case me_cpuinfo env of None \<Rightarrow> [] | Some f \<Rightarrow> cpu_name_of f)
           in st\<lparr>ms_cpu_cores := if n \<le> 0 then 1 else n, ms_cpu_arch := me_arch env,
                 ms_cpu_name := if name = [] then ''Unknown CPU'' else name, ms_cpu_cached := True\<rparr>)"

text \<open>The first line of \<open>/proc/stat\<close>: all ticks and busy ticks.\<close>

definition scan_stat :: "string \<Rightarrow> (u64 \<times> u64) option" where
  "scan_stat f =
     (if starts_with ''cpu'' f then
        case scan_u64s 7 (drop 3 f) of
          [user, nice, system, idle, iowait, irq, softirq] \<Rightarrow>
            Some (user + nice + system + idle + iowait + irq + softirq, user + nice + system + irq + softirq)
        | _ \<Rightarrow> None
      else None)"

definition cpu_percent :: "u64 \<Rightarrow> u64 \<Rightarrow> u64 \<Rightarrow> u64 \<Rightarrow> c_double" where
  "cpu_percent last_total last_used tot used =
     (let dt = (if tot \<ge> last_total then tot - last_total else 0);
          du = (if used \<ge> last_used then used - last_used else 0)
      in if dt > 0 then Fin (of_nat (unat du) / of_nat (unat dt) * 100) else Fin 0)"

definition monitoring_get_cpu_info :: "mon_env \<Rightarrow> mon_state \<Rightarrow> cpu_info \<times> mon_state" where
  "monitoring_get_cpu_info env st0 =
     (let st = cpu_invariants env st0;
          info = \<lparr>ci_name = strncpy_term 128 (ms_cpu_name st), ci_arch = strncpy_term 32 (ms_cpu_arch st),
                  ci_cores = ms_cpu_cores st, ci_usage = Fin 0\<rparr>
      in case Option.bind (me_stat env) scan_stat of None \<Rightarrow> (info, st)
         | Some (tot, used) \<Rightarrow>
             (if ms_sampled st then info\<lparr>ci_usage := cpu_percent (ms_last_total st) (ms_last_used st) tot used\<rparr> else info,
              st\<lparr>ms_last_total := tot, ms_last_used := used, ms_sampled := True\<rparr>))"

section \<open>Memory\<close>

record meminfo =
  mf_total :: u64  mf_free :: u64  mf_available :: u64  mf_buffers :: u64  mf_cached :: u64
  mf_sreclaimable :: u64  mf_swap_total :: u64  mf_swap_free :: u64

definition meminfo_init :: meminfo where
  "meminfo_init = \<lparr>mf_total = 0, mf_free = 0, mf_available = 0, mf_buffers = 0, mf_cached = 0,
     mf_sreclaimable = 0, mf_swap_total = 0, mf_swap_free = 0\<rparr>"

text \<open>One line; \<open>Shmem\<close> is read by the code and never used.\<close>

definition meminfo_line :: "string \<Rightarrow> meminfo \<Rightarrow> meminfo" where
  "meminfo_line line m =
     (case scan_key_value 63 line of None \<Rightarrow> m
      | Some (key, value) \<Rightarrow>
          let v = value * 1024
          in if key = ''MemTotal'' then m\<lparr>mf_total := v\<rparr>
             else if key = ''MemFree'' then m\<lparr>mf_free := v\<rparr>
             else if key = ''MemAvailable'' then m\<lparr>mf_available := v\<rparr>
             else if key = ''Buffers'' then m\<lparr>mf_buffers := v\<rparr>
             else if key = ''Cached'' then m\<lparr>mf_cached := v\<rparr>
             else if key = ''SReclaimable'' then m\<lparr>mf_sreclaimable := v\<rparr>
             else if key = ''SwapTotal'' then m\<lparr>mf_swap_total := v\<rparr>
             else if key = ''SwapFree'' then m\<lparr>mf_swap_free := v\<rparr>
             else m)"

definition mem_used :: "bool \<Rightarrow> meminfo \<Rightarrow> u64" where
  "mem_used include_cache m =
     (if include_cache then mf_total m - mf_free m
      else if mf_available m > 0 then mf_total m - mf_available m
      else mf_total m - mf_free m - mf_buffers m - mf_cached m)"

definition zero_mem :: mem_info where
  "zero_mem = \<lparr>mi_total = 0, mi_used = 0, mi_free = 0, mi_available = 0, mi_buffers = 0, mi_cached = 0\<rparr>"

text \<open>Status, memory, swap.\<close>

definition monitoring_get_mem_swap_info :: "bool \<Rightarrow> mon_env \<Rightarrow> int \<times> mem_info \<times> mem_info" where
  "monitoring_get_mem_swap_info include_cache env =
     (case me_meminfo env of None \<Rightarrow> (-1, zero_mem, zero_mem)
      | Some f \<Rightarrow>
          let m = fold meminfo_line (fgets_lines 256 f) meminfo_init
          in (0, \<lparr>mi_total = mf_total m, mi_used = mem_used include_cache m, mi_free = mf_free m,
                  mi_available = mf_available m, mi_buffers = mf_buffers m, mi_cached = mf_cached m + mf_sreclaimable m\<rparr>,
              zero_mem\<lparr>mi_total := mf_swap_total m, mi_free := mf_swap_free m, mi_used := mf_swap_total m - mf_swap_free m\<rparr>))"

section \<open>Disks\<close>

text \<open>The three caches share this test: a stamp of 0 means never filled.\<close>

definition SLOW_TTL :: int where "SLOW_TTL = 5"

definition still_fresh :: "int \<Rightarrow> int \<Rightarrow> bool" where
  "still_fresh ts now \<longleftrightarrow> ts \<noteq> 0 \<and> now - ts < SLOW_TTL"

definition counted_device :: "string \<Rightarrow> bool" where
  "counted_device d \<longleftrightarrow> starts_with ''/dev/'' d \<or> starts_with ''/dev/mapper/'' d \<or> starts_with ''ubi'' d
     \<or> starts_with ''jffs2'' d \<or> starts_with ''overlay'' d"

definition virtual_fs :: "string list" where
  "virtual_fs = [''tmpfs'', ''devtmpfs'', ''debugfs'', ''tracefs'', ''securityfs'', ''pstore'', ''cgroup'', ''cgroup2'']"

definition mount_line :: "string \<Rightarrow> (string \<times> string \<times> string) option" where
  "mount_line l =
     (case scan_word 255 l of None \<Rightarrow> None
      | Some (device, r1) \<Rightarrow> (case scan_word 255 r1 of None \<Rightarrow> None
          | Some (mountpoint, r2) \<Rightarrow> (case scan_word 63 r2 of None \<Rightarrow> None
              | Some (fstype, _) \<Rightarrow> Some (device, mountpoint, fstype))))"

definition sat_mul :: "u64 \<Rightarrow> u64 \<Rightarrow> u64" where
  "sat_mul x fr = (if fr \<noteq> 0 \<and> x > of_nat u64_max div fr then of_nat u64_max else x * fr)"

definition add_mount :: "(string \<Rightarrow> (u64 \<times> u64 \<times> u64) option) \<Rightarrow> string \<Rightarrow> u64 \<times> u64 \<Rightarrow> u64 \<times> u64" where
  "add_mount statvfs l = (\<lambda>(tot, fre).
     case mount_line l of None \<Rightarrow> (tot, fre)
     | Some (device, mountpoint, fstype) \<Rightarrow>
         if \<not> counted_device device \<or> fstype \<in> set virtual_fs then (tot, fre)
         else case statvfs mountpoint of None \<Rightarrow> (tot, fre)
           | Some (frsize, blocks, bfree) \<Rightarrow> (sat_add tot (sat_mul blocks frsize), sat_add fre (sat_mul bfree frsize)))"

definition disk_scan :: "mon_env \<Rightarrow> disk_info option" where
  "disk_scan env =
     map_option (\<lambda>f. let (tot, fre) = fold (add_mount (me_statvfs env)) (fgets_lines 512 f) (0, 0)
        in \<lparr>di_total = tot, di_used = if fre > tot then 0 else tot - fre, di_free = fre\<rparr>) (me_mounts env)"

definition monitoring_get_disk_info :: "mon_env \<Rightarrow> mon_state \<Rightarrow> disk_info \<times> mon_state" where
  "monitoring_get_disk_info env st =
     (if still_fresh (ms_disk_ts st) (me_now env) then (ms_disk st, st)
      else case disk_scan env of None \<Rightarrow> (zero_disk, st)
        | Some d \<Rightarrow> (d, st\<lparr>ms_disk := d, ms_disk_ts := me_now env\<rparr>))"

section \<open>Network\<close>

text \<open>The counters of one line are received bytes, packets, six more, sent bytes, packets.  Nine of them are enough
  for the code; the packets sent are then whatever the variable held (\<open>me_stale\<close>).\<close>

definition net_line :: "u64 \<Rightarrow> string \<Rightarrow> u64 \<times> u64 \<times> u64 \<times> u64 \<Rightarrow> u64 \<times> u64 \<times> u64 \<times> u64" where
  "net_line stale l = (\<lambda>(rx, tx, rxp, txp).
     case net_dev_counters 16 l of None \<Rightarrow> (rx, tx, rxp, txp)
     | Some (name, vs) \<Rightarrow>
         if length vs < 9 \<or> name = ''lo'' then (rx, tx, rxp, txp)
         else (rx + vs ! 0, tx + vs ! 8, rxp + vs ! 1, txp + (if 9 < length vs then vs ! 9 else stale)))"

fun net_lines :: "(nat \<Rightarrow> u64) \<Rightarrow> nat \<Rightarrow> string list \<Rightarrow> u64 \<times> u64 \<times> u64 \<times> u64 \<Rightarrow> u64 \<times> u64 \<times> u64 \<times> u64" where
  "net_lines stale i [] acc = acc"
| "net_lines stale i (l # ls) acc = net_lines stale (Suc i) ls (net_line (stale i) l acc)"

definition speed :: "u64 \<Rightarrow> u64 \<Rightarrow> u64 \<Rightarrow> u64" where
  "speed last_val val dt =
     (let d = (if val \<ge> last_val then val - last_val else 0)
      in u64_of_double (\<lambda>_. 0) (of_nat (unat d) / of_nat (unat dt) + 1 / 2))"

definition net_speeds :: "u64 \<Rightarrow> u64 \<Rightarrow> u64 \<Rightarrow> net_state \<Rightarrow> u64 \<times> u64" where
  "net_speeds now rx tx ns =
     (if nst_has_prev ns \<and> now - nst_last_time ns > 0
      then (speed (nst_last_rx ns) rx (now - nst_last_time ns), speed (nst_last_tx ns) tx (now - nst_last_time ns))
      else (0, 0))"

text \<open>Without the two header lines the call fails and the state stays as it was.\<close>

definition monitoring_get_net_info :: "mon_env \<Rightarrow> net_state option \<Rightarrow> int \<times> net_info \<times> net_state option" where
  "monitoring_get_net_info env state =
     (case me_net_dev env of None \<Rightarrow> (-1, zero_net, state)
      | Some f \<Rightarrow>
          (case fgets_lines 512 f of
             h1 # h2 # ls \<Rightarrow>
               (case net_lines (me_stale env) 0 ls (0, 0, 0, 0) of (rx, tx, rxp, txp) \<Rightarrow>
                 let info = zero_net\<lparr>ni_rx_bytes := rx, ni_tx_bytes := tx, ni_rx_packets := rxp, ni_tx_packets := txp\<rparr>
                 in case state of None \<Rightarrow> (0, info, None)
                    | Some ns \<Rightarrow>
                        (0, info\<lparr>ni_rx_speed := fst (net_speeds (me_timestamp env) rx tx ns),
                                 ni_tx_speed := snd (net_speeds (me_timestamp env) rx tx ns)\<rparr>,
                         Some \<lparr>nst_last_rx = rx, nst_last_tx = tx, nst_last_time = me_timestamp env, nst_has_prev = True\<rparr>))
           | _ \<Rightarrow> (-1, zero_net, state)))"

definition monitoring_net_speed_update :: "mon_env \<Rightarrow> net_state option \<Rightarrow> net_state option" where
  "monitoring_net_speed_update env state = snd (snd (monitoring_get_net_info env state))"

section \<open>Load\<close>

text \<open>\<open>%lf\<close>: what a decimal number leaves, None when there is no digit or the exponent has none; then the words for
  infinity and not-a-number, and hexadecimal numbers.\<close>

definition exp_rest :: "char \<Rightarrow> string \<Rightarrow> string option" where
  "exp_rest ec s =
     (case s of [] \<Rightarrow> Some []
      | c # r \<Rightarrow> if c_tolower c \<noteq> ec then Some s
          else let r' = (if r \<noteq> [] \<and> (hd r = CHR ''-'' \<or> hd r = CHR ''+'') then tl r else r)
               in if takeWhile c_isdigit r' = [] then None else Some (dropWhile c_isdigit r'))"

definition number_rest :: "(char \<Rightarrow> bool) \<Rightarrow> char \<Rightarrow> string \<Rightarrow> string option" where
  "number_rest isdig ec s =
     (let ip = takeWhile isdig s; r = dropWhile isdig s; dot = (r \<noteq> [] \<and> hd r = CHR ''.'');
          fp = (if dot then takeWhile isdig (tl r) else []); r' = (if dot then dropWhile isdig (tl r) else r)
      in if ip = [] \<and> fp = [] then None else exp_rest ec r')"

definition scan_double :: "string \<Rightarrow> (c_double \<times> string) option" where
  "scan_double s0 =
     (let t = dropWhile c_isspace s0;
          s = (if t \<noteq> [] \<and> (hd t = CHR ''-'' \<or> hd t = CHR ''+'') then tl t else t);
          low = map c_tolower s;
          rest = (if starts_with ''infinity'' low then Some (drop 8 s)
                  else if starts_with ''infi'' low then None
                  else if starts_with ''inf'' low \<or> starts_with ''nan'' low then Some (drop 3 s)
                  else if starts_with ''0x'' low then number_rest c_isxdigit CHR ''p'' (drop 2 s)
                  else number_rest c_isdigit CHR ''e'' s)
      in map_option (\<lambda>r. (atof t, r)) rest)"

definition monitoring_get_load_info :: "mon_env \<Rightarrow> int \<times> load_info" where
  "monitoring_get_load_info env =
     (let zero = \<lparr>li_load1 = Fin 0, li_load5 = Fin 0, li_load15 = Fin 0\<rparr>
      in case me_loadavg env of None \<Rightarrow> (-1, zero)
         | Some f \<Rightarrow>
             (0, case scan_double f of None \<Rightarrow> zero
                 | Some (a, r1) \<Rightarrow> (case scan_double r1 of None \<Rightarrow> zero
                     | Some (b, r2) \<Rightarrow> (case scan_double r2 of None \<Rightarrow> zero
                         | Some (c, _) \<Rightarrow> \<lparr>li_load1 = a, li_load5 = b, li_load15 = c\<rparr>))))"

text \<open>The first number of \<open>/proc/uptime\<close>; \<open>ub\<close> stands for the conversions C leaves undefined.\<close>

definition utils_get_uptime_seconds :: "(c_double \<Rightarrow> u64) \<Rightarrow> string option \<Rightarrow> u64" where
  "utils_get_uptime_seconds ub file =
     (case Option.bind file scan_double of None \<Rightarrow> 0
      | Some (Fin x, _) \<Rightarrow> u64_of_double (\<lambda>y. ub (Fin y)) x
      | Some (d, _) \<Rightarrow> ub d)"

definition monitoring_get_uptime :: "mon_env \<Rightarrow> u64" where
  "monitoring_get_uptime env = utils_get_uptime_seconds (me_ub env) (me_uptime env)"

section \<open>Connections\<close>

definition conn_lines :: "string option \<Rightarrow> int" where
  "conn_lines file = (case file of None \<Rightarrow> 0 | Some f \<Rightarrow> int (length (tl (fgets_lines 256 f))))"

definition conn_scan :: "mon_env \<Rightarrow> conn_info" where
  "conn_scan env = \<lparr>co_tcp = conn_lines (me_tcp env) + conn_lines (me_tcp6 env),
     co_udp = conn_lines (me_udp env) + conn_lines (me_udp6 env)\<rparr>"

definition monitoring_get_conn_info :: "mon_env \<Rightarrow> mon_state \<Rightarrow> conn_info \<times> mon_state" where
  "monitoring_get_conn_info env st =
     (if still_fresh (ms_conn_ts st) (me_now env) then (ms_conn st, st)
      else (conn_scan env, st\<lparr>ms_conn := conn_scan env, ms_conn_ts := me_now env\<rparr>))"

section \<open>System, processes, addresses\<close>

text \<open>Trailing quotes and newlines go, but never the first character.\<close>

definition quote_char :: "char \<Rightarrow> bool" where "quote_char c \<longleftrightarrow> c = CHR 0x27 \<or> c = dquote"

definition strip_end :: "string \<Rightarrow> string" where
  "strip_end s = (case s of [] \<Rightarrow> [] | c # r \<Rightarrow> c # rev (dropWhile (\<lambda>d. quote_char d \<or> d = lf) (rev r)))"

definition release_name :: "string \<Rightarrow> string" where
  "release_name f =
     (case filter (starts_with ''DISTRIB_DESCRIPTION'') (fgets_lines 256 f) of [] \<Rightarrow> []
      | l # _ \<Rightarrow> (case strchr CHR ''='' l of None \<Rightarrow> []
          | Some t \<Rightarrow> strncpy_term 128 (strip_end (dropWhile quote_char (tl t)))))"

definition monitoring_get_system_info :: "mon_env \<Rightarrow> system_info" where
  "monitoring_get_system_info env =
     (let name = (case me_release env of None \<Rightarrow> [] | Some f \<Rightarrow> release_name f);
          (rel, mach, node) = (case me_uname env of None \<Rightarrow> ([], [], []) | Some u \<Rightarrow> u)
      in \<lparr>sy_os_name = if name = [] then ''OpenWrt'' else name, sy_kernel_version = strncpy_term 64 rel,
          sy_arch = strncpy_term 32 mach, sy_hostname = strncpy_term 64 node, sy_uptime = monitoring_get_uptime env\<rparr>)"

definition pid_entry :: "bool \<times> string \<Rightarrow> bool" where
  "pid_entry e \<longleftrightarrow> fst e \<and> list_all c_isdigit (snd e) \<and> snd e \<noteq> []"

definition proc_scan :: "mon_env \<Rightarrow> int option" where
  "proc_scan env = map_option (\<lambda>es. int (length (filter pid_entry es))) (me_proc env)"

definition monitoring_get_process_count :: "mon_env \<Rightarrow> mon_state \<Rightarrow> int \<times> mon_state" where
  "monitoring_get_process_count env st =
     (if still_fresh (ms_procs_ts st) (me_now env) then (ms_procs st, st)
      else case proc_scan env of None \<Rightarrow> (ms_procs st, st)
        | Some n \<Rightarrow> (n, st\<lparr>ms_procs := n, ms_procs_ts := me_now env\<rparr>))"

text \<open>The buffers of the caller have \<open>n4\<close> and \<open>n6\<close> bytes; an empty buffer takes the next address that can be
  written as text.\<close>

definition skipped_interface :: "string \<Rightarrow> bool" where
  "skipped_interface n \<longleftrightarrow> n = ''lo'' \<or> starts_with ''docker'' n \<or> starts_with ''veth'' n \<or> starts_with ''br-'' n"

definition take_address :: "nat option \<Rightarrow> nat option \<Rightarrow> string \<times> ifa_addr option \<Rightarrow> string \<times> string \<Rightarrow> string \<times> string" where
  "take_address n4 n6 e = (\<lambda>(v4, v6).
     if snd e = None \<or> skipped_interface (fst e) then (v4, v6)
     else case snd e of
       Some (Inet (Some h)) \<Rightarrow> (case n4 of Some n \<Rightarrow> if v4 = [] then (strncpy_term n h, v6) else (v4, v6) | None \<Rightarrow> (v4, v6))
     | Some (Inet6 False (Some h)) \<Rightarrow> (case n6 of Some n \<Rightarrow> if v6 = [] then (v4, strncpy_term n h) else (v4, v6) | None \<Rightarrow> (v4, v6))
     | _ \<Rightarrow> (v4, v6))"

definition monitoring_get_ip_address :: "mon_env \<Rightarrow> nat option \<Rightarrow> nat option \<Rightarrow> int \<times> string \<times> string" where
  "monitoring_get_ip_address env n4 n6 =
     (case me_ifaddrs env of None \<Rightarrow> (-1, [], []) | Some es \<Rightarrow> (0, fold (take_address n4 n6) es ([], [])))"

section \<open>What a report is made of\<close>

definition collect_metrics :: "bool \<Rightarrow> mon_env \<Rightarrow> net_state option \<Rightarrow> mon_state \<Rightarrow> metrics \<times> net_state option \<times> mon_state" where
  "collect_metrics include_cache env state st0 =
     (let (cpu, st1) = monitoring_get_cpu_info env st0;
          (_, mem, swap) = monitoring_get_mem_swap_info include_cache env;
          (disk, st2) = monitoring_get_disk_info env st1;
          (_, net, state') = monitoring_get_net_info env state;
          (_, load) = monitoring_get_load_info env;
          (conn, st3) = monitoring_get_conn_info env st2;
          (procs, st4) = monitoring_get_process_count env st3
      in (\<lparr>m_cpu_usage = ci_usage cpu, m_mem_total = mi_total mem, m_mem_used = mi_used mem,
           m_swap_total = mi_total swap, m_swap_used = mi_used swap, m_load1 = li_load1 load, m_load5 = li_load5 load,
           m_load15 = li_load15 load, m_disk_total = di_total disk, m_disk_used = di_used disk,
           m_tx_speed = ni_tx_speed net, m_rx_speed = ni_rx_speed net, m_tx_bytes = ni_tx_bytes net,
           m_rx_bytes = ni_rx_bytes net, m_tcp_count = co_tcp conn, m_udp_count = co_udp conn,
           m_uptime = monitoring_get_uptime env, m_process_count = procs\<rparr>, state', st4))"

definition collect_host :: "bool \<Rightarrow> host_env \<Rightarrow> mon_env \<Rightarrow> mon_state \<times> virt_state \<Rightarrow> host_info \<times> mon_state \<times> virt_state" where
  "collect_host include_cache henv env = (\<lambda>(st0, vs0).
     let (cpu, st1) = monitoring_get_cpu_info env st0;
         (_, mem, swap) = monitoring_get_mem_swap_info include_cache env;
         (disk, st2) = monitoring_get_disk_info env st1;
         sys = monitoring_get_system_info env;
         (_, v4, v6) = monitoring_get_ip_address env (Some 64) (Some 128);
         gpu = gpu_get_name henv 128;
         (virt, vs1) = virt_detect henv vs0
     in (\<lparr>h_cpu_name = ci_name cpu, h_cpu_cores = ci_cores cpu, h_cpu_arch = ci_arch cpu, h_os_name = sy_os_name sys,
          h_kernel_version = sy_kernel_version sys, h_ipv4 = v4, h_ipv6 = v6, h_mem_total = mi_total mem,
          h_swap_total = mi_total swap, h_disk_total = di_total disk, h_gpu_name = gpu, h_virt_type = virt\<rparr>, st2, vs1))"

end
