(* ===== verification/MonitoringProps.thy ===== *)
theory MonitoringProps
  imports Monitoring
begin

text \<open>
  The properties of the measurements: fresh figures in spite of the caches, exact sums of disks, the
  range of the processor usage, rounded transfer speeds, what is read from the kernel's text files.
\<close>

section \<open>Caches with a time to live\<close>

lemma in_set_take_nth: "x \<in> set (take (Suc i) xs) \<Longrightarrow> \<exists>j \<le> i. x = xs ! j"
  by (auto simp: in_set_conv_nth less_Suc_eq_le)

fun call_all :: "('e \<Rightarrow> 's \<Rightarrow> 'v \<times> 's) \<Rightarrow> 'e list \<Rightarrow> 's \<Rightarrow> 'v list" where
  "call_all get [] s = []"
| "call_all get (e # es) s = fst (get e s) # call_all get es (snd (get e s))"

text \<open>
  A call inside the time to live answers with the stored value, one after it scans again and stores;
  when the scan fails nothing is stored.
\<close>

locale ttl_cache =
  fixes get :: "'e \<Rightarrow> 's \<Rightarrow> 'v \<times> 's" and clock :: "'e \<Rightarrow> int" and scan :: "'e \<Rightarrow> 'v option"
    and stamp :: "'s \<Rightarrow> int" and cached :: "'s \<Rightarrow> 'v"
  assumes hit: "still_fresh (stamp s) (clock e) \<Longrightarrow>
        fst (get e s) = cached s \<and> cached (snd (get e s)) = cached s \<and> stamp (snd (get e s)) = stamp s"
    and miss: "\<not> still_fresh (stamp s) (clock e) \<Longrightarrow> scan e = Some v \<Longrightarrow>
        fst (get e s) = v \<and> cached (snd (get e s)) = v \<and> stamp (snd (get e s)) = clock e"
    and fail: "\<not> still_fresh (stamp s) (clock e) \<Longrightarrow> scan e = None \<Longrightarrow>
        cached (snd (get e s)) = cached s \<and> stamp (snd (get e s)) = stamp s"
begin

lemma fresh_from:
  "(stamp s \<noteq> 0 \<Longrightarrow> \<exists>p \<in> P. scan p = Some (cached s) \<and> clock p = stamp s) \<Longrightarrow> i < length es \<Longrightarrow> scan (es ! i) \<noteq> None
     \<Longrightarrow> \<exists>p \<in> P \<union> set (take (Suc i) es). scan p = Some (call_all get es s ! i) \<and> clock (es ! i) - clock p < SLOW_TTL"
proof (induction es arbitrary: s P i)
  case (Cons e es)
  have now: "(\<exists>p \<in> P. scan p = Some (fst (get e s)) \<and> clock e - clock p < SLOW_TTL)
      \<or> scan e = Some (fst (get e s)) \<or> scan e = None"
    proof (cases "still_fresh (stamp s) (clock e)")
    case True
    then show ?thesis using Cons.prems(1) hit [of s e] by (auto simp: still_fresh_def)
  next
    case False
    then show ?thesis using miss [OF False] by (cases "scan e") auto
  qed
  have later: "stamp (snd (get e s)) \<noteq> 0 \<Longrightarrow>
      \<exists>p \<in> insert e P. scan p = Some (cached (snd (get e s))) \<and> clock p = stamp (snd (get e s))"
    using Cons.prems(1) hit [of s e] miss [of s e] fail [of s e] by (cases "scan e"; cases "still_fresh (stamp s) (clock e)") auto
  show ?case
  proof (cases i)
    case 0
    with now Cons.prems(3) show ?thesis by (auto simp: SLOW_TTL_def)
  next
    case (Suc j)
    from Cons.IH [OF later, of j] Cons.prems(2,3) Suc show ?thesis by auto
  qed
qed simp

lemma fresh:
  "stamp s = 0 \<Longrightarrow> i < length es \<Longrightarrow> scan (es ! i) \<noteq> None
     \<Longrightarrow> \<exists>j \<le> i. scan (es ! j) = Some (call_all get es s ! i) \<and> clock (es ! i) - clock (es ! j) < SLOW_TTL"
  using fresh_from [of s "{}" i es] by (auto dest!: in_set_take_nth)

end

lemma stored_unless_fresh [frame_simps]:
  "monitoring_get_cpu_info env st = (r, st') \<Longrightarrow> ms_disk_ts st' = ms_disk_ts st \<and> ms_disk st' = ms_disk st
     \<and> ms_conn_ts st' = ms_conn_ts st \<and> ms_conn st' = ms_conn st \<and> ms_procs_ts st' = ms_procs_ts st \<and> ms_procs st' = ms_procs st"
  by (auto simp: monitoring_get_cpu_info_def cpu_invariants_def Let_def split: option.splits prod.splits if_splits)

text \<open>One report as a step of the state, and the figures in it that come from a cache.\<close>

definition report_turn :: "bool \<times> mon_env \<Rightarrow> net_state option \<times> mon_state \<Rightarrow> metrics \<times> net_state option \<times> mon_state" where
  "report_turn e s = collect_metrics (fst e) (snd e) (fst s) (snd s)"

definition disk_figures :: "disk_info \<Rightarrow> u64 \<times> u64" where "disk_figures d = (di_total d, di_used d)"
definition conn_figures :: "conn_info \<Rightarrow> int \<times> int" where "conn_figures c = (co_tcp c, co_udp c)"

definition with_result :: "('m \<Rightarrow> 'v) \<Rightarrow> ('e \<Rightarrow> 's \<Rightarrow> 'm \<times> 's) \<Rightarrow> 'e \<Rightarrow> 's \<Rightarrow> 'v \<times> 's" where
  "with_result f get e s = (f (fst (get e s)), snd (get e s))"

lemma with_result_all: "call_all (with_result f get) es s = map f (call_all get es s)"
  by (induction es arbitrary: s) (simp_all add: with_result_def)

lemmas turn_defs = report_turn_def collect_metrics_def with_result_def split_beta Let_def
  monitoring_get_disk_info_def monitoring_get_conn_info_def monitoring_get_process_count_def

lemma cpu_frame [simp]:
  "ms_disk_ts (snd (monitoring_get_cpu_info env st)) = ms_disk_ts st" "ms_disk (snd (monitoring_get_cpu_info env st)) = ms_disk st"
  "ms_conn_ts (snd (monitoring_get_cpu_info env st)) = ms_conn_ts st" "ms_conn (snd (monitoring_get_cpu_info env st)) = ms_conn st"
  "ms_procs_ts (snd (monitoring_get_cpu_info env st)) = ms_procs_ts st" "ms_procs (snd (monitoring_get_cpu_info env st)) = ms_procs st"
  using stored_unless_fresh [of env st "fst (monitoring_get_cpu_info env st)" "snd (monitoring_get_cpu_info env st)"] by simp_all

interpretation disk_cache: ttl_cache "with_result (\<lambda>m. (m_disk_total m, m_disk_used m)) report_turn" "me_now \<circ> snd"
    "map_option disk_figures \<circ> disk_scan \<circ> snd" "ms_disk_ts \<circ> snd" "disk_figures \<circ> ms_disk \<circ> snd"
  by unfold_locales (auto simp: turn_defs disk_figures_def split: option.splits)

interpretation conn_cache: ttl_cache "with_result (\<lambda>m. (m_tcp_count m, m_udp_count m)) report_turn" "me_now \<circ> snd"
    "Some \<circ> conn_figures \<circ> conn_scan \<circ> snd" "ms_conn_ts \<circ> snd" "conn_figures \<circ> ms_conn \<circ> snd"
  by unfold_locales (auto simp: turn_defs conn_figures_def split: option.splits)

interpretation process_cache: ttl_cache "with_result m_process_count report_turn" "me_now \<circ> snd"
    "proc_scan \<circ> snd" "ms_procs_ts \<circ> snd" "ms_procs \<circ> snd"
  by unfold_locales (auto simp: turn_defs split: option.splits)

lemma report_count: "length (call_all get es s) = length es"
  by (induction es arbitrary: s) simp_all


section \<open>A concrete machine\<close>

definition sample_net_dev :: string where
  "sample_net_dev = ''a'' @ [lf] @ ''b'' @ [lf] @ ''lo: 9 9 9 9 9 9 9 9 9 9 9'' @ [lf] @ '' eth0: 100 2 0 0 0 0 0 0 30 4 0'' @ [lf]"

definition sample_env :: mon_env where
  "sample_env = \<lparr>me_now = 1000, me_nproc = 4, me_arch = ''arm64'',
     me_cpuinfo = Some (''processor : 0'' @ [lf] @ ''model name : ARMv8'' @ [lf]),
     me_stat = Some (''cpu  100 0 0 100 50 0 0'' @ [lf]),
     me_meminfo = Some (''MemTotal:  100 kB'' @ [lf] @ ''MemFree:  40 kB'' @ [lf]),
     me_mounts = Some (''/dev/root / squashfs ro'' @ [lf] @ ''tmpfs /tmp tmpfs rw'' @ [lf]),
     me_statvfs = (\<lambda>m. if m = ''/'' then Some (512, 20, 5) else Some (512, 9, 9)),
     me_net_dev = Some sample_net_dev,
     me_stale = (\<lambda>_. 0), me_timestamp = 1000, me_loadavg = Some ''0.25 1.5 2 1/99 7'',
     me_tcp = Some (''h'' @ [lf] @ ''x'' @ [lf]), me_tcp6 = None, me_udp = None, me_udp6 = None,
     me_release = None, me_uname = None, me_uptime = Some ''77.5 3'', me_ub = (\<lambda>_. 0),
     me_proc = Some [(True, ''1''), (True, ''net''), (False, ''2'')],
     me_ifaddrs = Some [(''lo'', Some (Inet (Some ''127.0.0.1''))), (''wan'', None), (''wan'', Some (Inet (Some ''192.0.2.1'')))]\<rparr>"

definition two_reports :: "(bool \<times> mon_env) list" where
  "two_reports = [(False, sample_env), (False, sample_env\<lparr>me_now := 1003, me_proc := Some []\<rparr>)]"


section \<open>Processor usage\<close>

lemma share_range:
  "0 < d \<Longrightarrow> n \<le> d \<Longrightarrow> 0 \<le> (of_nat n / of_nat d * 100 :: rat) \<and> of_nat n / of_nat d * 100 \<le> (100 :: rat)
     \<and> of_nat n / of_nat d * 100 * of_nat d = (100 * of_nat n :: rat)"
  by (simp add: divide_simps)

lemma percent_range:
  assumes "last_total \<le> tot" "last_used \<le> used" "unat used - unat last_used \<le> unat tot - unat last_total"
  shows "\<exists>x. cpu_percent last_total last_used tot used = Fin x \<and> 0 \<le> x \<and> x \<le> 100
       \<and> x * of_nat (unat tot - unat last_total) = 100 * of_nat (unat used - unat last_used)"
proof (cases "tot = last_total")
  case True
  with assms show ?thesis by (auto simp: cpu_percent_def Let_def)
next
  case False
  let ?n = "unat used - unat last_used" and ?d = "unat tot - unat last_total"
  have "last_total < tot" using False assms(1) by simp
  then have d: "0 < ?d" by (simp add: word_less_nat_alt)
  have diff: "unat (tot - last_total) = ?d" "unat (used - last_used) = ?n"
    using assms(1,2) by (simp_all add: unat_sub)
  then have "tot - last_total > 0" using d by (metis unat_0 word_gt_0 less_irrefl)
  then have p: "cpu_percent last_total last_used tot used = Fin (of_nat ?n / of_nat ?d * 100)"
    using assms(1,2) by (simp add: cpu_percent_def diff)
  show ?thesis unfolding p using share_range [OF d assms(3)] by blast
qed

text \<open>The processor usage of a report is the share of busy ticks since the previous sample, between 0 and 100,
  when both tick counters grew and the busy ones by no more than all of them.  (Linux allows the idle and
  waiting counters to shrink; then the share may exceed 100, \<open>cpu_usage_above_100\<close>.)\<close>

theorem cpu_usage_in_range:
  assumes "me_stat env = Some f" "scan_stat f = Some (tot, used)" "ms_sampled st"
    "ms_last_total st \<le> tot" "ms_last_used st \<le> used"
    "unat used - unat (ms_last_used st) \<le> unat tot - unat (ms_last_total st)"
  shows "\<exists>x. ci_usage (fst (monitoring_get_cpu_info env st)) = Fin x \<and> 0 \<le> x \<and> x \<le> 100
       \<and> x * of_nat (unat tot - unat (ms_last_total st)) = 100 * of_nat (unat used - unat (ms_last_used st))"
proof -
  have "ci_usage (fst (monitoring_get_cpu_info env st)) = cpu_percent (ms_last_total st) (ms_last_used st) tot used"
    using assms(1-3) by (simp add: monitoring_get_cpu_info_def cpu_invariants_def Let_def)
  with percent_range [OF assms(4-6)] show ?thesis by simp
qed

definition busy_env :: mon_env where
  "busy_env = sample_env\<lparr>me_stat := Some ''cpu  140 0 10 130 70 0 0''\<rparr>"

lemma scan_u64s_numeral:
  "scan_u64s (numeral k) s = (case scan_u64 s of None \<Rightarrow> [] | Some (v, r) \<Rightarrow> v # scan_u64s (pred_numeral k) r)"
  by (simp add: numeral_eq_Suc)

lemmas scan_eval = scan_u64s_numeral scan_u64_def c_isspace_def c_isdigit_def digits_val_def digit_val_def u64_max_def
  starts_with_def Let_def lf_def

lemma sample_stats: "scan_stat ''cpu  140 0 10 130 70 0 0'' = Some (350, 150)"
  "scan_stat (''cpu  100 0 0 100 50 0 0'' @ [lf]) = Some (250, 100)" "scan_stat ''cpu  200 0 0 100 10 0 0'' = Some (310, 200)"
  by (simp_all add: scan_stat_def scan_eval)

theorem cpu_usage_in_range_witness:
  "\<exists>x. ci_usage (fst (monitoring_get_cpu_info busy_env (mon_init\<lparr>ms_last_total := 250, ms_last_used := 100, ms_sampled := True\<rparr>))) = Fin x
     \<and> 0 \<le> x \<and> x \<le> 100 \<and> x * 100 = 100 * 50"
  using cpu_usage_in_range [of busy_env "''cpu  140 0 10 130 70 0 0''" 350 150 "mon_init\<lparr>ms_last_total := 250, ms_last_used := 100, ms_sampled := True\<rparr>"]
  by (simp add: sample_stats busy_env_def)

text \<open>Two readings of a machine whose waiting counter went from 50 to 10.\<close>

lemma cpu_usage_above_100:
  "cpu_percent 250 100 310 200 = Fin (500 / 3)"
  by (simp add: cpu_percent_def)

section \<open>Disks\<close>

definition disk_of_line :: "(string \<Rightarrow> (u64 \<times> u64 \<times> u64) option) \<Rightarrow> string \<Rightarrow> (u64 \<times> u64 \<times> u64) option" where
  "disk_of_line statvfs l =
     (case mount_line l of None \<Rightarrow> None
      | Some (device, mountpoint, fstype) \<Rightarrow>
          if counted_device device \<and> fstype \<notin> set virtual_fs then statvfs mountpoint else None)"

definition disks :: "mon_env \<Rightarrow> (u64 \<times> u64 \<times> u64) list" where
  "disks env = (case me_mounts env of None \<Rightarrow> [] | Some f \<Rightarrow> List.map_filter (disk_of_line (me_statvfs env)) (fgets_lines 512 f))"

lemma sat_mul_value: "unat (sat_mul x fr) = min u64_max (unat x * unat fr)"
proof (cases "fr = 0")
  case False
  then have pos: "0 < unat fr" by (metis unat_eq_zero neq0_conv)
  have q: "unat ((of_nat u64_max :: u64) div fr) = u64_max div unat fr" by (simp add: unat_div_distrib unat_u64_max)
  show ?thesis
  proof (cases "x > of_nat u64_max div fr")
    case True
    then have "u64_max div unat fr < unat x" by (simp add: word_less_nat_alt q)
    then have "u64_max < unat x * unat fr" using pos by (simp add: div_less_iff_less_mult)
    with True False show ?thesis by (simp add: sat_mul_def unat_u64_max)
  next
    case less: False
    then have "unat x \<le> u64_max div unat fr" by (simp add: word_less_nat_alt q not_less)
    then have le: "unat x * unat fr \<le> u64_max" using pos by (simp add: less_eq_div_iff_mult_less_eq)
    then have "unat (x * fr) = unat x * unat fr" unfolding u64_max_def
      by (subst unat_word_ariths(2)) (simp add: mod_less)
    with less False le show ?thesis by (simp add: sat_mul_def)
  qed
qed (simp add: sat_mul_def)

lemma fold_mounts:
  "fold (add_mount sv) ls (tot, fre) =
     (fold (\<lambda>(fr, b, _) x. sat_add x (sat_mul b fr)) (List.map_filter (disk_of_line sv) ls) tot,
      fold (\<lambda>(fr, _, b) x. sat_add x (sat_mul b fr)) (List.map_filter (disk_of_line sv) ls) fre)"
  by (induction ls arbitrary: tot fre)
    (auto simp: add_mount_def disk_of_line_def List.map_filter_simps split: option.splits prod.splits)

lemma fold_sat:
  "unat (fold (\<lambda>e x. sat_add x (sat_mul (g e) (fr e))) es x) = min u64_max (unat x + (\<Sum>e \<leftarrow> es. unat (g e) * unat (fr e)))"
proof (induction es arbitrary: x)
  case Nil
  show ?case using u64_bound [of x] by simp
next
  case (Cons e es)
  show ?case by (simp add: Cons.IH sat_add_value sat_mul_value)
qed

text \<open>C26. The disk figures are exact sums over the mounted disks: the total is the sum of the sizes in bytes, the free
  space the sum of the free sizes, each cut off at the largest 64-bit number, and the used space their
  difference, never below zero, so that used is at most total.\<close>

theorem disk_figures_exact:
  assumes "disk_scan env = Some d"
  shows "unat (di_total d) = min u64_max (\<Sum>(fr, blocks, _) \<leftarrow> disks env. unat blocks * unat fr)
       \<and> unat (di_free d) = min u64_max (\<Sum>(fr, _, bfree) \<leftarrow> disks env. unat bfree * unat fr)
       \<and> unat (di_used d) = unat (di_total d) - unat (di_free d)"
proof -
  obtain f where f: "me_mounts env = Some f" using assms by (auto simp: disk_scan_def)
  let ?es = "List.map_filter (disk_of_line (me_statvfs env)) (fgets_lines 512 f)"
  have t: "di_total d = fold (\<lambda>e x. sat_add x (sat_mul (fst (snd e)) (fst e))) ?es 0"
    and r: "di_free d = fold (\<lambda>e x. sat_add x (sat_mul (snd (snd e)) (fst e))) ?es 0"
    using assms by (auto simp: disk_scan_def f fold_mounts Let_def case_prod_beta')
  have "di_used d = (if di_free d > di_total d then 0 else di_total d - di_free d)"
    using assms by (auto simp: disk_scan_def f Let_def split: prod.splits)
  then have "unat (di_used d) = unat (di_total d) - unat (di_free d)"
    by (auto simp: word_less_nat_alt unat_sub word_le_nat_alt not_less)
  then show ?thesis unfolding t r fold_sat by (simp add: disks_def f case_prod_beta')
qed

lemma fgets_lines_step:
  "fgets_lines n s = (if s = [] \<or> n \<le> 1 then [] else
     let k = min (n - 1) (Suc (length (takeWhile (\<lambda>c. c \<noteq> lf) s))) in take k s # fgets_lines n (drop k s))"
proof (cases "s = [] \<or> n \<le> 1")
  case True
  then show ?thesis by (subst fgets_lines.simps) (simp add: fgets_def)
next
  case False
  let ?l = "takeWhile (\<lambda>c. c \<noteq> lf) s"
  have "fgets n s = Some (take (min (n - 1) (Suc (length ?l))) s, drop (min (n - 1) (Suc (length ?l))) s)"
  proof (cases "lf \<in> set s")
    case True
    then obtain a b where s: "s = a @ lf # b" "lf \<notin> set a" by (auto dest: split_list_first)
    then show ?thesis using False by (auto simp: fgets_def Let_def takeWhile_append2 min_def)
  next
    case no: False
    then have "?l = s" by (simp add: takeWhile_eq_all_conv) blast
    then show ?thesis using False by (auto simp: fgets_def Let_def min_def)
  qed
  then show ?thesis using False by (subst fgets_lines.simps) (simp add: Let_def)
qed

text \<open>A file whose lines are shorter than the buffer is read line by line.\<close>

lemma fgets_lines_text:
  assumes "\<forall>l \<in> set ls. lf \<notin> set l \<and> Suc (length l) < n"
  shows "fgets_lines n (concat (map (\<lambda>l. l @ [lf]) ls)) = map (\<lambda>l. l @ [lf]) ls"
  using assms
proof (induction ls)
  case Nil
  show ?case by (subst fgets_lines_step) simp
next
  case (Cons l ls)
  then have "takeWhile (\<lambda>c. c \<noteq> lf) (l @ lf # concat (map (\<lambda>l. l @ [lf]) ls)) = l" by (subst takeWhile_append2) auto
  moreover have "min (n - Suc 0) (Suc (length l)) = Suc (length l)" using Cons.prems by auto
  ultimately show ?case using Cons by (subst fgets_lines_step) (simp add: Let_def)
qed

lemma sample_mounts: "disks sample_env = [(512, 20, 5)]"
proof -
  have "fgets_lines 512 (''/dev/root / squashfs ro'' @ [lf] @ ''tmpfs /tmp tmpfs rw'' @ [lf])
      = [''/dev/root / squashfs ro'' @ [lf], ''tmpfs /tmp tmpfs rw'' @ [lf]]"
    using fgets_lines_text [of "[''/dev/root / squashfs ro'', ''tmpfs /tmp tmpfs rw'']" 512] by (simp add: lf_def)
  then show ?thesis
    by (simp add: disks_def sample_env_def List.map_filter_simps disk_of_line_def mount_line_def scan_word_def scan_eval
        counted_device_def virtual_fs_def)
qed

theorem disk_figures_exact_witness:
  "\<exists>d. disk_scan sample_env = Some d \<and> unat (di_total d) = 10240 \<and> unat (di_free d) = 2560 \<and> unat (di_used d) = 7680"
proof -
  obtain d where d: "disk_scan sample_env = Some d" by (auto simp: disk_scan_def sample_env_def)
  from disk_figures_exact [OF d] show ?thesis using d by (simp add: sample_mounts u64_max_def)
qed

section \<open>Network\<close>

text \<open>The counters of the interfaces that are summed, in the order of the file.\<close>

definition net_entry :: "string \<Rightarrow> (u64 \<times> u64) option" where
  "net_entry l = (case scan_net_dev 16 9 l of None \<Rightarrow> None
     | Some (name, rx, tx) \<Rightarrow> if name = ''lo'' then None else Some (rx, tx))"

definition net_entries :: "mon_env \<Rightarrow> (u64 \<times> u64) list" where
  "net_entries env = (case me_net_dev env of None \<Rightarrow> [] | Some f \<Rightarrow> List.map_filter net_entry (drop 2 (fgets_lines 512 f)))"

lemma net_lines_sums:
  "net_lines stale i ls (rx, tx, rxp, txp) = (rx', tx', r) \<Longrightarrow>
     rx' = rx + (\<Sum>(r, _) \<leftarrow> List.map_filter net_entry ls. r) \<and> tx' = tx + (\<Sum>(_, t) \<leftarrow> List.map_filter net_entry ls. t)"
proof (induction ls arbitrary: i rx tx rxp txp)
  case Nil
  then show ?case by (simp add: List.map_filter_simps)
next
  case (Cons l ls)
  obtain rx1 tx1 p1 p2 where one: "net_line (stale i) l (rx, tx, rxp, txp) = (rx1, tx1, p1, p2)" by (cases "net_line (stale i) l (rx, tx, rxp, txp)") auto
  have "(rx1, tx1) = (case net_entry l of None \<Rightarrow> (rx, tx) | Some (r, t) \<Rightarrow> (rx + r, tx + t))"
    using one by (auto simp: net_line_def net_entry_def scan_net_dev_def split: option.splits if_splits)
  moreover have "net_lines stale (Suc i) ls (rx1, tx1, p1, p2) = (rx', tx', r)" using Cons.prems by (simp add: one)
  note Cons.IH [OF this]
  ultimately show ?case by (auto simp: List.map_filter_simps split: option.splits prod.splits)
qed

lemma half_up:
  assumes "0 < (t :: nat)" "d < 2 ^ 64"
  shows "\<lfloor>of_nat d / of_nat t + 1 / 2 :: rat\<rfloor> = int ((2 * d + t) div (2 * t))"
    and "0 \<le> (of_nat d / of_nat t + 1 / 2 :: rat)" and "(of_nat d / of_nat t + 1 / 2 :: rat) < 2 ^ 64"
proof -
  have x: "(of_nat d / of_nat t + 1 / 2 :: rat) = of_nat (2 * d + t) / of_nat (2 * t)"
    using assms(1) by (simp add: field_simps)
  show "\<lfloor>of_nat d / of_nat t + 1 / 2 :: rat\<rfloor> = int ((2 * d + t) div (2 * t))"
    unfolding x by (rule floor_divide_of_nat_eq)
  show "0 \<le> (of_nat d / of_nat t + 1 / 2 :: rat)" by simp
  have "of_nat d / of_nat t \<le> (of_nat d / 1 :: rat)" using assms(1) by (intro divide_left_mono) auto
  moreover have "of_nat d \<le> (of_nat (2 ^ 64 - 1) :: rat)" using assms(2) by (simp only: of_nat_le_iff)
  ultimately show "(of_nat d / of_nat t + 1 / 2 :: rat) < 2 ^ 64" by simp
qed

lemma speed_value:
  assumes "0 < unat dt"
  shows "unat (speed l v dt) = (2 * (unat v - unat l) + unat dt) div (2 * unat dt)"
proof -
  let ?d = "unat v - unat l" and ?t = "unat dt"
  have d: "unat (if v \<ge> l then v - l else 0) = ?d" by (auto simp: unat_sub word_le_nat_alt)
  have "unat v < 2 ^ LENGTH(64)" by (rule unsigned_less)
  then have dlt: "?d < 2 ^ 64" by simp
  note h = half_up [OF assms dlt]
  have "int ((2 * ?d + ?t) div (2 * ?t)) < 2 ^ 64" using h(3) unfolding h(1) [symmetric] by (simp add: floor_less_iff)
  then have q: "(2 * ?d + ?t) div (2 * ?t) < 2 ^ 64" by simp
  have "speed l v dt = of_nat ((2 * ?d + ?t) div (2 * ?t))"
    using h by (simp only: speed_def Let_def d u64_of_double_def trunc_rat_def) simp
  with q show ?thesis by (simp add: unat_of_nat)
qed


lemma sample_net: "\<exists>i st. monitoring_get_net_info sample_env (Some ns) = (0, i, st) \<and> ni_rx_bytes i = 100 \<and> ni_tx_bytes i = 30"
proof -
  have l: "fgets_lines 512 sample_net_dev
     = [''a'' @ [lf], ''b'' @ [lf], ''lo: 9 9 9 9 9 9 9 9 9 9 9'' @ [lf], '' eth0: 100 2 0 0 0 0 0 0 30 4 0'' @ [lf]]"
    using fgets_lines_text [of "[''a'', ''b'', ''lo: 9 9 9 9 9 9 9 9 9 9 9'', '' eth0: 100 2 0 0 0 0 0 0 30 4 0'']" 512] by (simp add: sample_net_dev_def lf_def)
  have n: "net_line t (''lo: 9 9 9 9 9 9 9 9 9 9 9'' @ [lf]) x = x"
    "net_line t ('' eth0: 100 2 0 0 0 0 0 0 30 4 0'' @ [lf]) (0, 0, 0, 0) = (100, 30, 2, 4)" for t x
    by (cases x, simp add: net_line_def net_dev_counters_def scan_eval, simp add: net_line_def net_dev_counters_def scan_eval)
  show ?thesis by (simp add: monitoring_get_net_info_def sample_env_def l n [simplified] zero_net_def) 
qed


section \<open>Memory\<close>

text \<open>A line as the kernel prints it: the key, blanks, the number, and mostly a unit.\<close>

type_synonym mem_line = "string \<times> nat \<times> nat \<times> bool"

fun mem_text :: "mem_line \<Rightarrow> string" where
  "mem_text (key, pad, n, unit) = key @ '':'' @ replicate pad CHR '' '' @ show_nat n @ (if unit then '' kB'' else [])"

fun mem_line_ok :: "mem_line \<Rightarrow> bool" where
  "mem_line_ok (key, pad, n, unit) \<longleftrightarrow> key \<noteq> [] \<and> length key \<le> 63 \<and> CHR '':'' \<notin> set key \<and> lf \<notin> set key
     \<and> pad \<le> 100 \<and> n < 2 ^ 54"

definition mem_file :: "mem_line list \<Rightarrow> string" where
  "mem_file es = concat (map (\<lambda>l. l @ [lf]) (map mem_text es))"

definition mem_bytes :: "mem_line list \<Rightarrow> string \<Rightarrow> nat" where
  "mem_bytes es key = (case map_of es key of None \<Rightarrow> 0 | Some (_, n, _) \<Rightarrow> 1024 * n)"

lemma scan_u64_show:
  assumes "n \<le> u64_max" "r = [] \<or> \<not> c_isdigit (hd r)"
  shows "scan_u64 (replicate pad CHR '' '' @ show_nat n @ r) = Some (of_nat n, r)"
proof -
  have hd: "hd (show_nat n) \<notin> {CHR ''-'', CHR ''+''} \<and> \<not> c_isspace (hd (show_nat n))"
    using show_nat_digits [of n] by (cases "show_nat n") (auto simp: c_isdigit_def c_isspace_def)
  then have "dropWhile c_isspace (replicate pad CHR '' '' @ show_nat n @ r) = show_nat n @ r"
    by (subst dropWhile_append2) (cases "show_nat n"; auto simp: c_isspace_def)+
  moreover obtain c s where cs: "show_nat n = c # s" by (cases "show_nat n") auto
  moreover have "takeWhile c_isdigit (show_nat n @ r) = show_nat n" "dropWhile c_isdigit (show_nat n @ r) = r"
    using assms(2) show_nat_digits [of n] by (cases r; auto simp: takeWhile_append dropWhile_append)+
  ultimately show ?thesis using hd assms(1) digits_val_show_nat [of n] by (auto simp: scan_u64_def Let_def)
qed

lemma scan_mem_line:
  assumes "mem_line_ok (key, pad, n, unit)"
  shows "scan_key_value 63 (mem_text (key, pad, n, unit) @ [lf]) = Some (key, of_nat n)"
proof -
  have "takeWhile (\<lambda>c. c \<noteq> CHR '':'') (key @ CHR '':'' # t) = key" for t using assms by (subst takeWhile_append2) auto
  moreover have "n \<le> u64_max" using assms by (simp add: u64_max_def)
  ultimately show ?thesis using assms
    by (auto simp: scan_key_value_def Let_def scan_u64_show c_isdigit_def lf_def)
qed

definition set_key :: "string \<Rightarrow> u64 \<Rightarrow> meminfo \<Rightarrow> meminfo" where
  "set_key key v m =
     (if key = ''MemTotal'' then m\<lparr>mf_total := v\<rparr>
      else if key = ''MemFree'' then m\<lparr>mf_free := v\<rparr>
      else if key = ''MemAvailable'' then m\<lparr>mf_available := v\<rparr>
      else if key = ''Buffers'' then m\<lparr>mf_buffers := v\<rparr>
      else if key = ''Cached'' then m\<lparr>mf_cached := v\<rparr>
      else if key = ''SReclaimable'' then m\<lparr>mf_sreclaimable := v\<rparr>
      else if key = ''SwapTotal'' then m\<lparr>mf_swap_total := v\<rparr>
      else if key = ''SwapFree'' then m\<lparr>mf_swap_free := v\<rparr>
      else m)"

lemma meminfo_line_ok: "mem_line_ok (key, pad, n, unit) \<Longrightarrow> meminfo_line (mem_text (key, pad, n, unit) @ [lf]) m = set_key key (of_nat n * 1024) m"
  by (simp only: meminfo_line_def scan_mem_line option.case prod.case Let_def set_key_def)

definition kb_or :: "mem_line list \<Rightarrow> string \<Rightarrow> u64 \<Rightarrow> u64" where
  "kb_or es key v = (case map_of es key of None \<Rightarrow> v | Some (_, n, _) \<Rightarrow> of_nat n * 1024)"

lemma kb_or_simps: "kb_or [] key v = v" "distinct (map fst (e # es)) \<Longrightarrow>
    kb_or (e # es) key v = kb_or es key (if fst e = key then of_nat (fst (snd (snd e))) * 1024 else v)"
  by (auto simp: kb_or_def split: option.splits prod.splits dest!: map_of_SomeD) (metis fst_conv imageI)+

lemma set_key_fields:
  "mf_total (set_key k v m) = (if k = ''MemTotal'' then v else mf_total m)"
  "mf_free (set_key k v m) = (if k = ''MemFree'' then v else mf_free m)"
  "mf_available (set_key k v m) = (if k = ''MemAvailable'' then v else mf_available m)"
  "mf_buffers (set_key k v m) = (if k = ''Buffers'' then v else mf_buffers m)"
  "mf_cached (set_key k v m) = (if k = ''Cached'' then v else mf_cached m)"
  "mf_swap_total (set_key k v m) = (if k = ''SwapTotal'' then v else mf_swap_total m)"
  "mf_swap_free (set_key k v m) = (if k = ''SwapFree'' then v else mf_swap_free m)"
  by (simp_all add: set_key_def)

lemma fold_meminfo:
  assumes "\<forall>e \<in> set es. mem_line_ok e" "distinct (map fst es)"
  shows "(let r = fold meminfo_line (map (\<lambda>l. l @ [lf]) (map mem_text es)) m
     in mf_total r = kb_or es ''MemTotal'' (mf_total m) \<and> mf_free r = kb_or es ''MemFree'' (mf_free m)
      \<and> mf_available r = kb_or es ''MemAvailable'' (mf_available m) \<and> mf_buffers r = kb_or es ''Buffers'' (mf_buffers m)
      \<and> mf_cached r = kb_or es ''Cached'' (mf_cached m) \<and> mf_swap_total r = kb_or es ''SwapTotal'' (mf_swap_total m)
      \<and> mf_swap_free r = kb_or es ''SwapFree'' (mf_swap_free m))"
  using assms
proof (induction es arbitrary: m)
  case Nil
  show ?case by (simp add: kb_or_simps Let_def)
next
  case (Cons e es)
  obtain k p n u where e: "e = (k, p, n, u)" by (cases e) auto
  have ok: "mem_line_ok (k, p, n, u)" using Cons.prems(1) by (simp add: e)
  from Cons.IH [of "set_key k (of_nat n * 1024) m"] Cons.prems show ?case
    by (simp add: e meminfo_line_ok [OF ok] kb_or_simps(2) [OF Cons.prems(2), unfolded e] set_key_fields Let_def del: mem_text.simps)
qed

lemma kb_bytes: "\<forall>e \<in> set es. mem_line_ok e \<Longrightarrow> unat (kb_or es key 0) = mem_bytes es key"
proof -
  assume ok: "\<forall>e \<in> set es. mem_line_ok e"
  have "n < 2 ^ 54 \<Longrightarrow> unat (of_nat n * 1024 :: u64) = 1024 * n" for n :: nat
    by (simp add: unat_word_ariths(2) unat_of_nat)
  with ok show ?thesis by (auto simp: kb_or_def mem_bytes_def split: option.splits prod.splits dest!: map_of_SomeD)
qed

lemma mem_text_short: "mem_line_ok e \<Longrightarrow> lf \<notin> set (mem_text e) \<and> Suc (length (mem_text e)) < 256"
proof -
  assume ok: "mem_line_ok e"
  obtain k p n u where e: "e = (k, p, n, u)" by (cases e) auto
  have "length (show_nat n) \<le> 17" by (rule show_nat_lengthI) (use ok in \<open>auto simp: e\<close>)
  moreover have "lf \<notin> set (show_nat n)" using show_nat_digits [of n] by (auto simp: lf_def c_isdigit_def)
  ultimately show ?thesis using ok by (auto simp: e lf_def)
qed

text \<open>From a file as the kernel writes it (distinct keys, values below \<open>2 ^ 54\<close> kB) the memory figures come out
  in bytes: total and free as written; used is total less available when there is such a line, and otherwise
  what is neither free nor in buffers nor cached; swap the same, with used = total - free.\<close>

theorem mem_figures_exact:
  assumes "me_meminfo env = Some (mem_file es)" "\<forall>e \<in> set es. mem_line_ok e" "distinct (map fst es)"
    "mem_bytes es ''MemAvailable'' \<le> mem_bytes es ''MemTotal''" "mem_bytes es ''SwapFree'' \<le> mem_bytes es ''SwapTotal''"
    "mem_bytes es ''MemFree'' + mem_bytes es ''Buffers'' + mem_bytes es ''Cached'' \<le> mem_bytes es ''MemTotal''"
  shows "\<exists>mem swap. monitoring_get_mem_swap_info False env = (0, mem, swap)
    \<and> unat (mi_total mem) = mem_bytes es ''MemTotal'' \<and> unat (mi_free mem) = mem_bytes es ''MemFree''
    \<and> unat (mi_used mem) = mem_bytes es ''MemTotal'' -
        (if mem_bytes es ''MemAvailable'' \<noteq> 0 then mem_bytes es ''MemAvailable''
         else mem_bytes es ''MemFree'' + mem_bytes es ''Buffers'' + mem_bytes es ''Cached'')
    \<and> unat (mi_total swap) = mem_bytes es ''SwapTotal''
    \<and> unat (mi_used swap) = mem_bytes es ''SwapTotal'' - mem_bytes es ''SwapFree''"
proof -
  define r where "r = fold meminfo_line (fgets_lines 256 (mem_file es)) meminfo_init"
  have "fgets_lines 256 (mem_file es) = map (\<lambda>l. l @ [lf]) (map mem_text es)"
    unfolding mem_file_def using assms(2) mem_text_short by (intro fgets_lines_text) auto
  then have r: "mf_total r = kb_or es ''MemTotal'' 0" "mf_free r = kb_or es ''MemFree'' 0" "mf_available r = kb_or es ''MemAvailable'' 0"
      "mf_buffers r = kb_or es ''Buffers'' 0" "mf_cached r = kb_or es ''Cached'' 0"
      "mf_swap_total r = kb_or es ''SwapTotal'' 0" "mf_swap_free r = kb_or es ''SwapFree'' 0"
    using fold_meminfo [OF assms(2,3), of meminfo_init] by (simp_all add: r_def meminfo_init_def Let_def)
  note b = kb_bytes [OF assms(2)]
  have sub: "unat y \<le> unat x \<Longrightarrow> unat (x - y) = unat x - unat y" for x y :: u64 by (simp add: unat_sub word_le_nat_alt)
  have av: "0 < mf_available r \<longleftrightarrow> mem_bytes es ''MemAvailable'' \<noteq> 0"
    by (metis b r(3) unat_eq_zero word_gt_0)
  have "unat (mem_used False r) = mem_bytes es ''MemTotal'' -
        (if mem_bytes es ''MemAvailable'' \<noteq> 0 then mem_bytes es ''MemAvailable''
         else mem_bytes es ''MemFree'' + mem_bytes es ''Buffers'' + mem_bytes es ''Cached'')"
    using assms(4,6) by (simp add: mem_used_def av) (simp add: r b sub)
  moreover have "unat (mf_swap_total r - mf_swap_free r) = mem_bytes es ''SwapTotal'' - mem_bytes es ''SwapFree''"
    using assms(5) by (simp add: r b sub)
  ultimately show ?thesis
    by (simp add: monitoring_get_mem_swap_info_def assms(1) r_def [symmetric] Let_def) (simp add: r b)
qed

definition sample_mem :: "mem_line list" where
  "sample_mem = [(''MemTotal'', 8, 1000, True), (''MemFree'', 9, 300, True), (''Cached'', 3, 200, True), (''HugePages_Total'', 1, 0, False)]"

theorem mem_figures_exact_witness:
  "\<exists>mem swap. monitoring_get_mem_swap_info False (sample_env\<lparr>me_meminfo := Some (mem_file sample_mem)\<rparr>) = (0, mem, swap)
     \<and> unat (mi_used mem) = 512000 \<and> unat (mi_used swap) = 0"
proof -
  have "\<forall>e \<in> set sample_mem. mem_line_ok e" "distinct (map fst sample_mem)" by (simp_all add: sample_mem_def lf_def)
  then show ?thesis
    using mem_figures_exact [of "sample_env\<lparr>me_meminfo := Some (mem_file sample_mem)\<rparr>" sample_mem]
    by (auto simp: sample_mem_def mem_bytes_def)
qed

text \<open>Free, buffered and cached memory may overlap: then the difference wraps around.\<close>

lemma mem_used_wraps:
  "mem_used False (meminfo_init\<lparr>mf_total := 1024000, mf_free := 500 * 1024, mf_cached := 600 * 1024\<rparr>) = - 102400"
  by (simp add: mem_used_def meminfo_init_def)

section \<open>Addresses\<close>

text \<open>The first address of each family, in the order of the list, that is neither on a skipped interface nor
  link-local and that can be written as text.\<close>

fun usable4 :: "string \<times> ifa_addr option \<Rightarrow> string option" where
  "usable4 (n, Some (Inet (Some h))) = (if skipped_interface n then None else Some h)"
| "usable4 _ = None"

fun usable6 :: "string \<times> ifa_addr option \<Rightarrow> string option" where
  "usable6 (n, Some (Inet6 False (Some h))) = (if skipped_interface n then None else Some h)"
| "usable6 _ = None"

definition first_or_empty :: "nat \<Rightarrow> string list \<Rightarrow> string" where
  "first_or_empty n hs = (case hs of [] \<Rightarrow> [] | h # _ \<Rightarrow> strncpy_term n h)"

lemma strncpy_term_Nil_iff: "1 < n \<Longrightarrow> strncpy_term n h = [] \<longleftrightarrow> h = []"
  by (cases h) (auto simp: strncpy_term_def)

lemma fold_addresses:
  assumes "1 < n4" "1 < n6"
    "\<forall>h. h \<in> set (List.map_filter usable4 es) \<union> set (List.map_filter usable6 es) \<longrightarrow> h \<noteq> []"
  shows "fold (take_address (Some n4) (Some n6)) es (v4, v6) =
    (if v4 = [] then first_or_empty n4 (List.map_filter usable4 es) else v4,
     if v6 = [] then first_or_empty n6 (List.map_filter usable6 es) else v6)"
  using assms(3)
proof (induction es arbitrary: v4 v6)
  case Nil
  then show ?case by (simp add: List.map_filter_simps first_or_empty_def)
next
  case (Cons e es)
  obtain n a where e: "e = (n, a)" by (cases e)
  show ?case
  proof (cases "\<exists>h. usable4 e = Some h \<or> usable6 e = Some h")
    case False
    then have "take_address (Some n4) (Some n6) e (v4, v6) = (v4, v6)"
      by (auto simp: e take_address_def split: option.splits ifa_addr.splits bool.splits)
    moreover have "usable4 e = None" "usable6 e = None" using False by (auto simp: not_Some_eq [symmetric] simp del: not_Some_eq)
    ultimately show ?thesis using Cons by (simp add: List.map_filter_simps)
  next
    case True
    then obtain h where "a = Some (Inet (Some h)) \<or> a = Some (Inet6 False (Some h))" "\<not> skipped_interface n"
      by (cases e rule: usable4.cases; cases e rule: usable6.cases) (auto simp: e split: if_splits)
    then consider (v4) "a = Some (Inet (Some h))" | (v6) "a = Some (Inet6 False (Some h))" by blast
    then show ?thesis
    proof cases
      case v4
      then have "h \<noteq> []" using Cons.prems \<open>\<not> skipped_interface n\<close> by (auto simp: e List.map_filter_simps)
      with v4 Cons \<open>\<not> skipped_interface n\<close> assms(1) show ?thesis
        by (simp add: e take_address_def List.map_filter_simps first_or_empty_def strncpy_term_Nil_iff)
    next
      case v6
      then have "h \<noteq> []" using Cons.prems \<open>\<not> skipped_interface n\<close> by (auto simp: e List.map_filter_simps)
      with v6 Cons \<open>\<not> skipped_interface n\<close> assms(2) show ?thesis
        by (simp add: e take_address_def List.map_filter_simps first_or_empty_def strncpy_term_Nil_iff)
    qed
  qed
qed

text \<open>The addresses a report carries are, per family, the first of the list that can be used (interface not
  \<open>lo\<close>, \<open>docker*\<close>, \<open>veth*\<close>, \<open>br-*\<close>; not link-local), cut to the buffer, and empty only when there is none; the
  text of an address is never empty (hypothesis on \<open>getnameinfo\<close>).\<close>

theorem addresses_first_usable:
  assumes "me_ifaddrs env = Some es" "\<forall>h. h \<in> set (List.map_filter usable4 es) \<union> set (List.map_filter usable6 es) \<longrightarrow> h \<noteq> []"
  shows "h_ipv4 (fst (collect_host ic henv env st)) = first_or_empty 64 (List.map_filter usable4 es)
       \<and> h_ipv6 (fst (collect_host ic henv env st)) = first_or_empty 128 (List.map_filter usable6 es)"
  using fold_addresses [of 64 128 es "[]" "[]"] assms
  by (simp add: collect_host_def monitoring_get_ip_address_def split_beta Let_def)

theorem addresses_first_usable_witness:
  "h_ipv4 (fst (collect_host False sample_host sample_env (mon_init, virt_init))) = ''192.0.2.1''"
  using addresses_first_usable [of sample_env "[(''lo'', Some (Inet (Some ''127.0.0.1''))), (''wan'', None), (''wan'', Some (Inet (Some ''192.0.2.1'')))]"
      False sample_host "(mon_init, virt_init)"]
  by (simp add: sample_env_def List.map_filter_simps skipped_interface_def starts_with_def first_or_empty_def strncpy_term_def)

end
