(* ===== verification/Compress.thy ===== *)
theory Compress
  imports CPrelude
begin

text \<open>
  Compression (\<open>src/protocol/compress.c\<close>) around zlib, which is a parameter: a stream is started on the
  input, and a step with room for \<open>n\<close> bytes gives a code, the bytes written and the stream afterwards.
  Lengths are those of inputs below 2 GiB, where the casts to \<open>uInt\<close> change nothing.
\<close>

datatype zret = Z_OK | Z_BUF_ERROR | Z_STREAM_END | Z_ERROR

record 'z zlib =
  z_init_ok :: bool
  z_start :: "byte list \<Rightarrow> 'z"
  z_step :: "'z \<Rightarrow> nat \<Rightarrow> zret \<times> byte list \<times> 'z"
  z_malloc_ok :: bool
  z_realloc_ok :: "nat \<Rightarrow> bool"

text \<open>What is acquired and released; \<open>Realloc\<close> keeps one buffer.\<close>

datatype z_op = StreamInit | StreamEnd | Malloc nat | Realloc nat | FreeBuf

definition COMPRESS_CHUNK_SIZE :: nat where "COMPRESS_CHUNK_SIZE = 4096"
definition COMPRESS_SIZE_OVERHEAD :: nat where "COMPRESS_SIZE_OVERHEAD = 128"
definition DECOMPRESS_INITIAL_FACTOR :: nat where "DECOMPRESS_INITIAL_FACTOR = 4"
definition MAX_DECOMPRESSED_SIZE :: nat where "MAX_DECOMPRESSED_SIZE = 16 * 1024 * 1024"
definition SIZE_MAX :: nat where "SIZE_MAX = 2 ^ 64 - 1"

section \<open>Operations\<close>

text \<open>The loop of \<open>compress_gzip\<close>: None is an endless loop, otherwise the text or a failure and the operations.\<close>

partial_function (option) gzip_loop :: "'z zlib \<Rightarrow> 'z \<Rightarrow> nat \<Rightarrow> byte list \<Rightarrow> (byte list option \<times> z_op list) option" where
  "gzip_loop z st buf_size out =
     (case z_step z st (buf_size - length out) of (ret, bs, st') \<Rightarrow>
        if ret = Z_OK \<or> ret = Z_BUF_ERROR then
          if buf_size > SIZE_MAX div 2 then Some (None, [FreeBuf])
          else if \<not> z_realloc_ok z (buf_size * 2) then Some (None, [FreeBuf])
          else Option.bind (gzip_loop z st' (buf_size * 2) (out @ bs)) (\<lambda>(r, ops). Some (r, Realloc (buf_size * 2) # ops))
        else if ret \<noteq> Z_STREAM_END then Some (None, [FreeBuf])
        else Some (Some (out @ bs), []))"

definition compress_gzip :: "'z zlib \<Rightarrow> byte list \<Rightarrow> (byte list option \<times> z_op list) option" where
  "compress_gzip z input =
     (if \<not> z_init_ok z then Some (None, [])
      else if length input > SIZE_MAX - COMPRESS_SIZE_OVERHEAD then Some (None, [StreamInit, StreamEnd])
      else let buf_size = max COMPRESS_CHUNK_SIZE (length input + COMPRESS_SIZE_OVERHEAD)
           in if \<not> z_malloc_ok z then Some (None, [StreamInit, StreamEnd])
              else map_option (\<lambda>(r, ops). (r, [StreamInit, Malloc buf_size] @ ops @ [StreamEnd]))
                (gzip_loop z (z_start z input) buf_size []))"

text \<open>The loop of \<open>compress_gunzip\<close>: the buffer grows by doubling up to the limit.\<close>

partial_function (option) gunzip_loop :: "'z zlib \<Rightarrow> 'z \<Rightarrow> nat \<Rightarrow> byte list \<Rightarrow> (byte list option \<times> z_op list) option" where
  "gunzip_loop z st buf_size out =
     (if length out > MAX_DECOMPRESSED_SIZE then Some (None, [FreeBuf])
      else case z_step z st (buf_size - length out) of (ret, bs, st') \<Rightarrow>
        let out' = out @ bs; avail_out = buf_size - length out'
        in if ret = Z_STREAM_END then Some (Some out', [])
           else if ret \<noteq> Z_OK \<and> ret \<noteq> Z_BUF_ERROR then Some (None, [FreeBuf])
           else if ret = Z_BUF_ERROR \<and> avail_out > 0 then Some (None, [FreeBuf])
           else if avail_out = 0 then
             if buf_size \<ge> MAX_DECOMPRESSED_SIZE then Some (None, [FreeBuf])
             else let new_size = min (buf_size * 2) MAX_DECOMPRESSED_SIZE
                  in if \<not> z_realloc_ok z new_size then Some (None, [FreeBuf])
                     else Option.bind (gunzip_loop z st' new_size out') (\<lambda>(r, ops). Some (r, Realloc new_size # ops))
           else gunzip_loop z st' buf_size out')"

definition compress_gunzip :: "'z zlib \<Rightarrow> byte list \<Rightarrow> (byte list option \<times> z_op list) option" where
  "compress_gunzip z input =
     (if \<not> z_init_ok z then Some (None, [])
      else if length input > MAX_DECOMPRESSED_SIZE div DECOMPRESS_INITIAL_FACTOR then Some (None, [StreamInit, StreamEnd])
      else let buf_size = max COMPRESS_CHUNK_SIZE (length input * DECOMPRESS_INITIAL_FACTOR)
           in if \<not> z_malloc_ok z then Some (None, [StreamInit, StreamEnd])
              else map_option (\<lambda>(r, ops). (r, [StreamInit, Malloc buf_size] @ ops @ [StreamEnd]))
                (gunzip_loop z (z_start z input) buf_size []))"

section \<open>Properties\<close>

text \<open>What zlib promises: it writes no more than there is room for, and \<open>Z_OK\<close> means progress, either bytes written or
  input consumed (measured by \<open>m\<close>).\<close>

definition z_steps_ok :: "'z zlib \<Rightarrow> ('z \<Rightarrow> nat) \<Rightarrow> bool" where
  "z_steps_ok z m \<longleftrightarrow> (\<forall>st n. case z_step z st n of (ret, bs, st') \<Rightarrow>
     length bs \<le> n \<and> m st' \<le> m st \<and> (ret = Z_OK \<longrightarrow> bs \<noteq> [] \<or> m st' < m st))"

text \<open>The bytes a stream gives until its end, over any sequence of rooms.\<close>

inductive stream_gives :: "'z zlib \<Rightarrow> 'z \<Rightarrow> byte list \<Rightarrow> bool" for z where
  ends: "z_step z st n = (Z_STREAM_END, bs, st') \<Longrightarrow> stream_gives z st bs"
| goes_on: "z_step z st n = (ret, bs, st') \<Longrightarrow> ret = Z_OK \<or> ret = Z_BUF_ERROR \<Longrightarrow> stream_gives z st' out
    \<Longrightarrow> stream_gives z st (bs @ out)"

fun alloc_sizes :: "z_op list \<Rightarrow> nat list" where
  "alloc_sizes [] = []"
| "alloc_sizes (Malloc n # ops) = n # alloc_sizes ops"
| "alloc_sizes (Realloc n # ops) = n # alloc_sizes ops"
| "alloc_sizes (_ # ops) = alloc_sizes ops"

text \<open>The loop frees its buffer exactly when it fails.\<close>

definition loop_ops_ok :: "byte list option \<Rightarrow> z_op list \<Rightarrow> bool" where
  "loop_ops_ok r ops \<longleftrightarrow> (\<exists>sizes. ops = map Realloc sizes @ (if r = None then [FreeBuf] else []))"

lemma loop_ops_simps [simp]: "loop_ops_ok None [FreeBuf]" "loop_ops_ok (Some out) []"
  by (simp_all add: loop_ops_ok_def)

lemma loop_ops_Realloc [simp]: "loop_ops_ok r ops \<Longrightarrow> loop_ops_ok r (Realloc n # ops)"
  unfolding loop_ops_ok_def by (metis append_Cons list.simps(9))

lemma gunzip_loop_ok:
  assumes "z_steps_ok z m" "length out \<le> buf_size" "0 < buf_size" "buf_size \<le> MAX_DECOMPRESSED_SIZE"
  shows "\<exists>r ops. gunzip_loop z st buf_size out = Some (r, ops) \<and> loop_ops_ok r ops
     \<and> (\<forall>n \<in> set (alloc_sizes ops). n \<le> MAX_DECOMPRESSED_SIZE)
     \<and> (\<forall>res. r = Some res \<longrightarrow> length res \<le> MAX_DECOMPRESSED_SIZE \<and> (\<exists>rest. res = out @ rest \<and> stream_gives z st rest))"
  using assms(2-)
proof (induction "m st + (MAX_DECOMPRESSED_SIZE - length out) + (MAX_DECOMPRESSED_SIZE - buf_size)"
    arbitrary: st buf_size out rule: less_induct)
  case less
  obtain ret bs st' where step: "z_step z st (buf_size - length out) = (ret, bs, st')" by (metis prod_cases3)
  have laws: "length bs \<le> buf_size - length out" "m st' \<le> m st" "ret = Z_OK \<Longrightarrow> bs \<noteq> [] \<or> m st' < m st"
    using assms(1) step by (auto simp: z_steps_ok_def dest!: spec [of _ st] spec [of _ "buf_size - length out"])
  note unfold = gunzip_loop.simps [of z st buf_size out]
  have fits: "length (out @ bs) \<le> buf_size" using laws(1) less.prems by simp
  have small: "\<not> length out > MAX_DECOMPRESSED_SIZE" using less.prems by simp
  show ?case
  proof (cases "ret = Z_STREAM_END")
    case True
    then show ?thesis using step small fits less.prems
      by (auto simp: unfold intro: stream_gives.ends)
  next
    case cont: False
    show ?thesis
    proof (cases "ret \<noteq> Z_OK \<and> ret \<noteq> Z_BUF_ERROR \<or> ret = Z_BUF_ERROR \<and> length (out @ bs) < buf_size
        \<or> length (out @ bs) = buf_size \<and> (buf_size \<ge> MAX_DECOMPRESSED_SIZE \<or> \<not> z_realloc_ok z (min (buf_size * 2) MAX_DECOMPRESSED_SIZE))")
      case True
      then show ?thesis using step small cont fits by (auto simp: unfold Let_def)
    next
      case False
      then have code: "ret = Z_OK \<or> ret = Z_BUF_ERROR" by auto
      define size where "size = (if length (out @ bs) = buf_size then min (buf_size * 2) MAX_DECOMPRESSED_SIZE else buf_size)"
      have size: "length (out @ bs) \<le> size" "0 < size" "size \<le> MAX_DECOMPRESSED_SIZE"
        using fits less.prems by (auto simp: size_def)
      have "m st' + (MAX_DECOMPRESSED_SIZE - length (out @ bs)) + (MAX_DECOMPRESSED_SIZE - size)
          < m st + (MAX_DECOMPRESSED_SIZE - length out) + (MAX_DECOMPRESSED_SIZE - buf_size)"
      proof (cases "length (out @ bs) = buf_size")
        case True
        then have "buf_size < size" using False less.prems(2) by (auto simp: size_def)
        then show ?thesis using laws(2) size(3) by simp
      next
        case short: False
        then have "ret = Z_OK" using code False fits by auto
        then have "bs \<noteq> [] \<or> m st' < m st" by (rule laws(3))
        then show ?thesis using laws(2) short fits less.prems by (cases bs) (auto simp: size_def)
      qed
      from less.hyps [OF this size] obtain r ops where rec: "gunzip_loop z st' size (out @ bs) = Some (r, ops)" "loop_ops_ok r ops"
          "\<forall>n \<in> set (alloc_sizes ops). n \<le> MAX_DECOMPRESSED_SIZE"
          "\<forall>res. r = Some res \<longrightarrow> length res \<le> MAX_DECOMPRESSED_SIZE \<and> (\<exists>rest. res = (out @ bs) @ rest \<and> stream_gives z st' rest)"
        by blast
      have "\<forall>res. r = Some res \<longrightarrow> length res \<le> MAX_DECOMPRESSED_SIZE \<and> (\<exists>rest. res = out @ rest \<and> stream_gives z st rest)"
        using rec(4) stream_gives.goes_on [OF step code] by fastforce
      then show ?thesis using rec(1-3) step small cont code False fits
        by (cases "length (out @ bs) = buf_size") (auto simp: unfold Let_def size_def)
    qed
  qed
qed

lemma gzip_loop_ok:
  assumes "0 < buf_size"
  shows "\<exists>r ops. gzip_loop z st buf_size out = Some (r, ops) \<and> loop_ops_ok r ops
     \<and> (\<forall>res. r = Some res \<longrightarrow> (\<exists>rest. res = out @ rest \<and> stream_gives z st rest))"
  using assms
proof (induction "SIZE_MAX - buf_size" arbitrary: st buf_size out rule: less_induct)
  case less
  obtain ret bs st' where step: "z_step z st (buf_size - length out) = (ret, bs, st')" by (metis prod_cases3)
  note unfold = gzip_loop.simps [of z st buf_size out]
  show ?case
  proof (cases "(ret = Z_OK \<or> ret = Z_BUF_ERROR) \<and> \<not> buf_size > SIZE_MAX div 2 \<and> z_realloc_ok z (buf_size * 2)")
    case False
    then show ?thesis using step by (cases ret) (auto simp: unfold intro: stream_gives.ends)
  next
    case True
    have "SIZE_MAX - buf_size * 2 < SIZE_MAX - buf_size" "0 < buf_size * 2"
      using True less.prems by (auto simp: SIZE_MAX_def)
    from less.hyps [OF this] obtain r ops where rec: "gzip_loop z st' (buf_size * 2) (out @ bs) = Some (r, ops)" "loop_ops_ok r ops"
        "\<forall>res. r = Some res \<longrightarrow> (\<exists>rest. res = (out @ bs) @ rest \<and> stream_gives z st' rest)" by blast
    then have "\<forall>res. r = Some res \<longrightarrow> (\<exists>rest. res = out @ rest \<and> stream_gives z st rest)"
      using stream_gives.goes_on [OF step] True by fastforce
    then show ?thesis using rec(1,2) step True by (auto simp: unfold)
  qed
qed

text \<open>Every stream that is started is ended, and the buffer is freed on failure and handed out otherwise.\<close>

definition z_balanced :: "byte list option \<Rightarrow> z_op list \<Rightarrow> bool" where
  "z_balanced r ops \<longleftrightarrow> count_list ops StreamInit = count_list ops StreamEnd
     \<and> length (filter (\<lambda>x. \<exists>n. x = Malloc n) ops) = count_list ops FreeBuf + (if r = None then 0 else 1)"

lemma count_reallocs [simp]:
  "count_list (map Realloc sizes) StreamInit = 0" "count_list (map Realloc sizes) StreamEnd = 0"
  "count_list (map Realloc sizes) FreeBuf = 0"
  by (induction sizes) simp_all

lemma balanced_around: "loop_ops_ok r ops \<Longrightarrow> z_balanced r ([StreamInit, Malloc n] @ ops @ [StreamEnd])"
  by (auto simp: z_balanced_def loop_ops_ok_def count_list_0_iff filter_empty_conv)

lemma alloc_append [simp]: "alloc_sizes (xs @ ys) = alloc_sizes xs @ alloc_sizes ys"
  by (induction xs rule: alloc_sizes.induct) auto

text \<open>C30. Unpacking ends for every input and every stream that keeps zlib's promises, with no buffer above 16 MiB
  (so that a small input cannot fill the memory); it releases what it acquired on every path, and a result
  is what the stream gave up to its end.\<close>

theorem gunzip_bounded:
  assumes "z_steps_ok z m"
  shows "\<exists>r ops. compress_gunzip z input = Some (r, ops) \<and> z_balanced r ops
     \<and> (\<forall>n \<in> set (alloc_sizes ops). n \<le> 16 * 1024 * 1024)
     \<and> (\<forall>out. r = Some out \<longrightarrow> length out \<le> 16 * 1024 * 1024 \<and> stream_gives z (z_start z input) out)"
proof -
  define size where "size = max COMPRESS_CHUNK_SIZE (length input * DECOMPRESS_INITIAL_FACTOR)"
  consider "\<not> z_init_ok z" | "z_init_ok z" "length input > MAX_DECOMPRESSED_SIZE div DECOMPRESS_INITIAL_FACTOR \<or> \<not> z_malloc_ok z"
    | "z_init_ok z" "length input \<le> MAX_DECOMPRESSED_SIZE div DECOMPRESS_INITIAL_FACTOR" "z_malloc_ok z" by fastforce
  then show ?thesis
  proof cases
    case 3
    then have "0 < size" "size \<le> MAX_DECOMPRESSED_SIZE"
      by (auto simp: size_def COMPRESS_CHUNK_SIZE_def MAX_DECOMPRESSED_SIZE_def DECOMPRESS_INITIAL_FACTOR_def)
    from gunzip_loop_ok [OF assms _ this, of "[]" "z_start z input"] obtain r ops where
      l: "gunzip_loop z (z_start z input) size [] = Some (r, ops)" "loop_ops_ok r ops"
         "\<forall>n \<in> set (alloc_sizes ops). n \<le> MAX_DECOMPRESSED_SIZE"
         "\<forall>res. r = Some res \<longrightarrow> length res \<le> MAX_DECOMPRESSED_SIZE \<and> stream_gives z (z_start z input) res" by auto
    have e: "compress_gunzip z input = Some (r, [StreamInit, Malloc size] @ ops @ [StreamEnd])"
      using 3 by (simp add: compress_gunzip_def size_def [symmetric] Let_def l(1))
    show ?thesis unfolding e
      using balanced_around [OF l(2), of size] l(3,4) \<open>size \<le> MAX_DECOMPRESSED_SIZE\<close>
      by (auto simp: MAX_DECOMPRESSED_SIZE_def)
  qed (auto simp: compress_gunzip_def z_balanced_def Let_def)
qed

text \<open>Packing ends too: the buffer doubles at most until its size would overflow; it releases what it acquired on
  every path, and a result is what the stream gave up to its end.\<close>

theorem gzip_ends:
  "\<exists>r ops. compress_gzip z input = Some (r, ops) \<and> z_balanced r ops
     \<and> (\<forall>out. r = Some out \<longrightarrow> stream_gives z (z_start z input) out)"
proof (cases "z_init_ok z \<and> \<not> length input > SIZE_MAX - COMPRESS_SIZE_OVERHEAD \<and> z_malloc_ok z")
  case True
  define size where "size = max COMPRESS_CHUNK_SIZE (length input + COMPRESS_SIZE_OVERHEAD)"
  have "0 < size" by (simp add: size_def COMPRESS_CHUNK_SIZE_def)
  from gzip_loop_ok [OF this, of z "z_start z input" "[]"] obtain r ops where
    l: "gzip_loop z (z_start z input) size [] = Some (r, ops)" "loop_ops_ok r ops"
       "\<forall>res. r = Some res \<longrightarrow> stream_gives z (z_start z input) res" by auto
  have e: "compress_gzip z input = Some (r, [StreamInit, Malloc size] @ ops @ [StreamEnd])"
    using True by (simp add: compress_gzip_def size_def [symmetric] Let_def l(1))
  show ?thesis unfolding e using balanced_around [OF l(2), of size] l(3) by auto
qed (auto simp: compress_gzip_def z_balanced_def Let_def)

text \<open>A stream that copies its input.\<close>

definition copy_step :: "byte list \<Rightarrow> nat \<Rightarrow> zret \<times> byte list \<times> byte list" where
  "copy_step st n = (if length st \<le> n then (Z_STREAM_END, st, []) else if n = 0 then (Z_BUF_ERROR, [], st) else (Z_OK, take n st, drop n st))"

definition copy_zlib :: "byte list zlib" where
  "copy_zlib = \<lparr>z_init_ok = True, z_start = (\<lambda>x. x), z_step = copy_step, z_malloc_ok = True, z_realloc_ok = (\<lambda>_. True)\<rparr>"

theorem gunzip_bounded_witness:
  "\<exists>r ops. compress_gunzip copy_zlib [1, 2] = Some (r, ops) \<and> z_balanced r ops
     \<and> (\<forall>n \<in> set (alloc_sizes ops). n \<le> 16 * 1024 * 1024)"
proof -
  have "z_steps_ok copy_zlib length" by (auto simp: z_steps_ok_def copy_zlib_def copy_step_def)
  from gunzip_bounded [OF this, of "[1, 2]"] show ?thesis by blast
qed

end
