(* ===== verification/Logger.thy ===== *)
theory Logger
  imports Config
begin

text \<open>
  The logger (\<open>src/utils/logger.c\<close>) and the texts of the error codes (\<open>src/utils/komari_errno.c\<close>).
  The formatted message and the clock are arguments.
\<close>

section \<open>State\<close>

datatype log_level = DEBUG | INFO | WARN | ERROR | FATAL

fun level_number :: "log_level \<Rightarrow> nat" where
  "level_number DEBUG = 0" | "level_number INFO = 1" | "level_number WARN = 2" | "level_number ERROR = 3" | "level_number FATAL = 4"

record logger_config =
  lg_level :: log_level
  lg_use_syslog :: bool
  lg_use_stdout :: bool
  lg_tag :: "string option"

text \<open>The memory of the tag and the connection to syslog, as operations.\<close>

datatype log_op = TagDup | TagFree | OpenLog string | CloseLog | Line string | Syslog log_level string

definition free_tag :: "logger_config \<Rightarrow> log_op list" where
  "free_tag g = (case lg_tag g of None \<Rightarrow> [] | Some _ \<Rightarrow> [TagFree])"

definition logger_init :: "bool \<Rightarrow> logger_config option \<Rightarrow> logger_config \<Rightarrow> logger_config \<times> log_op list" where
  "logger_init dup_ok config g =
     (case config of None \<Rightarrow> (g, [])
      | Some c \<Rightarrow>
          let tag = (if dup_ok then lg_tag c else None); g' = c\<lparr>lg_tag := tag\<rparr>
          in (g', free_tag g @ (if tag \<noteq> None then [TagDup] else [])
                  @ (if lg_use_syslog g' then [OpenLog (case tag of Some t \<Rightarrow> t | None \<Rightarrow> ''komari-agent-c'')] else [])))"

definition logger_cleanup :: "logger_config \<Rightarrow> logger_config \<times> log_op list" where
  "logger_cleanup g = (g\<lparr>lg_tag := None\<rparr>, (if lg_use_syslog g then [CloseLog] else []) @ free_tag g)"

section \<open>Lines\<close>

fun level_to_string :: "log_level \<Rightarrow> string" where
  "level_to_string DEBUG = ''DEBUG''" | "level_to_string INFO = ''INFO''" | "level_to_string WARN = ''WARN''"
| "level_to_string ERROR = ''ERROR''" | "level_to_string FATAL = ''FATAL''"

text \<open>Priorities of syslog.\<close>

fun level_to_syslog_priority :: "log_level \<Rightarrow> nat" where
  "level_to_syslog_priority DEBUG = 7" | "level_to_syslog_priority INFO = 6" | "level_to_syslog_priority WARN = 4"
| "level_to_syslog_priority ERROR = 3" | "level_to_syslog_priority FATAL = 2"

text \<open>\<open>date\<close> is what \<open>strftime\<close> wrote, empty when it did not fit.\<close>

definition pad3 :: "nat \<Rightarrow> string" where
  "pad3 n = [digit_char (n div 100 mod 10), digit_char (n div 10 mod 10), digit_char (n mod 10)]"

definition format_log_timestamp :: "string \<Rightarrow> nat \<Rightarrow> nat \<Rightarrow> string" where
  "format_log_timestamp date nsec buf_len =
     (if date = [] \<or> buf_len \<le> length date then take (buf_len - 1) date
      else if buf_len > length date + 5 then date @ take (buf_len - length date - 1) (''.'' @ pad3 (nsec div 1000000))
      else date)"

definition log_line :: "log_level \<Rightarrow> string \<Rightarrow> string \<Rightarrow> string" where
  "log_line level time message =
     take 1023 (''['' @ time @ ''] ['' @ level_to_string level @ ''] '' @ take 767 message @ [lf])"

definition logger_log :: "string \<Rightarrow> nat \<Rightarrow> log_level \<Rightarrow> string \<Rightarrow> logger_config \<Rightarrow> log_op list" where
  "logger_log date nsec level message g =
     (if level_number level < level_number (lg_level g) then []
      else (if lg_use_stdout g then [Line (log_line level (format_log_timestamp date nsec 32) message)] else [])
           @ (if lg_use_syslog g then [Syslog level message] else []))"

section \<open>Error codes\<close>

fun komari_strerror :: "komari_errno \<Rightarrow> string" where
  "komari_strerror KOMARI_OK = ''success''"
| "komari_strerror KOMARI_ERR_GENERIC = ''unspecified error''"
| "komari_strerror KOMARI_ERR_INVALID_ARG = ''invalid argument''"
| "komari_strerror KOMARI_ERR_NOT_FOUND = ''not found''"
| "komari_strerror KOMARI_ERR_BUFFER_TOO_SMALL = ''buffer too small''"
| "komari_strerror KOMARI_ERR_PARSE = ''parse error''"
| "komari_strerror KOMARI_ERR_NETWORK = ''network error''"
| "komari_strerror KOMARI_ERR_NOMEM = ''out of memory''"
| "komari_strerror KOMARI_ERR_UNSUPPORTED = ''operation not supported''"

text \<open>The text tells the codes apart.\<close>

lemma komari_strerror_inj: "komari_strerror a = komari_strerror b \<longleftrightarrow> a = b"
  by (cases a; cases b) simp_all

section \<open>Properties\<close>

lemma timestamp_fits: "length (format_log_timestamp date nsec 32) \<le> 31"
  by (auto simp: format_log_timestamp_def pad3_def)

lemma level_short: "length (level_to_string level) \<le> 5"
  by (cases level) simp_all

lemma log_line_whole:
  assumes "length time \<le> 31"
  shows "log_line level time message = ''['' @ time @ ''] ['' @ level_to_string level @ ''] '' @ take 767 message @ [lf]"
proof -
  have "length (''['' @ time @ ''] ['' @ level_to_string level @ ''] '' @ take 767 message @ [lf]) \<le> 1023"
    using assms level_short [of level] by simp
  then show ?thesis unfolding log_line_def by (rule take_all)
qed

text \<open>The tag is never leaked: whatever sequence of initialisations, each copy is freed by the next one or the end.\<close>

fun logger_runs :: "(bool \<times> logger_config option) list \<Rightarrow> logger_config \<Rightarrow> log_op list" where
  "logger_runs [] g = snd (logger_cleanup g)"
| "logger_runs ((ok, c) # cs) g = (case logger_init ok c g of (g', ops) \<Rightarrow> ops @ logger_runs cs g')"

lemma count_tags:
  "count_list (logger_runs cs g) TagFree = count_list (logger_runs cs g) TagDup + (if lg_tag g = None then 0 else 1)"
  by (induction cs g rule: logger_runs.induct)
    (auto simp: logger_init_def logger_cleanup_def free_tag_def Let_def split: option.splits prod.splits)

text \<open>The logger writes whole lines and leaks nothing: each message at or above the level gives one line that ends
  in a line feed, with time, level and at most 767 characters of the message, never cut by the buffer of 1024;
  messages below the level give nothing; and over any initialisations up to the clean-up the copies of the
  tag are freed exactly once.\<close>

theorem logger_correct:
  "(level_number level < level_number (lg_level g) \<longrightarrow> logger_log date nsec level message g = [])
   \<and> (level_number (lg_level g) \<le> level_number level \<and> lg_use_stdout g \<longrightarrow>
        Line (''['' @ format_log_timestamp date nsec 32 @ ''] ['' @ level_to_string level @ ''] '' @ take 767 message @ [lf])
          \<in> set (logger_log date nsec level message g))
   \<and> (lg_tag g = None \<longrightarrow> count_list (logger_runs cs g) TagFree = count_list (logger_runs cs g) TagDup)"
  using count_tags [of cs g] by (auto simp: logger_log_def log_line_whole [OF timestamp_fits])

theorem logger_correct_witness:
  "Line (''['' @ format_log_timestamp ''2024-01-02T03:04:05'' 7000000 32 @ ''] ['' @ ''WARN'' @ ''] '' @ ''disk'' @ [lf])
     \<in> set (logger_log ''2024-01-02T03:04:05'' 7000000 WARN ''disk'' \<lparr>lg_level = INFO, lg_use_syslog = True, lg_use_stdout = True, lg_tag = None\<rparr>)"
  using logger_correct [of WARN "\<lparr>lg_level = INFO, lg_use_syslog = True, lg_use_stdout = True, lg_tag = None\<rparr>"
      "''2024-01-02T03:04:05''" 7000000 "''disk''" "[]"] by simp

end
