(* ===== verification/Child.thy ===== *)
theory Child
  imports Utils
begin

text \<open>
  What the children of the agent run with: the descriptors of a command (\<open>utils_exec_capture\<close> in
  \<open>src/utils/utils.c\<close>) and of a terminal's shell (\<open>terminal_start\<close> in \<open>src/terminal/terminal.c\<close>), from \<open>fork\<close> to
  \<open>exec\<close>, and the wrappers of \<open>utils.c\<close> around one system call.  A table of descriptors maps each open one to its
  open file; no descriptor of the agent has the close-on-exec flag, and Linux has no \<open>F_CLOSEM\<close>.
\<close>

section \<open>Descriptors\<close>

type_synonym 'f fd_table = "nat \<rightharpoonup> 'f"

definition close_fd :: "nat \<Rightarrow> 'f fd_table \<Rightarrow> 'f fd_table" where "close_fd fd t = t(fd := None)"

text \<open>None is the failure of \<open>dup2\<close>, after which the child exits with 127.\<close>

definition dup2 :: "nat \<Rightarrow> nat \<Rightarrow> 'f fd_table \<Rightarrow> 'f fd_table option" where
  "dup2 oldfd newfd t = (case t oldfd of None \<Rightarrow> None | Some f \<Rightarrow> Some (t(newfd \<mapsto> f)))"

text \<open>\<open>open_max\<close> is what \<open>sysconf(_SC_OPEN_MAX)\<close> returns.\<close>

definition UTILS_FD_CLOSE_FALLBACK :: int where "UTILS_FD_CLOSE_FALLBACK = 1024"

definition utils_close_inherited_fds :: "int \<Rightarrow> nat \<Rightarrow> 'f fd_table \<Rightarrow> 'f fd_table" where
  "utils_close_inherited_fds open_max lowfd t =
     (let max_fd = (if open_max < 0 then UTILS_FD_CLOSE_FALLBACK else open_max) in foldl (\<lambda>t fd. close_fd fd t) t [lowfd..<nat max_fd])"

text \<open>The child of \<open>utils_exec_capture\<close> up to \<open>execvp\<close>; the pipe is \<open>(rd, wr)\<close>.\<close>

definition exec_child :: "int \<Rightarrow> nat \<times> nat \<Rightarrow> 'f fd_table \<Rightarrow> 'f fd_table option" where
  "exec_child open_max pipefd t =
     (case pipefd of (rd, wr) \<Rightarrow>
        Option.bind (dup2 wr 1 (close_fd rd t)) (\<lambda>t1.
        Option.bind (dup2 wr 2 t1) (\<lambda>t2.
        let t3 = (if wr \<noteq> 1 \<and> wr \<noteq> 2 then close_fd wr t2 else t2)
        in Some (utils_close_inherited_fds open_max 3 t3))))"

section \<open>The shell of a terminal\<close>

datatype child_op = SetEnv string string | SetPgid | WriteOut string | Execl string

definition terminal_child :: "string option \<Rightarrow> string \<Rightarrow> child_op list" where
  "terminal_child motd sh =
     [SetEnv ''TERM'' ''xterm-256color'', SetEnv ''LANG'' ''C.UTF-8'', SetEnv ''LC_ALL'' ''C.UTF-8'', SetPgid]
     @ (case motd of None \<Rightarrow> [] | Some content \<Rightarrow> [WriteOut content, WriteOut [lf]]) @ [Execl sh]"

text \<open>\<open>forkpty\<close> puts the terminal on the standard descriptors of the child and closes what it opened itself; nothing
  else is closed before \<open>execl\<close>.\<close>

definition terminal_child_fds :: "'f \<Rightarrow> 'f fd_table \<Rightarrow> 'f fd_table" where
  "terminal_child_fds slave t = t(0 \<mapsto> slave, 1 \<mapsto> slave, 2 \<mapsto> slave)"

section \<open>Wrappers\<close>

text \<open>\<open>gethostname\<close>: its result and the name, which it may cut without a NUL; the caller's last byte is one.\<close>

definition utils_get_hostname :: "int \<times> string \<Rightarrow> nat \<Rightarrow> int \<times> string" where
  "utils_get_hostname result buf_len =
     (if buf_len = 0 then (-1, []) else (fst result, take (buf_len - 1) (snd result)))"

definition utils_get_current_timestamp :: "u64 option \<Rightarrow> u64 \<Rightarrow> u64" where
  "utils_get_current_timestamp clock time = (case clock of Some sec \<Rightarrow> sec | None \<Rightarrow> time)"

record c_tm = tm_year :: int  tm_mon :: int  tm_mday :: int  tm_hour :: int  tm_min :: int  tm_sec :: int

definition two_digits :: "int \<Rightarrow> string" where
  "two_digits n = [digit_char (nat (n div 10 mod 10)), digit_char (nat (n mod 10))]"

definition iso_text :: "c_tm \<Rightarrow> string" where
  "iso_text d = show_int (tm_year d + 1900) @ ''-'' @ two_digits (tm_mon d + 1) @ ''-'' @ two_digits (tm_mday d)
     @ ''T'' @ two_digits (tm_hour d) @ '':'' @ two_digits (tm_min d) @ '':'' @ two_digits (tm_sec d)"

text \<open>A text that does not fit leaves the buffer undefined, here None, and the result is 0 all the same.\<close>

definition utils_format_timestamp :: "(int \<Rightarrow> c_tm option) \<Rightarrow> u64 \<Rightarrow> nat \<Rightarrow> int \<times> string option" where
  "utils_format_timestamp localtime timestamp buf_len =
     (if buf_len = 0 then (-1, None)
      else case localtime (sint timestamp) of None \<Rightarrow> (-1, None)
      | Some d \<Rightarrow> (0, if length (iso_text d) < buf_len then Some (iso_text d) else None))"

text \<open>Both forms of running a command; \<open>capture\<close> is \<open>utils_exec_capture\<close> on the words.\<close>

definition utils_exec_command :: "(string list \<Rightarrow> 'r option) \<Rightarrow> string \<Rightarrow> 'r option" where
  "utils_exec_command capture cmd = capture [''sh'', ''-c'', cmd]"

definition utils_exec_command_argv :: "(string list \<Rightarrow> 'r option) \<Rightarrow> string list \<Rightarrow> 'r option" where
  "utils_exec_command_argv capture argv = (if argv = [] then None else capture argv)"

section \<open>Properties\<close>

lemma close_all: "foldl (\<lambda>t fd. close_fd fd t) t fds fd = (if fd \<in> set fds then None else t fd)"
  by (induction fds arbitrary: t) (auto simp: close_fd_def)

lemma close_inherited: "utils_close_inherited_fds m n t = (\<lambda>fd. if n \<le> fd \<and> int fd < (if m < 0 then 1024 else m) then None else t fd)"
  by (rule ext) (auto simp: utils_close_inherited_fds_def close_all UTILS_FD_CLOSE_FALLBACK_def Let_def)

lemma exec_child_table:
  assumes "t wr = Some p" "rd \<noteq> wr"
  shows "exec_child m (rd, wr) t = Some (\<lambda>fd. if 3 \<le> fd \<and> int fd < (if m < 0 then 1024 else m) then None
    else if fd = 1 \<or> fd = 2 then Some p else if fd = rd \<or> fd = wr then None else t fd)"
proof -
  define t1 where "t1 = (close_fd rd t)(1 \<mapsto> p)"
  have d1: "dup2 wr 1 (close_fd rd t) = Some t1" using assms by (simp add: dup2_def close_fd_def t1_def)
  have w: "t1 wr = Some p" using assms by (simp add: t1_def close_fd_def)
  then have d2: "dup2 wr 2 t1 = Some (t1(2 \<mapsto> p))" by (simp add: dup2_def)
  have "(if wr \<noteq> 1 \<and> wr \<noteq> 2 then close_fd wr (t1(2 \<mapsto> p)) else t1(2 \<mapsto> p))
      = (\<lambda>fd. if fd = 1 \<or> fd = 2 then Some p else if fd = rd \<or> fd = wr then None else t fd)"
    by (rule ext) (auto simp: t1_def close_fd_def)
  then show ?thesis unfolding exec_child_def prod.case d1 Option.bind.bind_lunit d2 Let_def by (simp only: close_inherited)
qed



text \<open>Defect: the shell of a terminal does get hold of them.  Every descriptor of the agent above the standard ones is
  open in the shell: the connection to the panel, and the terminals of the other sessions.\<close>

lemma shell_inherits_all: "3 \<le> fd \<Longrightarrow> terminal_child_fds slave t fd = t fd"
  by (simp add: terminal_child_fds_def)

text \<open>The message of the day is written before the shell starts, and the shell is the last step.\<close>

lemma shell_starts_last: "\<exists>before. terminal_child motd sh = before @ [Execl sh] \<and> Execl sh \<notin> set before
    \<and> (\<forall>content. motd = Some content \<longrightarrow> WriteOut content \<in> set before)"
  by (cases motd) (simp_all add: terminal_child_def)

lemma hostname_fits: "0 < n \<Longrightarrow> length (snd (utils_get_hostname r n)) < n"
  by (simp add: utils_get_hostname_def)

text \<open>A time stamp of a year with four digits needs 20 bytes.\<close>

lemma timestamp_length:
  assumes "- 900 \<le> tm_year d" "tm_year d < 8100"
  shows "length (iso_text d) = 19"
proof -
  define n where "n = nat (tm_year d + 1900)"
  have n: "tm_year d + 1900 = int n" "1000 \<le> n" "n < 10000" using assms by (auto simp: n_def)
  have d: "\<not> n < 10" "\<not> n div 10 < 10" "\<not> n div 10 div 10 < 10" "n div 10 div 10 div 10 < 10" using n(2,3) by (simp_all add: div_less_iff_less_mult)
  have big: "length (show_nat k) = Suc (length (show_nat (k div 10)))" if "\<not> k < 10" for k using that by (subst show_nat.simps) simp
  have small: "length (show_nat k) = 1" if "k < 10" for k using that by (subst show_nat.simps) simp
  have "length (show_nat n) = 4"
    unfolding big [OF d(1)] big [OF d(2)] big [OF d(3)] small [OF d(4)] by simp
  then show ?thesis using n(1) by (simp add: iso_text_def two_digits_def show_int_def)
qed

end
