(* ===== verification/ReportJson.thy ===== *)
theory ReportJson
  imports CjsonText Upload
begin

text \<open>
  The reports are written by hand, format by format (\<open>src/report/report.c\<close>), and read by JSON
  parsers.  Here their text is given to the vendored parser (\<open>src/vendor/cJSON.c\<close>).
\<close>

section \<open>Compact text and its tree\<close>

text \<open>The tree a compact text stands for, and the texts that stand for one: raw values are numbers,
  and strings need no escape.\<close>

fun tree_of :: "jval \<Rightarrow> cjson" where
  "tree_of (JRaw t) = CNumber (case strtod10 t of None \<Rightarrow> 0 | Some (v, r) \<Rightarrow> v)"
| "tree_of (JStr s) = CString s"
| "tree_of (JList xs) = CArray (map tree_of xs)"
| "tree_of (JMap ms) = CObject (map (\<lambda>(k, v). (k, tree_of v)) ms)"

definition simple_text :: "string \<Rightarrow> bool" where
  "simple_text s \<longleftrightarrow> list_all (\<lambda>c. 31 < char_code c \<and> c \<noteq> dquote \<and> c \<noteq> bslash) s"

definition number_text :: "string \<Rightarrow> bool" where
  "number_text t \<longleftrightarrow> list_all number_char t \<and> t \<noteq> [] \<and> (hd t = CHR ''-'' \<or> c_isdigit (hd t))
     \<and> (case strtod10 t of None \<Rightarrow> False | Some (v, r) \<Rightarrow> r = [])"

fun jv_ok :: "jval \<Rightarrow> bool" where
  "jv_ok (JRaw t) = number_text t"
| "jv_ok (JStr s) = simple_text s"
| "jv_ok (JList xs) = list_all jv_ok xs"
| "jv_ok (JMap ms) = list_all (\<lambda>(k, v). simple_text k \<and> jv_ok v) ms"

fun jv_depth :: "jval \<Rightarrow> nat" where
  "jv_depth (JList xs) = Suc (foldr (\<lambda>x n. max (jv_depth x) n) xs 0)"
| "jv_depth (JMap ms) = Suc (foldr (\<lambda>(k, v) n. max (jv_depth v) n) ms 0)"
| "jv_depth _ = 0"

lemma jq_print: "simple_text s \<Longrightarrow> jq s = print_string_ptr s \<and> nul \<notin> set s"
proof -
  assume s: "simple_text s"
  then have n: "nul \<notin> set s" by (auto simp: simple_text_def list_all_iff nul_def)
  from s have "concat (map escaped s) = s" unfolding simple_text_def by (induction s) (auto simp: escaped_def)
  then show ?thesis using n by (simp add: jq_def print_string_ptr_def takeWhile_id)
qed

lemma parse_value_number_text:
  assumes "number_text t" "u = [] \<or> \<not> number_char (hd u)"
  shows "parse_value d (t @ u) = Some (tree_of (JRaw t), u)"
proof -
  obtain c r where c: "t = c # r" "c = CHR ''-'' \<or> c_isdigit c" using assms(1) by (cases t) (auto simp: number_text_def)
  have "c \<noteq> CHR ''n''" "c \<noteq> CHR ''f''" "c \<noteq> CHR ''t''" "c \<noteq> dquote" using c(2) by (auto simp: c_isdigit_def dquote_def)
  then have "parse_value d (t @ u) = parse_number (t @ u)"
    using c by (subst parse_value.simps) (simp add: starts_with_def)
  then show ?thesis
    using assms number_tail [of t u] by (auto simp: number_text_def parse_number_def split: option.splits)
qed

lemma jv_print_head:
  assumes "jv_ok j" obtains c r where "jv_print j = c # r" "32 < char_code c" "c \<noteq> CHR '']''"
proof (cases j)
  case (JRaw t)
  then show thesis using assms that [of "hd t" "tl t"]
    by (cases "hd t = CHR '']''") (auto simp: number_text_def c_isdigit_def)
qed (use that in \<open>auto simp: jq_def dquote_def\<close>)

lemma commas_Cons: "xs \<noteq> [] \<Longrightarrow> commas (x # xs) = x @ '','' @ commas xs"
  by (cases xs) simp_all

text \<open>What printing a value must give for the value to be read back between commas.\<close>

definition reads_as :: "nat \<Rightarrow> string \<Rightarrow> cjson \<Rightarrow> bool" where
  "reads_as d s v \<longleftrightarrow> (\<exists>h a. s = h # a \<and> 32 < char_code h \<and> h \<noteq> CHR '']'')
     \<and> (\<forall>c t. c \<in> {CHR '','', CHR '']'', CHR ''}''} \<longrightarrow> parse_value d (s @ c # t) = Some (v, c # t))"

lemma parse_elements_commas:
  assumes "ys \<noteq> []" "\<forall>y \<in> set ys. reads_as d (p y) (g y)"
  shows "parse_elements d (commas (map p ys) @ CHR '']'' # u) = Some (map g ys, u)"
  using assms
proof (induction ys)
  case (Cons y ys)
  then have y: "reads_as d (p y) (g y)" by simp
  then obtain h a where h: "p y = h # a" "32 < char_code h" by (auto simp: reads_as_def)
  have v: "c = CHR '','' \<or> c = CHR '']'' \<Longrightarrow> parse_value d (p y @ c # t) = Some (g y, c # t)" for c t
    using y by (auto simp: reads_as_def)
  note step = parse_elements_step [OF v h]
  show ?case
  proof (cases "ys = []")
    case True
    then show ?thesis using step [of "CHR '']''" u] by simp
  next
    case False
    then have "parse_elements d (commas (map p ys) @ CHR '']'' # u) = Some (map g ys, u)" using Cons by simp
    then show ?thesis
      using step [of "CHR '',''" "commas (map p ys) @ CHR '']'' # u"] False by (simp add: commas_Cons)
  qed
qed simp

lemma parse_members_commas:
  assumes "ms \<noteq> []" "\<forall>(k, v) \<in> set ms. simple_text k \<and> reads_as d (p v) (g v)"
  shows "parse_members d (commas (map (\<lambda>(k, v). jq k @ '':'' @ p v) ms) @ CHR ''}'' # u) = Some (map (\<lambda>(k, v). (k, g v)) ms, u)"
  using assms
proof (induction ms)
  case (Cons m ms)
  obtain k v where m: "m = (k, v)" by fastforce
  with Cons have y: "reads_as d (p v) (g v)" and k: "jq k = print_string_ptr k" "nul \<notin> set k" using jq_print [of k] by auto
  obtain h a where h: "p v = h # a" "32 < char_code h" using y by (auto simp: reads_as_def)
  have v: "c = CHR '','' \<or> c = CHR ''}'' \<Longrightarrow> parse_value d (p v @ c # t) = Some (g v, c # t)" for c t
    using y by (auto simp: reads_as_def)
  note step = parse_members_step [OF k(2) v h]
  let ?rest = "\<lambda>ms. commas (map (\<lambda>(k, v). jq k @ '':'' @ p v) ms)"
  show ?case
  proof (cases "ms = []")
    case True
    then show ?thesis using step [of "CHR ''}''" u] m k(1) by simp
  next
    case False
    then have ih: "parse_members d (?rest ms @ CHR ''}'' # u) = Some (map (\<lambda>(k, v). (k, g v)) ms, u)" using Cons by simp
    have "?rest (m # ms) @ CHR ''}'' # u = print_string_ptr k @ CHR '':'' # p v @ CHR '','' # ?rest ms @ CHR ''}'' # u"
      using False m k(1) by (simp add: commas_Cons)
    then show ?thesis using step [of "CHR '',''" "?rest ms @ CHR ''}'' # u"] ih m by simp
  qed
qed simp

lemma depth_member: "x \<in> set xs \<Longrightarrow> jv_depth x \<le> foldr (\<lambda>x n. max (jv_depth x) n) xs 0"
  "(k, v) \<in> set ms \<Longrightarrow> jv_depth v \<le> foldr (\<lambda>(k, v) n. max (jv_depth v) n) ms 0"
  by (induction xs, auto, induction ms, auto)

lemma commas_head: "xs \<noteq> [] \<Longrightarrow> hd xs = c # r \<Longrightarrow> \<exists>b. commas xs = c # b"
  by (cases xs rule: commas.cases) auto

lemma reads_asI:
  assumes "jv_ok j" "\<And>u. u = [] \<or> \<not> number_char (hd u) \<Longrightarrow> parse_value d (jv_print j @ u) = Some (tree_of j, u)"
  shows "reads_as d (jv_print j) (tree_of j)"
proof -
  obtain c r where "jv_print j = c # r" "32 < char_code c" "c \<noteq> CHR '']''" by (rule jv_print_head [OF assms(1)])
  then show ?thesis using assms(2) by (auto simp: reads_as_def number_char_def c_isdigit_def)
qed

lemma parse_jv:
  "jv_ok j \<Longrightarrow> d + jv_depth j \<le> CJSON_NESTING_LIMIT \<Longrightarrow> u = [] \<or> \<not> number_char (hd u) \<Longrightarrow>
     parse_value d (jv_print j @ u) = Some (tree_of j, u)"
proof (induction j arbitrary: d u)
  case (JRaw t)
  then show ?case using parse_value_number_text by simp
next
  case (JStr s)
  then show ?case using jq_print [of s] parse_value_string by simp
next
  case (JList xs)
  have d: "d < CJSON_NESTING_LIMIT" using JList.prems(2) by simp
  show ?case
  proof (cases "xs = []")
    case True
    then show ?thesis using parse_value_empty(1) [OF d, of u] by simp
  next
    case False
    have r: "reads_as (Suc d) (jv_print y) (tree_of y)" if y: "y \<in> set xs" for y
    proof (rule reads_asI)
      show ok: "jv_ok y" using JList.prems(1) y by (auto simp: list_all_iff)
      show "parse_value (Suc d) (jv_print y @ u) = Some (tree_of y, u)" if "u = [] \<or> \<not> number_char (hd u)" for u
        using JList.IH [OF y ok _ that] JList.prems(2) depth_member(1) [OF y] by auto
    qed
    obtain c a where c: "hd (map jv_print xs) = c # a" "32 < char_code c" "c \<noteq> CHR '']''"
      using r [of "hd xs"] False by (auto simp: reads_as_def hd_map)
    obtain b where "commas (map jv_print xs) = c # b" using commas_head [OF _ c(1)] False by auto
    then show ?thesis
      using parse_value_array [OF d parse_elements_commas _ c(2,3), of xs jv_print tree_of] r False by simp
  qed
next
  case (JMap ms)
  have d: "d < CJSON_NESTING_LIMIT" using JMap.prems(2) by simp
  show ?case
  proof (cases "ms = []")
    case True
    then show ?thesis using parse_value_empty(2) [OF d, of u] by simp
  next
    case False
    have r: "simple_text k \<and> reads_as (Suc d) (jv_print v) (tree_of v)" if y: "(k, v) \<in> set ms" for k v
    proof (intro conjI reads_asI)
      show "simple_text k" "jv_ok v" using JMap.prems(1) y by (auto simp: list_all_iff)
      then show "parse_value (Suc d) (jv_print v @ u) = Some (tree_of v, u)" if "u = [] \<or> \<not> number_char (hd u)" for u
        using JMap.IH [OF y, of v "Suc d" u] that JMap.prems(2) depth_member(2) [OF y] by auto
    qed
    have "hd (map (\<lambda>(k, v). jq k @ '':'' @ jv_print v) ms) = dquote # tl (hd (map (\<lambda>(k, v). jq k @ '':'' @ jv_print v) ms))"
      using False by (cases ms) (auto simp: jq_def)
    then obtain b where "commas (map (\<lambda>(k, v). jq k @ '':'' @ jv_print v) ms) = dquote # b"
      using commas_head False by blast
    then show ?thesis
      using parse_value_object [OF d parse_members_commas, of ms jv_print tree_of] r False by auto
  qed
qed

section \<open>The numbers of a report\<close>

text \<open>A measurement with two decimals.\<close>

definition two_decimals :: "rat \<Rightarrow> rat" where
  "two_decimals x = sgn x * (of_nat (round_half_even (\<bar>x\<bar> * 100)) / 100)"

lemma number_text_int: "number_text (show_int i)"
  using show_int_chars [of i] show_int_head [of i] by (auto simp: number_text_def strtod10_int)

lemma number_text_u64: "number_text (fmt_u64 x)"
  using number_text_int [of "int (unat x)"] by (simp add: fmt_u64_def show_int_def)

lemma tree_of_int: "tree_of (JRaw (show_int i)) = CNumber (to_double (of_int i))"
  by (simp add: strtod10_int)

lemma tree_of_u64: "tree_of (JRaw (fmt_u64 x)) = CNumber (to_double (of_nat (unat x)))"
  by (simp add: fmt_u64_def strtod10_nat)

lemma strtod10_shape:
  assumes "hd t \<noteq> CHR ''-''" "hd t \<noteq> CHR ''+''" "dropWhile c_isdigit t = CHR ''.'' # fp" "takeWhile c_isdigit t \<noteq> []" "list_all c_isdigit fp"
  shows "strtod10 t = Some (to_double (strtod_num 10 c_isdigit digits_val CHR ''e'' 10 t), [])"
proof -
  have "dropWhile c_isdigit fp = []" using assms(5) by (simp add: list_all_iff)
  then have "after_exponent (dropWhile c_isdigit fp) = []" by (simp only: after_exponent_def list.case)
  then show ?thesis using assms by (simp add: strtod10_def Let_def)
qed

lemma strtod10_decimals:
  "strtod10 (show_nat (n div 100) @ ''.'' @ [digit_char (n div 10 mod 10), digit_char (n mod 10)]) = Some (to_double (of_nat n / 100), [])"
proof -
  let ?t = "show_nat (n div 100) @ ''.'' @ [digit_char (n div 10 mod 10), digit_char (n mod 10)]"
  obtain c r where "show_nat (n div 100) = c # r" "c \<noteq> CHR ''-''" "c \<noteq> CHR ''+''" by (rule show_nat_head)
  then have h: "hd ?t \<noteq> CHR ''-''" "hd ?t \<noteq> CHR ''+''" by simp_all
  let ?r = "CHR ''.'' # [digit_char (n div 10 mod 10), digit_char (n mod 10)]"
  have dot: "\<not> c_isdigit CHR ''.''" by (simp add: c_isdigit_def)
  have tw: "takeWhile c_isdigit ?t = show_nat (n div 100)" "dropWhile c_isdigit ?t = ?r"
    using takeWhile_show_nat [of ?r "n div 100"] dropWhile_show_nat [of ?r "n div 100"] dot by simp_all
  have "n div 100 = n div 10 div 10" by (simp add: div_mult2_eq [symmetric])
  then have n: "100 * (n div 100) + 10 * (n div 10 mod 10) + n mod 10 = n"
    using div_mult_mod_eq [of n 10] div_mult_mod_eq [of "n div 10" 10] by linarith
  have v: "digits_val (show_nat (n div 100) @ [digit_char (n div 10 mod 10), digit_char (n mod 10)]) = n"
    using digits_val_snoc [of "show_nat (n div 100) @ [digit_char (n div 10 mod 10)]" "digit_char (n mod 10)"]
      digits_val_snoc [of "show_nat (n div 100)" "digit_char (n div 10 mod 10)"]
    using n by (simp add: digit_val_digit_char)
  have d: "c_isdigit (digit_char (n div 10 mod 10))" "c_isdigit (digit_char (n mod 10))" by (simp_all add: c_isdigit_digit_char)
  have val: "strtod_num 10 c_isdigit digits_val CHR ''e'' 10 ?t = of_nat n / 100"
    unfolding strtod_num_def tw Let_def using v d by (simp add: strtod_exp_def rat_pow_def)
  show ?thesis
    using strtod10_shape [OF h tw(2)] d show_nat_not_Nil [of "n div 100"] unfolding tw(1) val by simp
qed

lemma strtod10_neg: "strtod10 t = Some (v, r) \<Longrightarrow> hd t \<noteq> CHR ''-'' \<Longrightarrow> hd t \<noteq> CHR ''+'' \<Longrightarrow> strtod10 (CHR ''-'' # t) = Some (- v, r)"
  by (auto simp: strtod10_def Let_def split: if_splits)

lemma fmt_2f_read: "strtod10 (fmt_2f (Fin x)) = Some (to_double (two_decimals x), []) \<and> number_text (fmt_2f (Fin x))"
proof -
  define n where "n = round_half_even (\<bar>x\<bar> * 100)"
  define t where "t = show_nat (n div 100) @ ''.'' @ [digit_char (n div 10 mod 10), digit_char (n mod 10)]"
  have f: "fmt_2f (Fin x) = (if x < 0 then CHR ''-'' # t else t)" by (simp add: n_def t_def Let_def)
  have pos: "strtod10 t = Some (to_double (of_nat n / 100), [])" unfolding t_def by (rule strtod10_decimals)
  obtain c r where "show_nat (n div 100) = c # r" "c_isdigit c" "c \<noteq> CHR ''-''" "c \<noteq> CHR ''+''" by (rule show_nat_head)
  then have h: "hd t \<noteq> CHR ''-''" "hd t \<noteq> CHR ''+''" "c_isdigit (hd t)" "t \<noteq> []" by (simp_all add: t_def)
  have "round_half_even 0 = 0" using round_half_even_of_nat [of 0] by simp
  then have "strtod10 (fmt_2f (Fin x)) = Some (to_double (two_decimals x), [])"
    using pos strtod10_neg [OF pos h(1,2)] to_double_minus [of "of_nat n / 100"]
    unfolding f two_decimals_def n_def [symmetric] by (cases "x = 0") (auto simp: n_def sgn_if)
  moreover have "list_all number_char t"
    using show_nat_digits [of "n div 100"] by (auto simp: t_def list_all_iff number_char_def c_isdigit_digit_char)
  then have "list_all number_char (fmt_2f (Fin x))" unfolding f by (simp add: number_char_def)
  ultimately show ?thesis using h unfolding number_text_def f by auto
qed

section \<open>The report as JSON\<close>

definition report_json :: "rat \<times> rat \<times> rat \<times> rat \<Rightarrow> metrics \<Rightarrow> cjson" where
  "report_json q m =
     (let u = (\<lambda>x. CNumber (to_double (of_nat (unat x)))); d = (\<lambda>x. CNumber (to_double (two_decimals x)));
          i = (\<lambda>x. CNumber (to_double (of_int x))); (cpu, l1, l5, l15) = q
      in CObject [(''cpu'', CObject [(''usage'', d cpu)]),
               (''ram'', CObject [(''total'', u (m_mem_total m)), (''used'', u (m_mem_used m))]),
               (''swap'', CObject [(''total'', u (m_swap_total m)), (''used'', u (m_swap_used m))]),
               (''load'', CObject [(''load1'', d l1), (''load5'', d l5), (''load15'', d l15)]),
               (''disk'', CObject [(''total'', u (m_disk_total m)), (''used'', u (m_disk_used m))]),
               (''network'', CObject [(''up'', u (m_tx_speed m)), (''down'', u (m_rx_speed m)),
                                 (''totalUp'', u (m_tx_bytes m)), (''totalDown'', u (m_rx_bytes m))]),
               (''connections'', CObject [(''tcp'', i (m_tcp_count m)), (''udp'', i (m_udp_count m))]),
               (''uptime'', u (m_uptime m)), (''process'', i (m_process_count m)), (''message'', CString [])])"

definition report_request_json :: "rat \<times> rat \<times> rat \<times> rat \<Rightarrow> metrics \<Rightarrow> int \<Rightarrow> int list \<Rightarrow> cjson" where
  "report_request_json q m now ids =
     CObject [(''jsonrpc'', CString ''2.0''), (''method'', CString AGENT_REPORT), (''id'', CNumber (to_double (of_int (c_int_of_long now)))),
              (''params'', CObject [(''report'', report_json q m), (''ack_event_ids'', CArray (map (\<lambda>i. CNumber (to_double (of_int i))) ids))])]"

definition finite_metrics :: "rat \<times> rat \<times> rat \<times> rat \<Rightarrow> metrics \<Rightarrow> bool" where
  "finite_metrics q m \<longleftrightarrow> (case q of (cpu, l1, l5, l15) \<Rightarrow>
     m_cpu_usage m = Fin cpu \<and> m_load1 m = Fin l1 \<and> m_load5 m = Fin l5 \<and> m_load15 m = Fin l15)"

lemma strtod10_u64: "strtod10 (fmt_u64 x) = Some (to_double (of_nat (unat x)), [])"
  by (simp add: fmt_u64_def strtod10_nat)

lemmas number_trees = strtod10_int strtod10_u64 number_text_int number_text_u64 conjunct1 [OF fmt_2f_read] conjunct2 [OF fmt_2f_read]

lemma report_tree_json:
  assumes "finite_metrics q m"
  shows "tree_of (report_tree m) = report_json q m \<and> jv_ok (report_tree m) \<and> jv_depth (report_tree m) = 2"
proof -
  obtain a b c d where q: "q = (a, b, c, d)" by (metis prod.collapse)
  then have f: "m_cpu_usage m = Fin a" "m_load1 m = Fin b" "m_load5 m = Fin c" "m_load15 m = Fin d"
    using assms by (simp_all add: finite_metrics_def)
  show ?thesis
    unfolding report_tree_def report_json_def q f
    by (simp add: number_trees simple_text_def dquote_def bslash_def numeral_2_eq_2 del: fmt_2f.simps)
qed

lemma request_tree_json:
  assumes "finite_metrics q m"
  shows "tree_of (report_request_tree m now ids) = report_request_json q m now ids \<and> jv_ok (report_request_tree m now ids)
    \<and> jv_depth (report_request_tree m now ids) \<le> 4"
proof -
  have "foldr (\<lambda>x n. max (jv_depth x) n) (map (\<lambda>i. JRaw (show_int i)) ids) 0 = 0" by (induction ids) simp_all
  then show ?thesis
    using report_tree_json [OF assms]
    by (simp add: report_request_tree_def report_request_json_def number_trees simple_text_def dquote_def bslash_def list_all_iff del: fmt_2f.simps)
qed

lemma commas_nul: "\<forall>y \<in> set ys. nul \<notin> set y \<Longrightarrow> nul \<notin> set (commas ys)"
  by (induction ys rule: commas.induct) (auto simp: nul_def)

lemma jv_nul_free: "jv_ok j \<Longrightarrow> nul \<notin> set (jv_print j)"
proof (induction j)
  case (JRaw t)
  then show ?case by (auto simp: number_text_def list_all_iff number_char_def c_isdigit_def nul_def)
next
  case (JStr s)
  then have "nul \<notin> set s" using jq_print by simp
  then show ?case by (auto simp: jq_def nul_def dquote_def)
next
  case (JList xs)
  have "nul \<notin> set (commas (map jv_print xs))" using JList by (intro commas_nul) (auto simp: list_all_iff)
  then show ?case by (simp add: nul_def)
next
  case (JMap ms)
  have "nul \<notin> set (jq k @ '':'' @ jv_print v)" if y: "(k, v) \<in> set ms" for k v
  proof -
    have ok: "simple_text k" "jv_ok v" using JMap.prems y by (auto simp: list_all_iff)
    have "nul \<notin> set (jv_print v)" using JMap.IH [OF y _ ok(2)] by simp
    then show ?thesis using conjunct2 [OF jq_print [OF ok(1)]] by (simp add: jq_def nul_def dquote_def)
  qed
  then have "nul \<notin> set (commas (map (\<lambda>(k, v). jq k @ '':'' @ jv_print v) ms))" by (intro commas_nul) auto
  then show ?case by (simp add: nul_def)
qed

lemma jv_parses:
  assumes "jv_ok j" "jv_depth j \<le> CJSON_NESTING_LIMIT" "j = JMap ms"
  shows "cJSON_Parse (jv_print j) = Some (tree_of j)"
proof -
  let ?s = "jv_print j"
  have "takeWhile (\<lambda>c. c \<noteq> nul) ?s = ?s" using takeWhile_id [OF jv_nul_free [OF assms(1)]] .
  moreover have "skip_utf8_bom ?s = ?s" "skip_ws ?s = ?s" using assms(3) by (simp_all add: skip_utf8_bom_def starts_with_def skip_ws_def)
  ultimately have "cJSON_Parse ?s = map_option fst (parse_value 0 ?s)" by (simp only: cJSON_Parse_def)
  then show ?thesis using parse_jv [OF assms(1), of 0 "[]"] assms(2) by simp
qed

lemma report_tree_map: "\<exists>ms. report_tree m = JMap ms" "\<exists>ms. report_request_tree m now ids = JMap ms"
  unfolding report_tree_def report_request_tree_def Let_def by blast+

lemma nesting_small: "2 \<le> CJSON_NESTING_LIMIT" "4 \<le> CJSON_NESTING_LIMIT"
  by (simp_all add: CJSON_NESTING_LIMIT_def)

text \<open>C19. What the agent writes by hand is JSON: when the processor usage and the loads are finite, every
  report that is generated, with or without the envelope and the acknowledgements, is read by the
  vendored parser as exactly the members it should have, each measurement as the double nearest to
  it, rounded to two decimals for the fractional ones.\<close>

theorem reports_are_json:
  assumes "finite_metrics q m"
  shows "(\<forall>n out. report_generate m n = Some out \<longrightarrow> cJSON_Parse out = Some (report_json q m)) \<and>
    (\<forall>now n ids out. report_generate_v2_with_acks m now n (Some ids) (int (length ids)) = Some out
       \<longrightarrow> cJSON_Parse out = Some (report_request_json q m now ids))"
proof (intro conjI allI impI)
  fix n out
  assume "report_generate m n = Some out"
  then have out: "out = jv_print (report_tree m)" unfolding report_text_tree [symmetric] by (auto simp: report_generate_def snprintf_chk_def split: if_splits)
  obtain ms where "report_tree m = JMap ms" using report_tree_map(1) by blast
  with report_tree_json [OF assms] nesting_small show "cJSON_Parse out = Some (report_json q m)"
    using jv_parses [of "report_tree m" ms] unfolding out by metis
next
  fix now n ids out
  assume "report_generate_v2_with_acks m now n (Some ids) (int (length ids)) = Some out"
  then have out: "out = jv_print (report_request_tree m now ids)" unfolding with_acks_text by (metis option.distinct(1) option.inject)
  obtain ms where "report_request_tree m now ids = JMap ms" using report_tree_map(2) by blast
  with request_tree_json [OF assms, of now ids] nesting_small show "cJSON_Parse out = Some (report_request_json q m now ids)"
    using jv_parses [of "report_request_tree m now ids" ms] unfolding out by (metis order_trans)
qed

definition sample_metrics :: metrics where
  "sample_metrics = \<lparr>m_cpu_usage = Fin (25 / 2), m_mem_total = 1000, m_mem_used = 400, m_swap_total = 0, m_swap_used = 0,
     m_load1 = Fin (1 / 4), m_load5 = Fin 0, m_load15 = Fin 0, m_disk_total = 0, m_disk_used = 0, m_tx_speed = 0, m_rx_speed = 0,
     m_tx_bytes = 0, m_rx_bytes = 0, m_tcp_count = 3, m_udp_count = 0, m_uptime = 60, m_process_count = 9\<rparr>"

theorem reports_are_json_witness:
  "\<exists>out. report_generate sample_metrics 4096 = Some out \<and> cJSON_Parse out = Some (report_json (25 / 2, 1 / 4, 0, 0) sample_metrics)"
proof -
  have f: "finite_metrics (25 / 2, 1 / 4, 0, 0) sample_metrics" by (simp add: finite_metrics_def sample_metrics_def)
  have "length (report_text sample_metrics) < 4096"
    by (simp add: report_text_def sample_metrics_def jq_def fmt_u64_def show_int_def show_nat.simps round_half_even_def digit_char_def)
  then have "report_generate sample_metrics 4096 = Some (report_text sample_metrics)" by (simp add: report_generate_def snprintf_chk_def)
  then show ?thesis using reports_are_json [OF f] by blast
qed

section \<open>The results that are uploaded\<close>

text \<open>An object from printed members and the values they are read as.\<close>

lemma object_parses:
  assumes "ms \<noteq> []" "\<forall>(k, v) \<in> set ms. simple_text k \<and> reads_as 1 (fst v) (snd v) \<and> nul \<notin> set (fst v)"
  shows "cJSON_Parse (''{'' @ commas (map (\<lambda>(k, v). jq k @ '':'' @ fst v) ms) @ ''}'') = Some (CObject (map (\<lambda>(k, v). (k, snd v)) ms))"
proof -
  let ?b = "commas (map (\<lambda>(k, v). jq k @ '':'' @ fst v) ms)"
  let ?s = "''{'' @ ?b @ ''}''"
  have "nul \<notin> set (jq k @ '':'' @ fst v)" if "(k, v) \<in> set ms" for k v
    using assms(2) that jq_print [of k] by (auto simp: jq_def nul_def dquote_def)
  then have "nul \<notin> set ?b" by (intro commas_nul) auto
  then have "nul \<notin> set ?s" by (simp add: nul_def)
  then have "takeWhile (\<lambda>c. c \<noteq> nul) ?s = ?s" by (rule takeWhile_id)
  moreover have "skip_utf8_bom ?s = ?s" "skip_ws ?s = ?s" by (simp_all add: skip_utf8_bom_def starts_with_def skip_ws_def)
  ultimately have p: "cJSON_Parse ?s = map_option fst (parse_value 0 ?s)" by (simp only: cJSON_Parse_def)
  have "parse_members 1 (?b @ CHR ''}'' # []) = Some (map (\<lambda>(k, v). (k, snd v)) ms, [])"
    using assms by (intro parse_members_commas) auto
  moreover have "hd (map (\<lambda>(k, v). jq k @ '':'' @ fst v) ms) = dquote # tl (hd (map (\<lambda>(k, v). jq k @ '':'' @ fst v) ms))"
    using assms(1) by (cases ms) (auto simp: jq_def)
  then obtain b where "?b = dquote # b" using commas_head assms(1) by blast
  ultimately have "parse_value 0 (CHR ''{'' # ?b @ CHR ''}'' # []) = Some (CObject (map (\<lambda>(k, v). (k, snd v)) ms), [])"
    by (intro parse_value_object) (simp_all add: CJSON_NESTING_LIMIT_def)
  then show ?thesis using p by simp
qed

lemma reads_as_escaped: "nul \<notin> set s \<Longrightarrow> reads_as d (jq (concat (map esc s))) (CString s)"
proof -
  assume n: "nul \<notin> set s"
  have "parse_value d (jq (concat (map esc s)) @ u) = Some (CString s, u)" for u
    using parse_escaped_name [OF n, of u] by (subst parse_value.simps) (simp add: jq_def starts_with_def dquote_def)
  then show ?thesis by (auto simp: reads_as_def jq_def dquote_def)
qed

lemma reads_as_number: "number_text t \<Longrightarrow> reads_as d t (tree_of (JRaw t))"
  using reads_asI [of "JRaw t" d] parse_value_number_text [of t] by simp

lemma nul_texts: "nul \<notin> set (jq (concat (map esc s)))" "nul \<notin> set (show_int i)" "nul \<notin> set (fmt_u64 x)" "nul \<notin> set (show_nat n)"
proof -
  have "nul \<notin> set (esc c)" for c using printable_nul [OF esc_printable] .
  then have "nul \<notin> set (concat (map esc s))" by simp
  then show "nul \<notin> set (jq (concat (map esc s)))" by (simp add: jq_def nul_def dquote_def)
  show "nul \<notin> set (show_int i)" for i using printable_nul [OF show_int_printable] .
  from this [of "int (unat x)"] this [of "int n"] show "nul \<notin> set (fmt_u64 x)" "nul \<notin> set (show_nat n)"
    by (simp_all add: fmt_u64_def show_int_def)
qed

lemma reads_as_int: "reads_as d (show_int i) (CNumber (to_double (of_int i)))"
  using reads_as_number [OF number_text_int, of d i] by (simp add: strtod10_int)

lemma reads_as_u64: "reads_as d (fmt_u64 x) (CNumber (to_double (of_nat (unat x))))"
  using reads_as_number [OF number_text_u64, of d x] by (simp add: strtod10_u64)

lemma reads_as_nat: "reads_as d (show_nat n) (CNumber (to_double (of_nat n)))"
  using reads_as_int [of d "int n"] by (simp add: show_int_def)

lemmas reads_as_values = reads_as_escaped reads_as_int reads_as_u64 [simplified] reads_as_nat reads_as_nat [of _ "unat x" for x :: u32, simplified]

lemma upload_keys:
  "simple_text ''task_id''" "simple_text ''result''" "simple_text ''exit_code''" "simple_text ''finished_at''"
  "simple_text ''type''" "simple_text ''ping_type''" "simple_text ''value''" "nul \<notin> set ''ping_result''"
  "concat (map esc ''ping_result'') = ''ping_result''"
  by (simp_all add: simple_text_def dquote_def bslash_def nul_def esc_def escape_char_def bspace_def ffeed_def lf_def cr_def tab_def)

lemma task_body_parses:
  assumes "nul \<notin> set task_id" "nul \<notin> set result" "task_result_post cfg task_id result exit_code at_time = Some (url, body, h)"
  shows "cJSON_Parse body = Some (CObject [(''task_id'', CString task_id), (''result'', CString result),
    (''exit_code'', CNumber (to_double (of_int exit_code))), (''finished_at'', CNumber (to_double (of_nat (unat at_time))))])"
proof -
  define ms where "ms = [(''task_id'', (jq (concat (map esc task_id)), CString task_id)), (''result'', (jq (concat (map esc result)), CString result)),
    (''exit_code'', (show_int exit_code, CNumber (to_double (of_int exit_code)))),
    (''finished_at'', (fmt_u64 at_time, CNumber (to_double (of_nat (unat at_time)))))]"
  have "body = ''{'' @ commas (map (\<lambda>(k, v). jq k @ '':'' @ fst v) ms) @ ''}''"
    using assms(3) by (auto simp: ms_def task_result_post_def json_escape_eq bind_eq_Some_conv snprintf_chk_Some)
  moreover have "cJSON_Parse (''{'' @ commas (map (\<lambda>(k, v). jq k @ '':'' @ fst v) ms) @ ''}'') = Some (CObject (map (\<lambda>(k, v). (k, snd v)) ms))"
    by (rule object_parses) (simp_all add: ms_def assms upload_keys reads_as_values nul_texts)
  ultimately show ?thesis by (simp add: ms_def)
qed

lemma ping_body_parses:
  assumes "nul \<notin> set ping_type" "ping_result_post cfg ping_task ping_type v at_time = Some (url, body, h)"
  shows "cJSON_Parse body = Some (CObject [(''type'', CString ''ping_result''), (''task_id'', CNumber (to_double (of_nat (unat ping_task)))),
    (''ping_type'', CString ping_type), (''value'', CNumber (to_double (of_int v))), (''finished_at'', CNumber (to_double (of_nat (unat at_time))))])"
proof -
  define pr where "pr = ''ping_result''"
  have pr: "nul \<notin> set pr" "concat (map esc pr) = pr" unfolding pr_def by (fact upload_keys)+
  define ms where "ms = [(''type'', (jq (concat (map esc pr)), CString pr)),
    (''task_id'', (show_nat (unat ping_task), CNumber (to_double (of_nat (unat ping_task))))),
    (''ping_type'', (jq (concat (map esc ping_type)), CString ping_type)), (''value'', (show_int v, CNumber (to_double (of_int v)))),
    (''finished_at'', (fmt_u64 at_time, CNumber (to_double (of_nat (unat at_time)))))]"
  have "body = ''{'' @ commas (map (\<lambda>(k, v). jq k @ '':'' @ fst v) ms) @ ''}''"
    using assms(2) unfolding ms_def pr(2) unfolding pr_def
    by (auto simp: ping_result_post_def json_escape_eq bind_eq_Some_conv snprintf_chk_Some)
  moreover have "cJSON_Parse (''{'' @ commas (map (\<lambda>(k, v). jq k @ '':'' @ fst v) ms) @ ''}'') = Some (CObject (map (\<lambda>(k, v). (k, snd v)) ms))"
    by (rule object_parses) (simp_all add: ms_def assms upload_keys pr(1) reads_as_values nul_texts)
  ultimately show ?thesis by (simp add: ms_def) (simp add: pr_def)
qed

text \<open>C21. The result of a command reaches the panel as it was: whatever bytes the command wrote (up to its first
  NUL), the body of the upload is read by the vendored parser as an object with exactly the task id, that
  output, the exit status and the time; the same holds for the value of a ping.\<close>

theorem uploads_are_json:
  assumes "nul \<notin> set task_id" "nul \<notin> set result" "nul \<notin> set ping_type"
  shows "(\<forall>url body h. task_result_post cfg task_id result exit_code at_time = Some (url, body, h) \<longrightarrow>
      cJSON_Parse body = Some (CObject [(''task_id'', CString task_id), (''result'', CString result),
        (''exit_code'', CNumber (to_double (of_int exit_code))), (''finished_at'', CNumber (to_double (of_nat (unat at_time))))]))
    \<and> (\<forall>url body h. ping_result_post cfg ping_task ping_type v at_time = Some (url, body, h) \<longrightarrow>
      cJSON_Parse body = Some (CObject [(''type'', CString ''ping_result''), (''task_id'', CNumber (to_double (of_nat (unat ping_task)))),
        (''ping_type'', CString ping_type), (''value'', CNumber (to_double (of_int v))), (''finished_at'', CNumber (to_double (of_nat (unat at_time))))]))"
  using task_body_parses [OF assms(1,2)] ping_body_parses [OF assms(3)] by blast

theorem uploads_are_json_witness:
  "\<exists>url body h. task_result_post config_init ''t1'' [dquote, lf, CHR 0xFF] (- 1) 60 = Some (url, body, h) \<and> length body = 65
     \<and> cJSON_Parse body = Some (CObject [(''task_id'', CString ''t1''), (''result'', CString [dquote, lf, CHR 0xFF]),
        (''exit_code'', CNumber (to_double (of_int (- 1)))), (''finished_at'', CNumber (to_double (of_nat (unat (60 :: u64)))))])"
proof -
  have "\<exists>url body h. task_result_post config_init ''t1'' [dquote, lf, CHR 0xFF] (- 1) 60 = Some (url, body, h) \<and> length body = 65"
    by (simp add: task_result_post_def json_escape_eq upload_url_def config_init_def http_url_encode_def snprintf_chk_def cf_headers_def
        jq_def esc_def escape_char_def dquote_def bslash_def bspace_def ffeed_def lf_def cr_def tab_def show_int_def fmt_u64_def show_nat.simps)
  then obtain url body h where *: "task_result_post config_init ''t1'' [dquote, lf, CHR 0xFF] (- 1) 60 = Some (url, body, h)" "length body = 65"
    by blast
  have "nul \<notin> set ''t1''" "nul \<notin> set [dquote, lf, CHR 0xFF]" "nul \<notin> set ''icmp''" by (simp_all add: nul_def dquote_def lf_def)
  from uploads_are_json [OF this] * show ?thesis by blast
qed

section \<open>Notifications over the wire\<close>

text \<open>A notification that is built, printed, sent as text and parsed has the method and the parameters it was
  built from.\<close>

lemma notification_over_the_wire:
  assumes "nul \<notin> set m" "plain p" "nesting p < CJSON_NESTING_LIMIT"
  shows "\<exists>t out. jsonrpc_new_notification all_ok (Some m) (Some p) = Some t \<and> cJSON_PrintUnformatted t = Some out
    \<and> jsonrpc_parse_event_from_json (cJSON_Parse out)
      = Some \<lparr>ev_id = None, ev_method = Some m, ev_params = Some p, ev_created_at = None, ev_expires_at = None\<rparr>"
proof -
  let ?t = "CObject [(''jsonrpc'', CString JSONRPC_VERSION), (''method'', CString m), (''params'', p)]"
  have built: "jsonrpc_new_notification all_ok (Some m) (Some p) = Some ?t" by (simp add: new_notification_ok)
  have ok: "plain ?t \<and> nesting ?t \<le> CJSON_NESTING_LIMIT" using assms by (simp add: nul_def)
  then obtain out where out: "cJSON_PrintUnformatted ?t = Some out" using printed_defined by blast
  have "cJSON_Parse out = Some ?t" using json.dec_enc [OF ok] out by simp
  then have "jsonrpc_parse_event_from_json (cJSON_Parse out) = jsonrpc_parse_event_from_json (jsonrpc_new_notification all_ok (Some m) (Some p))"
    using built by simp
  also have "\<dots> = Some \<lparr>ev_id = None, ev_method = Some m, ev_params = Some p, ev_created_at = None, ev_expires_at = None\<rparr>"
    by (rule notification_roundtrip)
  finally show ?thesis using built out by blast
qed

end
