(* ===== verification/InfoJson.thy ===== *)
theory InfoJson
  imports ReportJson "HOL-Library.Sublist"
begin

text \<open>
  The basic information (\<open>report_generate_basic_info\<close> in \<open>src/report/report.c\<close>) as JSON: what the escaping
  into small arrays keeps of the names, and what the unescaped fields do.
\<close>

section \<open>Escaping into an array\<close>

lemma escape_put_cases: "escape_put n c dst = dst \<or> escape_put n c dst = dst @ esc c"
proof (cases "special_char c")
  case True
  have "escape_put n c dst = dst \<or> escape_put n c dst = dst @ escape_put 10 c []"
    using True unfolding special_char_def by (elim disjE) (simp_all add: escape_put_def put_two_def)
  then show ?thesis using esc_special [OF True] by simp
next
  case False
  then have nc: "c \<notin> {dquote, bslash, bspace, ffeed, lf, cr, tab}" by (simp add: special_char_def)
  show ?thesis
  proof (cases "char_code c < 32")
    case True
    have h: "hex4 (char_code c) = ''00'' @ hex_digits (char_code c)"
      using True by (simp add: hex4_def hex_digits_def hex_upper_def)
    from True nc show ?thesis by (auto simp: esc_control [OF nc True] h escape_put_def)
  next
    case big: False
    with nc have "esc c = [c]" by (simp add: esc_def escape_char_def)
    with big nc show ?thesis by (simp add: escape_put_def)
  qed
qed

text \<open>The array holds the escapes of some of the characters, in their order.\<close>

lemma escape_loop_subseq:
  "\<exists>s. subseq s src \<and> escape_json_loop n src (concat (map esc pre)) = concat (map esc (pre @ s))"
proof (induction src arbitrary: pre)
  case (Cons c src)
  show ?case
  proof (cases "length (concat (map esc pre)) < n - 1")
    case True
    consider "escape_put n c (concat (map esc pre)) = concat (map esc pre)"
      | "escape_put n c (concat (map esc pre)) = concat (map esc (pre @ [c]))" using escape_put_cases [of n c] by fastforce
    then show ?thesis
    proof cases
      case 1
      obtain s where s: "subseq s src" "escape_json_loop n src (concat (map esc pre)) = concat (map esc (pre @ s))" using Cons by blast
      then show ?thesis using True 1 by (intro exI [of _ s]) (auto intro: subseq_Cons')
    next
      case 2
      obtain s where s: "subseq s src" "escape_json_loop n src (concat (map esc (pre @ [c]))) = concat (map esc ((pre @ [c]) @ s))"
        using Cons by blast
      then show ?thesis using True 2 by (intro exI [of _ "c # s"]) auto
    qed
  qed (auto intro: exI [of _ "[]"])
qed (auto intro: exI [of _ "[]"])

definition kept_name :: "nat \<Rightarrow> string \<Rightarrow> string \<Rightarrow> bool" where
  "kept_name n src s \<longleftrightarrow> subseq s src \<and> escape_json_string src n = concat (map esc s) \<and> length (concat (map esc s)) < n
     \<and> (length (concat (map esc src)) < n \<longrightarrow> s = src)"

lemma esc_inj: "nul \<notin> set s \<Longrightarrow> nul \<notin> set t \<Longrightarrow> concat (map esc s) = concat (map esc t) \<Longrightarrow> s = t"
  using parse_escaped_name [of s "[]"] parse_escaped_name [of t "[]"] by simp

lemma kept_name_exists: "7 \<le> n \<Longrightarrow> nul \<notin> set src \<Longrightarrow> \<exists>s. kept_name n src s \<and> nul \<notin> set s"
proof -
  assume n: "7 \<le> n" and nul: "nul \<notin> set src"
  obtain s where s: "subseq s src" "escape_json_string src n = concat (map esc s)"
    using escape_loop_subseq [of src n "[]"] n by (auto simp: escape_json_string_def)
  have "set s \<subseteq> set src" using s(1) by (metis subseq_conv_nths set_nths_subset)
  then have sn: "nul \<notin> set s" using nul by blast
  have "length (escape_json_string src n) < n" using escape_loop_bound [of n "[]" src] n by (simp add: escape_json_string_def)
  moreover have "s = src" if "length (concat (map esc src)) < n"
  proof (rule esc_inj [OF sn nul])
    show "concat (map esc s) = concat (map esc src)"
      using escape_loop_esc [of "[]" src n] that n s(2) by (simp add: escape_json_string_def)
  qed
  ultimately have "kept_name n src s" using s by (simp add: kept_name_def)
  then show ?thesis using sn by blast
qed

section \<open>The basic information\<close>

definition address_of :: "string \<Rightarrow> string \<Rightarrow> string" where
  "address_of custom found = (if custom \<noteq> [] then custom else found)"

definition info_json :: "agent_config \<Rightarrow> host_info \<Rightarrow> string \<Rightarrow> string \<Rightarrow> string \<Rightarrow> string \<Rightarrow> cjson" where
  "info_json cfg h cpu os kern gpu =
     (let u = (\<lambda>x. CNumber (to_double (of_nat (unat x))))
      in CObject [(''cpu_name'', CString cpu), (''cpu_cores'', CNumber (to_double (of_int (h_cpu_cores h)))), (''arch'', CString (h_cpu_arch h)),
        (''os'', CString os), (''kernel_version'', CString kern), (''ipv4'', CString (address_of (ag_custom_ipv4 cfg) (h_ipv4 h))),
        (''ipv6'', CString (address_of (ag_custom_ipv6 cfg) (h_ipv6 h))), (''mem_total'', u (h_mem_total h)),
        (''swap_total'', u (h_swap_total h)), (''disk_total'', u (h_disk_total h)), (''gpu_name'', CString gpu),
        (''virtualization'', CString (h_virt_type h)), (''version'', CString ''1.0.0'')])"

lemma reads_as_simple: "simple_text s \<Longrightarrow> reads_as d (jq s) (CString s)"
proof -
  assume s: "simple_text s"
  then have "concat (map esc s) = s" unfolding simple_text_def
    by (induction s) (auto simp: esc_def escape_char_def bspace_def ffeed_def lf_def cr_def tab_def)
  then show ?thesis using reads_as_escaped [of s d] jq_print [OF s] by simp
qed

lemma nul_simple: "simple_text s \<Longrightarrow> nul \<notin> set (jq s)"
  using conjunct2 [OF jq_print] by (simp add: jq_def nul_def dquote_def)

lemma info_parses:
  assumes "kept_name 256 (h_cpu_name h) cpu" "kept_name 256 (h_os_name h) os" "kept_name 128 (h_kernel_version h) kern"
    "case h_gpu_name h of None \<Rightarrow> gpu = [] | Some g \<Rightarrow> kept_name 256 g gpu" "nul \<notin> set cpu" "nul \<notin> set os" "nul \<notin> set kern" "nul \<notin> set gpu"
    "simple_text (h_cpu_arch h)" "simple_text (address_of (ag_custom_ipv4 cfg) (h_ipv4 h))"
    "simple_text (address_of (ag_custom_ipv6 cfg) (h_ipv6 h))" "simple_text (h_virt_type h)"
  shows "cJSON_Parse (basic_info_text cfg h) = Some (info_json cfg h cpu os kern gpu)"
proof -
  let ?e = "\<lambda>s. (jq (concat (map esc s)), CString s)" and ?s = "\<lambda>s. (jq s, CString s)"
    and ?u = "\<lambda>x. (fmt_u64 x, CNumber (to_double (of_nat (unat x))))"
  define ms where "ms = [(''cpu_name'', ?e cpu), (''cpu_cores'', (show_int (h_cpu_cores h), CNumber (to_double (of_int (h_cpu_cores h))))),
    (''arch'', ?s (h_cpu_arch h)), (''os'', ?e os), (''kernel_version'', ?e kern), (''ipv4'', ?s (address_of (ag_custom_ipv4 cfg) (h_ipv4 h))),
    (''ipv6'', ?s (address_of (ag_custom_ipv6 cfg) (h_ipv6 h))), (''mem_total'', ?u (h_mem_total h)), (''swap_total'', ?u (h_swap_total h)),
    (''disk_total'', ?u (h_disk_total h)), (''gpu_name'', ?e gpu), (''virtualization'', ?s (h_virt_type h)), (''version'', ?s ''1.0.0'')]"
  have names: "escape_json_string (h_cpu_name h) 256 = concat (map esc cpu)" "escape_json_string (h_os_name h) 256 = concat (map esc os)"
    "escape_json_string (h_kernel_version h) 128 = concat (map esc kern)"
    "(case h_gpu_name h of Some g \<Rightarrow> escape_json_string g 256 | None \<Rightarrow> []) = concat (map esc gpu)"
    using assms(1-4) by (auto simp: kept_name_def split: option.splits)
  have "basic_info_text cfg h = ''{'' @ commas (map (\<lambda>(k, v). jq k @ '':'' @ fst v) ms) @ ''}''"
    unfolding basic_info_text_def names address_of_def [symmetric] ms_def by simp
  moreover have "cJSON_Parse (''{'' @ commas (map (\<lambda>(k, v). jq k @ '':'' @ fst v) ms) @ ''}'') = Some (CObject (map (\<lambda>(k, v). (k, snd v)) ms))"
  proof (rule object_parses)
    have keys: "list_all (\<lambda>(k, v). simple_text k) ms" by (simp add: ms_def simple_text_def dquote_def bslash_def)
    have v: "simple_text ''1.0.0''" by (simp add: simple_text_def dquote_def bslash_def)
    have vals: "list_all (\<lambda>(k, v). reads_as 1 (fst v) (snd v)) ms"
      using assms(5-12) v reads_as_simple reads_as_values [of _ 1] unfolding ms_def by (simp add: reads_as_values)
    have nuls: "list_all (\<lambda>(k, v). nul \<notin> set (fst v)) ms"
      using assms(9-12) v nul_simple nul_texts unfolding ms_def by simp
    show "\<forall>(k, v) \<in> set ms. simple_text k \<and> reads_as 1 (fst v) (snd v) \<and> nul \<notin> set (fst v)"
      using keys vals nuls by (auto simp: list_all_iff)
  qed (simp add: ms_def)
  ultimately show ?thesis by (simp add: ms_def info_json_def)
qed


definition sample_info :: host_info where
  "sample_info = \<lparr>h_cpu_name = ''A '' @ [dquote] @ ''B'', h_cpu_cores = 4, h_cpu_arch = ''arm'', h_os_name = ''OpenWrt'', h_kernel_version = ''6.6'',
     h_ipv4 = ''10.0.0.1'', h_ipv6 = [], h_mem_total = 64, h_swap_total = 0, h_disk_total = 8, h_gpu_name = None, h_virt_type = ''none''\<rparr>"

lemma sample_info_fields:
  "nul \<notin> set (h_cpu_name sample_info)" "nul \<notin> set (h_os_name sample_info)" "nul \<notin> set (h_kernel_version sample_info)"
  "h_gpu_name sample_info = None" "simple_text (h_cpu_arch sample_info)" "simple_text (h_virt_type sample_info)"
  "simple_text (address_of (ag_custom_ipv4 config_init) (h_ipv4 sample_info))" "simple_text (address_of (ag_custom_ipv6 config_init) (h_ipv6 sample_info))"
  by (simp_all add: sample_info_def nul_def simple_text_def dquote_def bslash_def address_of_def config_init_def)


text \<open>Defect: a configured address with a quote ends its string; what follows becomes members of the object, and the
  first match wins: here the panel is told another version.\<close>

definition forged_config :: agent_config where
  "forged_config = config_init\<lparr>ag_custom_ipv4 := ''1'' @ [dquote] @ '','' @ [dquote] @ ''version'' @ [dquote] @ '':'' @ [dquote] @ ''9''\<rparr>"

lemma custom_address_injects:
  "\<exists>t. cJSON_Parse (basic_info_text forged_config sample_info) = Some t \<and> cJSON_GetObjectItem t ''version'' = Some (CString ''9'')
     \<and> cJSON_GetObjectItem t ''ipv4'' = Some (CString ''1'')"
proof -
  let ?s = "\<lambda>s. (jq s, CString s)" and ?u = "\<lambda>n. (show_nat n, CNumber (to_double (of_nat n)))"
  define ms where "ms = [(''cpu_name'', (jq (concat (map esc (h_cpu_name sample_info))), CString (h_cpu_name sample_info))), (''cpu_cores'', ?u 4),
    (''arch'', ?s ''arm''), (''os'', ?s ''OpenWrt''), (''kernel_version'', ?s ''6.6''), (''ipv4'', ?s ''1''), (''version'', ?s ''9''),
    (''ipv6'', ?s []), (''mem_total'', ?u 64), (''swap_total'', ?u 0), (''disk_total'', ?u 8), (''gpu_name'', ?s []),
    (''virtualization'', ?s ''none''), (''version'', ?s ''1.0.0'')]"
  note esc_eval = esc_def escape_char_def bslash_def bspace_def ffeed_def lf_def cr_def tab_def
  have "basic_info_text forged_config sample_info = ''{'' @ commas (map (\<lambda>(k, v). jq k @ '':'' @ fst v) ms) @ ''}''"
    by (simp add: ms_def basic_info_text_def forged_config_def sample_info_def config_init_def jq_def
        escape_json_string_def escape_put_def put_two_def esc_eval show_int_def fmt_u64_def dquote_def)
  moreover have "cJSON_Parse (''{'' @ commas (map (\<lambda>(k, v). jq k @ '':'' @ fst v) ms) @ ''}'') = Some (CObject (map (\<lambda>(k, v). (k, snd v)) ms))"
  proof (rule object_parses)
    have t: "list_all simple_text [''arm'', ''OpenWrt'', ''6.6'', ''1'', ''9'', [], ''none'', ''1.0.0'']"
      by (simp add: simple_text_def dquote_def bslash_def)
    have keys: "list_all (\<lambda>(k, v). simple_text k) ms" by (simp add: ms_def simple_text_def dquote_def bslash_def)
    have vals: "list_all (\<lambda>(k, v). reads_as 1 (fst v) (snd v)) ms"
      using t reads_as_simple reads_as_nat [of _ 4] reads_as_nat [of _ 64] reads_as_nat [of _ 0] reads_as_nat [of _ 8] reads_as_escaped [OF sample_info_fields(1)] unfolding ms_def by simp
    have nuls: "list_all (\<lambda>(k, v). nul \<notin> set (fst v)) ms"
      using t nul_simple nul_texts unfolding ms_def by simp
    show "\<forall>(k, v) \<in> set ms. simple_text k \<and> reads_as 1 (fst v) (snd v) \<and> nul \<notin> set (fst v)"
      using keys vals nuls by (auto simp: list_all_iff)
  qed (simp add: ms_def)
  moreover have "cJSON_GetObjectItem (CObject (map (\<lambda>(k, v). (k, snd v)) ms)) ''version'' = Some (CString ''9'')"
    "cJSON_GetObjectItem (CObject (map (\<lambda>(k, v). (k, snd v)) ms)) ''ipv4'' = Some (CString ''1'')"
    by (simp_all add: ms_def cJSON_GetObjectItem_def strcaseeq_def c_tolower_def)
  ultimately show ?thesis by (intro exI [of _ "CObject (map (\<lambda>(k, v). (k, snd v)) ms)"]) simp
qed

end
