(* ===== verification/NetstaticJson.thy ===== *)
theory NetstaticJson
  imports Netstatic ReportJson
begin

text \<open>
  The statistics file as JSON: the indented text \<open>netstatic_serialize\<close> writes by hand
  (\<open>src/monitoring/netstatic.c\<close>), read by the vendored parser, and the restart.
\<close>

section \<open>Text with white space\<close>

definition blank :: "string \<Rightarrow> bool" where "blank w \<longleftrightarrow> list_all (\<lambda>c. char_code c \<le> 32) w"

lemma skip_blank: "blank w \<Longrightarrow> skip_ws (w @ s) = skip_ws s"
  by (simp add: blank_def skip_ws_def list_all_iff dropWhile_append2)

lemma blank_no_number: "blank w \<Longrightarrow> c \<in> {CHR '','', CHR '']'', CHR ''}''} \<Longrightarrow> w @ c # t = [] \<or> \<not> number_char (hd (w @ c # t))"
  by (cases w) (auto simp: blank_def number_char_def c_isdigit_def)

text \<open>A text that is read as a value wherever no character of a number follows.\<close>

definition reads :: "nat \<Rightarrow> string \<Rightarrow> cjson \<Rightarrow> bool" where
  "reads d s v \<longleftrightarrow> s \<noteq> [] \<and> 32 < char_code (hd s) \<and> hd s \<noteq> CHR '']''
     \<and> (\<forall>u. u = [] \<or> \<not> number_char (hd u) \<longrightarrow> parse_value d (s @ u) = Some (v, u))"

lemma reads_skip: "reads d s v \<Longrightarrow> blank w \<Longrightarrow> skip_ws (w @ s @ u) = s @ u"
  by (cases s) (auto simp: reads_def skip_blank skip_ws_id)

lemma separator_skip: "blank w \<Longrightarrow> c \<in> {CHR '','', CHR '']'', CHR ''}'', CHR '':''} \<Longrightarrow> skip_ws (w @ c # t) = c # t"
  by (auto simp: skip_blank skip_ws_id)

lemma elements_step_blank:
  assumes "reads d s v" "blank w" "blank w'" "c = CHR '','' \<or> c = CHR '']''"
  shows "parse_elements d (w @ s @ w' @ c # t) = (if c = CHR '','' then map_option (\<lambda>(vs, q). (v # vs, q)) (parse_elements d t) else Some ([v], t))"
proof -
  have "parse_value d (s @ w' @ c # t) = Some (v, w' @ c # t)"
    using assms(1,4) blank_no_number [OF assms(3), of c t] by (auto simp: reads_def)
  then show ?thesis
    using assms(4) reads_skip [OF assms(1,2), of "w' @ c # t"] separator_skip [OF assms(3), of c t]
    by (subst parse_elements.simps) auto
qed

lemma members_step_blank:
  assumes "reads d s v" "blank w" "blank w1" "blank w2" "blank w3" "c = CHR '','' \<or> c = CHR ''}''"
    "\<And>u. parse_string (key @ u) = Some (k, u)" "hd key = dquote" "key \<noteq> []"
  shows "parse_members d (w @ key @ w1 @ CHR '':'' # w2 @ s @ w3 @ c # t) =
    (if c = CHR '','' then map_option (\<lambda>(ms, q). ((k, v) # ms, q)) (parse_members d t) else Some ([(k, v)], t))"
proof -
  let ?r = "w1 @ CHR '':'' # w2 @ s @ w3 @ c # t"
  have "skip_ws (w @ key @ ?r) = key @ ?r" using assms(2,8,9) by (cases key) (auto simp: skip_blank skip_ws_id dquote_def)
  moreover have "parse_value d (s @ w3 @ c # t) = Some (v, w3 @ c # t)"
    using assms(1,6) blank_no_number [OF assms(5), of c t] by (auto simp: reads_def)
  ultimately show ?thesis
    using assms(6,7) reads_skip [OF assms(1,4), of "w3 @ c # t"] separator_skip [OF assms(5), of c t] separator_skip [OF assms(3), of "CHR '':''"]
    by (subst parse_members.simps) auto
qed

lemma reads_object:
  assumes "d < CJSON_NESTING_LIMIT" "\<And>u. parse_members (Suc d) (b @ u) = Some (ms, u)" "\<And>u. \<exists>r. skip_ws (b @ u) = dquote # r"
  shows "reads d (CHR ''{'' # b) (CObject ms)"
proof -
  have "parse_value d (CHR ''{'' # b @ u) = Some (CObject ms, u)" for u
  proof -
    obtain r where "skip_ws (b @ u) = dquote # r" using assms(3) by blast
    then show ?thesis
      using assms(1,2) by (subst parse_value.simps) (simp add: starts_with_def dquote_def c_isdigit_def)
  qed
  then show ?thesis by (simp add: reads_def)
qed

lemma reads_array:
  assumes "d < CJSON_NESTING_LIMIT" "\<And>u. parse_elements (Suc d) (b @ u) = Some (vs, u)" "\<And>u. \<exists>c r. skip_ws (b @ u) = c # r \<and> c \<noteq> CHR '']''"
  shows "reads d (CHR ''['' # b) (CArray vs)"
proof -
  have "parse_value d (CHR ''['' # b @ u) = Some (CArray vs, u)" for u
  proof -
    obtain c r where "skip_ws (b @ u) = c # r" "c \<noteq> CHR '']''" using assms(3) by blast
    then show ?thesis
      using assms(1,2) by (subst parse_value.simps) (simp add: starts_with_def dquote_def c_isdigit_def)
  qed
  then show ?thesis by (simp add: reads_def)
qed

lemma reads_empty:
  assumes "d < CJSON_NESTING_LIMIT" "blank w"
  shows "reads d (CHR ''['' # w @ '']'') (CArray [])" "reads d (CHR ''{'' # w @ ''}'') (CObject [])"
proof -
  have "parse_value d (CHR ''['' # w @ CHR '']'' # u) = Some (CArray [], u)" "parse_value d (CHR ''{'' # w @ CHR ''}'' # u) = Some (CObject [], u)" for u
    using assms separator_skip [OF assms(2), of "CHR '']''" u] separator_skip [OF assms(2), of "CHR ''}''" u]
    by (subst parse_value.simps, simp add: starts_with_def dquote_def c_isdigit_def)+
  then show "reads d (CHR ''['' # w @ '']'') (CArray [])" "reads d (CHR ''{'' # w @ ''}'') (CObject [])" by (simp_all add: reads_def)
qed

lemma reads_number: "number_text t \<Longrightarrow> strtod10 t = Some (x, []) \<Longrightarrow> reads d t (CNumber x)"
  using parse_value_number_text [of t _ d] by (auto simp: reads_def number_text_def c_isdigit_def)

text \<open>Lines with commas between, the last one closed by a line feed and a blank tail.\<close>

lemma elements_lines:
  assumes "ys \<noteq> []" "\<forall>y \<in> set ys. reads d (p y) (g y)" "blank w" "blank w'"
  shows "parse_elements d (comma_lines (map (\<lambda>y. w @ p y) ys) @ w' @ CHR '']'' # u) = Some (map g ys, u)"
  using assms(1,2)
proof (induction ys rule: induct_list012)
  case (2 y)
  have "blank (lf # w')" using assms(4) by (simp add: blank_def lf_def)
  then show ?case using elements_step_blank [of d "p y" "g y" w "lf # w'" "CHR '']''" u] 2 assms(3) by simp
next
  case (3 y z ys)
  let ?rest = "comma_lines (map (\<lambda>y. w @ p y) (z # ys)) @ w' @ CHR '']'' # u"
  have skip: "parse_elements d (lf # s) = parse_elements d s" for s
    by (subst (1 2) parse_elements.simps) (simp add: skip_ws_def lf_def)
  have "parse_elements d ?rest = Some (map g (z # ys), u)" using 3 by simp
  then show ?case using elements_step_blank [of d "p y" "g y" w "[]" "CHR '',''" "lf # ?rest"] 3(4) assms(3) skip [of ?rest]
    by (simp add: blank_def)
qed simp

lemma members_lines:
  assumes "ys \<noteq> []" "\<forall>y \<in> set ys. reads d (p y) (g y) \<and> nul \<notin> set (name y)" "blank w" "blank w'" "blank w2"
  shows "parse_members d (comma_lines (map (\<lambda>y. w @ jq (concat (map esc (name y))) @ '':'' @ w2 @ p y) ys) @ w' @ CHR ''}'' # u)
    = Some (map (\<lambda>y. (name y, g y)) ys, u)"
  using assms(1,2)
proof (induction ys rule: induct_list012)
  case (2 y)
  let ?key = "jq (concat (map esc (name y)))"
  have k: "parse_string (?key @ u) = Some (name y, u)" "hd ?key = dquote" "?key \<noteq> []" for u
    using parse_escaped_name [of "name y"] 2 by (simp_all add: jq_def)
  have "blank (lf # w')" "blank []" using assms(4) by (simp_all add: blank_def lf_def)
  then show ?case using members_step_blank [OF _ assms(3) _ assms(5) _ _ k, of d "p y" "g y" "[]" "lf # w'" "CHR ''}''" u] 2 by simp
next
  case (3 y z ys)
  let ?rest = "comma_lines (map (\<lambda>y. w @ jq (concat (map esc (name y))) @ '':'' @ w2 @ p y) (z # ys)) @ w' @ CHR ''}'' # u"
  let ?key = "jq (concat (map esc (name y)))"
  have k: "parse_string (?key @ u) = Some (name y, u)" "hd ?key = dquote" "?key \<noteq> []" for u
    using parse_escaped_name [of "name y"] 3(4) by (simp_all add: jq_def)
  have skip: "parse_members d (lf # s) = parse_members d s" for s
    by (subst (1 2) parse_members.simps) (simp add: skip_ws_def lf_def)
  have "parse_members d ?rest = Some (map (\<lambda>y. (name y, g y)) (z # ys), u)" using 3 by simp
  then show ?case using members_step_blank [OF _ assms(3) _ assms(5) _ _ k, of d "p y" "g y" "[]" "[]" "CHR '',''" "lf # ?rest"] 3(4) skip [of ?rest]
    by (simp add: blank_def)
qed simp

section \<open>The pieces of the file\<close>

lemma key_string: "simple_text k \<Longrightarrow> parse_string (jq k @ u) = Some (k, u) \<and> hd (jq k) = dquote \<and> jq k \<noteq> []"
proof -
  assume k: "simple_text k"
  have "hd (jq k) = dquote" "jq k \<noteq> []" by (simp_all add: jq_def)
  then show ?thesis using jq_print [OF k] parse_print_string [of k u] by auto
qed

lemma blank_texts [simp]: "blank []" "blank '' ''" "blank [lf]" "blank (''  '' @ s) \<longleftrightarrow> blank s" "blank (lf # s) \<longleftrightarrow> blank s" "blank (CHR '' '' # s) \<longleftrightarrow> blank s"
  by (simp_all add: blank_def lf_def)

lemma member_step:
  assumes "simple_text k" "reads d s v" "blank w" "blank w3" "c = CHR '','' \<or> c = CHR ''}''"
  shows "parse_members d (w @ jq k @ CHR '':'' # CHR '' '' # s @ w3 @ c # t) =
    (if c = CHR '','' then map_option (\<lambda>(ms, q). ((k, v) # ms, q)) (parse_members d t) else Some ([(k, v)], t))"
proof -
  have k: "parse_string (jq k @ u) = Some (k, u)" "hd (jq k) = dquote" "jq k \<noteq> []" for u using key_string [OF assms(1)] by auto
  show ?thesis using members_step_blank [OF assms(2,3) _ _ assms(4,5) k, of "[]" "'' ''" t] by simp
qed

lemma to_double_u64: "n \<le> 2 ^ 53 \<Longrightarrow> to_double (of_nat n) = of_nat n"
proof (cases "n = 2 ^ 53")
  case True
  have "floor_log 2 (9007199254740992 :: rat) = 53" by (simp add: floor_log_def ndigits.simps)
  then show ?thesis using True by (simp add: to_double_def rat_pow_def round_half_even_def)
qed (use to_double_of_nat [of n] in simp)

lemma sample_reads:
  assumes "d < CJSON_NESTING_LIMIT" "unat (td_timestamp x) \<le> 2 ^ 53" "unat (td_tx x) \<le> 2 ^ 53" "unat (td_rx x) \<le> 2 ^ 53"
  shows "\<exists>p. sample_text x = ''      '' @ p \<and> reads d p (record_tree x)"
proof -
  let ?m = "jq ''timestamp'' @ '': '' @ fmt_u64 (td_timestamp x) @ '', '' @ jq ''tx'' @ '': '' @ fmt_u64 (td_tx x)
     @ '', '' @ jq ''rx'' @ '': '' @ fmt_u64 (td_rx x) @ ''}''"
  have n: "reads e (fmt_u64 y) (CNumber (of_nat (unat y)))" if "unat y \<le> 2 ^ 53" for e y
    using reads_number [OF number_text_u64 strtod10_u64, of e y] that by (simp add: to_double_u64 del: of_nat_unat)
  have k: "simple_text ''timestamp''" "simple_text ''tx''" "simple_text ''rx''" by (simp_all add: simple_text_def dquote_def bslash_def)
  have "parse_members (Suc d) (?m @ u) = Some ([(''timestamp'', CNumber (of_nat (unat (td_timestamp x)))),
      (''tx'', CNumber (of_nat (unat (td_tx x)))), (''rx'', CNumber (of_nat (unat (td_rx x))))], u)" for u
    using member_step [OF k(1) n [OF assms(2)], of "[]" "[]" "CHR '',''" "Suc d"
        "'' '' @ jq ''tx'' @ '': '' @ fmt_u64 (td_tx x) @ '', '' @ jq ''rx'' @ '': '' @ fmt_u64 (td_rx x) @ CHR ''}'' # u"]
      member_step [OF k(2) n [OF assms(3)], of "'' ''" "[]" "CHR '',''" "Suc d" "'' '' @ jq ''rx'' @ '': '' @ fmt_u64 (td_rx x) @ CHR ''}'' # u"]
      member_step [OF k(3) n [OF assms(4)], of "'' ''" "[]" "CHR ''}''" "Suc d" u]
    by simp
  moreover have "\<exists>r. skip_ws (?m @ u) = dquote # r" for u by (simp add: jq_def skip_ws_def dquote_def)
  ultimately have "reads d (CHR ''{'' # ?m) (record_tree x)" unfolding record_tree_def by (intro reads_object [OF assms(1)]) blast+
  then show ?thesis by (intro exI [of _ "CHR ''{'' # ?m"]) (simp add: sample_text_def)
qed

definition record_text :: "traffic_data \<Rightarrow> string" where "record_text x = drop 6 (sample_text x)"

lemma record_reads:
  assumes "d < CJSON_NESTING_LIMIT" "unat (td_timestamp x) \<le> 2 ^ 53" "unat (td_tx x) \<le> 2 ^ 53" "unat (td_rx x) \<le> 2 ^ 53"
  shows "reads d (record_text x) (record_tree x)"
proof -
  obtain p where "sample_text x = ''      '' @ p" "reads d p (record_tree x)" using sample_reads [OF assms] by blast
  then show ?thesis by (simp add: record_text_def)
qed

lemma sample_record: "sample_text x = ''      '' @ record_text x"
  by (simp add: record_text_def sample_text_def)

definition list_text :: "interface_stats \<Rightarrow> string" where
  "list_text s = CHR ''['' # lf # comma_lines (map sample_text (samples s)) @ ''    ]''"

definition doubles_exact :: "interface_stats \<Rightarrow> bool" where
  "doubles_exact s \<longleftrightarrow> (\<forall>d \<in> set (samples s). unat (td_timestamp d) \<le> 2 ^ 53 \<and> unat (td_tx d) \<le> 2 ^ 53 \<and> unat (td_rx d) \<le> 2 ^ 53)"

lemma list_reads:
  assumes "Suc d < CJSON_NESTING_LIMIT" "doubles_exact s"
  shows "reads d (list_text s) (CArray (map record_tree (samples s)))"
proof (cases "samples s = []")
  case True
  then show ?thesis using reads_empty(1) [of d "lf # ''    ''"] assms(1) by (simp add: list_text_def)
next
  case False
  have lines: "comma_lines (map sample_text (samples s)) = comma_lines (map (\<lambda>x. ''      '' @ record_text x) (samples s))"
    by (intro arg_cong [where f = comma_lines] map_cong refl sample_record)
  let ?b = "lf # comma_lines (map (\<lambda>x. ''      '' @ record_text x) (samples s)) @ ''    ]''"
  have skip: "parse_elements e (lf # t) = parse_elements e t" "skip_ws (lf # t) = skip_ws t" for e t
    by (subst (1 2) parse_elements.simps) (simp_all add: skip_ws_def lf_def)
  have "parse_elements (Suc d) (?b @ u) = Some (map record_tree (samples s), u)" for u
    using elements_lines [OF False, of "Suc d" record_text record_tree "''      ''" "''    ''" u] assms record_reads skip
    by (simp add: doubles_exact_def)
  moreover have "\<exists>c r. skip_ws (?b @ u) = c # r \<and> c \<noteq> CHR '']''" for u
  proof -
    obtain x xs where x: "samples s = x # xs" using False by (cases "samples s") auto
    then obtain t where t: "comma_lines (map (\<lambda>x. ''      '' @ record_text x) (samples s)) = ''      '' @ record_text x @ t"
      by (cases xs) auto
    obtain r where r: "record_text x = CHR ''{'' # r" by (simp add: record_text_def sample_text_def)
    have "skip_ws (?b @ u) = CHR ''{'' # r @ t @ ''    ]'' @ u"
      unfolding t r by (simp add: skip_ws_def lf_def)
    then show ?thesis by simp
  qed
  moreover have "d < CJSON_NESTING_LIMIT" using assms(1) by simp
  ultimately have "reads d (CHR ''['' # ?b) (CArray (map record_tree (samples s)))"
    by (intro reads_array) blast+
  then show ?thesis by (simp add: list_text_def lines)
qed

definition interfaces_text :: "interface_stats list \<Rightarrow> string" where
  "interfaces_text ss = CHR ''{'' # lf # comma_lines (map (\<lambda>s. ''    '' @ jq (concat (map esc (is_name s))) @ '':'' @ '' '' @ list_text s) ss) @ ''  }''"

lemma interface_texts:
  "all_some (map interface_text ss) = Some (map (\<lambda>s. ''    '' @ jq (concat (map esc (is_name s))) @ '':'' @ '' '' @ list_text s) ss)"
  by (induction ss) (simp_all add: interface_text_def json_escape_eq list_text_def)

lemma interfaces_read:
  assumes "Suc (Suc d) < CJSON_NESTING_LIMIT" "\<forall>s \<in> set ss. doubles_exact s \<and> nul \<notin> set (is_name s)"
  shows "reads d (interfaces_text ss) (CObject (map (\<lambda>s. (is_name s, CArray (map record_tree (samples s)))) ss))"
proof (cases "ss = []")
  case True
  then show ?thesis using reads_empty(2) [of d "lf # ''  ''"] assms(1) by (simp add: interfaces_text_def)
next
  case False
  let ?line = "\<lambda>s. ''    '' @ jq (concat (map esc (is_name s))) @ '':'' @ '' '' @ list_text s"
  let ?b = "lf # comma_lines (map ?line ss) @ ''  }''"
  have skip: "parse_members e (lf # t) = parse_members e t" "skip_ws (lf # t) = skip_ws t" for e t
    by (subst (1 2) parse_members.simps) (simp_all add: skip_ws_def lf_def)
  have "\<forall>s \<in> set ss. reads (Suc d) (list_text s) (CArray (map record_tree (samples s))) \<and> nul \<notin> set (is_name s)"
    using assms list_reads by auto
  then have "parse_members (Suc d) (?b @ u) = Some (map (\<lambda>s. (is_name s, CArray (map record_tree (samples s)))) ss, u)" for u
    using members_lines [OF False, of "Suc d" list_text "\<lambda>s. CArray (map record_tree (samples s))" is_name "''    ''" "''  ''" "'' ''" u] skip
    by simp
  moreover have "\<exists>r. skip_ws (?b @ u) = dquote # r" for u
  proof -
    obtain s ss' where x: "ss = s # ss'" using False by (cases ss) auto
    then obtain t where t: "comma_lines (map ?line ss) = ''    '' @ dquote # t"
      by (cases ss') (auto simp: jq_def)
    then show ?thesis using skip skip_blank [of "''    ''"] skip_ws_id [of dquote] by (simp add: blank_def dquote_def)
  qed
  moreover have "d < CJSON_NESTING_LIMIT" using assms(1) by simp
  ultimately have "reads d (CHR ''{'' # ?b) (CObject (map (\<lambda>s. (is_name s, CArray (map record_tree (samples s)))) ss))"
    by (intro reads_object) blast+
  then show ?thesis by (simp add: interfaces_text_def)
qed

text \<open>The settings keep one decimal.\<close>

definition one_decimal :: "rat \<Rightarrow> rat" where
  "one_decimal x = sgn x * (of_nat (round_half_even (\<bar>x\<bar> * 10)) / 10)"

lemma strtod10_one_decimal:
  "strtod10 (show_nat (n div 10) @ ''.'' @ [digit_char (n mod 10)]) = Some (to_double (of_nat n / 10), [])"
proof -
  let ?t = "show_nat (n div 10) @ ''.'' @ [digit_char (n mod 10)]"
  obtain c r where "show_nat (n div 10) = c # r" "c \<noteq> CHR ''-''" "c \<noteq> CHR ''+''" by (rule show_nat_head)
  then have h: "hd ?t \<noteq> CHR ''-''" "hd ?t \<noteq> CHR ''+''" by simp_all
  let ?r = "CHR ''.'' # [digit_char (n mod 10)]"
  have dot: "\<not> c_isdigit CHR ''.''" by (simp add: c_isdigit_def)
  have tw: "takeWhile c_isdigit ?t = show_nat (n div 10)" "dropWhile c_isdigit ?t = ?r"
    using takeWhile_show_nat [of ?r "n div 10"] dropWhile_show_nat [of ?r "n div 10"] dot by simp_all
  have v: "digits_val (show_nat (n div 10) @ [digit_char (n mod 10)]) = n"
    using digits_val_snoc [of "show_nat (n div 10)" "digit_char (n mod 10)"] by (simp add: digit_val_digit_char)
  have d: "c_isdigit (digit_char (n mod 10))" by (simp add: c_isdigit_digit_char)
  have val: "strtod_num 10 c_isdigit digits_val CHR ''e'' 10 ?t = of_nat n / 10"
    unfolding strtod_num_def tw Let_def using v d by (simp add: strtod_exp_def rat_pow_def)
  show ?thesis
    using strtod10_shape [OF h tw(2)] d show_nat_not_Nil [of "n div 10"] unfolding tw(1) val by simp
qed

lemma setting_reads: "0 < x \<Longrightarrow> reads d (fmt_1f x) (CNumber (to_double (one_decimal x)))"
proof -
  assume x: "0 < x"
  define n where "n = round_half_even (\<bar>x\<bar> * 10)"
  have f: "fmt_1f x = show_nat (n div 10) @ ''.'' @ [digit_char (n mod 10)]" using x by (simp add: fmt_1f_def n_def Let_def)
  have s: "strtod10 (fmt_1f x) = Some (to_double (one_decimal x), [])"
    using strtod10_one_decimal [of n] x unfolding f one_decimal_def n_def [symmetric] by simp
  obtain c r where "show_nat (n div 10) = c # r" "c_isdigit c" by (rule show_nat_head)
  moreover have "list_all number_char (fmt_1f x)"
    using show_nat_digits [of "n div 10"] by (auto simp: f list_all_iff number_char_def c_isdigit_digit_char)
  ultimately have "number_text (fmt_1f x)" using s by (simp add: number_text_def) (simp add: f)
  then show ?thesis using s by (rule reads_number)
qed

definition config_text :: "netstatic \<Rightarrow> string" where
  "config_text ns = ''{'' @ [lf] @ ''    '' @ jq ''data_preserve_day'' @ '': '' @ fmt_1f (ns_preserve_days ns) @ '','' @ [lf]
     @ ''    '' @ jq ''detect_interval'' @ '': '' @ fmt_1f (ns_detect_interval ns) @ '','' @ [lf]
     @ ''    '' @ jq ''save_interval'' @ '': '' @ fmt_1f (ns_save_interval ns) @ [lf] @ ''  }''"

definition settings_exact :: "netstatic \<Rightarrow> bool" where
  "settings_exact ns \<longleftrightarrow> to_double (one_decimal (ns_preserve_days ns)) = ns_preserve_days ns
     \<and> to_double (one_decimal (ns_detect_interval ns)) = ns_detect_interval ns \<and> to_double (one_decimal (ns_save_interval ns)) = ns_save_interval ns"

lemma config_reads:
  assumes "d < CJSON_NESTING_LIMIT" "settings_exact ns" "0 < ns_preserve_days ns" "0 < ns_detect_interval ns" "0 < ns_save_interval ns"
  shows "reads d (config_text ns) (CObject [(''data_preserve_day'', CNumber (ns_preserve_days ns)),
    (''detect_interval'', CNumber (ns_detect_interval ns)), (''save_interval'', CNumber (ns_save_interval ns))])"
proof -
  have n: "reads (Suc d) (fmt_1f (ns_preserve_days ns)) (CNumber (ns_preserve_days ns))"
    "reads (Suc d) (fmt_1f (ns_detect_interval ns)) (CNumber (ns_detect_interval ns))"
    "reads (Suc d) (fmt_1f (ns_save_interval ns)) (CNumber (ns_save_interval ns))"
    using assms(2-5) setting_reads by (metis settings_exact_def)+
  have k: "simple_text ''data_preserve_day''" "simple_text ''detect_interval''" "simple_text ''save_interval''"
    by (simp_all add: simple_text_def dquote_def bslash_def)
  let ?b = "tl (config_text ns)"
  let ?third = "\<lambda>u. lf # ''    '' @ jq ''save_interval'' @ '': '' @ fmt_1f (ns_save_interval ns) @ lf # ''  }'' @ u"
  let ?second = "\<lambda>u. lf # ''    '' @ jq ''detect_interval'' @ '': '' @ fmt_1f (ns_detect_interval ns) @ '','' @ ?third u"
  have b: "?b @ u = lf # ''    '' @ jq ''data_preserve_day'' @ '': '' @ fmt_1f (ns_preserve_days ns) @ '','' @ ?second u" for u
    by (simp add: config_text_def)
  have "parse_members (Suc d) (?b @ u) = Some ([(''data_preserve_day'', CNumber (ns_preserve_days ns)),
    (''detect_interval'', CNumber (ns_detect_interval ns)), (''save_interval'', CNumber (ns_save_interval ns))], u)" for u
    using member_step [OF k(1) n(1), of "lf # ''    ''" "[]" "CHR '',''" "?second u"]
      member_step [OF k(2) n(2), of "lf # ''    ''" "[]" "CHR '',''" "?third u"]
      member_step [OF k(3) n(3), of "lf # ''    ''" "lf # ''  ''" "CHR ''}''" u]
    unfolding b by (simp add: blank_def lf_def)
  moreover have "\<exists>r. skip_ws (?b @ u) = dquote # r" for u unfolding b by (simp add: jq_def skip_ws_def dquote_def lf_def)
  ultimately have "reads d (CHR ''{'' # ?b) (CObject [(''data_preserve_day'', CNumber (ns_preserve_days ns)),
    (''detect_interval'', CNumber (ns_detect_interval ns)), (''save_interval'', CNumber (ns_save_interval ns))])"
    using assms(1) by (intro reads_object) blast+
  then show ?thesis by (simp add: config_text_def)
qed

section \<open>The whole file\<close>

definition file_text :: "netstatic \<Rightarrow> string" where
  "file_text ns = CHR ''{'' # lf # ''  '' @ jq ''config'' @ '': '' @ config_text ns @ '','' @ lf # ''  '' @ jq ''interfaces'' @ '': ''
     @ interfaces_text (ns_interfaces ns) @ lf # ''}'' @ [lf]"

lemma serialize_text: "netstatic_serialize True ns = Some (file_text ns)"
  by (simp add: netstatic_serialize_def interface_texts file_text_def config_text_def interfaces_text_def)

lemma comma_lines_nul: "\<forall>y \<in> set ys. nul \<notin> set y \<Longrightarrow> nul \<notin> set (comma_lines ys)"
  by (induction ys rule: comma_lines.induct) (auto simp: nul_def lf_def)

lemma jq_nul: "nul \<notin> set s \<Longrightarrow> nul \<notin> set (jq s)"
  by (simp add: jq_def nul_def dquote_def)

lemma esc_nul: "nul \<notin> set (concat (map esc s))"
  using nul_texts(1) [of s] by (simp add: jq_def)

lemma fmt_1f_nul: "nul \<notin> set (fmt_1f x)"
proof -
  have "nul \<noteq> digit_char (n mod 10)" for n
  proof
    assume "nul = digit_char (n mod 10)"
    then have "c_isdigit nul" using c_isdigit_digit_char [of "n mod 10"] by simp
    then show False by (simp add: c_isdigit_def nul_def)
  qed
  moreover have "CHR ''.'' \<noteq> nul" "CHR ''-'' \<noteq> nul" by (simp_all add: nul_def)
  ultimately show ?thesis using nul_texts(4) by (auto simp: fmt_1f_def Let_def)
qed

lemma file_nul: "nul \<notin> set (file_text ns)"
proof -
  have k: "nul \<notin> set (jq ''config'')" "nul \<notin> set (jq ''interfaces'')" "nul \<notin> set (jq ''data_preserve_day'')"
    "nul \<notin> set (jq ''detect_interval'')" "nul \<notin> set (jq ''save_interval'')" "nul \<notin> set (jq ''timestamp'')"
    "nul \<notin> set (jq ''tx'')" "nul \<notin> set (jq ''rx'')" by (simp_all add: jq_def nul_def dquote_def)
  have lits: "lf \<noteq> nul" "CHR ''{'' \<noteq> nul" "CHR ''}'' \<noteq> nul" "CHR '' '' \<noteq> nul" "CHR '':'' \<noteq> nul" "CHR '','' \<noteq> nul" "CHR '']'' \<noteq> nul" "CHR ''['' \<noteq> nul"
    by (simp_all add: lf_def nul_def)
  have c: "nul \<notin> set (config_text ns)" using k lits fmt_1f_nul by (auto simp: config_text_def)
  have r: "nul \<notin> set (sample_text d)" for d using k lits nul_texts(3) by (auto simp: sample_text_def)
  have l: "nul \<notin> set (list_text s)" for s using comma_lines_nul [of "map sample_text (samples s)"] r lits by (auto simp: list_text_def)
  have "nul \<notin> set (comma_lines (map (\<lambda>s. ''    '' @ jq (concat (map esc (is_name s))) @ '':'' @ '' '' @ list_text s) (ns_interfaces ns)))"
    using l lits jq_nul [OF esc_nul] by (intro comma_lines_nul) auto
  then show ?thesis using c k lits by (auto simp: file_text_def interfaces_text_def)
qed

lemma file_parses:
  assumes "settings_exact ns" "0 < ns_preserve_days ns" "0 < ns_detect_interval ns" "0 < ns_save_interval ns"
    "\<forall>s \<in> set (ns_interfaces ns). doubles_exact s \<and> nul \<notin> set (is_name s)"
  shows "cJSON_Parse (file_text ns) = Some (static_tree ns)"
proof -
  let ?conf = "CObject [(''data_preserve_day'', CNumber (ns_preserve_days ns)),
    (''detect_interval'', CNumber (ns_detect_interval ns)), (''save_interval'', CNumber (ns_save_interval ns))]"
  let ?ifs = "CObject (map (\<lambda>s. (is_name s, CArray (map record_tree (samples s)))) (ns_interfaces ns))"
  have d: "1 < CJSON_NESTING_LIMIT" "Suc (Suc 1) < CJSON_NESTING_LIMIT" "0 < CJSON_NESTING_LIMIT" by (simp_all add: CJSON_NESTING_LIMIT_def)
  note conf = config_reads [OF d(1) assms(1-4)] and ifs = interfaces_read [OF d(2) assms(5)]
  have k: "simple_text ''config''" "simple_text ''interfaces''" by (simp_all add: simple_text_def dquote_def bslash_def)
  let ?b = "lf # ''  '' @ jq ''config'' @ '': '' @ config_text ns @ '','' @ lf # ''  '' @ jq ''interfaces'' @ '': ''
     @ interfaces_text (ns_interfaces ns) @ lf # ''}''"
  have "parse_members 1 (?b @ u) = Some ([(''config'', ?conf), (''interfaces'', ?ifs)], u)" for u
    using member_step [OF k(1) conf, of "lf # ''  ''" "[]" "CHR '',''" "lf # ''  '' @ jq ''interfaces'' @ '': '' @ interfaces_text (ns_interfaces ns) @ lf # ''}'' @ u"]
      member_step [OF k(2) ifs, of "lf # ''  ''" "[lf]" "CHR ''}''" u]
    by (simp add: blank_def lf_def)
  moreover have "\<exists>r. skip_ws (?b @ u) = dquote # r" for u by (simp add: jq_def skip_ws_def dquote_def lf_def)
  ultimately have "reads 0 (CHR ''{'' # ?b) (static_tree ns)"
    unfolding static_tree_def using d(3) by (intro reads_object) (simp_all only: One_nat_def)
  moreover have t: "file_text ns = (CHR ''{'' # ?b) @ [lf]" by (simp add: file_text_def)
  moreover have "\<not> number_char (hd [lf])" by (simp add: lf_def number_char_def c_isdigit_def)
  ultimately have p: "parse_value 0 (file_text ns) = Some (static_tree ns, [lf])" unfolding reads_def by metis
  have "skip_utf8_bom (file_text ns) = file_text ns" "skip_ws (file_text ns) = file_text ns"
    by (simp_all add: skip_utf8_bom_def starts_with_def skip_ws_def file_text_def)
  moreover have "takeWhile (\<lambda>c. c \<noteq> nul) (file_text ns) = file_text ns" by (rule takeWhile_id [OF file_nul])
  ultimately have "cJSON_Parse (file_text ns) = map_option fst (parse_value 0 (file_text ns))" by (simp only: cJSON_Parse_def)
  then show ?thesis using p by simp
qed



end
