(* ===== verification/Spec2Isabelle.thy ===== *)
theory Spec2Isabelle
  imports Endpoint Update DnsResolver MainLoop MonitoringProps Compress Logger Child InfoJson NetstaticJson
begin

text \<open>
  A model of the agent of \<open>luci-app-komari-agent-c\<close>: a C program that connects an OpenWrt router to a
  Komari panel over a WebSocket, reports measurements, runs commands, pings and terminal sessions for
  the panel, and updates itself.

  \<^bold>\<open>How the parts interact.\<close>  \<open>main\<close> (\<open>src/core/main.c\<close>) gathers the configuration, converts the endpoint,
  creates one WebSocket client and starts the report, heartbeat and update threads.  The client's receive
  thread reads frames, reassembles messages and decodes them into \<open>ws_message\<close> records, which
  \<open>handle_ws_message\<close> turns into terminal sessions, commands and pings.  The v2 protocol adds JSON-RPC
  events that are recorded, dispatched once and acknowledged with the next report.

  \<^bold>\<open>Theories, bottom up.\<close>

  \<^item> \<open>CPrelude\<close>: integers of C, characters and bytes, the string functions of the standard library
    (\<open>strchr\<close>, \<open>strstr\<close>, \<open>strtol\<close>, \<open>snprintf\<close>, \<open>strncpy\<close>), decimal numbers, windows of a list.
    C strings are lists of characters without their terminator; a write into an array
    is the test the code makes on its size.
  \<^item> \<open>Utils\<close> (\<open>utils/utils.c\<close>): bounded strings, JSON escaping, directories, files, command output.
    \<open>Child\<close> (also \<open>terminal/terminal.c\<close>): the descriptors and steps of a child between \<open>fork\<close> and \<open>exec\<close>, host name
    and time stamps.
  \<^item> \<open>Cjson\<close>, \<open>JsonRpc\<close> (\<open>protocol/jsonrpc.c\<close>, \<open>protocol/v1.c\<close>, \<open>protocol/v2.c\<close>): trees, envelopes, payloads;
    the parser and the printer are arguments.
  \<^item> \<open>CjsonText\<close> (\<open>vendor/cJSON.c\<close>): the parser with its limit on the nesting and the compact printer, with doubles
    as rationals rounded to 53 bits.  The operations of \<open>Cjson\<close> and their callers hold for every parser, so for
    this one; where a text has to come back (\<open>Autodiscovery\<close>, \<open>NetstaticJson\<close>, \<open>ReportJson\<close>, \<open>InfoJson\<close>) it is this one.
  \<^item> \<open>V2State\<close> (\<open>protocol/v2.c\<close>): the failure counter, the events seen and the acknowledgements pending.
  \<^item> \<open>WsCodec\<close>, \<open>WsUrl\<close>, \<open>WsSock\<close>, \<open>WsFrame\<close>, \<open>WsFragment\<close>, \<open>WsHandshake\<close>, \<open>WsEvent\<close>, \<open>WsClient\<close>
    (\<open>network/websocket.c\<close>): base64 and masking, URLs and headers, the socket loops, frames, reassembly, the
    opening handshake, messages and events, the client record and its operations.  \<open>WsClientInv\<close> and
    \<open>WsLife\<close> hold the invariants over its runs.
  \<^item> \<open>Idn\<close>, \<open>IdnProps\<close> (\<open>network/idn.c\<close>): UTF-8, punycode, host names and URLs.
  \<^item> \<open>Config\<close>, \<open>ConfigProps\<close> (\<open>config/config.c\<close>): every source of the configuration and its validation.
    \<open>Endpoint\<close> composes configuration, conversion and URL parsing.
  \<^item> \<open>ExecArgv\<close> (\<open>core/main.c\<close>): the words of a remote command, parsed in place in one buffer.
  \<^item> \<open>Terminal\<close> (\<open>terminal/terminal.c\<close>), \<open>Sessions\<close>, \<open>SessionLife\<close> (\<open>core/main.c\<close>): the child on a
    pseudo-terminal, the registry of sessions, a session from request to release.
  \<^item> \<open>Report\<close>, \<open>Upload\<close> (\<open>report/report.c\<close>): the texts of the reports and the HTTP uploads.
    \<open>ReportJson\<close> and \<open>InfoJson\<close> give these texts to the JSON parser.
  \<^item> \<open>Update\<close> (\<open>update/update.c\<close>): versions, package managers, the update loop.
  \<^item> \<open>Autodiscovery\<close> (\<open>autodiscovery/autodiscovery.c\<close>): the saved identity, the registration over TLS and the step of
    \<open>main\<close> that uses it.
  \<^item> \<open>Ping\<close> (\<open>ping/ping.c\<close>): targets, resolution, the ICMP, TCP and HTTP probes; \<open>DnsResolver\<close>
    (\<open>network/dns_resolver.c\<close>): the lookup over configured servers.
  \<^item> \<open>ProcScan\<close>: \<open>fgets\<close> loops and the conversions of \<open>sscanf\<close>.  \<open>Netstatic\<close> (\<open>monitoring/netstatic.c\<close>): the traffic
    samples, their worker and their file, which \<open>NetstaticJson\<close> takes through the JSON parser.  \<open>Monitoring\<close>, \<open>MonitoringProps\<close> (\<open>monitoring/monitoring.c\<close>): the figures of
    a report from the kernel's files, with the caches between calls.
  \<^item> \<open>HostInfo\<close> (\<open>utils/virtual.c\<close>, \<open>monitoring/gpu.c\<close>, \<open>utils/motd.c\<close>): virtualisation, graphics card, message of the day.
  \<^item> \<open>Compress\<close> (\<open>protocol/compress.c\<close>): the loops around zlib, which nothing calls yet.  \<open>Logger\<close> (\<open>utils/logger.c\<close>,
    \<open>utils/komari_errno.c\<close>): configuration, lines, error texts.
  \<^item> \<open>MainLoop\<close> (\<open>core/main.c\<close>): message handling, the report and heartbeat threads, start-up and shutdown.

  \<^bold>\<open>Conventions.\<close>  Memory and system resources appear as values: a read or write outside an allocation
  is the result \<open>None\<close> of an operation, so that memory safety is the theorem that the result is
  \<open>Some\<close>; descriptors, TLS objects, threads and locks are entries of an operation log, and
  leaks and double releases are counts over it.  What the kernel, OpenSSL, zlib, the clock and the panel do
  is an argument: scripts of socket outcomes (\<open>rx list\<close>, \<open>tx list\<close>), records of results
  (\<open>conn_env\<close>, \<open>http_env\<close>, \<open>est_env\<close>, \<open>mon_env\<close>, \<open>host_env\<close>, \<open>ad_env\<close>), functions for parsers that are not part of the program.
  A critical section is one step.  \<open>long\<close> and \<open>time_t\<close> have 64 bits; quotients and products of doubles are exact.

  \<^bold>\<open>Lemma groups.\<close>  Each theory proves the functional behaviour of its operations, errors included, then the
  invariant of its state.  The laws that several components rely on are locales with the code's functions as
  interpretations (\<open>fifo_window\<close>, \<open>dedup_window\<close> and \<open>log_window\<close> for bounded histories, \<open>codec\<close> and
  \<open>text_codec\<close> for encodings, \<open>byte_source\<close> for readers of a connection, \<open>ttl_cache\<close> for figures that are
  kept for some seconds).  Reference definitions are kept apart from
  the code: the assembler of RFC 6455 in \<open>WsFragment\<close>, the decoders of RFC 4648 and RFC 3492 in \<open>WsCodec\<close> and
  \<open>IdnProps\<close>, the tokenizer in \<open>ExecArgv\<close>, the token order in \<open>Update\<close>, the JSON
  trees in \<open>Report\<close>.  Theorems that begin with \<open>Defect\<close> prove what the code does wrong.

  \<^bold>\<open>Bounds and termination.\<close>  Loops over strings and buffers are recursive functions with a measure, so they
  are total; loops over the network end with their script.  The only fuel is that of \<open>puny_outer\<close>, one
  more than the number of code points, and \<open>IdnProps\<close> shows that it is never used up.  Loops whose end depends on
  somebody else are \<open>partial_function (option)\<close> (the wait of the ICMP probe, the loops around zlib), and a theorem
  shows that they end under what the other side promises.

  \<^bold>\<open>Not modelled.\<close>  Formatted printing and the operations of the vendored cJSON that the agent never calls, infinities
  in parsed numbers, and texts above \<open>INT_MAX\<close> bytes; what a child does after \<open>exec\<close>; the resolver,
  OpenSSL and zlib libraries; the test \<open>file_exists\<close>;
  weak memory and interleavings inside a critical section; what happens on machines whose \<open>long\<close> has 32 bits; the
  LuCI pages, the packaging and the tests, which are other languages.
\<close>

end
